(* ===== verification/Prelude.thy ===== *)
theory Prelude
  imports Main "HOL-Library.Word" "HOL-Library.AList"
begin

text \<open>
  Shared vocabulary of the development: the machine integers of the Rust sources, byte strings,
  the \<open>Result\<close> type and its \<open>?\<close> operator, the big-endian conversions \<open>to_be_bytes\<close> and
  \<open>from_be_bytes\<close>, saturating and checked arithmetic, \<open>String::from_utf8_lossy\<close>, and the two
  codec interfaces (\<open>wire_codec\<close>, \<open>stream_codec\<close>) that the wire formats of the program implement.

  A Rust \<open>String\<close> is its UTF-8 bytes; it is a \<open>string\<close> here, one \<open>char\<close> per byte.
  A \<open>usize\<close> that only counts bytes in memory is a \<open>nat\<close>; integers that travel on the wire or
  that can wrap keep their width.
\<close>

unbundle bit_operations_syntax

section \<open>Types\<close>

type_synonym u8 = "8 word"
type_synonym u16 = "16 word"
type_synonym u32 = "32 word"
type_synonym u64 = "64 word"
type_synonym bytes = "8 word list"

abbreviation Err :: "'e \<Rightarrow> 'e + 'a" where
  "Err \<equiv> Inl"

abbreviation Ok :: "'a \<Rightarrow> 'e + 'a" where
  "Ok \<equiv> Inr"

named_theorems codec_simps \<open>unfolding of the wire formats\<close>
named_theorems op_defs \<open>definitions of the operations of a component\<close>

section \<open>Results\<close>

text \<open>The \<open>?\<close> operator.\<close>

definition try_bind :: "'e + 'a \<Rightarrow> ('a \<Rightarrow> 'e + 'b) \<Rightarrow> 'e + 'b" where
  "try_bind r f = (case r of Inl e \<Rightarrow> Inl e | Inr x \<Rightarrow> f x)"

text \<open>\<open>Option::ok_or\<close>.\<close>

definition ok_or :: "'a option \<Rightarrow> 'e \<Rightarrow> 'e + 'a" where
  "ok_or v e = (case v of None \<Rightarrow> Inl e | Some x \<Rightarrow> Inr x)"

text \<open>\<open>Result::map_err\<close>.\<close>

definition map_err :: "('e \<Rightarrow> 'f) \<Rightarrow> 'e + 'a \<Rightarrow> 'f + 'a" where
  "map_err g r = (case r of Inl e \<Rightarrow> Inl (g e) | Inr x \<Rightarrow> Inr x)"

text \<open>\<open>Result::is_ok\<close> and \<open>Result::ok\<close>.\<close>

definition is_ok :: "'e + 'a \<Rightarrow> bool" where
  "is_ok r = (case r of Inl _ \<Rightarrow> False | Inr _ \<Rightarrow> True)"

definition result_ok :: "'e + 'a \<Rightarrow> 'a option" where
  "result_ok r = (case r of Inl _ \<Rightarrow> None | Inr x \<Rightarrow> Some x)"

section \<open>Big-endian integers\<close>

text \<open>\<open>be_bytes n x\<close>: the \<open>n\<close> low-order bytes of \<open>x\<close>, most significant first.\<close>

primrec be_bytes :: "nat \<Rightarrow> nat \<Rightarrow> bytes" where
  "be_bytes 0 x = []"
| "be_bytes (Suc n) x = be_bytes n (x div 256) @ [of_nat x]"

definition be_value :: "bytes \<Rightarrow> nat" where
  "be_value bs = foldl (\<lambda>a b. a * 256 + unat b) 0 bs"

definition u16_to_be :: "u16 \<Rightarrow> bytes" where
  "u16_to_be w = be_bytes 2 (unat w)"

definition u32_to_be :: "u32 \<Rightarrow> bytes" where
  "u32_to_be w = be_bytes 4 (unat w)"

definition u64_to_be :: "u64 \<Rightarrow> bytes" where
  "u64_to_be w = be_bytes 8 (unat w)"

definition u16_from_be :: "bytes \<Rightarrow> u16" where
  "u16_from_be bs = of_nat (be_value bs)"

definition u32_from_be :: "bytes \<Rightarrow> u32" where
  "u32_from_be bs = of_nat (be_value bs)"

definition u64_from_be :: "bytes \<Rightarrow> u64" where
  "u64_from_be bs = of_nat (be_value bs)"

section \<open>Slices\<close>

text \<open>\<open>slice a b xs\<close> is \<open>xs[a..b]\<close> where \<open>a \<le> b \<le> len\<close>.\<close>

definition slice :: "nat \<Rightarrow> nat \<Rightarrow> 'a list \<Rightarrow> 'a list" where
  "slice a b xs = take (b - a) (drop a xs)"

text \<open>\<open>slice::get\<close>.\<close>

definition get_at :: "'a list \<Rightarrow> nat \<Rightarrow> 'a option" where
  "get_at xs i = (if i < length xs then Some (xs ! i) else None)"

text \<open>\<open>dst[a..a+len(src)].copy_from_slice(src)\<close>.\<close>

definition write_at :: "nat \<Rightarrow> 'a list \<Rightarrow> 'a list \<Rightarrow> 'a list" where
  "write_at a src dst = take a dst @ src @ drop (a + length src) dst"

section \<open>Saturating and checked arithmetic\<close>

definition sat_sub64 :: "u64 \<Rightarrow> u64 \<Rightarrow> u64" where
  "sat_sub64 a b = (if a < b then 0 else a - b)"

definition sat_add64 :: "u64 \<Rightarrow> u64 \<Rightarrow> u64" where
  "sat_add64 a b = (if unat a + unat b < 2 ^ 64 then a + b else 0xFFFFFFFFFFFFFFFF)"

definition sat_add32 :: "u32 \<Rightarrow> u32 \<Rightarrow> u32" where
  "sat_add32 a b = (if unat a + unat b < 2 ^ 32 then a + b else 0xFFFFFFFF)"

definition checked_add64 :: "u64 \<Rightarrow> u64 \<Rightarrow> u64 option" where
  "checked_add64 a b = (if unat a + unat b < 2 ^ 64 then Some (a + b) else None)"

definition abs_diff32 :: "u32 \<Rightarrow> u32 \<Rightarrow> u32" where
  "abs_diff32 a b = (if a < b then b - a else a - b)"

section \<open>Strings as UTF-8 bytes\<close>

definition as_bytes :: "string \<Rightarrow> bytes" where
  "as_bytes s = map (\<lambda>c. of_nat (of_char c)) s"

definition of_bytes :: "bytes \<Rightarrow> string" where
  "of_bytes bs = map (\<lambda>b. char_of (unat b)) bs"

definition is_ascii_digit :: "u8 \<Rightarrow> bool" where
  "is_ascii_digit b \<longleftrightarrow> 48 \<le> b \<and> b \<le> 57"

definition is_ascii_alphabetic :: "u8 \<Rightarrow> bool" where
  "is_ascii_alphabetic b \<longleftrightarrow> (65 \<le> b \<and> b \<le> 90) \<or> (97 \<le> b \<and> b \<le> 122)"

definition is_ascii_alphanumeric :: "u8 \<Rightarrow> bool" where
  "is_ascii_alphanumeric b \<longleftrightarrow> is_ascii_digit b \<or> is_ascii_alphabetic b"

definition strip_prefix :: "'a list \<Rightarrow> 'a list \<Rightarrow> 'a list option" where
  "strip_prefix p s = (if take (length p) s = p then Some (drop (length p) s) else None)"

text \<open>
  \<open>String::from_utf8_lossy\<close>: valid sequences are kept, each maximal invalid prefix of a sequence
  becomes U+FFFD (bytes EF BF BD). \<open>utf8_len b rest\<close> is \<open>Inr n\<close> when \<open>b\<close> and the first
  \<open>n - 1\<close> bytes of \<open>rest\<close> are one character, and \<open>Inl n\<close> when \<open>b\<close> and the \<open>n - 1\<close> bytes
  after it are one broken sequence.
\<close>

definition is_cont :: "u8 \<Rightarrow> bool" where
  "is_cont b \<longleftrightarrow> 128 \<le> b \<and> b < 192"

definition byte_or_zero :: "bytes \<Rightarrow> nat \<Rightarrow> u8" where
  "byte_or_zero bs i = (if i < length bs then bs ! i else 0)"

definition second_ok3 :: "u8 \<Rightarrow> u8 \<Rightarrow> bool" where
  "second_ok3 b c \<longleftrightarrow>
     (b = 0xE0 \<and> 0xA0 \<le> c \<and> c \<le> 0xBF) \<or>
     (0xE1 \<le> b \<and> b \<le> 0xEC \<and> is_cont c) \<or>
     (b = 0xED \<and> 0x80 \<le> c \<and> c \<le> 0x9F) \<or>
     (0xEE \<le> b \<and> b \<le> 0xEF \<and> is_cont c)"

definition second_ok4 :: "u8 \<Rightarrow> u8 \<Rightarrow> bool" where
  "second_ok4 b c \<longleftrightarrow>
     (b = 0xF0 \<and> 0x90 \<le> c \<and> c \<le> 0xBF) \<or>
     (0xF1 \<le> b \<and> b \<le> 0xF3 \<and> is_cont c) \<or>
     (b = 0xF4 \<and> 0x80 \<le> c \<and> c \<le> 0x8F)"

definition utf8_len :: "u8 \<Rightarrow> bytes \<Rightarrow> nat + nat" where
  "utf8_len b rest =
     (let c1 = byte_or_zero rest 0; c2 = byte_or_zero rest 1; c3 = byte_or_zero rest 2 in
      if b < 128 then Inr 1
      else if 0xC2 \<le> b \<and> b \<le> 0xDF then (if is_cont c1 then Inr 2 else Inl 1)
      else if 0xE0 \<le> b \<and> b \<le> 0xEF then
        (if \<not> second_ok3 b c1 then Inl 1 else if is_cont c2 then Inr 3 else Inl 2)
      else if 0xF0 \<le> b \<and> b \<le> 0xF4 then
        (if \<not> second_ok4 b c1 then Inl 1 else if \<not> is_cont c2 then Inl 2
         else if is_cont c3 then Inr 4 else Inl 3)
      else Inl 1)"

function utf8_lossy :: "bytes \<Rightarrow> bytes" where
  "utf8_lossy [] = []"
| "utf8_lossy (b # rest) =
     (case utf8_len b rest of
        Inr n \<Rightarrow> take n (b # rest) @ utf8_lossy (drop (n - 1) rest)
      | Inl n \<Rightarrow> [0xEF, 0xBF, 0xBD] @ utf8_lossy (drop (n - 1) rest))"
  by pat_completeness auto
termination
  by (relation "measure length") auto

definition from_utf8_lossy :: "bytes \<Rightarrow> string" where
  "from_utf8_lossy bs = of_bytes (utf8_lossy bs)"

text \<open>What \<open>String\<close> guarantees of its bytes: they are one character after another.\<close>

function utf8_valid :: "bytes \<Rightarrow> bool" where
  "utf8_valid [] = True"
| "utf8_valid (b # rest) =
     (case utf8_len b rest of
        Inr n \<Rightarrow> n - 1 \<le> length rest \<and> utf8_valid (drop (n - 1) rest)
      | Inl n \<Rightarrow> False)"
  by pat_completeness auto
termination
  by (relation "measure length") auto

text \<open>Decimal rendering of an unsigned integer (\<open>{}\<close> of a format string).\<close>

fun show_nat :: "nat \<Rightarrow> string" where
  "show_nat n =
     (if n < 10 then [char_of (48 + n)] else show_nat (n div 10) @ [char_of (48 + n mod 10)])"

declare show_nat.simps [simp del]

section \<open>Generic lemmas\<close>

lemma try_bind_simps [simp]:
  "try_bind (Inl e) f = Inl e"
  "try_bind (Inr x) f = f x"
  by (simp_all add: try_bind_def)

lemma try_bind_eq_Inr:
  "try_bind r f = Inr y \<longleftrightarrow> (\<exists>x. r = Inr x \<and> f x = Inr y)"
  by (cases r) auto

lemma ok_or_simps [simp]:
  "ok_or None e = Inl e"
  "ok_or (Some x) e = Inr x"
  by (simp_all add: ok_or_def)

lemma map_err_simps [simp]:
  "map_err g (Inl e) = Inl (g e)"
  "map_err g (Inr x) = Inr x"
  by (simp_all add: map_err_def)

lemma is_ok_simps [simp]:
  "\<not> is_ok (Inl e)" "is_ok (Inr x)"
  by (simp_all add: is_ok_def)

lemma result_ok_simps [simp]:
  "result_ok (Inl e) = None" "result_ok (Inr x) = Some x"
  by (simp_all add: result_ok_def)

lemma unat_bound: "unat (w :: 'a::len word) < 2 ^ LENGTH('a)"
  by (rule unsigned_less)

subsection \<open>Big-endian round trips\<close>

lemma length_be_bytes [simp]: "length (be_bytes n x) = n"
  by (induction n arbitrary: x) simp_all

lemma be_value_Nil [simp]: "be_value [] = 0"
  by (simp add: be_value_def)

lemma be_value_snoc [simp]: "be_value (bs @ [b]) = be_value bs * 256 + unat b"
  by (simp add: be_value_def)

lemma be_value_bytes: "be_value (be_bytes n x) = x mod 256 ^ n"
proof (induction n arbitrary: x)
  case 0
  then show ?case by simp
next
  case (Suc n)
  have "be_value (be_bytes (Suc n) x) = (x div 256 mod 256 ^ n) * 256 + x mod 256"
    by (simp add: Suc.IH unat_of_nat)
  also have "\<dots> = x mod (256 * 256 ^ n)"
    by (simp add: mod_mult2_eq)
  finally show ?case by simp
qed

lemma be_value_less: "be_value bs < 256 ^ length bs"
proof (induction bs rule: rev_induct)
  case Nil
  then show ?case by simp
next
  case (snoc b bs)
  have b: "unat b < 256"
    using unat_bound [of b] by simp
  have "be_value bs * 256 + unat b < Suc (be_value bs) * 256"
    using b by simp
  also have "\<dots> \<le> 256 ^ length bs * 256"
    using snoc.IH by (intro mult_right_mono) auto
  finally show ?case
    by (simp add: mult.commute)
qed

lemma be_bytes_value [simp]: "be_bytes (length bs) (be_value bs) = bs"
proof (induction bs rule: rev_induct)
  case Nil
  then show ?case by simp
next
  case (snoc b bs)
  have b: "unat b < 256"
    using unat_bound [of b] by simp
  have "(be_value bs * 256 + unat b) div 256 = be_value bs"
    using b by simp
  moreover have "(of_nat (be_value bs * 256 + unat b) :: u8) = b"
    using b by (simp del: of_nat_add of_nat_mult add: word_unat_eq_iff unat_of_nat)
  ultimately show ?case
    using snoc.IH by simp
qed

lemma be_bytes_inject:
  "be_bytes n x = be_bytes n y \<Longrightarrow> x < 256 ^ n \<Longrightarrow> y < 256 ^ n \<Longrightarrow> x = y"
  by (metis be_value_bytes mod_less)

lemma length_uN_to_be [simp]:
  "length (u16_to_be a) = 2"
  "length (u32_to_be b) = 4"
  "length (u64_to_be c) = 8"
  by (simp_all add: u16_to_be_def u32_to_be_def u64_to_be_def)

lemma u16_from_to_be [simp]: "u16_from_be (u16_to_be w) = w"
  using unat_bound [of w] by (simp add: u16_from_be_def u16_to_be_def be_value_bytes)

lemma u32_from_to_be [simp]: "u32_from_be (u32_to_be w) = w"
  using unat_bound [of w] by (simp add: u32_from_be_def u32_to_be_def be_value_bytes)

lemma u64_from_to_be [simp]: "u64_from_be (u64_to_be w) = w"
  using unat_bound [of w] by (simp add: u64_from_be_def u64_to_be_def be_value_bytes)

lemma u16_to_from_be: "length bs = 2 \<Longrightarrow> u16_to_be (u16_from_be bs) = bs"
  using be_value_less [of bs] be_bytes_value [of bs]
  by (simp add: u16_to_be_def u16_from_be_def unat_of_nat)

lemma u32_to_from_be: "length bs = 4 \<Longrightarrow> u32_to_be (u32_from_be bs) = bs"
  using be_value_less [of bs] be_bytes_value [of bs]
  by (simp add: u32_to_be_def u32_from_be_def unat_of_nat)

lemma u64_to_from_be: "length bs = 8 \<Longrightarrow> u64_to_be (u64_from_be bs) = bs"
  using be_value_less [of bs] be_bytes_value [of bs]
  by (simp add: u64_to_be_def u64_from_be_def unat_of_nat)

lemma two_list: "length bs = 2 \<Longrightarrow> \<exists>a b. bs = [a, b]"
  by (auto simp: numeral_eq_Suc length_Suc_conv)

lemma unat_u16_of_nat: "n < 65536 \<Longrightarrow> unat (of_nat n :: u16) = n"
  by (simp add: unat_of_nat)

lemma unat_u16_from_be_less: "unat (u16_from_be bs) < 65536"
  using unat_bound [of "u16_from_be bs"] by simp

lemma unat_low_half: "unat (x AND 0xffff :: u32) = unat x mod 65536"
proof -
  have "x AND 0xffff = take_bit 16 x"
    by (simp add: take_bit_eq_mask mask_numeral)
  then show ?thesis
    by (simp add: take_bit_eq_mod unat_mod_distrib)
qed

lemma unat_high_half: "unat (drop_bit 16 x :: u32) = unat x div 65536"
  by (simp add: drop_bit_eq_div unat_div_distrib)

lemma unat_halves_sum: "unat ((x AND 0xffff) + drop_bit 16 x :: u32) = unat x mod 65536 + unat x div 65536"
proof -
  have "unat x < 4294967296"
    using unat_bound [of x] by simp
  then have "unat x div 65536 < 65536"
    by (simp add: div_less_iff_less_mult)
  then show ?thesis
    using mod_less_divisor [of 65536 "unat x"]
    by (simp add: unat_word_ariths unat_low_half unat_high_half)
qed

subsection \<open>Slices\<close>

lemma length_slice [simp]: "b \<le> length xs \<Longrightarrow> length (slice a b xs) = b - a"
  by (simp add: slice_def)

lemma slice_append_left: "b \<le> length xs \<Longrightarrow> slice a b (xs @ ys) = slice a b xs"
  by (cases "a \<le> length xs") (simp_all add: slice_def)

lemma slice_append_right:
  "length xs \<le> a \<Longrightarrow> slice a b (xs @ ys) = slice (a - length xs) (b - length xs) ys"
  by (simp add: slice_def)

lemma slice_self [simp]: "slice 0 (length xs) xs = xs"
  by (simp add: slice_def)

lemma length_write_at [simp]:
  "a + length src \<le> length dst \<Longrightarrow> length (write_at a src dst) = length dst"
  by (simp add: write_at_def)

lemma write_at_nth:
  assumes "a + length src \<le> length dst" and "i < length dst"
  shows "write_at a src dst ! i =
    (if a \<le> i \<and> i < a + length src then src ! (i - a) else dst ! i)"
  using assms by (auto simp: write_at_def nth_append min_def)

lemma get_at_Some [simp]: "get_at xs i = Some x \<longleftrightarrow> i < length xs \<and> xs ! i = x"
  by (auto simp: get_at_def)

lemma get_at_None [simp]: "get_at xs i = None \<longleftrightarrow> length xs \<le> i"
  by (auto simp: get_at_def)

subsection \<open>Saturating arithmetic\<close>

lemma unat_sat_sub64: "unat (sat_sub64 a b) = unat a - unat b"
  by (simp add: sat_sub64_def word_less_nat_alt unat_sub_if')

lemma unat_sat_add64: "unat (sat_add64 a b) = min (unat a + unat b) (2 ^ 64 - 1)"
  using unat_bound [of a] unat_bound [of b]
  by (auto simp: sat_add64_def unat_word_ariths min_def)

lemma unat_sat_add32: "unat (sat_add32 a b) = min (unat a + unat b) (2 ^ 32 - 1)"
  using unat_bound [of a] unat_bound [of b]
  by (auto simp: sat_add32_def unat_word_ariths min_def)

lemma checked_add64_Some:
  "checked_add64 a b = Some c \<longleftrightarrow> unat a + unat b < 2 ^ 64 \<and> c = a + b"
  by (auto simp: checked_add64_def)

lemma unat_add64: "unat a + unat b < 2 ^ 64 \<Longrightarrow> unat (a + b :: u64) = unat a + unat b"
  by (simp add: unat_word_ariths)

lemma unat_abs_diff32: "unat (abs_diff32 a b) = (if a < b then unat b - unat a else unat a - unat b)"
  by (auto simp: abs_diff32_def word_less_nat_alt unat_sub_if')

subsection \<open>Strings\<close>

lemma of_bytes_as_bytes [simp]: "of_bytes (as_bytes s) = s"
  by (induction s) (simp_all add: of_bytes_def as_bytes_def unat_of_nat)

lemma as_bytes_of_bytes [simp]: "as_bytes (of_bytes bs) = bs"
proof -
  have "(of_nat (of_char (char_of (unat b) :: char)) :: u8) = b" for b :: u8
    using unat_bound [of b] by simp
  then show ?thesis
    by (simp add: of_bytes_def as_bytes_def comp_def)
qed

lemma length_as_bytes [simp]: "length (as_bytes s) = length s"
  by (simp add: as_bytes_def)

lemma utf8_lossy_valid: "utf8_valid bs \<Longrightarrow> utf8_lossy bs = bs"
proof (induction bs rule: utf8_lossy.induct)
  case 1
  then show ?case by simp
next
  case (2 b rest)
  then obtain n where n: "utf8_len b rest = Inr n" and le: "n - 1 \<le> length rest"
    and v: "utf8_valid (drop (n - 1) rest)"
    by (auto split: sum.splits)
  have pos: "0 < n"
    using n by (auto simp: utf8_len_def Let_def split: if_splits)
  have "utf8_lossy (drop (n - 1) rest) = drop (n - 1) rest"
    using 2(2) n v by blast
  then have "utf8_lossy (b # rest) = take n (b # rest) @ drop n (b # rest)"
    using n pos by (cases n) simp_all
  then show ?case by simp
qed

lemma from_utf8_lossy_as_bytes: "utf8_valid (as_bytes s) \<Longrightarrow> from_utf8_lossy (as_bytes s) = s"
  by (simp add: from_utf8_lossy_def utf8_lossy_valid)

lemma utf8_valid_ascii: "\<forall>b\<in>set bs. b < 128 \<Longrightarrow> utf8_valid bs"
  by (induction bs) (simp_all add: utf8_len_def Let_def)

lemma strip_prefix_append [simp]: "strip_prefix p (p @ s) = Some s"
  by (simp add: strip_prefix_def)

lemma strip_prefix_Some: "strip_prefix p s = Some r \<longleftrightarrow> s = p @ r"
  by (auto simp: strip_prefix_def) (metis append_take_drop_id)

section \<open>Codec interfaces\<close>

text \<open>
  A wire format in one piece: what is encoded decodes to the same value. Its client lemmas are
  that the encoding is injective and that decoding determines the encoder's input.
\<close>

locale wire_codec =
  fixes encode :: "'a \<Rightarrow> bytes"
    and decode :: "bytes \<Rightarrow> 'e + 'a"
    and wf :: "'a \<Rightarrow> bool"
  assumes decode_encode: "wf x \<Longrightarrow> decode (encode x) = Inr x"
begin

lemma encode_inject: "wf x \<Longrightarrow> wf y \<Longrightarrow> encode x = encode y \<Longrightarrow> x = y"
  by (metis decode_encode sum.inject(2))

lemma decode_determines: "wf x \<Longrightarrow> decode (encode x) = Inr y \<Longrightarrow> y = x"
  by (simp add: decode_encode)

end

text \<open>
  A self-delimiting format read off the front of a byte stream: what follows an encoded value
  never changes how it is read. Its clients read a whole sequence back.
\<close>

primrec read_many :: "(bytes \<Rightarrow> 'e + ('a \<times> bytes)) \<Rightarrow> nat \<Rightarrow> bytes \<Rightarrow> 'e + ('a list \<times> bytes)" where
  "read_many rd 0 bs = Inr ([], bs)"
| "read_many rd (Suc n) bs =
     try_bind (rd bs) (\<lambda>(x, rest). try_bind (read_many rd n rest) (\<lambda>(xs, rest'). Inr (x # xs, rest')))"

locale stream_codec =
  fixes encode :: "'a \<Rightarrow> bytes"
    and read :: "bytes \<Rightarrow> 'e + ('a \<times> bytes)"
    and wf :: "'a \<Rightarrow> bool"
  assumes read_encode: "wf x \<Longrightarrow> read (encode x @ rest) = Inr (x, rest)"
begin

lemma read_many_encode:
  "list_all wf xs \<Longrightarrow> read_many read (length xs) (concat (map encode xs) @ rest) = Inr (xs, rest)"
  by (induction xs) (simp_all add: read_encode)

lemma stream_inject:
  assumes "list_all wf xs" and "list_all wf ys" and "length xs = length ys"
    and "concat (map encode xs) = concat (map encode ys)"
  shows "xs = ys"
  using read_many_encode [OF assms(1), of "[]"] read_many_encode [OF assms(2), of "[]"] assms(3,4)
  by simp

end

text \<open>A stream codec is a one-piece codec once the reader insists on an empty rest.\<close>

definition read_exactly :: "'e \<Rightarrow> (bytes \<Rightarrow> 'e + ('a \<times> bytes)) \<Rightarrow> bytes \<Rightarrow> 'e + 'a" where
  "read_exactly e rd bs = try_bind (rd bs) (\<lambda>(x, rest). if rest = [] then Inr x else Inl e)"

sublocale stream_codec \<subseteq> whole: wire_codec encode "read_exactly e read" wf for e
  by unfold_locales (use read_encode [where rest = "[]"] in \<open>simp add: read_exactly_def\<close>)

text \<open>A fact about bytes, by evaluating it on each.\<close>

lemma all_bytes:
  assumes "list_all (\<lambda>n. P (of_nat n)) [0..<256]"
  shows "P (b :: u8)"
proof -
  have "unat b \<in> set [0..<256]"
    using unat_bound [of b] by simp
  then have "P (of_nat (unat b))"
    using assms unfolding list_all_iff by blast
  then show ?thesis by simp
qed

end
