(* ===== verification/Frame.thy ===== *)
theory Frame
  imports Prelude
begin

text \<open>
  The plaintext frame of the tunnel, \<open>crates/leshiy-core/src/frame.rs\<close>, and the error type of the
  core crate, \<open>crates/leshiy-core/src/error.rs\<close>: the frame record, its types and critical bit, the
  encoder and the decoder, and the size limits every transport relies on.
\<close>

section \<open>Definitions\<close>

text \<open>An I/O error carries its description only.\<close>

datatype core_error =
    EIo string
  | ENoise string
  | EProtocol string
  | EFrameTooLarge nat
  | EVersion string
  | EClosed
  | ETimeout

definition HEADER_LEN :: nat where
  "HEADER_LEN = 5"

definition MAX_PLAINTEXT :: nat where
  "MAX_PLAINTEXT = 65535 - 16"

definition MAX_FRAME_PAYLOAD :: nat where
  "MAX_FRAME_PAYLOAD = 16384 - HEADER_LEN - 1"

definition CRITICAL_BIT :: u8 where
  "CRITICAL_BIT = 0x80"

datatype frame_type =
    FtHello | FtBye | FtOpen | FtData | FtClose | FtDatagram | FtPing | FtPong | FtWindowUpdate

fun ft_code :: "frame_type \<Rightarrow> u8" where
  "ft_code FtHello = 0"
| "ft_code FtBye = 1"
| "ft_code FtOpen = 2"
| "ft_code FtData = 3"
| "ft_code FtClose = 4"
| "ft_code FtDatagram = 5"
| "ft_code FtPing = 6"
| "ft_code FtPong = 7"
| "ft_code FtWindowUpdate = 8"

definition is_critical :: "u8 \<Rightarrow> bool" where
  "is_critical ftype \<longleftrightarrow> ftype AND CRITICAL_BIT \<noteq> 0"

definition base_type :: "u8 \<Rightarrow> u8" where
  "base_type ftype = ftype AND NOT CRITICAL_BIT"

record frame =
  stream_id :: u32
  ftype :: u8
  payload :: bytes

definition encode_frame :: "frame \<Rightarrow> bytes" where
  "encode_frame f = u32_to_be (stream_id f) @ [ftype f] @ payload f"

definition decode_from_bytes :: "bytes \<Rightarrow> core_error + frame" where
  "decode_from_bytes buf =
     (if length buf < HEADER_LEN then Err (EProtocol ''frame shorter than header'')
      else Ok \<lparr>stream_id = u32_from_be [buf ! 0, buf ! 1, buf ! 2, buf ! 3],
               ftype = buf ! 4,
               payload = drop HEADER_LEN buf\<rparr>)"

definition decode_frame :: "bytes \<Rightarrow> core_error + frame" where
  "decode_frame buf = decode_from_bytes buf"

section \<open>Lemmas\<close>

lemmas frame_consts = HEADER_LEN_def MAX_PLAINTEXT_def MAX_FRAME_PAYLOAD_def CRITICAL_BIT_def

lemma length_encode_frame [simp]: "length (encode_frame f) = HEADER_LEN + length (payload f)"
  by (simp add: encode_frame_def HEADER_LEN_def)

lemma four_bytes:
  assumes "length bs = 4"
  shows "[(bs @ xs) ! 0, (bs @ xs) ! 1, (bs @ xs) ! 2, (bs @ xs) ! 3] = bs"
  using assms by (auto simp: numeral_eq_Suc length_Suc_conv)

lemma decode_encode_frame: "decode_from_bytes (encode_frame f) = Ok f"
proof -
  let ?h = "u32_to_be (stream_id f)"
  have four: "[(?h @ xs) ! 0, (?h @ xs) ! 1, (?h @ xs) ! 2, (?h @ xs) ! 3] = ?h" for xs
    by (rule four_bytes) simp
  have type: "(?h @ ftype f # payload f) ! 4 = ftype f"
    by (simp add: nth_append)
  have tail: "drop HEADER_LEN (?h @ ftype f # payload f) = payload f"
    by (simp add: HEADER_LEN_def)
  show ?thesis
    unfolding decode_from_bytes_def
    by (simp add: encode_frame_def four [of "ftype f # payload f", simplified] type tail HEADER_LEN_def)
qed

lemma encode_decode_frame:
  assumes "decode_from_bytes buf = Ok f"
  shows "encode_frame f = buf"
proof -
  from assms have len: "5 \<le> length buf"
    by (auto simp: decode_from_bytes_def HEADER_LEN_def split: if_splits)
  then obtain a b c d t rest where buf: "buf = a # b # c # d # t # rest"
    by (auto simp: numeral_eq_Suc Suc_le_length_iff)
  with assms have "f = \<lparr>stream_id = u32_from_be [a, b, c, d], ftype = t, payload = rest\<rparr>"
    by (auto simp: decode_from_bytes_def HEADER_LEN_def)
  with buf show ?thesis
    by (simp add: encode_frame_def u32_to_from_be)
qed

lemma decode_frame_error:
  "decode_frame buf = Err e \<longleftrightarrow>
     length buf < HEADER_LEN \<and> e = EProtocol ''frame shorter than header''"
  by (auto simp: decode_frame_def decode_from_bytes_def)

text \<open>The frame format is a wire codec with no side condition.\<close>

interpretation frame_codec: wire_codec encode_frame decode_frame "\<lambda>_. True"
  by unfold_locales (simp add: decode_frame_def decode_encode_frame)

lemma encode_frame_inject: "encode_frame f = encode_frame g \<Longrightarrow> f = g"
  by (rule frame_codec.encode_inject) simp_all

lemma base_type_critical [simp]: "base_type (t OR CRITICAL_BIT) = base_type t"
  by (simp add: base_type_def CRITICAL_BIT_def bit_eq_iff bit_simps) auto

lemma is_critical_set [simp]: "is_critical (t OR CRITICAL_BIT)"
proof -
  have "(t OR CRITICAL_BIT) AND CRITICAL_BIT = CRITICAL_BIT"
    by (simp add: bit_eq_iff bit_simps)
  then show ?thesis
    by (simp add: is_critical_def CRITICAL_BIT_def)
qed

lemma base_type_code [simp]: "base_type (ft_code t) = ft_code t"
  by (cases t) (simp_all add: base_type_def CRITICAL_BIT_def)

lemma ft_code_inject [simp]: "ft_code s = ft_code t \<longleftrightarrow> s = t"
  by (cases s; cases t) simp_all

lemma not_critical_code [simp]: "\<not> is_critical (ft_code t)"
  by (cases t) (simp_all add: is_critical_def CRITICAL_BIT_def)

section \<open>Properties\<close>

text \<open>
  C17. A frame survives the wire, and the wire form is canonical: decoding an encoded frame gives the
  frame back, and every buffer the decoder accepts is the encoding of what it returned. The decoder
  refuses exactly the buffers shorter than the five-byte header.
\<close>

theorem frame_roundtrip:
  "decode_frame (encode_frame f) = Ok f \<and>
   (decode_frame buf = Ok g \<longleftrightarrow> buf = encode_frame g) \<and>
   (\<not> is_ok (decode_frame buf) \<longleftrightarrow> length buf < HEADER_LEN)"
proof (intro conjI)
  show "decode_frame (encode_frame f) = Ok f"
    by (simp add: decode_frame_def decode_encode_frame)
  show "decode_frame buf = Ok g \<longleftrightarrow> buf = encode_frame g"
    using encode_decode_frame [of buf g] by (auto simp: decode_frame_def decode_encode_frame)
  show "\<not> is_ok (decode_frame buf) \<longleftrightarrow> length buf < HEADER_LEN"
    by (simp add: decode_frame_def decode_from_bytes_def)
qed

end
