(* ===== verification/Version.thy ===== *)
theory Version
  imports Prelude Frame
begin

text \<open>
  Version and capability negotiation, \<open>crates/leshiy-core/src/version.rs\<close>: the HELLO record and its
  wire format, the clamp on idle tolerances, and \<open>negotiate\<close>.
\<close>

section \<open>Definitions\<close>

definition CAP_DATAGRAM :: u64 where
  "CAP_DATAGRAM = push_bit 0 1"

definition CAP_KEEPALIVE :: u64 where
  "CAP_KEEPALIVE = push_bit 1 1"

definition CAP_FLOWCONTROL :: u64 where
  "CAP_FLOWCONTROL = push_bit 2 1"

definition CAP_ICMP :: u64 where
  "CAP_ICMP = push_bit 3 1"

definition CAP_IDLE_TOLERANCE :: u64 where
  "CAP_IDLE_TOLERANCE = push_bit 4 1"

definition DEFAULT_IDLE_TOLERANCE :: u32 where
  "DEFAULT_IDLE_TOLERANCE = 45"

definition MAX_IDLE_TOLERANCE :: u32 where
  "MAX_IDLE_TOLERANCE = 900"

definition MIN_IDLE_TOLERANCE :: u32 where
  "MIN_IDLE_TOLERANCE = 15"

definition clamp_idle_tolerance :: "u32 \<Rightarrow> u32" where
  "clamp_idle_tolerance requested =
     (if requested < MIN_IDLE_TOLERANCE then MIN_IDLE_TOLERANCE
      else if MAX_IDLE_TOLERANCE < requested then MAX_IDLE_TOLERANCE
      else requested)"

record hello =
  h_version :: u16
  min_supported :: u16
  h_capabilities :: u64
  idle_tolerance :: u32

definition hello_new :: "u16 \<Rightarrow> u16 \<Rightarrow> u64 \<Rightarrow> hello" where
  "hello_new ver mins caps =
     \<lparr>h_version = ver, min_supported = mins, h_capabilities = caps,
      idle_tolerance = DEFAULT_IDLE_TOLERANCE\<rparr>"

record negotiated =
  n_version :: u16
  n_capabilities :: u64
  local_idle_tolerance :: u32
  peer_idle_tolerance :: u32

definition encode_hello :: "hello \<Rightarrow> bytes" where
  "encode_hello h =
     u16_to_be (h_version h) @ u16_to_be (min_supported h) @ u64_to_be (h_capabilities h) @
     u32_to_be (idle_tolerance h)"

definition decode_hello :: "bytes \<Rightarrow> core_error + hello" where
  "decode_hello b =
     (if length b < 12 then Err (EVersion ''short HELLO'')
      else Ok \<lparr>h_version = u16_from_be [b ! 0, b ! 1],
               min_supported = u16_from_be [b ! 2, b ! 3],
               h_capabilities = u64_from_be (slice 4 12 b),
               idle_tolerance =
                 (if 16 \<le> length b then u32_from_be (slice 12 16 b) else DEFAULT_IDLE_TOLERANCE)\<rparr>)"

definition no_common_version :: "hello \<Rightarrow> hello \<Rightarrow> string" where
  "no_common_version local peer =
     ''no common version (local '' @ show_nat (unat (min_supported local)) @ ''..='' @
     show_nat (unat (h_version local)) @ '', peer '' @ show_nat (unat (min_supported peer)) @
     ''..='' @ show_nat (unat (h_version peer)) @ '')''"

definition negotiate :: "hello \<Rightarrow> hello \<Rightarrow> core_error + negotiated" where
  "negotiate local peer =
     (let version = min (h_version local) (h_version peer) in
      if version < min_supported local \<or> version < min_supported peer then
        Err (EVersion (no_common_version local peer))
      else
        let capabilities = h_capabilities local AND h_capabilities peer;
            honoured = (capabilities AND CAP_IDLE_TOLERANCE \<noteq> 0)
        in Ok \<lparr>n_version = version,
               n_capabilities = capabilities,
               local_idle_tolerance =
                 (if honoured then clamp_idle_tolerance (idle_tolerance peer)
                  else DEFAULT_IDLE_TOLERANCE),
               peer_idle_tolerance =
                 (if honoured then clamp_idle_tolerance (idle_tolerance local)
                  else DEFAULT_IDLE_TOLERANCE)\<rparr>)"

text \<open>The same agreement seen from the other end.\<close>

definition mirror :: "negotiated \<Rightarrow> negotiated" where
  "mirror n = n\<lparr>local_idle_tolerance := peer_idle_tolerance n,
                peer_idle_tolerance := local_idle_tolerance n\<rparr>"

section \<open>Lemmas\<close>

lemmas cap_defs =
  CAP_DATAGRAM_def CAP_KEEPALIVE_def CAP_FLOWCONTROL_def CAP_ICMP_def CAP_IDLE_TOLERANCE_def

lemmas tolerance_consts =
  DEFAULT_IDLE_TOLERANCE_def MAX_IDLE_TOLERANCE_def MIN_IDLE_TOLERANCE_def

lemma clamp_bounds:
  "MIN_IDLE_TOLERANCE \<le> clamp_idle_tolerance r \<and> clamp_idle_tolerance r \<le> MAX_IDLE_TOLERANCE"
  by (auto simp: clamp_idle_tolerance_def tolerance_consts not_less)

lemma clamp_id:
  "MIN_IDLE_TOLERANCE \<le> r \<Longrightarrow> r \<le> MAX_IDLE_TOLERANCE \<Longrightarrow> clamp_idle_tolerance r = r"
  by (auto simp: clamp_idle_tolerance_def)

lemma clamp_default: "clamp_idle_tolerance DEFAULT_IDLE_TOLERANCE = DEFAULT_IDLE_TOLERANCE"
  by (rule clamp_id) (simp_all add: tolerance_consts)

lemma length_encode_hello [simp]: "length (encode_hello h) = 16"
  by (simp add: encode_hello_def)

lemma decode_hello_parts:
  assumes "length v = 2" and "length m = 2" and "length c = 8"
  shows "decode_hello (v @ m @ c) =
           Ok \<lparr>h_version = u16_from_be v, min_supported = u16_from_be m,
               h_capabilities = u64_from_be c, idle_tolerance = DEFAULT_IDLE_TOLERANCE\<rparr>"
    and "length t = 4 \<Longrightarrow> decode_hello (v @ m @ c @ t @ rest) =
           Ok \<lparr>h_version = u16_from_be v, min_supported = u16_from_be m,
               h_capabilities = u64_from_be c, idle_tolerance = u32_from_be t\<rparr>"
proof -
  obtain v0 v1 m0 m1 where "v = [v0, v1]" "m = [m0, m1]"
    using assms two_list by blast
  then show
    "decode_hello (v @ m @ c) =
       Ok \<lparr>h_version = u16_from_be v, min_supported = u16_from_be m,
           h_capabilities = u64_from_be c, idle_tolerance = DEFAULT_IDLE_TOLERANCE\<rparr>"
    "length t = 4 \<Longrightarrow> decode_hello (v @ m @ c @ t @ rest) =
       Ok \<lparr>h_version = u16_from_be v, min_supported = u16_from_be m,
           h_capabilities = u64_from_be c, idle_tolerance = u32_from_be t\<rparr>"
    using assms(3) by (simp_all add: decode_hello_def slice_def numeral_eq_Suc)
qed

lemma decode_encode_hello: "decode_hello (encode_hello h @ rest) = Ok h"
  by (simp add: encode_hello_def decode_hello_parts(2))

interpretation hello_codec: wire_codec encode_hello decode_hello "\<lambda>_. True"
  by unfold_locales (use decode_encode_hello [where rest = "[]"] in simp)

lemma negotiate_Ok_iff:
  "is_ok (negotiate l p) \<longleftrightarrow>
     max (min_supported l) (min_supported p) \<le> min (h_version l) (h_version p)"
  by (auto simp: negotiate_def Let_def not_less min_def split: if_splits)

section \<open>Properties\<close>

text \<open>
  The HELLO format is compatible in both directions: the sixteen bytes a peer writes decode to
  what it wrote whatever a newer peer appends after them, and the twelve-byte HELLO of an older peer
  decodes to the same version fields with the default tolerance.
\<close>

theorem hello_roundtrip_compatible:
  "decode_hello (encode_hello h @ newer) = Ok h \<and>
   decode_hello (take 12 (encode_hello h)) = Ok (h\<lparr>idle_tolerance := DEFAULT_IDLE_TOLERANCE\<rparr>) \<and>
   (\<not> is_ok (decode_hello b) \<longleftrightarrow> length b < 12)"
proof (intro conjI)
  show "decode_hello (encode_hello h @ newer) = Ok h"
    by (rule decode_encode_hello)
  have "take 12 (encode_hello h) =
      u16_to_be (h_version h) @ u16_to_be (min_supported h) @ u64_to_be (h_capabilities h)"
    by (simp add: encode_hello_def)
  then show "decode_hello (take 12 (encode_hello h)) =
      Ok (h\<lparr>idle_tolerance := DEFAULT_IDLE_TOLERANCE\<rparr>)"
    by (simp add: decode_hello_parts(1))
  show "\<not> is_ok (decode_hello b) \<longleftrightarrow> length b < 12"
    by (simp add: decode_hello_def)
qed

text \<open>
  Both peers reach the same agreement without a round trip: one side's negotiation succeeds
  exactly when the version ranges overlap, it succeeds on both sides or on none, and the two results
  differ only in which tolerance is called local and which is called the peer's.
\<close>

theorem negotiate_agreement:
  "(is_ok (negotiate l p) \<longleftrightarrow>
      max (min_supported l) (min_supported p) \<le> min (h_version l) (h_version p)) \<and>
   result_ok (negotiate p l) = map_option mirror (result_ok (negotiate l p))"
proof
  show "is_ok (negotiate l p) \<longleftrightarrow>
      max (min_supported l) (min_supported p) \<le> min (h_version l) (h_version p)"
    by (rule negotiate_Ok_iff)
  show "result_ok (negotiate p l) = map_option mirror (result_ok (negotiate l p))"
    by (auto simp: negotiate_def mirror_def Let_def min.commute and.commute)
qed

text \<open>
  What a negotiation grants is bounded and gated: both tolerances lie between the floor and the
  ceiling, a capability is on only if both peers advertised it, and unless both advertised
  \<open>CAP_IDLE_TOLERANCE\<close> both tolerances are the default whatever was requested.
\<close>

theorem negotiate_grants:
  assumes "negotiate l p = Ok n"
  shows "local_idle_tolerance n \<in> {MIN_IDLE_TOLERANCE..MAX_IDLE_TOLERANCE} \<and>
         peer_idle_tolerance n \<in> {MIN_IDLE_TOLERANCE..MAX_IDLE_TOLERANCE} \<and>
         (\<forall>i. bit (n_capabilities n) i \<longleftrightarrow> bit (h_capabilities l) i \<and> bit (h_capabilities p) i) \<and>
         (n_capabilities n AND CAP_IDLE_TOLERANCE = 0 \<longrightarrow>
            local_idle_tolerance n = DEFAULT_IDLE_TOLERANCE \<and>
            peer_idle_tolerance n = DEFAULT_IDLE_TOLERANCE)"
proof -
  have default: "DEFAULT_IDLE_TOLERANCE \<in> {MIN_IDLE_TOLERANCE..MAX_IDLE_TOLERANCE}"
    by (simp add: tolerance_consts)
  with assms clamp_bounds show ?thesis
    by (auto simp: negotiate_def Let_def bit_simps split: if_splits)
qed

theorem negotiate_grants_witness:
  "negotiate (hello_new 1 1 0x1f) \<lparr>h_version = 1, min_supported = 1, h_capabilities = 0x13,
       idle_tolerance = 4000000\<rparr> =
     Ok \<lparr>n_version = 1, n_capabilities = 0x13, local_idle_tolerance = 900,
         peer_idle_tolerance = 45\<rparr> \<and>
   (900 :: u32) \<in> {MIN_IDLE_TOLERANCE..MAX_IDLE_TOLERANCE}"
proof -
  have n: "negotiate (hello_new 1 1 0x1f) \<lparr>h_version = 1, min_supported = 1, h_capabilities = 0x13,
       idle_tolerance = 4000000\<rparr> =
     Ok \<lparr>n_version = 1, n_capabilities = 0x13, local_idle_tolerance = 900,
         peer_idle_tolerance = 45\<rparr>"
    by (simp add: negotiate_def hello_new_def clamp_idle_tolerance_def tolerance_consts
        CAP_IDLE_TOLERANCE_def Let_def)
  show ?thesis
    using n negotiate_grants [OF n] by simp
qed

end
