(* ===== verification/Icmp.thy ===== *)
theory Icmp
  imports Prelude
begin

text \<open>
  The ICMP echo codec, \<open>crates/leshiy-core/src/icmp.rs\<close>: recognising echo messages, restoring an
  identifier, and the internet checksum for ICMPv4 and, over its pseudo-header, ICMPv6.
  A function that edits a buffer in place returns its result and the buffer after it. The
  accumulator keeps its 32 bits, so the bound under which it does not wrap is a hypothesis of the
  properties, not of the definitions.
\<close>

section \<open>Definitions\<close>

definition V4_ECHO_REQUEST :: u8 where "V4_ECHO_REQUEST = 8"

definition V4_ECHO_REPLY :: u8 where "V4_ECHO_REPLY = 0"

definition V6_ECHO_REQUEST :: u8 where "V6_ECHO_REQUEST = 128"

definition V6_ECHO_REPLY :: u8 where "V6_ECHO_REPLY = 129"

definition IPPROTO_ICMPV6 :: u8 where "IPPROTO_ICMPV6 = 58"

definition ICMP_HEADER_LEN :: nat where "ICMP_HEADER_LEN = 8"

definition OFF_TYPE :: nat where "OFF_TYPE = 0"

definition OFF_CODE :: nat where "OFF_CODE = 1"

definition OFF_CHECKSUM :: nat where "OFF_CHECKSUM = 2"

definition OFF_ID :: nat where "OFF_ID = 4"

definition OFF_SEQ :: nat where "OFF_SEQ = 6"

record echo =
  echo_id :: u16
  echo_seq :: u16

definition parse_echo_request :: "bytes \<Rightarrow> bool \<Rightarrow> echo option" where
  "parse_echo_request msg v6 =
     (let want = (if v6 then V6_ECHO_REQUEST else V4_ECHO_REQUEST) in
      if length msg < ICMP_HEADER_LEN \<or> msg ! OFF_TYPE \<noteq> want \<or> msg ! OFF_CODE \<noteq> 0 then None
      else Some \<lparr>echo_id = u16_from_be [msg ! OFF_ID, msg ! (OFF_ID + 1)],
                 echo_seq = u16_from_be [msg ! OFF_SEQ, msg ! (OFF_SEQ + 1)]\<rparr>)"

definition is_echo_reply :: "bytes \<Rightarrow> bool \<Rightarrow> bool" where
  "is_echo_reply msg v6 =
     (let want = (if v6 then V6_ECHO_REPLY else V4_ECHO_REPLY) in
      ICMP_HEADER_LEN \<le> length msg \<and> msg ! OFF_TYPE = want)"

definition set_id :: "bytes \<Rightarrow> u16 \<Rightarrow> bool \<times> bytes" where
  "set_id msg id' =
     (if length msg < ICMP_HEADER_LEN then (False, msg)
      else (True, write_at OFF_CHECKSUM [0, 0] (write_at OFF_ID (u16_to_be id') msg)))"

text \<open>The loop over the two-byte chunks and the trailing odd byte, on the 32-bit accumulator.\<close>

fun sum_words :: "u32 \<Rightarrow> bytes \<Rightarrow> u32" where
  "sum_words acc (a # b # rest) = sum_words (acc + of_nat (unat (u16_from_be [a, b]))) rest"
| "sum_words acc [a] = acc + push_bit 8 (ucast a)"
| "sum_words acc [] = acc"

function fold_loop :: "u32 \<Rightarrow> u32" where
  "fold_loop acc =
     (if drop_bit 16 acc \<noteq> 0 then fold_loop ((acc AND 0xffff) + drop_bit 16 acc) else acc)"
  by pat_completeness auto
termination
proof (relation "measure unat", goal_cases)
  case 1
  then show ?case by simp
next
  case (2 acc)
  have "unat (drop_bit 16 acc) \<noteq> 0"
    using 2 by (simp add: unat_0_iff)
  then have "0 < unat acc div 65536"
    by (simp add: unat_high_half)
  then have "unat acc mod 65536 + unat acc div 65536 < unat acc"
    using div_mult_mod_eq [of "unat acc" 65536] by linarith
  then show ?case
    by (simp add: unat_halves_sum)
qed

declare fold_loop.simps [simp del]

definition fold_checksum :: "u32 \<Rightarrow> u16" where
  "fold_checksum acc = NOT (ucast (fold_loop acc))"

definition checksum :: "bytes \<Rightarrow> u16" where
  "checksum data = fold_checksum (sum_words 0 data)"

definition set_v4_checksum :: "bytes \<Rightarrow> bool \<times> bytes" where
  "set_v4_checksum msg =
     (if length msg < ICMP_HEADER_LEN then (False, msg)
      else let msg0 = write_at OFF_CHECKSUM [0, 0] msg;
               ck = checksum msg0
           in (True, write_at OFF_CHECKSUM (u16_to_be ck) msg0))"

text \<open>The message loop of \<open>v6_checksum\<close>: chunk number \<open>i\<close> is skipped when it is the checksum field.\<close>

fun sum_words_skip :: "nat \<Rightarrow> u32 \<Rightarrow> bytes \<Rightarrow> u32" where
  "sum_words_skip i acc (a # b # rest) =
     sum_words_skip (Suc i)
       (if i * 2 = OFF_CHECKSUM then acc else acc + of_nat (unat (u16_from_be [a, b]))) rest"
| "sum_words_skip i acc [a] = acc + push_bit 8 (ucast a)"
| "sum_words_skip i acc [] = acc"

definition pseudo_header_sum :: "bytes \<Rightarrow> bytes \<Rightarrow> nat \<Rightarrow> u32" where
  "pseudo_header_sum src dst len =
     (let l = (of_nat len :: u32);
          acc = sum_words (sum_words 0 src) dst
      in acc + drop_bit 16 l + (l AND 0xffff) + ucast IPPROTO_ICMPV6)"

definition v6_checksum :: "bytes \<Rightarrow> bytes \<Rightarrow> bytes \<Rightarrow> u16" where
  "v6_checksum msg src dst =
     fold_checksum (sum_words_skip 0 (pseudo_header_sum src dst (length msg)) msg)"

definition set_v6_checksum :: "bytes \<Rightarrow> bytes \<Rightarrow> bytes \<Rightarrow> bool \<times> bytes" where
  "set_v6_checksum msg src dst =
     (if length msg < ICMP_HEADER_LEN then (False, msg)
      else let msg0 = write_at OFF_CHECKSUM [0, 0] msg;
               ck = v6_checksum msg0 src dst
           in (True, write_at OFF_CHECKSUM (u16_to_be ck) msg0))"

section \<open>Lemmas\<close>

lemmas icmp_offsets =
  OFF_TYPE_def OFF_CODE_def OFF_CHECKSUM_def OFF_ID_def OFF_SEQ_def ICMP_HEADER_LEN_def

subsection \<open>One's complement arithmetic on naturals\<close>

text \<open>The same sums and folds on naturals, where nothing wraps.\<close>

fun word_sum :: "bytes \<Rightarrow> nat" where
  "word_sum (a # b # rest) = unat a * 256 + unat b + word_sum rest"
| "word_sum [a] = unat a * 256"
| "word_sum [] = 0"

lemma unat_u16_pair: "unat (u16_from_be [a, b]) = unat a * 256 + unat b"
  using be_value_less [of "[a, b]"]
  by (simp del: of_nat_add of_nat_mult add: u16_from_be_def be_value_def unat_of_nat)

lemma unat_odd_byte: "unat (push_bit 8 (ucast (a :: u8)) :: u32) = unat a * 256"
proof -
  have "unat a * 256 < 4294967296"
    using unat_bound [of a] by simp
  then show ?thesis
    by (simp add: push_bit_eq_mult unat_word_ariths unsigned_ucast_eq take_bit_nat_eq_self)
qed

lemma word_sum_le: "word_sum bs \<le> 65535 * ((length bs + 1) div 2)"
proof (induction bs rule: word_sum.induct)
  case (1 a b rest)
  have "unat a < 256" "unat b < 256"
    using unat_bound [of a] unat_bound [of b] by simp_all
  with 1 show ?case by simp
next
  case (2 a)
  have "unat a < 256"
    using unat_bound [of a] by simp
  then show ?case by simp
qed simp

lemma unat_sum_words:
  "unat acc + word_sum bs < 2 ^ 32 \<Longrightarrow> unat (sum_words acc bs) = unat acc + word_sum bs"
proof (induction acc bs rule: sum_words.induct)
  case (1 acc a b rest)
  let ?w = "of_nat (unat (u16_from_be [a, b])) :: u32"
  have w: "unat ?w = unat a * 256 + unat b"
    using unat_bound [of "u16_from_be [a, b]"]
    by (simp del: of_nat_add of_nat_mult add: unat_of_nat unat_u16_pair)
  have "unat (acc + ?w) = unat acc + unat ?w"
    using 1(2) w by (simp add: unat_word_ariths)
  with 1 w show ?case by simp
next
  case (2 acc a)
  then show ?case
    by (simp add: unat_word_ariths unat_odd_byte)
qed simp

lemma mod_65535_fold: "(n mod 65536 + n div 65536) mod 65535 = n mod (65535 :: nat)"
proof -
  have "n = n div 65536 * 65535 + (n mod 65536 + n div 65536)"
    using div_mult_mod_eq [of n 65536] by linarith
  then show ?thesis
    by (metis mod_mult_self3)
qed

lemma fold_loop_spec:
  "unat (fold_loop acc) < 65536 \<and>
   unat (fold_loop acc) mod 65535 = unat acc mod 65535 \<and>
   (unat (fold_loop acc) = 0 \<longleftrightarrow> unat acc = 0)"
proof (induction acc rule: fold_loop.induct)
  case (1 acc)
  let ?next = "(acc AND 0xffff) + drop_bit 16 acc"
  show ?case
  proof (cases "drop_bit 16 acc \<noteq> 0")
    case True
    have "unat ?next = 0 \<longleftrightarrow> unat acc = 0"
      by (metis True add_is_0 unat_halves_sum unat_high_half unat_eq_zero div_0)
    with 1 True show ?thesis
      by (simp add: fold_loop.simps [of acc] unat_halves_sum mod_65535_fold)
  next
    case False
    then have "unat acc div 65536 = 0"
      by (metis unat_high_half unat_eq_zero)
    then have "unat acc < 65536"
      by (simp add: div_eq_0_iff)
    with False show ?thesis
      by (simp add: fold_loop.simps [of acc])
  qed
qed

lemma unat_not16: "unat (NOT w :: u16) = 65535 - unat w"
proof -
  have "NOT w = 0xffff - w"
    by (simp add: not_eq_complement)
  then show ?thesis
    using unat_bound [of w] by (simp add: unat_sub_if')
qed

lemma unat_fold_checksum: "unat (fold_checksum acc) = 65535 - unat (fold_loop acc)"
  using fold_loop_spec [of acc]
  by (simp add: fold_checksum_def unat_not16 unsigned_ucast_eq take_bit_nat_eq_self)

text \<open>Adding its own checksum to a sum makes it fold to zero: the receiver's check.\<close>

lemma fold_checksum_completes:
  assumes "unat acc' = unat acc + unat (fold_checksum acc)"
  shows "fold_checksum acc' = 0"
proof -
  let ?s = "unat (fold_loop acc)" and ?t = "unat (fold_loop acc')"
  have s: "?s < 65536" "?s mod 65535 = unat acc mod 65535" "?s = 0 \<longleftrightarrow> unat acc = 0"
    using fold_loop_spec [of acc] by auto
  have t: "?t < 65536" "?t mod 65535 = unat acc' mod 65535" "?t = 0 \<longleftrightarrow> unat acc' = 0"
    using fold_loop_spec [of acc'] by auto
  have sum_eq: "unat acc' + ?s = unat acc + 65535"
    using assms s(1) by (simp add: unat_fold_checksum)
  have "(unat acc' + ?s) mod 65535 = ?s mod 65535"
    using sum_eq s(2) by simp
  then have "65535 dvd unat acc'"
    using mod_eq_dvd_iff_nat [of ?s "unat acc' + ?s" 65535] by simp
  moreover have "unat acc' \<noteq> 0"
    using sum_eq s(1,3) by auto
  ultimately have "65535 dvd ?t" "?t \<noteq> 0"
    using t(2,3) by (simp_all add: dvd_eq_mod_eq_0)
  then obtain k where "?t = 65535 * k" "k \<noteq> 0"
    by (metis dvdE mult_0_right)
  then have "?t = 65535"
    using t(1) by (cases "k = 1") auto
  then have "unat (fold_checksum acc') = 0"
    by (simp add: unat_fold_checksum)
  then show ?thesis
    by (simp add: unat_0_iff)
qed

subsection \<open>Writing the checksum field\<close>

lemma header_cases:
  assumes "ICMP_HEADER_LEN \<le> length msg"
  obtains a b c d e f g h rest where "msg = a # b # c # d # e # f # g # h # rest"
  using assms by (auto simp: ICMP_HEADER_LEN_def numeral_eq_Suc Suc_le_length_iff)

lemma u16_to_be_cases:
  obtains x y where "u16_to_be w = [x, y]" and "unat w = unat x * 256 + unat y"
proof -
  obtain x y where xy: "u16_to_be w = [x, y]"
    using two_list [OF length_uN_to_be(1) [of w]] by blast
  then have "w = u16_from_be [x, y]"
    by (metis u16_from_to_be)
  with xy that show thesis
    using unat_u16_pair by blast
qed

lemma word_sum_write_checksum:
  assumes "ICMP_HEADER_LEN \<le> length msg"
  shows "word_sum (write_at OFF_CHECKSUM (u16_to_be ck) msg) =
         word_sum (write_at OFF_CHECKSUM [0, 0] msg) + unat ck"
proof -
  obtain a b c d e f g h rest where "msg = a # b # c # d # e # f # g # h # rest"
    using assms by (rule header_cases)
  moreover obtain x y where "u16_to_be ck = [x, y]" "unat ck = unat x * 256 + unat y"
    by (rule u16_to_be_cases)
  ultimately show ?thesis
    by (simp add: write_at_def OFF_CHECKSUM_def)
qed

lemma write_checksum_twice:
  assumes "ICMP_HEADER_LEN \<le> length msg"
  shows "write_at OFF_CHECKSUM (u16_to_be ck) (write_at OFF_CHECKSUM [0, 0] msg) =
         write_at OFF_CHECKSUM (u16_to_be ck) msg"
  using assms by (rule header_cases) (simp add: write_at_def OFF_CHECKSUM_def)

lemma length_write_checksum [simp]:
  assumes "ICMP_HEADER_LEN \<le> length msg" and "length src = 2"
  shows "length (write_at OFF_CHECKSUM src msg) = length msg"
  using assms by (simp add: icmp_offsets)

lemma sum_words_skip_late: "2 \<le> i \<Longrightarrow> sum_words_skip i acc bs = sum_words acc bs"
  by (induction acc bs arbitrary: i rule: sum_words.induct) (simp_all add: OFF_CHECKSUM_def)

lemma sum_words_skip_zeroed:
  assumes "ICMP_HEADER_LEN \<le> length msg"
  shows "sum_words_skip 0 acc msg = sum_words acc (write_at OFF_CHECKSUM [0, 0] msg)"
proof -
  obtain a b c d e f g h rest where "msg = a # b # c # d # e # f # g # h # rest"
    using assms by (rule header_cases)
  then show ?thesis
    by (simp add: write_at_def OFF_CHECKSUM_def sum_words_skip_late numeral_2_eq_2 u16_from_be_def be_value_def)
qed

lemma sum_words_completes:
  assumes "ICMP_HEADER_LEN \<le> length msg"
    and "ck = fold_checksum (sum_words acc (write_at OFF_CHECKSUM [0, 0] msg))"
    and "unat acc + 65535 * ((length msg + 1) div 2) < 2 ^ 32"
  shows "fold_checksum (sum_words acc (write_at OFF_CHECKSUM (u16_to_be ck) msg)) = 0"
proof (rule fold_checksum_completes [of _ "sum_words acc (write_at OFF_CHECKSUM [0, 0] msg)"])
  have bound: "unat acc + word_sum (write_at OFF_CHECKSUM src msg) < 2 ^ 32" if "length src = 2" for src
    using word_sum_le [of "write_at OFF_CHECKSUM src msg"] assms(1,3) that by simp
  have "unat (sum_words acc (write_at OFF_CHECKSUM (u16_to_be ck) msg)) =
      unat acc + word_sum (write_at OFF_CHECKSUM [0, 0] msg) + unat ck"
    using bound [of "u16_to_be ck"] by (simp add: unat_sum_words word_sum_write_checksum assms(1))
  also have "\<dots> = unat (sum_words acc (write_at OFF_CHECKSUM [0, 0] msg)) + unat ck"
    using bound [of "[0, 0]"] by (simp add: unat_sum_words)
  finally show "unat (sum_words acc (write_at OFF_CHECKSUM (u16_to_be ck) msg)) =
      unat (sum_words acc (write_at OFF_CHECKSUM [0, 0] msg)) +
      unat (fold_checksum (sum_words acc (write_at OFF_CHECKSUM [0, 0] msg)))"
    using assms(2) by simp
qed

section \<open>Properties\<close>

text \<open>
  A completed ICMPv4 message passes the receiver's check: for every message of at least a header
  (and at most 128 KiB, so that the 32-bit accumulator cannot wrap), \<open>set_v4_checksum\<close> succeeds, changes
  nothing but the two checksum bytes, and the checksum of the result is zero. A shorter message is
  refused untouched.
\<close>

theorem v4_checksum_verifies:
  assumes "length msg \<le> 131072"
  shows "(ICMP_HEADER_LEN \<le> length msg \<longrightarrow>
            (\<exists>msg'. set_v4_checksum msg = (True, msg') \<and> checksum msg' = 0 \<and>
                    length msg' = length msg \<and>
                    (\<forall>i < length msg. i \<noteq> 2 \<and> i \<noteq> 3 \<longrightarrow> msg' ! i = msg ! i))) \<and>
         (length msg < ICMP_HEADER_LEN \<longrightarrow> set_v4_checksum msg = (False, msg))"
proof (intro conjI impI)
  assume len: "ICMP_HEADER_LEN \<le> length msg"
  define ck where "ck = checksum (write_at OFF_CHECKSUM [0, 0] msg)"
  have "set_v4_checksum msg = (True, write_at OFF_CHECKSUM (u16_to_be ck) msg)"
    using len by (simp add: set_v4_checksum_def Let_def ck_def write_checksum_twice)
  moreover have "checksum (write_at OFF_CHECKSUM (u16_to_be ck) msg) = 0"
    unfolding checksum_def
    by (rule sum_words_completes [OF len]) (use assms in \<open>simp_all add: ck_def checksum_def\<close>)
  moreover have "\<forall>i < length msg. i \<noteq> 2 \<and> i \<noteq> 3 \<longrightarrow>
      write_at OFF_CHECKSUM (u16_to_be ck) msg ! i = msg ! i"
    using len by (auto simp: write_at_nth icmp_offsets)
  ultimately show "\<exists>msg'. set_v4_checksum msg = (True, msg') \<and> checksum msg' = 0 \<and>
      length msg' = length msg \<and> (\<forall>i < length msg. i \<noteq> 2 \<and> i \<noteq> 3 \<longrightarrow> msg' ! i = msg ! i)"
    using len by auto
qed (simp add: set_v4_checksum_def)

theorem v4_checksum_verifies_witness:
  "\<exists>msg'. set_v4_checksum [8, 0, 0, 0, 0x12, 0x34, 0, 42, 104] = (True, msg') \<and> checksum msg' = 0"
  using v4_checksum_verifies [of "[8, 0, 0, 0, 0x12, 0x34, 0, 42, 104]"]
  by (auto simp: ICMP_HEADER_LEN_def)

text \<open>
  A completed ICMPv6 message passes the receiver's check over its pseudo-header: for addresses of
  sixteen bytes and a message between a header and 65535 bytes, the sum of pseudo-header and completed
  message folds to zero, and recomputing the checksum of the completed message gives the carried one.
\<close>

theorem v6_checksum_verifies:
  assumes "length src = 16" and "length dst = 16"
    and "ICMP_HEADER_LEN \<le> length msg" and "length msg \<le> 65535"
  shows "\<exists>msg'. set_v6_checksum msg src dst = (True, msg') \<and> length msg' = length msg \<and>
           fold_checksum (sum_words (pseudo_header_sum src dst (length msg')) msg') = 0 \<and>
           u16_to_be (v6_checksum msg' src dst) = slice 2 4 msg'"
proof -
  let ?acc = "pseudo_header_sum src dst (length msg)"
  define ck where "ck = v6_checksum (write_at OFF_CHECKSUM [0, 0] msg) src dst"
  define msg' where "msg' = write_at OFF_CHECKSUM (u16_to_be ck) msg"
  obtain a b c d e f g h rest where m: "msg = a # b # c # d # e # f # g # h # rest"
    using assms(3) by (rule header_cases)
  have zz: "write_at OFF_CHECKSUM [0, 0] (write_at OFF_CHECKSUM src' msg) = write_at OFF_CHECKSUM [0, 0] msg"
    if "length src' = 2" for src'
    using that two_list [OF that] m by (auto simp: write_at_def OFF_CHECKSUM_def)
  have ck: "ck = fold_checksum (sum_words ?acc (write_at OFF_CHECKSUM [0, 0] msg))"
    using assms(3) by (simp add: ck_def v6_checksum_def sum_words_skip_zeroed zz)
  have pair: "unat (sum_words (sum_words 0 src) dst) \<le> 65535 * 16"
    using word_sum_le [of src] word_sum_le [of dst] assms(1,2) by (simp add: unat_sum_words)
  have "unat (of_nat (length msg) :: u32) = length msg"
    using assms(4) by (simp add: unat_of_nat)
  then have "unat ?acc \<le> 65535 * 16 + 65535 + 58"
    using pair assms(4)
    by (simp add: pseudo_header_sum_def Let_def unat_word_ariths unat_low_half unat_high_half
        IPPROTO_ICMPV6_def div_eq_0_iff)
  then have "fold_checksum (sum_words ?acc msg') = 0"
    unfolding msg'_def using assms(4) by (intro sum_words_completes [OF assms(3) ck]) simp
  moreover have "set_v6_checksum msg src dst = (True, msg')"
    using assms(3) by (simp add: set_v6_checksum_def Let_def ck_def msg'_def write_checksum_twice)
  moreover have "v6_checksum msg' src dst = ck"
    using assms(3) ck by (simp add: v6_checksum_def msg'_def sum_words_skip_zeroed zz)
  moreover have "slice 2 4 msg' = u16_to_be ck"
    using m by (simp add: msg'_def slice_def write_at_def OFF_CHECKSUM_def)
  ultimately show ?thesis
    using assms(3) by (simp add: msg'_def)
qed

theorem v6_checksum_verifies_witness:
  "\<exists>msg'. set_v6_checksum [129, 0, 0, 0, 0x12, 0x34, 0, 1, 1, 2] (replicate 16 1) (replicate 16 2) =
     (True, msg') \<and> u16_to_be (v6_checksum msg' (replicate 16 1) (replicate 16 2)) = slice 2 4 msg'"
  using v6_checksum_verifies
    [where src = "replicate 16 1" and dst = "replicate 16 2" and
      msg = "[129, 0, 0, 0, 0x12, 0x34, 0, 1, 1, 2]"]
  by (auto simp: ICMP_HEADER_LEN_def)

text \<open>
  The server's rewrite of an echo reply: \<open>set_id\<close> puts the wanted identifier where an echo header
  has it, clears the checksum, keeps type, code, sequence number and data, and so a rewritten echo
  request still parses, with exactly the identifier changed. Parsing accepts nothing but echo requests
  of the family asked for.
\<close>

theorem set_id_restores_echo:
  assumes "parse_echo_request msg v6 = Some e"
  shows "\<exists>msg'. set_id msg i = (True, msg') \<and> parse_echo_request msg' v6 = Some (e\<lparr>echo_id := i\<rparr>) \<and>
           slice 2 4 msg' = [0, 0] \<and> take 2 msg' = take 2 msg \<and> drop 6 msg' = drop 6 msg \<and>
           parse_echo_request msg (\<not> v6) = None"
proof -
  have len: "ICMP_HEADER_LEN \<le> length msg"
    using assms by (auto simp: parse_echo_request_def Let_def split: if_splits)
  obtain a b c d e' f g h rest where m: "msg = a # b # c # d # e' # f # g # h # rest"
    using len by (rule header_cases)
  obtain x y where xy: "u16_to_be i = [x, y]"
    using two_list [OF length_uN_to_be(1)] by blast
  have "u16_from_be [x, y] = i"
    using xy by (metis u16_from_to_be)
  then show ?thesis
    using assms xy unfolding m
    by (auto simp: set_id_def parse_echo_request_def write_at_def slice_def icmp_offsets Let_def
        V6_ECHO_REQUEST_def V4_ECHO_REQUEST_def split: if_splits)
qed

theorem set_id_restores_echo_witness:
  "\<exists>msg'. set_id [8, 0, 0xf7, 0xd4, 0x12, 0x34, 0, 42] 0xbeef = (True, msg') \<and>
     parse_echo_request msg' False = Some \<lparr>echo_id = 0xbeef, echo_seq = 42\<rparr>"
proof -
  have p: "parse_echo_request [8, 0, 0xf7, 0xd4, 0x12, 0x34, 0, 42] False =
      Some \<lparr>echo_id = 0x1234, echo_seq = 42\<rparr>"
    by (simp add: parse_echo_request_def icmp_offsets V4_ECHO_REQUEST_def u16_from_be_def be_value_def)
  show ?thesis
    using set_id_restores_echo [OF p, where i = "0xbeef"] by auto
qed

end
