(* ===== verification/Mux.thy ===== *)
theory Mux
  imports Prelude Frame Version
begin

text \<open>
  The stream multiplexer, \<open>crates/leshiy-core/src/mux.rs\<close>.

  The tasks of a mux (reader, writer, keepalive, watchdog) and the tasks that use its streams share the
  registry of streams, the command queue, the queue of incoming streams, and per stream a data queue, a
  byte counter and a credit semaphore. All of it is one \<open>mux\<close> record. The per-stream part
  (\<open>chan\<close>) is what \<open>Stream\<close> and \<open>StreamSink\<close> share through \<open>Arc\<close>, stored under a
  handle; the registry maps stream ids to handles, so replacing a registry entry leaves the old handle
  behind exactly as the code leaves the old \<open>Arc\<close> behind.

  A step is the synchronous section of one task between two awaits. A task that waits for queue space is
  in a program counter that says so (\<open>reader_pc\<close>, \<open>writer_pc\<close>, \<open>send_pc\<close>), and an event that
  cannot happen in a state is \<open>None\<close>. Durations are in nanoseconds, wall-clock stamps in milliseconds.
\<close>

section \<open>Definitions\<close>

subsection \<open>Constants and data\<close>

definition MAX_CONCURRENT_PEER_STREAMS :: nat where
  "MAX_CONCURRENT_PEER_STREAMS = 1024"

definition INIT_WINDOW :: nat where
  "INIT_WINDOW = 256 * 1024"

definition WINDOW_THRESHOLD :: nat where
  "WINDOW_THRESHOLD = INIT_WINDOW div 2"

definition MAX_CREDIT :: nat where
  "MAX_CREDIT = INIT_WINDOW"

definition MAX_BUFFERED :: nat where
  "MAX_BUFFERED = 4 * 1024 * 1024"

text \<open>Capacities of the three channels: stream data, commands, incoming streams.\<close>

definition DATA_CAPACITY :: nat where
  "DATA_CAPACITY = 1024"

definition CMD_CAPACITY :: nat where
  "CMD_CAPACITY = 256"

definition INCOMING_CAPACITY :: nat where
  "INCOMING_CAPACITY = 32"

definition from_secs :: "nat \<Rightarrow> nat" where
  "from_secs n = n * 1000000000"

definition from_millis :: "nat \<Rightarrow> nat" where
  "from_millis n = n * 1000000"

record keepalive_config =
  ka_interval :: nat
  ka_idle_timeout :: nat

definition keepalive_default :: keepalive_config where
  "keepalive_default = \<lparr>ka_interval = from_secs 15, ka_idle_timeout = from_secs 45\<rparr>"

record rtt_state =
  last_ping :: "nat option"
  rtt_micros :: u64

definition rtt_default :: rtt_state where
  "rtt_default = \<lparr>last_ping = None, rtt_micros = 0\<rparr>"

definition rtt_handle_micros :: "rtt_state \<Rightarrow> u64 option" where
  "rtt_handle_micros r = (if 0 < rtt_micros r then Some (rtt_micros r) else None)"

definition note_ping_sent :: "nat \<Rightarrow> rtt_state \<Rightarrow> rtt_state" where
  "note_ping_sent now r = r\<lparr>last_ping := Some now\<rparr>"

definition note_pong_recv :: "nat \<Rightarrow> rtt_state \<Rightarrow> rtt_state" where
  "note_pong_recv now r =
     (case last_ping r of
        None \<Rightarrow> r
      | Some t \<Rightarrow> r\<lparr>last_ping := None,
                     rtt_micros := of_nat (min (max ((now - t) div 1000) 1) (2 ^ 64 - 1))\<rparr>)"

datatype role = RoleClient | RoleServer

datatype stream_kind = Tcp | Udp | IcmpEcho

definition parse_open_target :: "string \<Rightarrow> stream_kind \<times> string" where
  "parse_open_target raw =
     (case strip_prefix ''udp:'' raw of
        Some rest \<Rightarrow> (Udp, rest)
      | None \<Rightarrow>
     (case strip_prefix ''icmp:'' raw of
        Some rest \<Rightarrow> (IcmpEcho, rest)
      | None \<Rightarrow>
     (case strip_prefix ''tcp:'' raw of
        Some rest \<Rightarrow> (Tcp, rest)
      | None \<Rightarrow> (Tcp, raw))))"

text \<open>
  What one stream's \<open>Stream\<close> and \<open>StreamSink\<close> share. \<open>c_tx_alive\<close>: a sink still holds the sending
  end of the data channel. \<open>c_rx_alive\<close>: the \<open>Stream\<close> has not been dropped.
\<close>

record chan =
  c_id :: u32
  c_target :: string
  c_kind :: stream_kind
  c_queue :: "bytes list"
  c_tx_alive :: bool
  c_rx_alive :: bool
  c_buffered :: nat
  c_window :: "nat option"
  c_window_closed :: bool
  c_consumed :: nat
  c_pending :: "bytes option"

datatype command = CmdOpen u32 string nat | CmdWrite frame

datatype reader_pc = RReady | RSendCmd command | RSendIncoming nat | RDone

datatype writer_pc = WReady | WWriting frame | WDone

datatype keepalive_pc = KaIdle | KaSending | KaDone

record mux =
  m_streams :: "(u32 \<times> nat) list"
  m_chans :: "nat \<Rightarrow> chan option"
  m_next_handle :: nat
  m_cmds :: "command list"
  m_cmd_open :: bool
  m_incoming :: "nat list"
  m_incoming_open :: bool
  m_reader :: reader_pc
  m_writer :: writer_pc
  m_closed :: bool
  m_next_id :: u32
  m_negotiated :: negotiated
  m_flowcontrol :: bool
  m_keepalive :: bool
  m_interval :: nat
  m_local_idle :: nat
  m_peer_idle :: nat
  m_last_seen :: u64
  m_last_ping_millis :: u64
  m_ka :: keepalive_pc
  m_rtt :: rtt_state
  m_sent :: "frame list"

subsection \<open>Frames the mux builds itself\<close>

definition close_frame :: "u32 \<Rightarrow> frame" where
  "close_frame i = \<lparr>stream_id = i, ftype = ft_code FtClose, payload = []\<rparr>"

definition ping_frame :: frame where
  "ping_frame = \<lparr>stream_id = 0, ftype = ft_code FtPing, payload = []\<rparr>"

definition pong_frame :: frame where
  "pong_frame = \<lparr>stream_id = 0, ftype = ft_code FtPong, payload = []\<rparr>"

definition open_frame :: "u32 \<Rightarrow> string \<Rightarrow> frame" where
  "open_frame i target = \<lparr>stream_id = i, ftype = ft_code FtOpen, payload = as_bytes target\<rparr>"

definition hello_frame :: "hello \<Rightarrow> frame" where
  "hello_frame h = \<lparr>stream_id = 0, ftype = ft_code FtHello, payload = encode_hello h\<rparr>"

definition window_update_frame :: "u32 \<Rightarrow> u32 \<Rightarrow> frame" where
  "window_update_frame i credit =
     \<lparr>stream_id = i, ftype = ft_code FtWindowUpdate, payload = u32_to_be credit\<rparr>"

subsection \<open>Streams and the registry\<close>

definition upd_chan :: "nat \<Rightarrow> (chan \<Rightarrow> chan) \<Rightarrow> mux \<Rightarrow> mux" where
  "upd_chan h f s = s\<lparr>m_chans := (m_chans s)(h := map_option f (m_chans s h))\<rparr>"

text \<open>\<open>StreamSink::close\<close>, and dropping a sink or a stream.\<close>

definition sink_close :: "chan \<Rightarrow> chan" where
  "sink_close c = (case c_window c of None \<Rightarrow> c | Some _ \<Rightarrow> c\<lparr>c_window_closed := True\<rparr>)"

definition drop_sink :: "chan \<Rightarrow> chan" where
  "drop_sink c = c\<lparr>c_tx_alive := False\<rparr>"

definition drop_stream :: "chan \<Rightarrow> chan" where
  "drop_stream c = c\<lparr>c_rx_alive := False\<rparr>"

text \<open>Taking a sink out of its holder: close it, then drop it. Discarding a stream drops both ends.\<close>

definition sink_shut :: "chan \<Rightarrow> chan" where
  "sink_shut c = drop_sink (sink_close c)"

definition discard :: "chan \<Rightarrow> chan" where
  "discard c = drop_stream (drop_sink c)"

definition new_chan :: "u32 \<Rightarrow> string \<Rightarrow> stream_kind \<Rightarrow> bool \<Rightarrow> chan" where
  "new_chan i target kind flowcontrol =
     \<lparr>c_id = i, c_target = target, c_kind = kind, c_queue = [], c_tx_alive = True, c_rx_alive = True,
      c_buffered = 0, c_window = (if flowcontrol then Some INIT_WINDOW else None),
      c_window_closed = False, c_consumed = 0, c_pending = None\<rparr>"

definition new_stream :: "u32 \<Rightarrow> string \<Rightarrow> stream_kind \<Rightarrow> mux \<Rightarrow> nat \<times> mux" where
  "new_stream i target kind s =
     (m_next_handle s,
      s\<lparr>m_chans := (m_chans s)(m_next_handle s \<mapsto> new_chan i target kind (m_flowcontrol s)),
        m_next_handle := Suc (m_next_handle s)\<rparr>)"

text \<open>\<open>HashMap::insert\<close> drops the sink it replaces, without closing it.\<close>

definition registry_insert :: "u32 \<Rightarrow> nat \<Rightarrow> mux \<Rightarrow> mux" where
  "registry_insert i h s =
     (let s' = (case map_of (m_streams s) i of None \<Rightarrow> s | Some old \<Rightarrow> upd_chan old drop_sink s)
      in s'\<lparr>m_streams := AList.update i h (m_streams s')\<rparr>)"

text \<open>\<open>HashMap::remove\<close> followed by \<open>sink.close()\<close> on what it returned.\<close>

definition registry_remove_close :: "u32 \<Rightarrow> mux \<Rightarrow> mux" where
  "registry_remove_close i s =
     (case map_of (m_streams s) i of
        None \<Rightarrow> s
      | Some h \<Rightarrow>
          let s' = upd_chan h sink_shut s
          in s'\<lparr>m_streams := AList.delete i (m_streams s')\<rparr>)"

definition close_all_streams :: "mux \<Rightarrow> mux" where
  "close_all_streams s =
     (foldr (\<lambda>(i, h) t. upd_chan h sink_shut t) (m_streams s) s)\<lparr>m_streams := []\<rparr>"

subsection \<open>Starting a mux\<close>

definition idle_timeouts :: "negotiated \<Rightarrow> keepalive_config \<Rightarrow> nat \<times> nat" where
  "idle_timeouts n ka =
     (if n_capabilities n AND CAP_IDLE_TOLERANCE \<noteq> 0
      then (from_secs (unat (local_idle_tolerance n)), from_secs (unat (peer_idle_tolerance n)))
      else (ka_idle_timeout ka, ka_idle_timeout ka))"

definition mux_init :: "hello \<Rightarrow> negotiated \<Rightarrow> role \<Rightarrow> keepalive_config \<Rightarrow> u64 \<Rightarrow> mux" where
  "mux_init local_hello n role ka now =
     \<lparr>m_streams = [], m_chans = Map.empty, m_next_handle = 0, m_cmds = [], m_cmd_open = True,
      m_incoming = [], m_incoming_open = True, m_reader = RReady, m_writer = WReady,
      m_closed = False, m_next_id = (if role = RoleClient then 1 else 2), m_negotiated = n,
      m_flowcontrol = (n_capabilities n AND CAP_FLOWCONTROL \<noteq> 0),
      m_keepalive = (n_capabilities n AND CAP_KEEPALIVE \<noteq> 0),
      m_interval = ka_interval ka, m_local_idle = fst (idle_timeouts n ka),
      m_peer_idle = snd (idle_timeouts n ka), m_last_seen = now, m_last_ping_millis = 0,
      m_ka = (if n_capabilities n AND CAP_KEEPALIVE \<noteq> 0 then KaIdle else KaDone),
      m_rtt = rtt_default, m_sent = [hello_frame local_hello]\<rparr>"

text \<open>
  The HELLO exchange: \<open>written\<close> and \<open>peer\<close> are the outcomes of writing ours and reading theirs,
  \<open>None\<close> when the ten-second bound expires first.
\<close>

definition start_with_keepalive ::
    "hello \<Rightarrow> role \<Rightarrow> keepalive_config \<Rightarrow> (core_error + unit) option \<Rightarrow>
     (core_error + frame) option \<Rightarrow> u64 \<Rightarrow> core_error + mux" where
  "start_with_keepalive local_hello role ka written peer now =
     try_bind (case written of None \<Rightarrow> Err EClosed | Some r \<Rightarrow> r) (\<lambda>_.
     try_bind (case peer of None \<Rightarrow> Err EClosed | Some r \<Rightarrow> r) (\<lambda>peer_frame.
     if base_type (ftype peer_frame) \<noteq> ft_code FtHello then Err (EVersion ''expected HELLO first'')
     else
       try_bind (decode_hello (payload peer_frame)) (\<lambda>peer_hello.
       try_bind (negotiate local_hello peer_hello) (\<lambda>n.
       Ok (mux_init local_hello n role ka now)))))"

definition mux_start ::
    "hello \<Rightarrow> role \<Rightarrow> (core_error + unit) option \<Rightarrow> (core_error + frame) option \<Rightarrow> u64 \<Rightarrow>
     core_error + mux" where
  "mux_start local_hello role written peer now =
     start_with_keepalive local_hello role keepalive_default written peer now"

subsection \<open>The reader task\<close>

text \<open>Leaving the read loop: close every stream and publish closure.\<close>

definition reader_stop :: "mux \<Rightarrow> mux" where
  "reader_stop s = (close_all_streams s)\<lparr>m_closed := True, m_reader := RDone\<rparr>"

definition reader_open :: "frame \<Rightarrow> mux \<Rightarrow> mux" where
  "reader_open f s =
     (let (kind, target) = parse_open_target (from_utf8_lossy (payload f));
          (h, s1) = new_stream (stream_id f) target kind s
      in if MAX_CONCURRENT_PEER_STREAMS \<le> length (m_streams s1) then
           reader_stop (upd_chan h discard s1)
         else (registry_insert (stream_id f) h s1)\<lparr>m_reader := RSendIncoming h\<rparr>)"

definition try_send_full :: "chan \<Rightarrow> bool" where
  "try_send_full c \<longleftrightarrow> DATA_CAPACITY \<le> length (c_queue c) \<or> \<not> c_rx_alive c"

definition enqueue :: "bytes \<Rightarrow> chan \<Rightarrow> chan" where
  "enqueue p c = c\<lparr>c_queue := c_queue c @ [p], c_buffered := c_buffered c + length p\<rparr>"

definition reader_data :: "frame \<Rightarrow> mux \<Rightarrow> mux" where
  "reader_data f s =
     (case map_of (m_streams s) (stream_id f) of
        None \<Rightarrow> s
      | Some h \<Rightarrow>
     (case m_chans s h of
        None \<Rightarrow> s
      | Some c \<Rightarrow>
          if MAX_BUFFERED < c_buffered c + length (payload f) \<or> try_send_full c then
            (registry_remove_close (stream_id f) s)
              \<lparr>m_reader := RSendCmd (CmdWrite (close_frame (stream_id f)))\<rparr>
          else upd_chan h (enqueue (payload f)) s))"

definition add_permits :: "nat \<Rightarrow> chan \<Rightarrow> chan" where
  "add_permits n c = c\<lparr>c_window := map_option (\<lambda>p. p + n) (c_window c)\<rparr>"

definition reader_window_update :: "frame \<Rightarrow> mux \<Rightarrow> mux" where
  "reader_window_update f s =
     (if length (payload f) < 4 then s
      else let credit = unat (u32_from_be (take 4 (payload f))) in
        (case map_of (m_streams s) (stream_id f) of
           None \<Rightarrow> s
         | Some h \<Rightarrow> upd_chan h (add_permits (min credit MAX_CREDIT)) s))"

text \<open>One iteration of the read loop on a frame read at wall-clock \<open>wall\<close> and instant \<open>inst\<close>.\<close>

definition reader_frame :: "frame \<Rightarrow> u64 \<Rightarrow> nat \<Rightarrow> mux \<Rightarrow> mux" where
  "reader_frame f wall inst s0 =
     (let s = s0\<lparr>m_last_seen := wall\<rparr>; bt = base_type (ftype f) in
      if bt = ft_code FtPing then s\<lparr>m_reader := RSendCmd (CmdWrite pong_frame)\<rparr>
      else if bt = ft_code FtPong then s\<lparr>m_rtt := note_pong_recv inst (m_rtt s)\<rparr>
      else if bt = ft_code FtOpen then reader_open f s
      else if bt = ft_code FtData \<or> bt = ft_code FtDatagram then reader_data f s
      else if bt = ft_code FtWindowUpdate then reader_window_update f s
      else if bt = ft_code FtClose then registry_remove_close (stream_id f) s
      else if is_critical (ftype f) then reader_stop s
      else s)"

subsection \<open>The writer task\<close>

fun close_queued :: "command list \<Rightarrow> mux \<Rightarrow> mux" where
  "close_queued [] s = s"
| "close_queued (CmdOpen _ _ h # cs) s = close_queued cs (upd_chan h sink_shut s)"
| "close_queued (CmdWrite _ # cs) s = close_queued cs s"

text \<open>Leaving the write loop: refuse new commands, close the queued opens and every stream.\<close>

definition writer_stop :: "mux \<Rightarrow> mux" where
  "writer_stop s =
     (close_all_streams ((close_queued (m_cmds s) s)\<lparr>m_cmd_open := False, m_cmds := []\<rparr>))
       \<lparr>m_closed := True, m_writer := WDone\<rparr>"

definition writer_take :: "mux \<Rightarrow> mux" where
  "writer_take s =
     (case m_cmds s of
        [] \<Rightarrow> s
      | CmdOpen i target h # cs \<Rightarrow>
          (registry_insert i h (s\<lparr>m_cmds := cs\<rparr>))\<lparr>m_writer := WWriting (open_frame i target)\<rparr>
      | CmdWrite f # cs \<Rightarrow>
          (let s' = s\<lparr>m_cmds := cs\<rparr> in
           (if base_type (ftype f) = ft_code FtClose then registry_remove_close (stream_id f) s' else s')
             \<lparr>m_writer := WWriting f\<rparr>))"

subsection \<open>The keepalive and watchdog tasks\<close>

definition wall_clock_stale :: "u64 \<Rightarrow> u64 \<Rightarrow> nat \<Rightarrow> bool" where
  "wall_clock_stale last_millis now_millis idle_timeout \<longleftrightarrow>
     idle_timeout < from_millis (unat (sat_sub64 now_millis last_millis))"

text \<open>
  The keepalive loop: at the top it leaves when the session is closed, and when a ping is due it stamps
  the instant and waits for a command slot; once sent it stamps the wall clock.
\<close>

definition keepalive_tick :: "u64 \<Rightarrow> nat \<Rightarrow> mux \<Rightarrow> mux" where
  "keepalive_tick wall inst s =
     (if m_closed s then s\<lparr>m_ka := KaDone\<rparr>
      else if wall_clock_stale (m_last_ping_millis s) wall (m_interval s)
      then s\<lparr>m_rtt := note_ping_sent inst (m_rtt s), m_ka := KaSending\<rparr>
      else s)"

definition keepalive_send :: "u64 \<Rightarrow> mux \<Rightarrow> mux option" where
  "keepalive_send wall s =
     (if \<not> m_cmd_open s then Some (s\<lparr>m_ka := KaDone\<rparr>)
      else if CMD_CAPACITY \<le> length (m_cmds s) then None
      else Some (s\<lparr>m_cmds := m_cmds s @ [CmdWrite ping_frame], m_last_ping_millis := wall,
                   m_ka := KaIdle\<rparr>))"

definition watchdog_tick :: "u64 \<Rightarrow> mux \<Rightarrow> mux" where
  "watchdog_tick wall s =
     (if m_closed s then s
      else if wall_clock_stale (m_last_seen s) wall (m_peer_idle s)
      then (close_all_streams s)\<lparr>m_closed := True\<rparr>
      else s)"

subsection \<open>Operations on streams\<close>

text \<open>
  A poll of an operation gives \<open>None\<close> while it waits. Sending a command waits for queue space and
  fails once the writer is gone; acquiring credit waits for permits and fails once the window is closed.
\<close>

definition send_cmd :: "command \<Rightarrow> mux \<Rightarrow> (core_error + unit) option \<times> mux" where
  "send_cmd c s =
     (if \<not> m_cmd_open s then (Some (Err EClosed), s)
      else if CMD_CAPACITY \<le> length (m_cmds s) then (None, s)
      else (Some (Ok ()), s\<lparr>m_cmds := m_cmds s @ [c]\<rparr>))"

definition take_permits :: "nat \<Rightarrow> chan \<Rightarrow> chan" where
  "take_permits n c = c\<lparr>c_window := map_option (\<lambda>p. p - n) (c_window c)\<rparr>"

definition acquire_credit :: "nat \<Rightarrow> nat \<Rightarrow> mux \<Rightarrow> (core_error + unit) option \<times> mux" where
  "acquire_credit h n s =
     (case m_chans s h of
        None \<Rightarrow> (Some (Err EClosed), s)
      | Some c \<Rightarrow>
     (case c_window c of
        None \<Rightarrow> (Some (Ok ()), s)
      | Some p \<Rightarrow>
          if c_window_closed c then (Some (Err EClosed), s)
          else if n \<le> p then (Some (Ok ()), upd_chan h (take_permits n) s)
          else (None, s)))"

text \<open>
  \<open>Stream::send\<close>: \<open>send_plan\<close> is the sequence of (credit, frame) pairs its loop goes through, and
  \<open>send_step\<close> one poll of the await it is at.
\<close>

function tcp_plan :: "u32 \<Rightarrow> bytes \<Rightarrow> (nat \<times> frame) list" where
  "tcp_plan i data =
     (if data = [] then []
      else let n = min (length data) MAX_FRAME_PAYLOAD in
        (n, \<lparr>stream_id = i, ftype = ft_code FtData, payload = take n data\<rparr>) #
        tcp_plan i (drop n data))"
  by pat_completeness auto
termination
  by (relation "measure (\<lambda>(i, data). length data)") (auto simp: MAX_FRAME_PAYLOAD_def HEADER_LEN_def)

declare tcp_plan.simps [simp del]

definition send_plan :: "stream_kind \<Rightarrow> u32 \<Rightarrow> bytes \<Rightarrow> core_error + (nat \<times> frame) list" where
  "send_plan kind i data =
     (case kind of
        Tcp \<Rightarrow> Ok (tcp_plan i data)
      | _ \<Rightarrow>
          if MAX_FRAME_PAYLOAD < length data
          then Err (EProtocol ''datagram exceeds max frame payload'')
          else Ok [(length data, \<lparr>stream_id = i, ftype = ft_code FtDatagram, payload = data\<rparr>)])"

datatype send_pc =
    SendCredit "(nat \<times> frame) list"
  | SendPush frame "(nat \<times> frame) list"
  | SendOk
  | SendErr core_error

definition send_start :: "stream_kind \<Rightarrow> u32 \<Rightarrow> bytes \<Rightarrow> send_pc" where
  "send_start kind i data =
     (case send_plan kind i data of Inl e \<Rightarrow> SendErr e | Inr ps \<Rightarrow> SendCredit ps)"

fun send_step :: "nat \<Rightarrow> send_pc \<Rightarrow> mux \<Rightarrow> send_pc \<times> mux" where
  "send_step h (SendCredit []) s = (SendOk, s)"
| "send_step h (SendCredit ((n, f) # ps)) s =
     (case acquire_credit h n s of
        (None, s') \<Rightarrow> (SendCredit ((n, f) # ps), s')
      | (Some (Inl e), s') \<Rightarrow> (SendErr e, s')
      | (Some (Inr _), s') \<Rightarrow> (SendPush f ps, s'))"
| "send_step h (SendPush f ps) s =
     (case send_cmd (CmdWrite f) s of
        (None, s') \<Rightarrow> (SendPush f ps, s')
      | (Some (Inl e), s') \<Rightarrow> (SendErr e, s')
      | (Some (Inr _), s') \<Rightarrow> (SendCredit ps, s'))"
| "send_step h SendOk s = (SendOk, s)"
| "send_step h (SendErr e) s = (SendErr e, s)"

text \<open>
  One poll of \<open>Stream::recv\<close>. First half: take a chunk off the queue into \<open>pending\<close>. Second half: once
  the threshold is reached, reserve a command slot for the credit update; only then is the chunk given out.
\<close>

definition recv_dequeue :: "chan \<Rightarrow> (core_error + chan) option" where
  "recv_dequeue c =
     (case c_pending c of
        Some _ \<Rightarrow> Some (Ok c)
      | None \<Rightarrow>
     (case c_queue c of
        [] \<Rightarrow> (if c_tx_alive c then None else Some (Err EClosed))
      | chunk # q \<Rightarrow>
          Some (Ok (c\<lparr>c_queue := q,
                      c_buffered := c_buffered c - length chunk,
                      c_consumed := (if c_window c = None then c_consumed c
                                     else c_consumed c + length chunk),
                      c_pending := Some chunk\<rparr>))))"

definition recv_finish :: "nat \<Rightarrow> chan \<Rightarrow> mux \<Rightarrow> (core_error + bytes) option \<times> mux" where
  "recv_finish h c s =
     (let give = (\<lambda>c' s'. (Some (Ok (the (c_pending c))),
                           s'\<lparr>m_chans := (m_chans s')(h \<mapsto> c'\<lparr>c_pending := None\<rparr>)\<rparr>)) in
      if WINDOW_THRESHOLD \<le> c_consumed c then
        (let credit = of_nat (min (c_consumed c) (2 ^ 32 - 1)) in
         if \<not> m_cmd_open s then give (c\<lparr>c_consumed := 0\<rparr>) s
         else if CMD_CAPACITY \<le> length (m_cmds s) then
           (None, s\<lparr>m_chans := (m_chans s)(h \<mapsto> c)\<rparr>)
         else give (c\<lparr>c_consumed := 0\<rparr>)
                (s\<lparr>m_cmds := m_cmds s @ [CmdWrite (window_update_frame (c_id c) credit)]\<rparr>))
      else give c s)"

definition stream_recv :: "nat \<Rightarrow> mux \<Rightarrow> (core_error + bytes) option \<times> mux" where
  "stream_recv h s =
     (case m_chans s h of
        None \<Rightarrow> (Some (Err EClosed), s)
      | Some c \<Rightarrow>
     (case recv_dequeue c of
        None \<Rightarrow> (None, s)
      | Some (Inl e) \<Rightarrow> (Some (Err e), s)
      | Some (Inr c') \<Rightarrow> recv_finish h c' s))"

definition stream_close :: "nat \<Rightarrow> mux \<Rightarrow> (core_error + unit) option \<times> mux" where
  "stream_close h s =
     (case m_chans s h of
        None \<Rightarrow> (Some (Err EClosed), s)
      | Some c \<Rightarrow> send_cmd (CmdWrite (close_frame (c_id c))) s)"

subsection \<open>Opening and accepting\<close>

definition open_as :: "stream_kind \<Rightarrow> string \<Rightarrow> string \<Rightarrow> mux \<Rightarrow> (core_error + nat) option \<times> mux" where
  "open_as kind target wire s =
     (let i = m_next_id s;
          (h, s1) = new_stream i target kind (s\<lparr>m_next_id := m_next_id s + 2\<rparr>)
      in case send_cmd (CmdOpen i wire h) s1 of
           (None, _) \<Rightarrow> (None, s)
         | (Some (Inl e), s2) \<Rightarrow> (Some (Err e), upd_chan h discard s2)
         | (Some (Inr _), s2) \<Rightarrow> (Some (Ok h), s2))"

definition mux_open :: "string \<Rightarrow> mux \<Rightarrow> (core_error + nat) option \<times> mux" where
  "mux_open target s = open_as Tcp target target s"

definition mux_open_datagram :: "string \<Rightarrow> mux \<Rightarrow> (core_error + nat) option \<times> mux" where
  "mux_open_datagram target s =
     (if n_capabilities (m_negotiated s) AND CAP_DATAGRAM = 0
      then (Some (Err (EProtocol ''peer does not support CAP_DATAGRAM'')), s)
      else open_as Udp target (''udp:'' @ target) s)"

definition mux_open_icmp :: "string \<Rightarrow> mux \<Rightarrow> (core_error + nat) option \<times> mux" where
  "mux_open_icmp target s =
     (if n_capabilities (m_negotiated s) AND CAP_ICMP = 0
      then (Some (Err (EProtocol ''peer does not support CAP_ICMP'')), s)
      else open_as IcmpEcho target (''icmp:'' @ target) s)"

definition mux_accept :: "mux \<Rightarrow> (core_error + nat) option \<times> mux" where
  "mux_accept s =
     (case m_incoming s of
        h # hs \<Rightarrow> (Some (Ok h), s\<lparr>m_incoming := hs\<rparr>)
      | [] \<Rightarrow> (if m_reader s = RDone then (Some (Err EClosed), s) else (None, s)))"

definition closed_receiver :: "mux \<Rightarrow> bool" where
  "closed_receiver s = m_closed s"

end
