(* ===== verification/MuxRun.thy ===== *)
theory MuxRun
  imports Mux
begin

text \<open>
  Runs of the multiplexer: every interleaving of its tasks and of the tasks that use its streams, as
  events on the \<open>mux\<close> record, the invariant that all of them keep, and what it gives: bounded
  buffers, isolation of streams, and a teardown that leaves nobody waiting.
\<close>

section \<open>Definitions\<close>

datatype event =
    EvRead frame u64 nat
  | EvReadFail
  | EvReaderCmd
  | EvReaderIncoming
  | EvReaderCancel
  | EvWriterTake
  | EvWriterWrote
  | EvWriterFail
  | EvWriterCancel
  | EvKeepalive u64 nat
  | EvKeepaliveSend u64
  | EvWatchdog u64
  | EvOpen stream_kind string
  | EvAccept
  | EvCredit nat nat
  | EvPush nat frame
  | EvRecv nat
  | EvClose nat
  | EvDropStream nat
  | EvDropMux

text \<open>The reader's two awaits after a frame: a command slot, a slot for an incoming stream.\<close>

definition reader_cmd_sent :: "command \<Rightarrow> mux \<Rightarrow> mux option" where
  "reader_cmd_sent c s =
     (case send_cmd c s of
        (None, _) \<Rightarrow> None
      | (Some _, s') \<Rightarrow> Some (s'\<lparr>m_reader := RReady\<rparr>))"

definition reader_incoming_sent :: "nat \<Rightarrow> mux \<Rightarrow> mux option" where
  "reader_incoming_sent h s =
     (if \<not> m_incoming_open s then Some (reader_stop (upd_chan h drop_stream s))
      else if INCOMING_CAPACITY \<le> length (m_incoming s) then None
      else Some (s\<lparr>m_incoming := m_incoming s @ [h], m_reader := RReady\<rparr>))"

text \<open>Cancelling the read loop drops the stream it was about to hand out.\<close>

definition reader_cancel :: "mux \<Rightarrow> mux" where
  "reader_cancel s =
     reader_stop (case m_reader s of RSendIncoming h \<Rightarrow> upd_chan h drop_stream s | _ \<Rightarrow> s)"

definition drop_mux :: "mux \<Rightarrow> mux" where
  "drop_mux s =
     (foldr (\<lambda>h t. upd_chan h drop_stream t) (m_incoming s) s)
       \<lparr>m_incoming := [], m_incoming_open := False\<rparr>"

definition open_kind :: "stream_kind \<Rightarrow> string \<Rightarrow> mux \<Rightarrow> (core_error + nat) option \<times> mux" where
  "open_kind k target s =
     (case k of
        Tcp \<Rightarrow> mux_open target s
      | Udp \<Rightarrow> mux_open_datagram target s
      | IcmpEcho \<Rightarrow> mux_open_icmp target s)"

definition finished :: "'a option \<times> mux \<Rightarrow> mux option" where
  "finished r = (if fst r = None then None else Some (snd r))"

fun mux_event :: "event \<Rightarrow> mux \<Rightarrow> mux option" where
  "mux_event (EvRead f wall inst) s =
     (if m_reader s = RReady then Some (reader_frame f wall inst s) else None)"
| "mux_event EvReadFail s = (if m_reader s = RReady then Some (reader_stop s) else None)"
| "mux_event EvReaderCmd s =
     (case m_reader s of RSendCmd c \<Rightarrow> reader_cmd_sent c s | _ \<Rightarrow> None)"
| "mux_event EvReaderIncoming s =
     (case m_reader s of RSendIncoming h \<Rightarrow> reader_incoming_sent h s | _ \<Rightarrow> None)"
| "mux_event EvReaderCancel s =
     (if m_closed s \<and> m_reader s \<noteq> RDone then Some (reader_cancel s) else None)"
| "mux_event EvWriterTake s =
     (if m_writer s = WReady \<and> m_cmds s \<noteq> [] then Some (writer_take s) else None)"
| "mux_event EvWriterWrote s =
     (case m_writer s of
        WWriting f \<Rightarrow> Some (s\<lparr>m_sent := m_sent s @ [f], m_writer := WReady\<rparr>)
      | _ \<Rightarrow> None)"
| "mux_event EvWriterFail s =
     (case m_writer s of WWriting f \<Rightarrow> Some (writer_stop s) | _ \<Rightarrow> None)"
| "mux_event EvWriterCancel s =
     (if m_closed s \<and> m_writer s \<noteq> WDone then Some (writer_stop s) else None)"
| "mux_event (EvKeepalive wall inst) s =
     (if m_ka s = KaIdle then Some (keepalive_tick wall inst s) else None)"
| "mux_event (EvKeepaliveSend wall) s =
     (if m_ka s = KaSending then keepalive_send wall s else None)"
| "mux_event (EvWatchdog wall) s =
     (if m_keepalive s then Some (watchdog_tick wall s) else None)"
| "mux_event (EvOpen k target) s = finished (open_kind k target s)"
| "mux_event EvAccept s = finished (mux_accept s)"
| "mux_event (EvCredit h n) s = finished (acquire_credit h n s)"
| "mux_event (EvPush h f) s = finished (send_cmd (CmdWrite f) s)"
| "mux_event (EvRecv h) s = Some (snd (stream_recv h s))"
| "mux_event (EvClose h) s = finished (stream_close h s)"
| "mux_event (EvDropStream h) s = Some (upd_chan h drop_stream s)"
| "mux_event EvDropMux s = Some (drop_mux s)"

text \<open>Running a sequence of events; \<open>None\<close> when one of them is not possible.\<close>

fun mux_run :: "event list \<Rightarrow> mux \<Rightarrow> mux option" where
  "mux_run [] s = Some s"
| "mux_run (e # es) s = (case mux_event e s of None \<Rightarrow> None | Some t \<Rightarrow> mux_run es t)"

definition initial :: "mux \<Rightarrow> bool" where
  "initial s \<longleftrightarrow> (\<exists>l role ka written peer now. start_with_keepalive l role ka written peer now = Ok s)"

inductive reachable :: "mux \<Rightarrow> bool" where
  start: "initial s \<Longrightarrow> reachable s"
| step: "reachable s \<Longrightarrow> mux_event e s = Some t \<Longrightarrow> reachable t"

text \<open>
  An event that opens a stream under an id that is not registered: what a peer that does not reuse the
  id of a live stream, and that keeps to its own parity, always produces.
\<close>

definition fresh_event :: "event \<Rightarrow> mux \<Rightarrow> bool" where
  "fresh_event e s \<longleftrightarrow>
     (case e of
        EvRead f _ _ \<Rightarrow> base_type (ftype f) = ft_code FtOpen \<longrightarrow> map_of (m_streams s) (stream_id f) = None
      | EvWriterTake \<Rightarrow>
          (case m_cmds s of CmdOpen i _ _ # _ \<Rightarrow> map_of (m_streams s) i = None | _ \<Rightarrow> True)
      | _ \<Rightarrow> True)"

inductive reachable_fresh :: "mux \<Rightarrow> bool" where
  fresh_start: "initial s \<Longrightarrow> reachable_fresh s"
| fresh_step:
    "reachable_fresh s \<Longrightarrow> fresh_event e s \<Longrightarrow> mux_event e s = Some t \<Longrightarrow> reachable_fresh t"

fun cmd_handles :: "command list \<Rightarrow> nat list" where
  "cmd_handles [] = []"
| "cmd_handles (CmdOpen _ _ h # cs) = h # cmd_handles cs"
| "cmd_handles (CmdWrite _ # cs) = cmd_handles cs"

definition chan_ok :: "chan \<Rightarrow> bool" where
  "chan_ok c \<longleftrightarrow>
     c_buffered c = sum_list (map length (c_queue c)) \<and>
     c_buffered c \<le> MAX_BUFFERED \<and> length (c_queue c) \<le> DATA_CAPACITY"

text \<open>
  The registry invariant, with a set \<open>X\<close> of handles that are alive but held by the task that is running
  (just allocated, or just taken off the command queue).
\<close>

definition tracked :: "mux \<Rightarrow> nat list" where
  "tracked s = map snd (m_streams s) @ cmd_handles (m_cmds s)"

definition reg_inv :: "nat set \<Rightarrow> mux \<Rightarrow> bool" where
  "reg_inv X s \<longleftrightarrow>
     distinct (map fst (m_streams s)) \<and> distinct (tracked s) \<and> X \<inter> set (tracked s) = {} \<and>
     (\<forall>h. m_chans s h \<noteq> None \<longleftrightarrow> h < m_next_handle s) \<and>
     X \<union> set (tracked s) \<subseteq> {..<m_next_handle s} \<and>
     (\<forall>h c. m_chans s h = Some c \<longrightarrow> (c_tx_alive c \<longleftrightarrow> h \<in> X \<union> set (tracked s)))"

text \<open>A property of every channel, live or left behind.\<close>

definition all_chans :: "(chan \<Rightarrow> bool) \<Rightarrow> mux \<Rightarrow> bool" where
  "all_chans Q s \<longleftrightarrow> (\<forall>h c. m_chans s h = Some c \<longrightarrow> Q c)"

definition ctl_inv :: "mux \<Rightarrow> bool" where
  "ctl_inv s \<longleftrightarrow>
     length (m_cmds s) \<le> CMD_CAPACITY \<and> length (m_incoming s) \<le> INCOMING_CAPACITY \<and>
     (m_cmd_open s \<longleftrightarrow> m_writer s \<noteq> WDone) \<and> (\<not> m_cmd_open s \<longrightarrow> m_cmds s = []) \<and>
     (m_writer s = WDone \<longrightarrow> m_closed s) \<and> (m_reader s = RDone \<longrightarrow> m_closed s) \<and>
     (m_writer s = WDone \<and> m_reader s = RDone \<longrightarrow> m_streams s = []) \<and>
     (\<forall>c. m_reader s = RSendCmd c \<longrightarrow> cmd_handles [c] = [])"

definition mux_inv :: "mux \<Rightarrow> bool" where
  "mux_inv s \<longleftrightarrow> reg_inv {} s \<and> all_chans chan_ok s \<and> ctl_inv s"

text \<open>No stream still in use has an open window that no sink can close any more.\<close>

definition window_ok :: "chan \<Rightarrow> bool" where
  "window_ok c \<longleftrightarrow>
     (c_rx_alive c \<and> c_window c \<noteq> None \<and> \<not> c_window_closed c \<longrightarrow> c_tx_alive c)"

section \<open>Lemmas\<close>

subsection \<open>Teardown as one update\<close>

definition map_chans :: "(nat \<Rightarrow> bool) \<Rightarrow> (chan \<Rightarrow> chan) \<Rightarrow> mux \<Rightarrow> mux" where
  "map_chans P f s = s\<lparr>m_chans := (\<lambda>h. if P h then map_option f (m_chans s h) else m_chans s h)\<rparr>"

lemma sink_shut_fields [simp]:
  "c_tx_alive (sink_shut c) = False"
  "c_rx_alive (sink_shut c) = c_rx_alive c"
  "c_window (sink_shut c) = c_window c"
  "c_window_closed (sink_shut c) = (c_window_closed c \<or> c_window c \<noteq> None)"
  "c_queue (sink_shut c) = c_queue c"
  "c_buffered (sink_shut c) = c_buffered c"
  "c_consumed (sink_shut c) = c_consumed c"
  "c_pending (sink_shut c) = c_pending c"
  "c_id (sink_shut c) = c_id c"
  by (auto simp: sink_shut_def drop_sink_def sink_close_def split: option.splits)

lemma sink_shut_idem: "sink_shut (sink_shut c) = sink_shut c"
  by (auto simp: sink_shut_def drop_sink_def sink_close_def split: option.splits)

lemma drop_stream_idem: "drop_stream (drop_stream c) = drop_stream c"
  by (simp add: drop_stream_def)

lemma upd_chan_eq: "upd_chan h f s = map_chans (\<lambda>k. k = h) f s"
  by (auto simp: upd_chan_def map_chans_def fun_eq_iff)

lemma map_chans_map_chans:
  assumes "\<And>c. f (f c) = f c"
  shows "map_chans P f (map_chans Q f s) = map_chans (\<lambda>h. P h \<or> Q h) f s"
  using assms by (auto simp: map_chans_def fun_eq_iff option.map_comp comp_def)

lemma map_chans_False [simp]: "map_chans (\<lambda>_. False) f s = s"
  by (simp add: map_chans_def)

lemma close_all_streams_eq:
  "close_all_streams s = (map_chans (\<lambda>h. h \<in> snd ` set (m_streams s)) sink_shut s)\<lparr>m_streams := []\<rparr>"
proof -
  have "foldr (\<lambda>(i, h) t. upd_chan h sink_shut t) xs s = map_chans (\<lambda>h. h \<in> snd ` set xs) sink_shut s"
    for xs :: "(u32 \<times> nat) list"
  proof (induction xs)
    case (Cons x xs)
    obtain i h where x: "x = (i, h)"
      by (cases x)
    have "(\<lambda>k. k = h \<or> k \<in> snd ` set xs) = (\<lambda>k. k \<in> snd ` set (x # xs))"
      by (auto simp: x)
    then show ?case
      using Cons map_chans_map_chans [of sink_shut "\<lambda>k. k = h" "\<lambda>h. h \<in> snd ` set xs" s, OF sink_shut_idem]
      by (simp add: x upd_chan_eq)
  qed simp
  then show ?thesis
    by (simp add: close_all_streams_def)
qed

lemma close_queued_eq: "close_queued cs s = map_chans (\<lambda>h. h \<in> set (cmd_handles cs)) sink_shut s"
proof (induction cs s rule: close_queued.induct)
  case (2 i t h cs s)
  have "(\<lambda>k. k \<in> set (cmd_handles cs) \<or> k = h) = (\<lambda>k. k \<in> set (cmd_handles (CmdOpen i t h # cs)))"
    by auto
  then show ?case
    using 2 map_chans_map_chans [of sink_shut "\<lambda>k. k \<in> set (cmd_handles cs)" "\<lambda>k. k = h" s, OF sink_shut_idem]
    by (simp add: upd_chan_eq)
qed simp_all

lemma drop_mux_eq:
  "drop_mux s = (map_chans (\<lambda>h. h \<in> set (m_incoming s)) drop_stream s)
                  \<lparr>m_incoming := [], m_incoming_open := False\<rparr>"
proof -
  have "foldr (\<lambda>h t. upd_chan h drop_stream t) xs s = map_chans (\<lambda>h. h \<in> set xs) drop_stream s" for xs
  proof (induction xs)
    case (Cons x xs)
    have "(\<lambda>k. k = x \<or> k \<in> set xs) = (\<lambda>k. k \<in> set (x # xs))"
      by auto
    then show ?case
      using Cons map_chans_map_chans [of drop_stream "\<lambda>k. k = x" "\<lambda>h. h \<in> set xs" s, OF drop_stream_idem]
      by (simp add: upd_chan_eq)
  qed simp
  then show ?thesis
    by (simp add: drop_mux_def)
qed

lemma cmd_handles_append [simp]: "cmd_handles (cs @ ds) = cmd_handles cs @ cmd_handles ds"
  by (induction cs rule: cmd_handles.induct) simp_all

lemma map_chans_simps [simp]:
  "m_chans (map_chans P f s) h = (if P h then map_option f (m_chans s h) else m_chans s h)"
  "m_streams (map_chans P f s) = m_streams s"
  "m_cmds (map_chans P f s) = m_cmds s"
  "m_cmd_open (map_chans P f s) = m_cmd_open s"
  "m_incoming (map_chans P f s) = m_incoming s"
  "m_incoming_open (map_chans P f s) = m_incoming_open s"
  "m_next_handle (map_chans P f s) = m_next_handle s"
  "m_reader (map_chans P f s) = m_reader s"
  "m_writer (map_chans P f s) = m_writer s"
  "m_closed (map_chans P f s) = m_closed s"
  "m_flowcontrol (map_chans P f s) = m_flowcontrol s"
  by (simp_all add: map_chans_def)

lemmas teardown_eqs = close_all_streams_eq close_queued_eq drop_mux_eq

subsection \<open>The registry invariant, operation by operation\<close>

lemma map_of_notin_snd: "k \<notin> set (map snd xs) \<Longrightarrow> map_of xs i \<noteq> Some k"
  by (metis image_eqI map_of_SomeD set_map snd_conv)

lemma set_snd_delete:
  assumes "distinct (map fst xs)" and "distinct (map snd xs)"
  shows "set (map snd (AList.delete i xs)) = set (map snd xs) - set_option (map_of xs i)"
  using assms
proof (induction xs)
  case (Cons x xs)
  obtain j k where x: "x = (j, k)" by (cases x)
  have k: "k \<notin> set (map snd xs)" "map_of xs i \<noteq> Some k"
    using Cons.prems x map_of_notin_snd [of k xs i] by simp_all
  have none: "i = j \<Longrightarrow> map_of xs i = None"
    using Cons.prems x by (simp add: map_of_eq_None_iff)
  have IH: "set (map snd (AList.delete i xs)) = set (map snd xs) - set_option (map_of xs i)"
    using Cons by simp
  show ?case
    by (cases "i = j"; cases "map_of xs i") (use IH k none in \<open>simp_all add: x insert_Diff_if\<close>)
qed simp

lemma set_snd_update:
  assumes "distinct (map fst xs)" and "distinct (map snd xs)" and "h \<notin> set (map snd xs)"
  shows "set (map snd (AList.update i h xs)) = insert h (set (map snd xs) - set_option (map_of xs i))"
  using assms
proof (induction xs)
  case (Cons x xs)
  obtain j k where x: "x = (j, k)" by (cases x)
  have k: "k \<notin> set (map snd xs)" "map_of xs i \<noteq> Some k"
    using Cons.prems x map_of_notin_snd [of k xs i] by simp_all
  have IH: "set (map snd (AList.update i h xs)) = insert h (set (map snd xs) - set_option (map_of xs i))"
    using Cons by simp
  show ?case
    by (cases "i = j"; cases "map_of xs i") (use IH k in \<open>simp_all add: x insert_Diff_if insert_commute\<close>)
qed simp

lemma distinct_snd_update:
  assumes "distinct (map fst xs)" and "distinct (map snd xs)" and "h \<notin> set (map snd xs)"
  shows "distinct (map snd (AList.update i h xs))"
  using assms
proof (induction xs)
  case (Cons x xs)
  obtain j k where x: "x = (j, k)" by (cases x)
  show ?case
    using Cons x set_snd_update [of xs h i] by (auto simp del: set_map)
qed simp

lemma distinct_snd_delete: "distinct (map snd xs) \<Longrightarrow> distinct (map snd (AList.delete i xs))"
  by (simp add: AList.delete_eq distinct_map_filter)

text \<open>Everything but allocation only shrinks the set of live sinks.\<close>

lemma reg_inv_update:
  assumes "reg_inv X s" and "m_next_handle t = m_next_handle s"
    and "distinct (map fst (m_streams t))" and "distinct (tracked t)" and "Y \<inter> set (tracked t) = {}"
    and "Y \<union> set (tracked t) \<subseteq> X \<union> set (tracked s)"
    and "\<And>h. m_chans t h = None \<longleftrightarrow> m_chans s h = None"
    and "\<And>h c d. m_chans s h = Some c \<Longrightarrow> m_chans t h = Some d \<Longrightarrow>
           c_tx_alive d = (c_tx_alive c \<and> h \<in> Y \<union> set (tracked t))"
  shows "reg_inv Y t"
  unfolding reg_inv_def
proof (intro conjI allI impI)
  fix h d assume d: "m_chans t h = Some d"
  then obtain c where c: "m_chans s h = Some c"
    using assms(7) [of h] by auto
  have "c_tx_alive c \<longleftrightarrow> h \<in> X \<union> set (tracked s)"
    using assms(1) c by (simp add: reg_inv_def)
  then show "c_tx_alive d \<longleftrightarrow> h \<in> Y \<union> set (tracked t)"
    using assms(8) [OF c d] assms(6) by blast
next
  show "Y \<union> set (tracked t) \<subseteq> {..<m_next_handle t}"
    using assms(1,2,6) by (auto simp: reg_inv_def)
next
  show "(m_chans t h \<noteq> None) = (h < m_next_handle t)" for h
    using assms(1,2) assms(7) [of h] by (simp add: reg_inv_def)
qed (use assms(3,4,5) in auto)

lemma reg_invD:
  assumes "reg_inv X s"
  shows "distinct (map fst (m_streams s))" "distinct (map snd (m_streams s))"
    "distinct (cmd_handles (m_cmds s))" "distinct (tracked s)"
    "set (map snd (m_streams s)) \<inter> set (cmd_handles (m_cmds s)) = {}"
    "X \<inter> set (tracked s) = {}"
  using assms by (auto simp: reg_inv_def tracked_def)

lemma reg_inv_alive:
  "reg_inv X s \<Longrightarrow> m_chans s h = Some c \<Longrightarrow> c_tx_alive c \<longleftrightarrow> h \<in> X \<union> set (tracked s)"
  by (simp add: reg_inv_def)

lemma reg_inv_frame:
  assumes "reg_inv X s"
    and "m_streams t = m_streams s" and "cmd_handles (m_cmds t) = cmd_handles (m_cmds s)"
    and "m_chans t = m_chans s" and "m_next_handle t = m_next_handle s"
  shows "reg_inv X t"
  using assms by (simp add: reg_inv_def tracked_def)

text \<open>Changing channels without changing which sinks are alive.\<close>

lemma reg_inv_map_chans:
  assumes "reg_inv X s" and "\<And>c. c_tx_alive (f c) = c_tx_alive c"
  shows "reg_inv X (map_chans P f s)"
proof (rule reg_inv_update [OF assms(1)])
  fix h c d assume "m_chans s h = Some c" "m_chans (map_chans P f s) h = Some d"
  then show "c_tx_alive d = (c_tx_alive c \<and> h \<in> X \<union> set (tracked (map_chans P f s)))"
    using reg_inv_alive [OF assms(1)] assms(2) by (auto simp: tracked_def split: if_splits)
qed (use reg_invD [OF assms(1)] in \<open>auto simp: tracked_def\<close>)

lemma reg_inv_push_open:
  "reg_inv {h} s \<Longrightarrow> reg_inv {} (s\<lparr>m_cmds := m_cmds s @ [CmdOpen i t h]\<rparr>)"
  by (auto simp: reg_inv_def tracked_def)

lemma reg_inv_pop_open:
  assumes "reg_inv {} s" and "m_cmds s = CmdOpen i t h # cs"
  shows "reg_inv {h} (s\<lparr>m_cmds := cs\<rparr>)"
  using assms by (auto simp: reg_inv_def tracked_def)

lemma reg_inv_new_stream:
  assumes "reg_inv {} s" and "new_stream i t k s = (h, s')"
  shows "reg_inv {h} s'"
proof -
  have s': "h = m_next_handle s" "tracked s' = tracked s" "m_streams s' = m_streams s"
    "m_next_handle s' = Suc (m_next_handle s)"
    "m_chans s' = (m_chans s)(m_next_handle s \<mapsto> new_chan i t k (m_flowcontrol s))"
    using assms(2) by (auto simp: new_stream_def tracked_def)
  have fresh: "m_next_handle s \<notin> set (tracked s)" and "set (tracked s) \<subseteq> {..<Suc (m_next_handle s)}"
    using assms(1) by (auto simp: reg_inv_def)
  then show ?thesis
    using assms(1) by (auto simp: reg_inv_def s' new_chan_def less_Suc_eq)
qed

lemma reg_inv_discard:
  assumes "reg_inv {h} s"
  shows "reg_inv {} (upd_chan h discard s)"
proof (rule reg_inv_update [OF assms])
  fix k c d assume "m_chans s k = Some c" "m_chans (upd_chan h discard s) k = Some d"
  then show "c_tx_alive d = (c_tx_alive c \<and> k \<in> {} \<union> set (tracked (upd_chan h discard s)))"
    using reg_inv_alive [OF assms, of k c] reg_invD(6) [OF assms]
    by (auto simp: upd_chan_eq discard_def drop_stream_def drop_sink_def tracked_def split: if_splits)
qed (use reg_invD [OF assms] in \<open>auto simp: tracked_def upd_chan_eq\<close>)

lemma reg_inv_remove_close:
  assumes "reg_inv X s"
  shows "reg_inv X (registry_remove_close i s)"
proof (cases "map_of (m_streams s) i")
  case None
  with assms show ?thesis by (simp add: registry_remove_close_def)
next
  case (Some h)
  note D = reg_invD [OF assms]
  let ?t = "registry_remove_close i s"
  have streams: "m_streams ?t = AList.delete i (m_streams s)" and cmds: "m_cmds ?t = m_cmds s"
    and next': "m_next_handle ?t = m_next_handle s"
    and chans: "m_chans ?t k = (if k = h then map_option sink_shut (m_chans s k) else m_chans s k)" for k
    using Some by (simp_all add: registry_remove_close_def upd_chan_eq Let_def)
  have h: "h \<in> set (map snd (m_streams s))"
    using map_of_SomeD [OF Some] by force
  then have tr: "set (tracked ?t) = set (tracked s) - {h}"
    using D(5) Some set_snd_delete [OF D(1,2), of i]
    by (auto simp: tracked_def streams cmds simp del: set_map)
  have hs: "h \<in> set (tracked s)"
    using h by (simp add: tracked_def)
  show ?thesis
  proof (rule reg_inv_update [OF assms])
    show "distinct (tracked ?t)"
      using D(3,5) distinct_snd_delete [OF D(2), of i] set_snd_delete [OF D(1,2), of i]
      by (auto simp: tracked_def streams cmds simp del: set_map)
    show "c_tx_alive d = (c_tx_alive c \<and> k \<in> X \<union> set (tracked ?t))"
      if "m_chans s k = Some c" "m_chans ?t k = Some d" for k c d
      using that reg_inv_alive [OF assms, of k c] D(6) hs
      by (auto simp: chans tr split: if_splits)
  qed (use D tr in \<open>auto simp: streams next' chans distinct_delete simp del: set_map\<close>)
qed

lemma reg_inv_insert:
  assumes "reg_inv {h} s"
  shows "reg_inv {} (registry_insert i h s)"
proof -
  note D = reg_invD [OF assms]
  let ?t = "registry_insert i h s" and ?old = "set_option (map_of (m_streams s) i)"
  have streams: "m_streams ?t = AList.update i h (m_streams s)" and cmds: "m_cmds ?t = m_cmds s"
    and next': "m_next_handle ?t = m_next_handle s"
    and chans: "m_chans ?t k = (if k \<in> ?old then map_option drop_sink (m_chans s k) else m_chans s k)" for k
    by (auto simp: registry_insert_def upd_chan_eq Let_def split: option.splits)
  have old: "?old \<subseteq> set (map snd (m_streams s))"
    by (auto dest!: map_of_SomeD) force
  have h: "h \<notin> set (map snd (m_streams s))" "h \<notin> set (cmd_handles (m_cmds s))"
    using D(6) by (auto simp: tracked_def)
  then have tr: "set (tracked ?t) = insert h (set (tracked s) - ?old)"
    using D(5) old set_snd_update [OF D(1,2) h(1), of i]
    by (auto simp: tracked_def streams cmds simp del: set_map)
  show ?thesis
  proof (rule reg_inv_update [OF assms])
    show "distinct (tracked ?t)"
      using D(3,5) h(2) distinct_snd_update [OF D(1,2) h(1), of i] set_snd_update [OF D(1,2) h(1), of i]
      by (auto simp: tracked_def streams cmds simp del: set_map)
    show "c_tx_alive d = (c_tx_alive c \<and> k \<in> {} \<union> set (tracked ?t))"
      if "m_chans s k = Some c" "m_chans ?t k = Some d" for k c d
      using that reg_inv_alive [OF assms, of k c] D(6) h old
      by (auto simp: chans tr drop_sink_def split: if_splits simp del: set_map)
  qed (use D tr in \<open>auto simp: streams next' chans distinct_update simp del: set_map\<close>)
qed

lemma reg_inv_shut:
  assumes "reg_inv {} s"
    and "m_next_handle t = m_next_handle s" and "m_streams t = []"
    and "distinct (tracked t)" and "set (tracked t) = set (tracked s) - H"
    and "m_chans t = m_chans (map_chans (\<lambda>h. h \<in> H) sink_shut s)"
  shows "reg_inv {} t"
proof (rule reg_inv_update [OF assms(1)])
  fix k c d assume "m_chans s k = Some c" "m_chans t k = Some d"
  then show "c_tx_alive d = (c_tx_alive c \<and> k \<in> {} \<union> set (tracked t))"
    using reg_inv_alive [OF assms(1), of k c] by (auto simp: assms(5,6) split: if_splits)
qed (use assms in auto)

lemma reg_inv_close_all_streams:
  assumes "reg_inv {} s"
  shows "reg_inv {} (close_all_streams s)"
  by (rule reg_inv_shut [OF assms, of _ "set (map snd (m_streams s))"])
    (use reg_invD [OF assms] in \<open>auto simp: close_all_streams_eq tracked_def\<close>)

lemma reg_inv_writer_stop:
  assumes "reg_inv {} s"
  shows "reg_inv {} (writer_stop s)"
proof (rule reg_inv_shut [OF assms, of _ "set (tracked s)"])
  show "m_chans (writer_stop s) = m_chans (map_chans (\<lambda>h. h \<in> set (tracked s)) sink_shut s)"
    by (rule ext) (auto simp: writer_stop_def teardown_eqs tracked_def option.map_comp comp_def sink_shut_idem)
qed (simp_all add: writer_stop_def teardown_eqs tracked_def)

lemma finishedD: "finished r = Some t \<Longrightarrow> t = snd r"
  by (auto simp: finished_def split: if_splits)

subsection \<open>Invariants of single channels\<close>

lemma all_chans_same [simp]:
  "all_chans Q (s\<lparr>m_streams := a1\<rparr>) = all_chans Q s"
  "all_chans Q (s\<lparr>m_cmds := a2\<rparr>) = all_chans Q s"
  "all_chans Q (s\<lparr>m_cmd_open := a3\<rparr>) = all_chans Q s"
  "all_chans Q (s\<lparr>m_incoming := a4\<rparr>) = all_chans Q s"
  "all_chans Q (s\<lparr>m_incoming_open := a5\<rparr>) = all_chans Q s"
  "all_chans Q (s\<lparr>m_reader := a6\<rparr>) = all_chans Q s"
  "all_chans Q (s\<lparr>m_writer := a7\<rparr>) = all_chans Q s"
  "all_chans Q (s\<lparr>m_closed := a8\<rparr>) = all_chans Q s"
  "all_chans Q (s\<lparr>m_next_id := a9\<rparr>) = all_chans Q s"
  "all_chans Q (s\<lparr>m_rtt := b1\<rparr>) = all_chans Q s"
  "all_chans Q (s\<lparr>m_ka := b2\<rparr>) = all_chans Q s"
  "all_chans Q (s\<lparr>m_last_seen := b3\<rparr>) = all_chans Q s"
  "all_chans Q (s\<lparr>m_last_ping_millis := b4\<rparr>) = all_chans Q s"
  "all_chans Q (s\<lparr>m_sent := b5\<rparr>) = all_chans Q s"
  "all_chans Q (s\<lparr>m_next_handle := b6\<rparr>) = all_chans Q s"
  by (simp_all add: all_chans_def)

lemma all_chans_map:
  "all_chans Q s \<Longrightarrow> (\<And>c. Q c \<Longrightarrow> Q (f c)) \<Longrightarrow> all_chans Q (map_chans P f s)"
  by (auto simp: all_chans_def)

lemma all_chans_set:
  "all_chans Q s \<Longrightarrow> Q c \<Longrightarrow> all_chans Q (s\<lparr>m_chans := (m_chans s)(h \<mapsto> c)\<rparr>)"
  by (simp add: all_chans_def)

text \<open>
  The interface of a channel invariant: what has to be checked of a property of one channel so that
  every event of the multiplexer keeps it. Displacing a registry entry is the one step that may drop a
  sink without closing it.
\<close>

locale chan_invariant =
  fixes Q :: "chan \<Rightarrow> bool"
  assumes Q_new: "Q (new_chan i target kind fc)"
    and Q_shut: "Q c \<Longrightarrow> Q (sink_shut c)"
    and Q_drop_stream: "Q c \<Longrightarrow> Q (drop_stream c)"
    and Q_discard: "Q c \<Longrightarrow> Q (discard c)"
    and Q_add_permits: "Q c \<Longrightarrow> Q (add_permits n c)"
    and Q_take_permits: "Q c \<Longrightarrow> Q (take_permits n c)"
    and Q_enqueue: "Q c \<Longrightarrow> c_buffered c + length p \<le> MAX_BUFFERED \<Longrightarrow> \<not> try_send_full c \<Longrightarrow> Q (enqueue p c)"
    and Q_dequeue: "Q c \<Longrightarrow> recv_dequeue c = Some (Ok c') \<Longrightarrow> Q c'"
    and Q_give: "Q c \<Longrightarrow> Q (c\<lparr>c_pending := None\<rparr>)"
    and Q_credit: "Q c \<Longrightarrow> Q (c\<lparr>c_consumed := 0\<rparr>)"
begin

lemma Q_close_all: "all_chans Q s \<Longrightarrow> all_chans Q (close_all_streams s)"
  by (simp add: close_all_streams_eq all_chans_map Q_shut)

lemma Q_reader_stop: "all_chans Q s \<Longrightarrow> all_chans Q (reader_stop s)"
  by (simp add: reader_stop_def Q_close_all)

lemma Q_writer_stop: "all_chans Q s \<Longrightarrow> all_chans Q (writer_stop s)"
  by (simp add: writer_stop_def Q_close_all close_queued_eq all_chans_map Q_shut)

lemma Q_remove: "all_chans Q s \<Longrightarrow> all_chans Q (registry_remove_close i s)"
  by (simp add: registry_remove_close_def upd_chan_eq Let_def all_chans_map Q_shut split: option.splits)

lemma Q_insert:
  "all_chans Q s \<Longrightarrow> map_of (m_streams s) i = None \<or> (\<forall>c. Q c \<longrightarrow> Q (drop_sink c)) \<Longrightarrow>
   all_chans Q (registry_insert i h s)"
  by (auto simp: registry_insert_def upd_chan_eq Let_def split: option.splits intro: all_chans_map)

lemma Q_new_stream: "all_chans Q s \<Longrightarrow> all_chans Q (snd (new_stream i t k s))"
  by (simp add: new_stream_def all_chans_set Q_new)

lemma Q_drop_mux: "all_chans Q s \<Longrightarrow> all_chans Q (drop_mux s)"
  by (simp add: drop_mux_eq all_chans_map Q_drop_stream)

lemma Q_reader_open:
  assumes "all_chans Q s"
    and "map_of (m_streams s) (stream_id f) = None \<or> (\<forall>c. Q c \<longrightarrow> Q (drop_sink c))"
  shows "all_chans Q (reader_open f s)"
proof -
  obtain h s1 where hs: "new_stream (stream_id f) (snd (parse_open_target (from_utf8_lossy (payload f))))
      (fst (parse_open_target (from_utf8_lossy (payload f)))) s = (h, s1)"
    by (meson surj_pair)
  have "all_chans Q s1" "m_streams s1 = m_streams s"
    using Q_new_stream [OF assms(1), of "stream_id f" _ _] hs by (auto simp: new_stream_def dest: sym)
  then show ?thesis
    using assms(2) hs
    by (auto simp: reader_open_def split_beta upd_chan_eq Let_def
        intro!: Q_reader_stop Q_insert all_chans_map Q_discard)
qed

lemma Q_reader_data:
  assumes "all_chans Q s"
  shows "all_chans Q (reader_data f s)"
proof (cases "map_of (m_streams s) (stream_id f)")
  case None
  then show ?thesis using assms by (simp add: reader_data_def)
next
  case (Some h)
  show ?thesis
  proof (cases "m_chans s h")
    case None
    then show ?thesis using assms Some by (simp add: reader_data_def)
  next
    case c: (Some c)
    then have "Q c"
      using assms by (simp add: all_chans_def)
    then show ?thesis
      using assms Some c Q_enqueue [of c "payload f"]
      by (auto simp: reader_data_def Q_remove upd_chan_def not_less intro!: all_chans_set)
  qed
qed

lemma Q_reader_window_update: "all_chans Q s \<Longrightarrow> all_chans Q (reader_window_update f s)"
  by (simp add: reader_window_update_def upd_chan_eq Let_def all_chans_map Q_add_permits split: option.splits)

lemma Q_reader_frame:
  assumes "all_chans Q s" and "fresh_event (EvRead f w i) s \<or> (\<forall>c. Q c \<longrightarrow> Q (drop_sink c))"
  shows "all_chans Q (reader_frame f w i s)"
  using assms Q_reader_open [of "s\<lparr>m_last_seen := w\<rparr>" f]
  by (auto simp: reader_frame_def Let_def fresh_event_def Q_reader_data Q_reader_window_update Q_remove
      Q_reader_stop)

lemma Q_writer_take:
  assumes "all_chans Q s" and "fresh_event EvWriterTake s \<or> (\<forall>c. Q c \<longrightarrow> Q (drop_sink c))"
  shows "all_chans Q (writer_take s)"
  using assms
  by (auto simp: writer_take_def fresh_event_def Let_def Q_remove split: list.splits command.splits
      intro!: Q_insert)

lemma Q_open_as: "all_chans Q s \<Longrightarrow> all_chans Q (snd (open_as k t w s))"
  using Q_new_stream [of "s\<lparr>m_next_id := m_next_id s + 2\<rparr>" "m_next_id s" t k]
  by (auto simp: open_as_def split_beta Let_def send_cmd_def upd_chan_eq
      intro!: all_chans_map Q_discard split: option.splits)

lemma Q_recv_finish:
  assumes "all_chans Q s" and "Q c"
  shows "all_chans Q (snd (recv_finish h c s))"
proof -
  have "Q (c\<lparr>c_consumed := 0, c_pending := None\<rparr>)" "Q (c\<lparr>c_pending := None\<rparr>)"
    using assms(2) Q_give Q_credit by blast+
  then show ?thesis
    using assms by (auto simp: recv_finish_def Let_def all_chans_def)
qed

lemma Q_recv: 
  assumes "all_chans Q s"
  shows "all_chans Q (snd (stream_recv h s))"
proof (cases "m_chans s h")
  case (Some c)
  then have "Q c"
    using assms by (simp add: all_chans_def)
  then show ?thesis
    using assms Some Q_dequeue [of c]
    by (auto simp: stream_recv_def Q_recv_finish split: option.splits sum.splits)
qed (simp add: stream_recv_def assms)

lemma Q_acquire: "all_chans Q s \<Longrightarrow> all_chans Q (snd (acquire_credit h n s))"
  by (auto simp: acquire_credit_def upd_chan_eq split: option.splits intro!: all_chans_map Q_take_permits)

lemma Q_reader_pc:
  assumes "all_chans Q s"
  shows "reader_cmd_sent c s = Some t \<Longrightarrow> all_chans Q t"
    and "reader_incoming_sent h s = Some t \<Longrightarrow> all_chans Q t"
    and "all_chans Q (reader_cancel s)"
  using assms
  by (auto simp: reader_cmd_sent_def send_cmd_def reader_incoming_sent_def reader_cancel_def upd_chan_eq
      split: if_splits reader_pc.splits intro!: Q_reader_stop all_chans_map Q_drop_stream)

lemma Q_ticks:
  assumes "all_chans Q s"
  shows "all_chans Q (keepalive_tick w i s)" and "keepalive_send w s = Some t \<Longrightarrow> all_chans Q t"
    and "all_chans Q (watchdog_tick w s)"
  using assms
  by (auto simp: keepalive_tick_def keepalive_send_def watchdog_tick_def Q_close_all split: if_splits)

lemma Q_open_kind: "all_chans Q s \<Longrightarrow> all_chans Q (snd (open_kind k t s))"
  by (auto simp: open_kind_def mux_open_def mux_open_datagram_def mux_open_icmp_def Q_open_as
      split: stream_kind.splits)

lemma Q_queues:
  assumes "all_chans Q s"
  shows "all_chans Q (snd (mux_accept s))" and "all_chans Q (snd (send_cmd c s))"
    and "all_chans Q (snd (stream_close h s))"
  using assms by (auto simp: mux_accept_def send_cmd_def stream_close_def split: list.splits option.splits)

lemma Q_drop: "all_chans Q s \<Longrightarrow> all_chans Q (upd_chan h drop_stream s)"
  by (simp add: upd_chan_eq all_chans_map Q_drop_stream)

theorem Q_event:
  assumes Q: "all_chans Q s" and e: "mux_event e s = Some t"
    and "fresh_event e s \<or> (\<forall>c. Q c \<longrightarrow> Q (drop_sink c))"
  shows "all_chans Q t"
proof (cases e)
  case (EvRead f w i)
  then show ?thesis using assms Q_reader_frame [of s f w i] by (auto split: if_splits)
next
  case EvReaderCmd
  then show ?thesis using e Q_reader_pc(1) [OF Q] by (auto split: reader_pc.splits)
next
  case EvReaderIncoming
  then show ?thesis using e Q_reader_pc(2) [OF Q] by (auto split: reader_pc.splits)
next
  case EvWriterTake
  then show ?thesis using assms Q_writer_take [of s] by (auto split: if_splits)
qed (use e Q in \<open>auto dest!: finishedD split: if_splits writer_pc.splits
      intro: Q_reader_stop Q_reader_pc(3) Q_writer_stop Q_ticks Q_open_kind Q_queues Q_acquire Q_recv
        Q_drop Q_drop_mux\<close>)

end

lemmas chan_ops =
  drop_sink_def drop_stream_def discard_def new_chan_def add_permits_def take_permits_def enqueue_def

interpretation bounded: chan_invariant chan_ok
proof unfold_locales
  show "chan_ok c'" if "chan_ok c" "recv_dequeue c = Some (Ok c')" for c c'
    using that by (auto simp: chan_ok_def recv_dequeue_def split: option.splits list.splits if_splits)
qed (auto simp: chan_ok_def chan_ops try_send_full_def)

interpretation closable: chan_invariant window_ok
proof unfold_locales
  show "window_ok c'" if "window_ok c" "recv_dequeue c = Some (Ok c')" for c c'
    using that by (auto simp: window_ok_def recv_dequeue_def split: option.splits list.splits if_splits)
qed (auto simp: window_ok_def chan_ops)

subsection \<open>The registry invariant, event by event\<close>

lemma reg_inv_same [simp]:
  "reg_inv X (s\<lparr>m_cmds := m_cmds s @ [CmdWrite f]\<rparr>) = reg_inv X s"
  "reg_inv X (s\<lparr>m_incoming := a4\<rparr>) = reg_inv X s"
  "reg_inv X (s\<lparr>m_incoming_open := a5\<rparr>) = reg_inv X s"
  "reg_inv X (s\<lparr>m_reader := a6\<rparr>) = reg_inv X s"
  "reg_inv X (s\<lparr>m_writer := a7\<rparr>) = reg_inv X s"
  "reg_inv X (s\<lparr>m_closed := a8\<rparr>) = reg_inv X s"
  "reg_inv X (s\<lparr>m_next_id := a9\<rparr>) = reg_inv X s"
  "reg_inv X (s\<lparr>m_rtt := b1\<rparr>) = reg_inv X s"
  "reg_inv X (s\<lparr>m_ka := b2\<rparr>) = reg_inv X s"
  "reg_inv X (s\<lparr>m_last_seen := b3\<rparr>) = reg_inv X s"
  "reg_inv X (s\<lparr>m_last_ping_millis := b4\<rparr>) = reg_inv X s"
  "reg_inv X (s\<lparr>m_sent := b5\<rparr>) = reg_inv X s"
  by (simp_all add: reg_inv_def tracked_def)

lemma reg_inv_upd_chan:
  "reg_inv X s \<Longrightarrow> (\<And>c. c_tx_alive (f c) = c_tx_alive c) \<Longrightarrow> reg_inv X (upd_chan h f s)"
  by (simp add: upd_chan_eq reg_inv_map_chans)

lemma reg_inv_set_chan:
  assumes "reg_inv X s" and "m_chans s h = Some c" and "c_tx_alive d = c_tx_alive c"
  shows "reg_inv X (s\<lparr>m_chans := (m_chans s)(h \<mapsto> d)\<rparr>)"
proof -
  have "s\<lparr>m_chans := (m_chans s)(h \<mapsto> d)\<rparr> =
      upd_chan h (\<lambda>c'. if c_tx_alive c' = c_tx_alive d then d else c') s"
    using assms by (simp add: upd_chan_def)
  then show ?thesis
    using assms(1) by (simp add: reg_inv_upd_chan)
qed

lemma tx_alive_kept:
  "c_tx_alive (drop_stream c) = c_tx_alive c"
  "c_tx_alive (add_permits n c) = c_tx_alive c"
  "c_tx_alive (take_permits n c) = c_tx_alive c"
  "c_tx_alive (enqueue p c) = c_tx_alive c"
  by (simp_all add: chan_ops)

lemma reg_inv_reader_stop: "reg_inv {} s \<Longrightarrow> reg_inv {} (reader_stop s)"
  by (simp add: reader_stop_def reg_inv_close_all_streams)

lemma reg_inv_reader_open: 
  assumes "reg_inv {} s"
  shows "reg_inv {} (reader_open f s)"
proof -
  obtain k t where kt: "parse_open_target (from_utf8_lossy (payload f)) = (k, t)"
    by (meson surj_pair)
  obtain h s1 where hs: "new_stream (stream_id f) t k s = (h, s1)"
    by (meson surj_pair)
  have "reg_inv {h} s1"
    by (rule reg_inv_new_stream [OF assms hs])
  then show ?thesis
    by (simp add: reader_open_def kt hs reg_inv_discard reg_inv_reader_stop reg_inv_insert)
qed

lemma reg_inv_reader_data: "reg_inv {} s \<Longrightarrow> reg_inv {} (reader_data f s)"
  by (simp add: reader_data_def reg_inv_remove_close reg_inv_upd_chan tx_alive_kept split: option.splits)

lemma reg_inv_reader_frame: 
  assumes "reg_inv {} s"
  shows "reg_inv {} (reader_frame f w i s)"
  using assms reg_inv_reader_open [of "s\<lparr>m_last_seen := w\<rparr>" f] reg_inv_reader_data [of "s\<lparr>m_last_seen := w\<rparr>" f]
    reg_inv_remove_close [of "{}" "s\<lparr>m_last_seen := w\<rparr>" "stream_id f"] 
    reg_inv_reader_stop [of "s\<lparr>m_last_seen := w\<rparr>"]
  by (auto simp: reader_frame_def Let_def reader_window_update_def reg_inv_upd_chan tx_alive_kept
      split: option.splits)

lemma reg_inv_writer_take: 
  assumes "reg_inv {} s"
  shows "reg_inv {} (writer_take s)"
proof (cases "m_cmds s")
  case (Cons c cs)
  then show ?thesis
  proof (cases c)
    case (CmdOpen i t h)
    then show ?thesis
      using Cons reg_inv_insert [OF reg_inv_pop_open [OF assms]] by (simp add: writer_take_def)
  next
    case (CmdWrite f)
    then have "reg_inv {} (s\<lparr>m_cmds := cs\<rparr>)"
      using assms Cons by (simp add: reg_inv_def tracked_def)
    then show ?thesis
      using Cons CmdWrite reg_inv_remove_close by (simp add: writer_take_def Let_def)
  qed
qed (simp add: writer_take_def assms)

lemma reg_inv_open_as:
  assumes "reg_inv {} s"
  shows "reg_inv {} (snd (open_as k t w s))"
proof -
  let ?s = "s\<lparr>m_next_id := m_next_id s + 2\<rparr>"
  obtain h s1 where hs: "new_stream (m_next_id s) t k ?s = (h, s1)"
    by (meson surj_pair)
  have "reg_inv {h} s1"
    using reg_inv_new_stream [OF _ hs] assms by simp
  then show ?thesis
    using assms by (simp add: open_as_def hs send_cmd_def reg_inv_discard reg_inv_push_open)
qed

lemma reg_inv_recv:
  assumes "reg_inv {} s"
  shows "reg_inv {} (snd (stream_recv h s))"
proof (cases "m_chans s h")
  case (Some c)
  have "reg_inv {} (snd (recv_finish h c' s))" if "recv_dequeue c = Some (Ok c')" for c'
  proof -
    have "c_tx_alive c' = c_tx_alive c"
      using that by (auto simp: recv_dequeue_def split: option.splits list.splits if_splits)
    then show ?thesis
      using reg_inv_set_chan [OF assms Some]
        reg_inv_set_chan [of "{}" "s\<lparr>m_cmds := m_cmds s @ [CmdWrite x]\<rparr>" h c for x] assms Some
      by (simp add: recv_finish_def Let_def)
  qed
  then show ?thesis
    using assms Some by (auto simp: stream_recv_def split: option.splits sum.splits)
qed (simp add: stream_recv_def assms)

lemma reg_inv_queues:
  assumes "reg_inv {} s"
  shows "reg_inv {} (snd (mux_accept s))" and "reg_inv {} (snd (send_cmd (CmdWrite f) s))"
    and "reg_inv {} (snd (stream_close h s))" and "reg_inv {} (snd (acquire_credit h n s))"
  using assms
  by (auto simp: mux_accept_def send_cmd_def stream_close_def acquire_credit_def reg_inv_upd_chan tx_alive_kept
      split: list.splits option.splits)

lemma reg_inv_reader_pc:
  assumes "reg_inv {} s"
  shows "reader_cmd_sent c s = Some t \<Longrightarrow> cmd_handles [c] = [] \<Longrightarrow> reg_inv {} t"
    and "reader_incoming_sent h s = Some t \<Longrightarrow> reg_inv {} t"
    and "reg_inv {} (reader_cancel s)"
  using assms
  by (auto simp: reader_cmd_sent_def send_cmd_def reader_incoming_sent_def reader_cancel_def
      reg_inv_upd_chan tx_alive_kept split: if_splits reader_pc.splits intro!: reg_inv_reader_stop)
    (cases c; simp)

lemma reg_inv_ticks:
  assumes "reg_inv {} s"
  shows "reg_inv {} (keepalive_tick w i s)" and "keepalive_send w s = Some t \<Longrightarrow> reg_inv {} t"
    and "reg_inv {} (watchdog_tick w s)"
  using assms
  by (auto simp: keepalive_tick_def keepalive_send_def watchdog_tick_def reg_inv_close_all_streams
      split: if_splits)

lemma reg_inv_open_kind: "reg_inv {} s \<Longrightarrow> reg_inv {} (snd (open_kind k t s))"
  by (auto simp: open_kind_def mux_open_def mux_open_datagram_def mux_open_icmp_def reg_inv_open_as
      split: stream_kind.splits)

lemma reg_inv_drops:
  assumes "reg_inv {} s"
  shows "reg_inv {} (upd_chan h drop_stream s)" and "reg_inv {} (drop_mux s)"
  using assms by (simp_all add: drop_mux_eq reg_inv_upd_chan reg_inv_map_chans tx_alive_kept)

lemma reg_inv_event:
  assumes inv: "reg_inv {} s" "ctl_inv s" and e: "mux_event e s = Some t"
  shows "reg_inv {} t"
proof (cases e)
  case (EvRead f w i)
  then show ?thesis using assms reg_inv_reader_frame by (auto split: if_splits)
next
  case EvReaderCmd
  then show ?thesis
    using e inv(2) reg_inv_reader_pc(1) [OF inv(1)] by (auto simp: ctl_inv_def split: reader_pc.splits)
next
  case EvReaderIncoming
  then show ?thesis using e reg_inv_reader_pc(2) [OF inv(1)] by (auto split: reader_pc.splits)
qed (use e inv(1) in \<open>auto dest!: finishedD split: if_splits writer_pc.splits
      intro: reg_inv_reader_stop reg_inv_reader_pc(3) reg_inv_writer_take reg_inv_writer_stop reg_inv_ticks
        reg_inv_open_kind reg_inv_queues reg_inv_recv reg_inv_drops\<close>)

subsection \<open>The control invariant\<close>

text \<open>Which fields the operations on the registry leave alone.\<close>

lemma registry_frame [simp]:
  "m_cmds (registry_insert i h s) = m_cmds s"
  "m_cmd_open (registry_insert i h s) = m_cmd_open s"
  "m_incoming (registry_insert i h s) = m_incoming s"
  "m_reader (registry_insert i h s) = m_reader s"
  "m_writer (registry_insert i h s) = m_writer s"
  "m_closed (registry_insert i h s) = m_closed s"
  "m_streams (registry_insert i h s) = AList.update i h (m_streams s)"
  "m_cmds (registry_remove_close i s) = m_cmds s"
  "m_cmd_open (registry_remove_close i s) = m_cmd_open s"
  "m_incoming (registry_remove_close i s) = m_incoming s"
  "m_reader (registry_remove_close i s) = m_reader s"
  "m_writer (registry_remove_close i s) = m_writer s"
  "m_closed (registry_remove_close i s) = m_closed s"
  by (auto simp: registry_insert_def registry_remove_close_def upd_chan_eq Let_def split: option.splits)

lemma registry_remove_streams [simp]:
  "m_streams (registry_remove_close i s) = AList.delete i (m_streams s)"
  by (auto simp: registry_remove_close_def upd_chan_eq Let_def map_of_eq_None_iff delete_id
      split: option.splits)

lemma teardown_frame [simp]:
  "m_streams (close_all_streams s) = []"
  "m_cmds (close_all_streams s) = m_cmds s"
  "m_cmd_open (close_all_streams s) = m_cmd_open s"
  "m_incoming (close_all_streams s) = m_incoming s"
  "m_reader (close_all_streams s) = m_reader s"
  "m_writer (close_all_streams s) = m_writer s"
  "m_closed (close_all_streams s) = m_closed s"
  by (simp_all add: close_all_streams_eq)

lemma ctl_inv_stops:
  assumes "ctl_inv s"
  shows "ctl_inv (reader_stop s)" and "ctl_inv (writer_stop s)" and "ctl_inv (watchdog_tick w s)"
    and "ctl_inv (reader_cancel s)" and "ctl_inv (drop_mux s)"
  using assms
  by (auto simp: ctl_inv_def reader_stop_def writer_stop_def watchdog_tick_def reader_cancel_def
      drop_mux_eq upd_chan_eq close_queued_eq split: reader_pc.splits)

lemma ctl_inv_upd_chan [simp]: "ctl_inv (map_chans P f s) = ctl_inv s"
  by (simp add: ctl_inv_def)

lemma ctl_inv_chans [simp]: "ctl_inv (s\<lparr>m_chans := c\<rparr>) = ctl_inv s"
  by (simp add: ctl_inv_def)

lemma ctl_inv_reader_frame:
  assumes "ctl_inv s" and "m_reader s = RReady"
  shows "ctl_inv (reader_frame f w i s)"
proof -
  let ?s = "s\<lparr>m_last_seen := w\<rparr>"
  have s: "ctl_inv ?s" "m_reader ?s = RReady"
    using assms by (simp_all add: ctl_inv_def)
  have "ctl_inv (reader_open f ?s)"
    using s by (auto simp: reader_open_def split_beta Let_def new_stream_def upd_chan_eq ctl_inv_def
        reader_stop_def)
  moreover have "ctl_inv (reader_data f ?s)"
    using s by (auto simp: reader_data_def ctl_inv_def upd_chan_eq split: option.splits)
  moreover have "ctl_inv (reader_window_update f ?s)"
    using s by (auto simp: reader_window_update_def Let_def upd_chan_eq split: option.splits)
  moreover have "ctl_inv (registry_remove_close i ?s)" for i
    using s by (auto simp: ctl_inv_def)
  moreover have "ctl_inv (?s\<lparr>m_reader := RSendCmd (CmdWrite g)\<rparr>)" "ctl_inv (?s\<lparr>m_rtt := r\<rparr>)" for g r
    using s by (auto simp: ctl_inv_def)
  ultimately show ?thesis
    using s(1) by (simp add: reader_frame_def Let_def ctl_inv_stops)
qed

lemma ctl_inv_send_cmd: "ctl_inv s \<Longrightarrow> ctl_inv (snd (send_cmd c s))"
  by (auto simp: ctl_inv_def send_cmd_def)

lemma ctl_inv_open_as: "ctl_inv s \<Longrightarrow> ctl_inv (snd (open_as k t w s))"
  by (auto simp: open_as_def split_beta Let_def new_stream_def upd_chan_eq send_cmd_def ctl_inv_def)

lemma ctl_inv_recv:
  assumes "ctl_inv s"
  shows "ctl_inv (snd (stream_recv h s))"
proof -
  have "ctl_inv (snd (recv_finish h c s))" for c
    using assms by (auto simp: recv_finish_def Let_def ctl_inv_def)
  then show ?thesis
    using assms by (simp add: stream_recv_def split: option.splits sum.splits)
qed

lemma ctl_inv_streams:
  assumes "ctl_inv s"
  shows "ctl_inv (snd (open_kind k t s))" and "ctl_inv (snd (mux_accept s))"
    and "ctl_inv (snd (acquire_credit h n s))" and "ctl_inv (snd (stream_close h s))"
proof -
  show "ctl_inv (snd (open_kind k t s))"
    using assms ctl_inv_open_as
    by (simp add: open_kind_def mux_open_def mux_open_datagram_def mux_open_icmp_def split: stream_kind.split)
  show "ctl_inv (snd (mux_accept s))"
    using assms by (auto simp: mux_accept_def ctl_inv_def split: list.split)
  show "ctl_inv (snd (acquire_credit h n s))"
    using assms by (simp add: acquire_credit_def upd_chan_eq split: option.split)
  show "ctl_inv (snd (stream_close h s))"
    using assms by (simp add: stream_close_def ctl_inv_send_cmd split: option.split)
qed

lemma ctl_inv_reader_cmd:
  assumes "ctl_inv s" and "m_reader s = RSendCmd c" and "reader_cmd_sent c s = Some t"
  shows "ctl_inv t"
proof -
  have "t = (snd (send_cmd c s))\<lparr>m_reader := RReady\<rparr>"
    using assms(3) by (auto simp: reader_cmd_sent_def split_beta split: option.splits)
  then show ?thesis
    using ctl_inv_send_cmd [OF assms(1)] by (simp add: ctl_inv_def)
qed

lemma ctl_inv_reader_incoming:
  assumes "ctl_inv s" and "m_reader s = RSendIncoming h" and "reader_incoming_sent h s = Some t"
  shows "ctl_inv t"
proof (cases "m_incoming_open s")
  case True
  then have "t = s\<lparr>m_incoming := m_incoming s @ [h], m_reader := RReady\<rparr>"
    "length (m_incoming s) < INCOMING_CAPACITY"
    using assms(3) by (simp_all add: reader_incoming_sent_def split: if_splits)
  then show ?thesis
    using assms(1) by (simp add: ctl_inv_def)
next
  case False
  then show ?thesis
    using assms(1,3) by (auto simp: reader_incoming_sent_def upd_chan_eq intro: ctl_inv_stops)
qed

lemma ctl_inv_writer_take:
  assumes "ctl_inv s" and "m_writer s = WReady"
  shows "ctl_inv (writer_take s)"
proof (cases "m_cmds s")
  case (Cons c cs)
  have open': "m_cmd_open s"
    using assms by (simp add: ctl_inv_def)
  show ?thesis
    using assms Cons open' by (cases c) (simp_all add: writer_take_def ctl_inv_def Let_def)
qed (simp add: writer_take_def assms)

lemma ctl_inv_keepalive:
  assumes "ctl_inv s"
  shows "ctl_inv (keepalive_tick w i s)" and "keepalive_send w s = Some t \<Longrightarrow> ctl_inv t"
  using assms by (auto simp: keepalive_tick_def keepalive_send_def ctl_inv_def split: if_splits)

lemma ctl_inv_event:
  assumes inv: "ctl_inv s" and e: "mux_event e s = Some t"
  shows "ctl_inv t"
proof (cases e)
  case (EvRead f w i)
  then show ?thesis using assms ctl_inv_reader_frame by (auto split: if_splits)
next
  case EvReaderCmd
  then show ?thesis using e inv ctl_inv_reader_cmd by (auto split: reader_pc.splits)
next
  case EvReaderIncoming
  then show ?thesis using e inv ctl_inv_reader_incoming by (auto split: reader_pc.splits)
next
  case EvWriterTake
  then show ?thesis using e inv ctl_inv_writer_take by (auto split: if_splits)
next
  case EvWriterWrote
  then show ?thesis
    using e inv by (simp add: ctl_inv_def split: writer_pc.splits) auto
next
  case (EvDropStream h)
  then show ?thesis using e inv by (auto simp: upd_chan_eq)
qed (use e inv in \<open>auto dest!: finishedD split: if_splits writer_pc.splits
      intro: ctl_inv_stops ctl_inv_streams ctl_inv_recv ctl_inv_send_cmd ctl_inv_keepalive\<close>)

subsection \<open>Reachable states\<close>

lemma initialD:
  assumes "initial s"
  obtains l n role ka now where "s = mux_init l n role ka now"
  using assms by (auto simp: initial_def start_with_keepalive_def try_bind_eq_Inr split: if_splits)

lemma mux_init_inv: "mux_inv (mux_init l n role ka now)"
  by (simp add: mux_inv_def reg_inv_def tracked_def all_chans_def ctl_inv_def mux_init_def)

lemma mux_inv_event: "mux_inv s \<Longrightarrow> mux_event e s = Some t \<Longrightarrow> mux_inv t"
  using reg_inv_event ctl_inv_event bounded.Q_event
  by (auto simp: mux_inv_def chan_ok_def drop_sink_def)

lemma reachable_inv: "reachable s \<Longrightarrow> mux_inv s"
  by (induction rule: reachable.induct) (auto elim: initialD intro: mux_init_inv mux_inv_event)

lemma fresh_reachable: "reachable_fresh s \<Longrightarrow> reachable s"
  by (induction rule: reachable_fresh.induct) (auto intro: reachable.intros)

lemma reachable_fresh_windows: "reachable_fresh s \<Longrightarrow> all_chans window_ok s"
proof (induction rule: reachable_fresh.induct)
  case (fresh_start s)
  then show ?case
    by (auto elim!: initialD simp: all_chans_def mux_init_def)
qed (use closable.Q_event in blast)

end
