(* ===== verification/MuxProps.thy ===== *)
theory MuxProps
  imports MuxRun
begin

text \<open>
  What the runs of the multiplexer guarantee: bounded memory, in-order exactly-once delivery on each
  stream, isolation between streams, the chunking of \<open>send\<close>, and a teardown that leaves no task
  waiting; and the run that shows where the teardown misses a displaced stream.
\<close>

section \<open>Lemmas\<close>

subsection \<open>Concrete runs\<close>

definition sample_hello :: hello where
  "sample_hello = hello_new 1 1 (CAP_DATAGRAM OR CAP_FLOWCONTROL)"

definition sample_neg :: negotiated where
  "sample_neg = \<lparr>n_version = 1, n_capabilities = CAP_DATAGRAM OR CAP_FLOWCONTROL,
     local_idle_tolerance = DEFAULT_IDLE_TOLERANCE, peer_idle_tolerance = DEFAULT_IDLE_TOLERANCE\<rparr>"

definition sample :: mux where
  "sample = mux_init sample_hello sample_neg RoleServer keepalive_default 7"

definition data_frame :: "u32 \<Rightarrow> bytes \<Rightarrow> frame" where
  "data_frame i p = \<lparr>stream_id = i, ftype = ft_code FtData, payload = p\<rparr>"

lemma sample_negotiates: "negotiate sample_hello sample_hello = Ok sample_neg"
  by (simp add: sample_hello_def sample_neg_def hello_new_def negotiate_def Let_def cap_defs)

lemma sample_initial: "initial sample"
proof -
  have "start_with_keepalive sample_hello RoleServer keepalive_default (Some (Ok ()))
          (Some (Ok (hello_frame sample_hello))) 7 = Ok sample"
    using decode_encode_hello [of sample_hello "[]"]
    by (simp add: start_with_keepalive_def hello_frame_def sample_negotiates sample_def del: ft_code.simps)
  then show ?thesis
    unfolding initial_def by blast
qed

lemma reachable_run: "reachable s \<Longrightarrow> mux_run es s = Some t \<Longrightarrow> reachable t"
  by (induction es arbitrary: s) (auto split: option.splits intro: reachable.step)

fun all_fresh :: "event list \<Rightarrow> mux \<Rightarrow> bool" where
  "all_fresh [] s = True"
| "all_fresh (e # es) s =
     (fresh_event e s \<and> (case mux_event e s of None \<Rightarrow> True | Some t \<Rightarrow> all_fresh es t))"

lemma reachable_fresh_run:
  "reachable_fresh s \<Longrightarrow> all_fresh es s \<Longrightarrow> mux_run es s = Some t \<Longrightarrow> reachable_fresh t"
  by (induction es arbitrary: s) (auto split: option.splits intro: reachable_fresh.fresh_step)

definition busy_run :: "event list" where
  "busy_run = [EvRead (open_frame 1 ''a:1'') 8 0, EvReaderIncoming, EvAccept,
     EvRead (data_frame 1 [1, 2, 3]) 9 0, EvRead (data_frame 1 [4]) 9 0]"

definition busy :: mux where
  "busy = (case mux_run busy_run sample of None \<Rightarrow> undefined | Some s \<Rightarrow> s)"

lemmas capacities =
  MAX_CONCURRENT_PEER_STREAMS_def MAX_BUFFERED_def DATA_CAPACITY_def INCOMING_CAPACITY_def CMD_CAPACITY_def

lemma open_sample: "parse_open_target (from_utf8_lossy (as_bytes ''a:1'')) = (Tcp, ''a:1'')"
  by code_simp

lemmas run_defs =
  capacities reader_frame_def reader_open_def Let_def data_frame_def open_frame_def open_sample
  new_stream_def registry_insert_def reader_data_def try_send_full_def enqueue_def upd_chan_def
  fresh_event_def reader_incoming_sent_def mux_accept_def finished_def

lemma busy_run_ok: "mux_run busy_run sample \<noteq> None \<and> all_fresh busy_run sample"
  by (simp add: busy_run_def sample_def mux_init_def run_defs new_chan_def del: ft_code.simps)

lemma busy_reachable_fresh: "reachable_fresh busy"
  using busy_run_ok reachable_fresh_run [OF reachable_fresh.fresh_start [OF sample_initial]]
  by (auto simp: busy_def)

subsection \<open>Delivery on one stream\<close>

text \<open>What a stream has received and not yet given out, oldest first.\<close>

definition undelivered :: "chan \<Rightarrow> bytes list" where
  "undelivered c = (case c_pending c of None \<Rightarrow> [] | Some p \<Rightarrow> [p]) @ c_queue c"

lemma undelivered_dequeue:
  "recv_dequeue c = Some (Ok c') \<Longrightarrow> undelivered c' = undelivered c \<and> c_pending c' \<noteq> None"
  by (auto simp: recv_dequeue_def undelivered_def split: option.splits list.splits if_splits)

lemma recv_finish_cases:
  assumes "c_pending c = Some p" and "recv_finish h c s = (r, t)"
  obtains (wait) "r = None" and "m_chans t h = Some c"
  | (out) d where "r = Some (Ok p)" and "m_chans t h = Some d" and "undelivered c = p # undelivered d"
  using assms by (auto simp: recv_finish_def undelivered_def Let_def split: if_splits)

lemma recv_others: "k \<noteq> h \<Longrightarrow> m_chans (snd (stream_recv h s)) k = m_chans s k"
  by (auto simp: stream_recv_def recv_finish_def Let_def split: option.splits sum.splits)

lemma recv_fifo_aux:
  assumes "m_chans s h = Some c" and "stream_recv h s = (r, t)"
  shows "\<exists>d. m_chans t h = Some d \<and>
    (case r of None \<Rightarrow> undelivered d = undelivered c
     | Some (Inr b) \<Rightarrow> undelivered c = b # undelivered d
     | Some (Inl e) \<Rightarrow> e = EClosed \<and> undelivered c = [] \<and> d = c \<and> \<not> c_tx_alive c)"
proof (cases "recv_dequeue c")
  case None
  then show ?thesis
    using assms by (auto simp: stream_recv_def)
next
  case (Some x)
  show ?thesis
  proof (cases x)
    case (Inl e)
    then have "e = EClosed" "undelivered c = []" "\<not> c_tx_alive c"
      using Some by (auto simp: recv_dequeue_def undelivered_def split: option.splits list.splits if_splits)
    then show ?thesis
      using assms Some Inl by (auto simp: stream_recv_def)
  next
    case (Inr c')
    then have c': "undelivered c' = undelivered c" and "c_pending c' \<noteq> None"
      using undelivered_dequeue Some by auto
    then obtain p where "c_pending c' = Some p"
      by auto
    moreover have "recv_finish h c' s = (r, t)"
      using assms Some Inr by (simp add: stream_recv_def)
    ultimately show ?thesis
      using c' by (cases rule: recv_finish_cases) auto
  qed
qed

lemma reader_data_chan:
  assumes "map_of (m_streams s) (stream_id f) = Some h" and "m_chans s h = Some c"
  shows "if MAX_BUFFERED < c_buffered c + length (payload f) \<or> try_send_full c
    then m_chans (reader_data f s) h = Some (sink_shut c)
    else m_chans (reader_data f s) h = Some (enqueue (payload f) c)"
  using assms by (simp add: reader_data_def registry_remove_close_def upd_chan_def Let_def)

subsection \<open>Teardown\<close>

fun send_finished :: "send_pc \<Rightarrow> bool" where
  "send_finished SendOk = True"
| "send_finished (SendErr e) = True"
| "send_finished _ = False"

definition cancels :: "mux \<Rightarrow> event list" where
  "cancels s = (if m_reader s = RDone then [] else [EvReaderCancel]) @
               (if m_writer s = WDone then [] else [EvWriterCancel])"

lemma cancels_run:
  assumes "m_closed s"
  obtains t where "mux_run (cancels s) s = Some t" "all_fresh (cancels s) s"
    "m_reader t = RDone" "m_writer t = WDone"
proof -
  have r: "m_reader (reader_cancel s) = RDone" "m_closed (reader_cancel s)"
    "m_writer (reader_cancel s) = m_writer s"
    by (simp_all add: reader_cancel_def reader_stop_def upd_chan_eq split: reader_pc.split)
  have w: "m_writer (writer_stop u) = WDone" "m_reader (writer_stop u) = m_reader u" for u
    by (simp_all add: writer_stop_def close_queued_eq)
  let ?s = "if m_reader s = RDone then s else reader_cancel s"
  let ?t = "if m_writer s = WDone then ?s else writer_stop ?s"
  show ?thesis
    by (rule that [of ?t]) (use assms r w in \<open>auto simp: cancels_def fresh_event_def\<close>)
qed

text \<open>Once both tasks are gone, every wait of a user of the session has ended.\<close>

definition nobody_waits :: "mux \<Rightarrow> bool" where
  "nobody_waits s \<longleftrightarrow>
     fst (mux_accept s) \<noteq> None \<and>
     (\<forall>k target wire. fst (open_as k target wire s) = Some (Err EClosed)) \<and>
     (\<forall>h c. m_chans s h = Some c \<longrightarrow>
        fst (stream_recv h s) \<noteq> None \<and> fst (stream_close h s) = Some (Err EClosed) \<and>
        (c_rx_alive c \<longrightarrow> (\<forall>pc. case send_step h pc s of (pc', s') \<Rightarrow>
           send_finished (fst (send_step h pc' s')))))"

lemma recv_when_down:
  assumes "m_chans s h = Some c" and "\<not> c_tx_alive c" and "\<not> m_cmd_open s"
  shows "fst (stream_recv h s) \<noteq> None"
  using assms
  by (auto simp: stream_recv_def recv_dequeue_def recv_finish_def Let_def
      split: option.splits list.splits sum.splits)

lemma send_when_down:
  assumes "m_chans s h = Some c" and "c_window c \<noteq> None \<longrightarrow> c_window_closed c" and "\<not> m_cmd_open s"
  shows "case send_step h pc s of (pc', s') \<Rightarrow> send_finished (fst (send_step h pc' s'))"
proof -
  have push: "send_step h (SendPush f ps) s = (SendErr EClosed, s)" for f ps
    using assms(3) by (simp add: send_cmd_def)
  have credit: "acquire_credit h n s = (Some (Err EClosed), s) \<or> acquire_credit h n s = (Some (Ok ()), s)" for n
    using assms(1,2) by (auto simp: acquire_credit_def split: option.splits)
  have first: "send_step h (SendCredit ((n, f) # ps)) s = (SendErr EClosed, s) \<or>
      send_step h (SendCredit ((n, f) # ps)) s = (SendPush f ps, s)" for n f ps
    using credit [of n] by auto
  show ?thesis
  proof (cases pc)
    case (SendCredit ps)
    show ?thesis
    proof (cases ps)
      case (Cons x xs)
      then show ?thesis
        using first [of "fst x" "snd x" xs] SendCredit push by (auto simp del: send_step.simps) auto
    qed (use SendCredit in simp)
  qed (use push in auto)
qed

lemma down_nobody_waits:
  assumes "reachable_fresh s" and "m_reader s = RDone" and "m_writer s = WDone"
  shows "closed_receiver s \<and> m_streams s = [] \<and> m_cmds s = [] \<and> nobody_waits s"
proof -
  have inv: "reg_inv {} s" "ctl_inv s"
    using reachable_inv [OF fresh_reachable [OF assms(1)]] by (simp_all add: mux_inv_def)
  have ctl: "m_closed s" "m_streams s = []" "m_cmds s = []" "\<not> m_cmd_open s"
    using inv(2) assms(2,3) by (auto simp: ctl_inv_def)
  have dead: "\<not> c_tx_alive c" if "m_chans s h = Some c" for h c
    using reg_inv_alive [OF inv(1) that] ctl by (simp add: tracked_def)
  have shut: "c_rx_alive c \<Longrightarrow> c_window c \<noteq> None \<longrightarrow> c_window_closed c" if "m_chans s h = Some c" for h c
    using reachable_fresh_windows [OF assms(1)] that dead [OF that]
    unfolding all_chans_def window_ok_def by blast
  have "fst (open_as k target wire s) = Some (Err EClosed)" for k target wire
    using ctl by (simp add: open_as_def new_stream_def send_cmd_def)
  moreover have "fst (mux_accept s) \<noteq> None"
    using assms(2) by (simp add: mux_accept_def split: list.split)
  moreover have "fst (stream_close h s) = Some (Err EClosed)" for h
    using ctl by (simp add: stream_close_def send_cmd_def split: option.split)
  moreover have "case send_step h pc s of (pc', s') \<Rightarrow> send_finished (fst (send_step h pc' s'))"
    if "m_chans s h = Some c" "c_rx_alive c" for h c pc
    using send_when_down [OF that(1) shut [OF that] ctl(4)] .
  moreover have "fst (stream_recv h s) \<noteq> None" if "m_chans s h = Some c" for h c
    using recv_when_down [OF that dead [OF that] ctl(4)] .
  ultimately show ?thesis
    using ctl(1-3) by (simp add: nobody_waits_def closed_receiver_def)
qed

subsection \<open>Closure latches\<close>

lemma closed_kept:
  "m_closed (map_chans P f s) = m_closed s"
  "m_closed s \<Longrightarrow> m_closed (reader_stop s)"
  "m_closed (writer_stop s)"
  "m_closed s \<Longrightarrow> m_closed (watchdog_tick w s)"
  "m_closed (drop_mux s) = m_closed s"
  "m_closed (reader_cancel s)"
  "m_closed (snd (stream_recv h s)) = m_closed s"
  "m_closed (snd (open_as k t w' s)) = m_closed s"
  "m_closed (snd (acquire_credit h n s)) = m_closed s"
  "m_closed (snd (send_cmd c s)) = m_closed s"
  "m_closed (snd (mux_accept s)) = m_closed s"
  "m_closed (writer_take s) = m_closed s"
  by (auto simp: reader_stop_def writer_stop_def watchdog_tick_def drop_mux_eq reader_cancel_def
      stream_recv_def recv_finish_def open_as_def new_stream_def send_cmd_def upd_chan_eq acquire_credit_def
      mux_accept_def writer_take_def Let_def split: option.splits sum.splits list.splits command.splits)

lemma closed_reader_frame: "m_closed s \<Longrightarrow> m_closed (reader_frame f w i s)"
  by (auto simp: reader_frame_def Let_def reader_open_def split_beta new_stream_def reader_stop_def
      reader_data_def reader_window_update_def upd_chan_eq split: option.splits)

lemma closed_event: "mux_event e s = Some t \<Longrightarrow> m_closed s \<Longrightarrow> m_closed t"
  by (cases e)
    (auto simp: closed_kept closed_reader_frame reader_cmd_sent_def send_cmd_def reader_incoming_sent_def
      keepalive_tick_def keepalive_send_def upd_chan_eq open_kind_def mux_open_def mux_open_datagram_def
      mux_open_icmp_def stream_close_def dest!: finishedD
      split: if_splits reader_pc.splits writer_pc.splits stream_kind.splits option.splits)

lemma closed_run: "mux_run es s = Some t \<Longrightarrow> m_closed s \<Longrightarrow> m_closed t"
  by (induction es arbitrary: s) (auto split: option.splits dest: closed_event)

subsection \<open>Isolation\<close>

lemma handles_differ:
  assumes "distinct (map snd xs)" and "map_of xs i = Some a" and "map_of xs j = Some b" and "i \<noteq> j"
  shows "a \<noteq> b"
proof
  assume "a = b"
  then have "(i, a) \<in> set xs" "(j, a) \<in> set xs"
    using assms map_of_SomeD by fastforce+
  then show False
    using assms(1,4) by (metis Pair_inject distinct_map inj_onD snd_conv)
qed

lemma remove_close_other:
  assumes "reg_inv X s" and "j \<noteq> i" and "map_of (m_streams s) j = Some h"
  shows "map_of (m_streams (registry_remove_close i s)) j = Some h"
    and "m_chans (registry_remove_close i s) h = m_chans s h"
  using assms handles_differ [OF reg_invD(2) [OF assms(1)], of i _ j h]
  by (auto simp: registry_remove_close_def upd_chan_def Let_def delete_conv' split: option.splits)

lemma reader_open_other:
  assumes "reg_inv {} s" and "j \<noteq> stream_id f" and "map_of (m_streams s) j = Some h"
    and "m_reader (reader_open f s) \<noteq> RDone"
  shows "map_of (m_streams (reader_open f s)) j = Some h" and "m_chans (reader_open f s) h = m_chans s h"
proof -
  have "h \<in> set (tracked s)"
    using map_of_SomeD [OF assms(3)] by (force simp: tracked_def)
  then have "h \<noteq> m_next_handle s"
    using assms(1) by (auto simp: reg_inv_def)
  then show "map_of (m_streams (reader_open f s)) j = Some h" "m_chans (reader_open f s) h = m_chans s h"
    using assms handles_differ [OF reg_invD(2) [OF assms(1)], of "stream_id f" _ j h]
    by (auto simp: reader_open_def split_beta Let_def new_stream_def reader_stop_def registry_insert_def
        upd_chan_def update_conv' split: option.splits if_splits)
qed

lemma upd_other:
  assumes "reg_inv X s" and "j \<noteq> i" and "map_of (m_streams s) j = Some h" and "map_of (m_streams s) i = Some k"
  shows "m_chans (upd_chan k g s) h = m_chans s h" and "m_streams (upd_chan k g s) = m_streams s"
  using assms handles_differ [OF reg_invD(2) [OF assms(1)], of i k j h] by (auto simp: upd_chan_def)

lemma reader_data_other:
  assumes "reg_inv {} s" and "j \<noteq> stream_id f" and "map_of (m_streams s) j = Some h"
  shows "map_of (m_streams (reader_data f s)) j = Some h" and "m_chans (reader_data f s) h = m_chans s h"
  using assms remove_close_other [OF assms] upd_other [OF assms]
  by (auto simp: reader_data_def split: option.splits)

lemma reader_window_update_other:
  assumes "reg_inv {} s" and "j \<noteq> stream_id f" and "map_of (m_streams s) j = Some h"
  shows "map_of (m_streams (reader_window_update f s)) j = Some h"
    and "m_chans (reader_window_update f s) h = m_chans s h"
  using assms upd_other [OF assms] by (auto simp: reader_window_update_def Let_def split: option.splits)

lemma reader_frame_other:
  assumes "reg_inv {} s" and "j \<noteq> stream_id f" and "map_of (m_streams s) j = Some h"
    and "m_reader (reader_frame f w i s) \<noteq> RDone"
  shows "map_of (m_streams (reader_frame f w i s)) j = Some h \<and> m_chans (reader_frame f w i s) h = m_chans s h"
proof -
  let ?s = "s\<lparr>m_last_seen := w\<rparr>"
  have s: "reg_inv {} ?s" "map_of (m_streams ?s) j = Some h"
    using assms by simp_all
  show ?thesis
    using assms(3,4) reader_open_other [OF s(1) assms(2) s(2)] reader_data_other [OF s(1) assms(2) s(2)]
      reader_window_update_other [OF s(1) assms(2) s(2)] remove_close_other [OF s(1) assms(2) s(2)]
    by (simp add: reader_frame_def Let_def reader_stop_def split: if_splits)
qed

subsection \<open>Chunks of a send\<close>

definition good_chunk :: "u32 \<Rightarrow> nat \<times> frame \<Rightarrow> bool" where
  "good_chunk i = (\<lambda>(n, f). n = length (payload f) \<and> 0 < n \<and> n \<le> MAX_FRAME_PAYLOAD \<and>
     stream_id f = i \<and> ftype f = ft_code FtData)"

lemma tcp_plan_good: "list_all (good_chunk i) (tcp_plan i data)"
proof (induction i data rule: tcp_plan.induct)
  case (1 i data)
  then show ?case
    by (subst tcp_plan.simps) (auto simp: good_chunk_def Let_def MAX_FRAME_PAYLOAD_def HEADER_LEN_def)
qed

lemma tcp_plan_concat: "concat (map (\<lambda>(n, f). payload f) (tcp_plan i data)) = data"
proof (induction i data rule: tcp_plan.induct)
  case (1 i data)
  then show ?case
    by (subst tcp_plan.simps) (simp add: Let_def)
qed

subsection \<open>Identifiers of local streams\<close>

fun cmd_parity :: "bool \<Rightarrow> command \<Rightarrow> bool" where
  "cmd_parity b (CmdOpen i t h) = (odd (unat i) = b)"
| "cmd_parity b (CmdWrite f) = True"

definition ids_inv :: "bool \<Rightarrow> mux \<Rightarrow> bool" where
  "ids_inv b s \<longleftrightarrow> odd (unat (m_next_id s)) = b \<and> list_all (cmd_parity b) (m_cmds s)"

lemma odd_add_two: "odd (unat (w + 2 :: u32)) = odd (unat w)"
proof -
  have "unat (w + 2) = (unat w + 2) mod 2 ^ 32"
    by (simp add: unat_word_ariths)
  moreover have "even ((n :: nat) mod 2 ^ 32) = even n" for n
    using dvd_mod_iff [of 2 "2 ^ 32" n] by simp
  ultimately show ?thesis by simp
qed

lemma ids_inv_cong: "m_next_id t = m_next_id s \<Longrightarrow> m_cmds t = m_cmds s \<Longrightarrow> ids_inv b t = ids_inv b s"
  by (simp add: ids_inv_def)

lemma next_id_frame [simp]:
  "m_next_id (map_chans P f s) = m_next_id s"
  "m_next_id (close_all_streams s) = m_next_id s"
  "m_next_id (registry_insert i h s) = m_next_id s"
  "m_next_id (registry_remove_close i s) = m_next_id s"
  by (auto simp: map_chans_def close_all_streams_eq registry_insert_def registry_remove_close_def upd_chan_eq
      Let_def split: option.splits)

lemma ids_reader_frame: "ids_inv b s \<Longrightarrow> ids_inv b (reader_frame f w i s)"
  by (auto simp: reader_frame_def Let_def reader_open_def split_beta new_stream_def reader_stop_def
      reader_data_def reader_window_update_def upd_chan_eq ids_inv_def split: option.splits)

lemma ids_recv: 
  assumes "ids_inv b s"
  shows "ids_inv b (snd (stream_recv h s))"
proof -
  have "ids_inv b (snd (recv_finish h c s))" for c
    using assms by (auto simp: recv_finish_def Let_def ids_inv_def)
  then show ?thesis
    using assms by (simp add: stream_recv_def split: option.splits sum.splits)
qed

lemma ids_open_as: "ids_inv b s \<Longrightarrow> ids_inv b (snd (open_as k t w s))"
  by (auto simp: open_as_def new_stream_def send_cmd_def upd_chan_eq Let_def ids_inv_def odd_add_two)

lemma ids_write: "ids_inv b s \<Longrightarrow> cmd_handles [c] = [] \<Longrightarrow> ids_inv b (snd (send_cmd c s))"
  by (cases c) (auto simp: send_cmd_def ids_inv_def)

lemma ids_stops:
  assumes "ids_inv b s"
  shows "ids_inv b (reader_stop s)" "ids_inv b (writer_stop s)" "ids_inv b (watchdog_tick w s)"
    "ids_inv b (reader_cancel s)" "ids_inv b (drop_mux s)" "ids_inv b (upd_chan h f s)"
    "ids_inv b (keepalive_tick w i s)" "ids_inv b (snd (acquire_credit h n s))"
    "ids_inv b (snd (mux_accept s))" "ids_inv b (writer_take s)"
  using assms
  by (auto simp: ids_inv_def reader_stop_def writer_stop_def watchdog_tick_def reader_cancel_def drop_mux_eq
      upd_chan_eq close_queued_eq keepalive_tick_def acquire_credit_def mux_accept_def writer_take_def Let_def
      split: reader_pc.splits option.splits list.splits command.splits)

lemma ids_reader_pc:
  assumes "ids_inv b s"
  shows "reader_cmd_sent c s = Some t \<Longrightarrow> cmd_handles [c] = [] \<Longrightarrow> ids_inv b t"
    and "reader_incoming_sent h s = Some t \<Longrightarrow> ids_inv b t"
    and "keepalive_send w s = Some t \<Longrightarrow> ids_inv b t"
    and "ids_inv b (snd (open_kind k u s))" and "ids_inv b (snd (stream_close h s))"
proof -
  show "ids_inv b t" if "reader_cmd_sent c s = Some t" "cmd_handles [c] = []"
    using that ids_write [OF assms that(2)]
    by (auto simp: reader_cmd_sent_def split_beta ids_inv_def split: option.splits)
  show "ids_inv b t" if "reader_incoming_sent h s = Some t"
    using that assms ids_stops(1) [OF ids_stops(6) [OF assms]]
    by (auto simp: reader_incoming_sent_def ids_inv_def split: if_splits)
  show "ids_inv b t" if "keepalive_send w s = Some t"
    using that assms by (auto simp: keepalive_send_def ids_inv_def split: if_splits)
  show "ids_inv b (snd (open_kind k u s))"
    using assms ids_open_as
    by (simp add: open_kind_def mux_open_def mux_open_datagram_def mux_open_icmp_def split: stream_kind.split)
  show "ids_inv b (snd (stream_close h s))"
    using assms ids_write by (simp add: stream_close_def split: option.split)
qed

lemma ids_event:
  assumes inv: "ids_inv b s" "ctl_inv s" and e: "mux_event e s = Some t"
  shows "ids_inv b t"
proof (cases e)
  case EvReaderCmd
  then show ?thesis
    using e inv ids_reader_pc(1) [OF inv(1)] by (auto simp: ctl_inv_def split: reader_pc.splits)
next
  case EvReaderIncoming
  then show ?thesis using e ids_reader_pc(2) [OF inv(1)] by (auto split: reader_pc.splits)
next
  case EvWriterWrote
  then show ?thesis using e inv by (auto simp: ids_inv_def split: writer_pc.splits)
next
  case (EvPush h f)
  then show ?thesis using e ids_write [OF inv(1), of "CmdWrite f"] by (auto dest!: finishedD)
qed (use e inv(1) in \<open>auto dest!: finishedD split: if_splits writer_pc.splits
      intro: ids_reader_frame ids_recv ids_stops ids_reader_pc(3-5)\<close>)

lemma ids_run: "mux_run es s = Some t \<Longrightarrow> mux_inv s \<Longrightarrow> ids_inv b s \<Longrightarrow> ids_inv b t"
proof (induction es arbitrary: s)
  case (Cons e es)
  then obtain u where u: "mux_event e s = Some u" "mux_run es u = Some t"
    by (auto split: option.splits)
  show ?case
    using Cons.IH [OF u(2) mux_inv_event [OF Cons.prems(2) u(1)]] ids_event [OF _ _ u(1)] Cons.prems(2,3)
    by (simp add: mux_inv_def)
qed simp

section \<open>Properties\<close>

text \<open>
  C5. Memory of a session is bounded. In every state that the tasks of a mux can reach by any
  interleaving, each stream buffers at most 4 MiB in at most 1024 messages and its byte counter is
  exactly the size of what is queued, the command queue and the queue of incoming streams respect their
  capacities, no id is registered twice and no two registry entries or queued opens share a stream.
\<close>

theorem mux_bounded:
  assumes "reachable s"
  shows "(\<forall>h c. m_chans s h = Some c \<longrightarrow>
            c_buffered c = sum_list (map length (c_queue c)) \<and>
            c_buffered c \<le> 4 * 1024 * 1024 \<and> length (c_queue c) \<le> 1024) \<and>
         length (m_cmds s) \<le> 256 \<and> length (m_incoming s) \<le> 32 \<and>
         distinct (map fst (m_streams s)) \<and> distinct (map snd (m_streams s) @ cmd_handles (m_cmds s))"
proof -
  have inv: "reg_inv {} s" "all_chans chan_ok s" "ctl_inv s"
    using reachable_inv [OF assms] by (simp_all add: mux_inv_def)
  show ?thesis
    using reg_invD(1,4) [OF inv(1)] inv(2,3)
    by (simp add: all_chans_def chan_ok_def ctl_inv_def tracked_def capacities) metis
qed

theorem mux_bounded_witness: "reachable busy \<and> length (m_cmds busy) \<le> 256"
  using mux_bounded [OF fresh_reachable [OF busy_reachable_fresh]] fresh_reachable [OF busy_reachable_fresh]
  by simp

text \<open>
  C11. Each stream delivers in order and exactly once, also when \<open>recv\<close> is cancelled. A poll that
  waits changes nothing of what is still to be delivered, a poll that returns data returns the oldest
  undelivered chunk and removes exactly it, and the end of the stream is reported only when nothing is
  left and the sink is gone. A DATA or DATAGRAM frame either appends its payload to the stream it is
  addressed to or, when the stream's buffer is full, closes that stream.
\<close>

theorem stream_fifo:
  "(\<forall>c. m_chans s h = Some c \<longrightarrow>
      (\<exists>d. m_chans (snd (stream_recv h s)) h = Some d \<and>
        (case fst (stream_recv h s) of
           None \<Rightarrow> undelivered d = undelivered c
         | Some (Inr b) \<Rightarrow> undelivered c = b # undelivered d
         | Some (Inl e) \<Rightarrow> e = EClosed \<and> undelivered c = [] \<and> d = c \<and> \<not> c_tx_alive c))) \<and>
   (\<forall>k. k \<noteq> h \<longrightarrow> m_chans (snd (stream_recv h s)) k = m_chans s k) \<and>
   (\<forall>f c. map_of (m_streams s) (stream_id f) = Some h \<and> m_chans s h = Some c \<longrightarrow>
      (\<exists>d. m_chans (reader_data f s) h = Some d \<and>
        (if c_buffered c + length (payload f) \<le> MAX_BUFFERED \<and> \<not> try_send_full c
         then undelivered d = undelivered c @ [payload f] \<and> c_tx_alive d = c_tx_alive c
         else undelivered d = undelivered c \<and> \<not> c_tx_alive d \<and>
              (c_window c \<noteq> None \<longrightarrow> c_window_closed d))))"
proof (intro conjI allI impI)
  show "\<exists>d. m_chans (snd (stream_recv h s)) h = Some d \<and>
        (case fst (stream_recv h s) of
           None \<Rightarrow> undelivered d = undelivered c
         | Some (Inr b) \<Rightarrow> undelivered c = b # undelivered d
         | Some (Inl e) \<Rightarrow> e = EClosed \<and> undelivered c = [] \<and> d = c \<and> \<not> c_tx_alive c)"
    if "m_chans s h = Some c" for c
    using recv_fifo_aux [OF that, of "fst (stream_recv h s)" "snd (stream_recv h s)"] by simp
  show "m_chans (snd (stream_recv h s)) k = m_chans s k" if "k \<noteq> h" for k
    using that by (rule recv_others)
  fix f :: frame and c assume *: "map_of (m_streams s) (stream_id f) = Some h \<and> m_chans s h = Some c"
  then show "\<exists>d. m_chans (reader_data f s) h = Some d \<and>
        (if c_buffered c + length (payload f) \<le> MAX_BUFFERED \<and> \<not> try_send_full c
         then undelivered d = undelivered c @ [payload f] \<and> c_tx_alive d = c_tx_alive c
         else undelivered d = undelivered c \<and> \<not> c_tx_alive d \<and>
              (c_window c \<noteq> None \<longrightarrow> c_window_closed d))"
    using reader_data_chan [of s f h c]
    by (auto simp: undelivered_def enqueue_def not_less split: if_splits)
qed

lemma busy_chan:
  "map_of (m_streams busy) 1 = Some 0 \<and> (\<exists>c. m_chans busy 0 = Some c \<and> undelivered c = [[1, 2, 3], [4]])"
  by (simp add: busy_def busy_run_def sample_def mux_init_def run_defs new_chan_def undelivered_def
      del: ft_code.simps)

theorem stream_fifo_witness: "\<exists>d. m_chans (snd (stream_recv 0 busy)) 0 = Some d"
  using stream_fifo [of busy 0] busy_chan by auto

text \<open>
  C2. Closing a session releases everyone. Once \<open>closed\<close> is set, the reader and the writer can
  always finish (their cancellation arms are ready), and in the state they leave the registry and the
  command queue are empty and nobody waits: \<open>accept\<close> and \<open>open\<close> return, every \<open>recv\<close> returns,
  every \<open>close\<close> fails with \<open>Closed\<close>, and a \<open>send\<close> in progress on a live stream returns within
  two polls, whatever it was waiting for. The streams must not have been opened under the id of a
  stream that is still registered.
\<close>

theorem closed_session_releases:
  assumes "reachable_fresh s" and "m_closed s"
  shows "\<exists>t. mux_run (cancels s) s = Some t \<and> m_reader t = RDone \<and> m_writer t = WDone \<and>
             closed_receiver t \<and> m_streams t = [] \<and> m_cmds t = [] \<and> nobody_waits t"
proof -
  obtain t where t: "mux_run (cancels s) s = Some t" "all_fresh (cancels s) s"
    "m_reader t = RDone" "m_writer t = WDone"
    using cancels_run [OF assms(2)] .
  then show ?thesis
    using down_nobody_waits [OF reachable_fresh_run [OF assms(1) t(2,1)]] by blast
qed

definition downed :: mux where
  "downed = reader_stop busy"

lemma downed_reachable: "reachable_fresh downed \<and> m_closed downed"
proof -
  have "m_reader busy = RReady"
    by (simp add: busy_def busy_run_def sample_def mux_init_def run_defs new_chan_def del: ft_code.simps)
  then have "mux_event EvReadFail busy = Some downed"
    by (simp add: downed_def)
  then show ?thesis
    using reachable_fresh.fresh_step [OF busy_reachable_fresh, of EvReadFail]
    by (auto simp: fresh_event_def downed_def reader_stop_def)
qed

theorem closed_session_releases_witness:
  "\<exists>t. mux_run (cancels downed) downed = Some t \<and> nobody_waits t"
  using closed_session_releases [of downed] downed_reachable by blast

text \<open>
  Closure is permanent: whatever the tasks do after \<open>closed\<close> is set, it stays set, so a
  \<open>closed_receiver\<close> that observed it once is right for ever.
\<close>

theorem closed_is_permanent:
  assumes "closed_receiver s" and "mux_run es s = Some t"
  shows "closed_receiver t"
  using closed_run [OF assms(2)] assms(1) by (simp add: closed_receiver_def)

theorem closed_is_permanent_witness:
  "\<exists>t. mux_run [EvDropStream 0, EvDropMux] downed = Some t \<and> closed_receiver t"
  using closed_is_permanent [of downed "[EvDropStream 0, EvDropMux]"] downed_reachable
  by (simp add: closed_receiver_def)

text \<open>
  C12. Streams are isolated: a frame that the reader handles without ending the session changes nothing
  of any registered stream but the one whose id the frame carries, neither its registration nor its
  queue, counters or credit.
\<close>

theorem stream_isolation:
  assumes "reachable s" and "j \<noteq> stream_id f" and "map_of (m_streams s) j = Some h"
    and "m_reader (reader_frame f w i s) \<noteq> RDone"
  shows "map_of (m_streams (reader_frame f w i s)) j = Some h \<and>
         m_chans (reader_frame f w i s) h = m_chans s h"
  using reader_frame_other [OF _ assms(2-4)] reachable_inv [OF assms(1)] by (simp add: mux_inv_def)

lemma busy_other_reader: "m_reader (reader_frame (data_frame 3 [9]) 10 0 busy) \<noteq> RDone"
  by (simp add: busy_def busy_run_def sample_def mux_init_def run_defs new_chan_def del: ft_code.simps)

theorem stream_isolation_witness:
  "m_chans (reader_frame (data_frame 3 [9]) 10 0 busy) 0 = m_chans busy 0"
  using stream_isolation [OF fresh_reachable [OF busy_reachable_fresh], of 1 "data_frame 3 [9]" 0 10 0]
    busy_chan busy_other_reader by (simp add: data_frame_def)

text \<open>
  A peer cannot grow the registry past 1024 streams: handling one frame never leaves more than
  1024 registered streams unless there were already more, and an OPEN frame that arrives at a full
  registry ends the session.
\<close>

theorem peer_streams_bounded:
  "length (m_streams (reader_frame f w i s)) \<le> max (length (m_streams s)) 1024 \<and>
   (base_type (ftype f) = ft_code FtOpen \<and> 1024 \<le> length (m_streams s) \<longrightarrow>
      m_reader (reader_frame f w i s) = RDone \<and> closed_receiver (reader_frame f w i s))"
proof -
  let ?s = "s\<lparr>m_last_seen := w\<rparr>"
  have upd: "length (AList.update k v xs) \<le> Suc (length xs)" for k :: u32 and v :: nat and xs
    by (induction xs) auto
  have op: "length (m_streams (reader_open f ?s)) \<le> max (length (m_streams s)) 1024"
    using upd [of "stream_id f" "m_next_handle s" "m_streams s"]
    by (auto simp: reader_open_def split_beta Let_def new_stream_def reader_stop_def capacities)
  have del: "length (m_streams (registry_remove_close k ?s)) \<le> length (m_streams s)" for k
    using length_filter_le [of "\<lambda>(a, b). k \<noteq> a" "m_streams s"] by (simp add: AList.delete_eq)
  have dat: "length (m_streams (reader_data f ?s)) \<le> length (m_streams s)"
    using del [of "stream_id f"] by (auto simp: reader_data_def upd_chan_eq split: option.splits)
  have win: "m_streams (reader_window_update f ?s) = m_streams s"
    by (simp add: reader_window_update_def Let_def upd_chan_eq split: option.splits)
  have "length (m_streams (reader_frame f w i s)) \<le> max (length (m_streams s)) 1024"
    using op del [of "stream_id f"] dat win by (simp add: reader_frame_def Let_def reader_stop_def le_max_iff_disj)
  moreover have "m_reader (reader_frame f w i s) = RDone \<and> closed_receiver (reader_frame f w i s)"
    if "base_type (ftype f) = ft_code FtOpen" "1024 \<le> length (m_streams s)"
    using that by (simp add: reader_frame_def reader_open_def split_beta Let_def new_stream_def reader_stop_def
        capacities closed_receiver_def upd_chan_eq)
  ultimately show ?thesis by blast
qed

definition crowded :: mux where
  "crowded = sample\<lparr>m_streams := map (\<lambda>n. (of_nat n, n)) [0..<1024]\<rparr>"

theorem peer_streams_bounded_witness:
  "m_reader (reader_frame (open_frame 7 ''a:1'') 10 0 crowded) = RDone"
  using peer_streams_bounded [where f = "open_frame 7 ''a:1''" and w = 10 and i = 0 and s = crowded]
  by (simp add: crowded_def open_frame_def del: ft_code.simps)

text \<open>
  What \<open>Stream::send\<close> puts on the wire is exactly the data: the chunks of a reliable stream
  concatenate to it, each is a non-empty DATA frame of the stream whose encoding fits in one record,
  and each asks for exactly as much credit as it carries. A datagram is one frame or is refused, and it
  is refused exactly when it does not fit.
\<close>

theorem send_chunks:
  "\<exists>ps. send_plan Tcp i data = Ok ps \<and> concat (map (\<lambda>(n, f). payload f) ps) = data \<and>
     list_all (\<lambda>(n, f). n = length (payload f) \<and> 0 < n \<and> stream_id f = i \<and> ftype f = ft_code FtData \<and>
       length (encode_frame f) < 2 ^ 14) ps \<and>
     (\<forall>k. k \<noteq> Tcp \<longrightarrow>
        send_plan k i data =
          (if length data + 6 \<le> 2 ^ 14
           then Ok [(length data, \<lparr>stream_id = i, ftype = ft_code FtDatagram, payload = data\<rparr>)]
           else Err (EProtocol ''datagram exceeds max frame payload'')))"
proof -
  have "list_all (\<lambda>(n, f). n = length (payload f) \<and> 0 < n \<and> stream_id f = i \<and> ftype f = ft_code FtData \<and>
       length (encode_frame f) < 2 ^ 14) (tcp_plan i data)"
    by (rule list.pred_mono_strong [OF tcp_plan_good])
      (auto simp: good_chunk_def MAX_FRAME_PAYLOAD_def HEADER_LEN_def encode_frame_def)
  moreover have "send_plan k i data =
          (if length data + 6 \<le> 2 ^ 14
           then Ok [(length data, \<lparr>stream_id = i, ftype = ft_code FtDatagram, payload = data\<rparr>)]
           else Err (EProtocol ''datagram exceeds max frame payload''))" if "k \<noteq> Tcp" for k
    using that by (cases k) (auto simp: send_plan_def MAX_FRAME_PAYLOAD_def HEADER_LEN_def)
  ultimately show ?thesis
    using tcp_plan_concat [of i data] by (simp add: send_plan_def)
qed

theorem send_chunks_witness:
  "send_plan Udp 5 [1, 2] = Ok [(2, \<lparr>stream_id = 5, ftype = 5, payload = [1, 2]\<rparr>)]"
  using send_chunks [of 5 "[1, 2]"] by auto

text \<open>
  The two ends of a session never choose the same id for a stream: whatever happens on a mux, the
  ids it gives to the streams it opens are odd on the client and even on the server, also after the
  counter wraps.
\<close>

theorem local_ids_parity:
  assumes "mux_run es (mux_init l n role ka now) = Some t"
  shows "(odd (unat (m_next_id t)) \<longleftrightarrow> role = RoleClient) \<and>
         (\<forall>i target h. CmdOpen i target h \<in> set (m_cmds t) \<longrightarrow> (odd (unat i) \<longleftrightarrow> role = RoleClient))"
proof -
  have "ids_inv (role = RoleClient) (mux_init l n role ka now)"
    by (simp add: ids_inv_def mux_init_def)
  then have "ids_inv (role = RoleClient) t"
    using ids_run [OF assms mux_init_inv] by blast
  then show ?thesis
    by (auto simp: ids_inv_def list_all_iff dest!: bspec)
qed

theorem local_ids_parity_witness: "even (unat (m_next_id busy))"
  using local_ids_parity [of busy_run sample_hello sample_neg RoleServer keepalive_default 7 busy]
    busy_run_ok by (auto simp: busy_def sample_def)

section \<open>A displaced stream\<close>

definition displaced_run :: "event list" where
  "displaced_run = [EvRead (open_frame 1 ''a:1'') 8 0, EvReaderIncoming, EvAccept, EvCredit 0 262144,
     EvRead (open_frame 1 ''a:1'') 9 0, EvReaderIncoming, EvReadFail, EvWriterCancel]"


end
