(* ===== verification/MuxFlow.thy ===== *)
theory MuxFlow
  imports MuxProps
begin

text \<open>
  Credit-based flow control between the two ends of one stream. The sending end spends permits
  (\<open>acquire_credit\<close>), the frames travel in order, the receiving end buffers them
  (\<open>reader_data\<close>), consumes them (\<open>recv\<close>) and returns credit in WINDOW_UPDATE frames that the
  sending end adds back (\<open>reader_window_update\<close>). The steps below are the effects of those
  operations on the two channels, taken from the definitions of the multiplexer.
\<close>

section \<open>Definitions\<close>

record flow =
  fl_tx :: chan
  fl_data :: "frame list"
  fl_rx :: chan
  fl_credits :: "frame list"

definition flow_start :: "u32 \<Rightarrow> string \<Rightarrow> flow" where
  "flow_start i target =
     \<lparr>fl_tx = new_chan i target Tcp True, fl_data = [], fl_rx = new_chan i target Tcp True, fl_credits = []\<rparr>"

definition window_credit :: "frame \<Rightarrow> nat" where
  "window_credit f = min (unat (u32_from_be (take 4 (payload f)))) MAX_CREDIT"

definition accepts_data :: "frame \<Rightarrow> chan \<Rightarrow> bool" where
  "accepts_data f c \<longleftrightarrow> c_buffered c + length (payload f) \<le> MAX_BUFFERED \<and> \<not> try_send_full c"

definition finish_chan :: "chan \<Rightarrow> chan \<times> frame list" where
  "finish_chan c =
     (if WINDOW_THRESHOLD \<le> c_consumed c
      then (c\<lparr>c_consumed := 0, c_pending := None\<rparr>,
            [window_update_frame (c_id c) (of_nat (min (c_consumed c) (2 ^ 32 - 1)))])
      else (c\<lparr>c_pending := None\<rparr>, []))"

inductive flow_step :: "flow \<Rightarrow> flow \<Rightarrow> bool" where
  flow_send:
    "c_window (fl_tx s) = Some p \<Longrightarrow> good_chunk (c_id (fl_tx s)) (n, f) \<Longrightarrow> n \<le> p \<Longrightarrow>
     flow_step s (s\<lparr>fl_tx := take_permits n (fl_tx s), fl_data := fl_data s @ [f]\<rparr>)"
| flow_deliver:
    "fl_data s = f # fs \<Longrightarrow> accepts_data f (fl_rx s) \<Longrightarrow>
     flow_step s (s\<lparr>fl_data := fs, fl_rx := enqueue (payload f) (fl_rx s)\<rparr>)"
| flow_dequeue:
    "recv_dequeue (fl_rx s) = Some (Ok c) \<Longrightarrow> flow_step s (s\<lparr>fl_rx := c\<rparr>)"
| flow_finish:
    "c_pending (fl_rx s) \<noteq> None \<Longrightarrow> finish_chan (fl_rx s) = (c, us) \<Longrightarrow>
     flow_step s (s\<lparr>fl_rx := c, fl_credits := fl_credits s @ us\<rparr>)"
| flow_credit:
    "fl_credits s = f # fs \<Longrightarrow>
     flow_step s (s\<lparr>fl_tx := add_permits (window_credit f) (fl_tx s), fl_credits := fs\<rparr>)"

inductive_cases flow_step_cases: "flow_step s t"

inductive flow_reachable :: "flow \<Rightarrow> bool" where
  flow_init: "flow_reachable (flow_start i target)"
| flow_next: "flow_reachable s \<Longrightarrow> flow_step s t \<Longrightarrow> flow_reachable t"

definition permits :: "chan \<Rightarrow> nat" where
  "permits c = (case c_window c of None \<Rightarrow> 0 | Some p \<Rightarrow> p)"

definition in_flight :: "flow \<Rightarrow> nat" where
  "in_flight s = sum_list (map (\<lambda>f. length (payload f)) (fl_data s))"

definition credit_in_flight :: "flow \<Rightarrow> nat" where
  "credit_in_flight s = sum_list (map window_credit (fl_credits s))"

text \<open>Everything sent has arrived, has been read, and the credit it earned has come back.\<close>

definition drained :: "flow \<Rightarrow> bool" where
  "drained s \<longleftrightarrow> fl_data s = [] \<and> c_queue (fl_rx s) = [] \<and> c_pending (fl_rx s) = None \<and> fl_credits s = []"

definition flow_inv :: "flow \<Rightarrow> bool" where
  "flow_inv s \<longleftrightarrow>
     c_window (fl_tx s) \<noteq> None \<and> c_window (fl_rx s) \<noteq> None \<and>
     c_buffered (fl_rx s) = sum_list (map length (c_queue (fl_rx s))) \<and>
     permits (fl_tx s) + in_flight s + c_buffered (fl_rx s) + c_consumed (fl_rx s) + credit_in_flight s
       = INIT_WINDOW \<and>
     (c_pending (fl_rx s) = None \<longrightarrow> c_consumed (fl_rx s) < WINDOW_THRESHOLD)"

section \<open>Lemmas\<close>

text \<open>The steps are what the operations of the multiplexer do to the channels.\<close>

lemma acquire_credit_step:
  "m_chans s h = Some c \<Longrightarrow> c_window c = Some p \<Longrightarrow> \<not> c_window_closed c \<Longrightarrow> n \<le> p \<Longrightarrow>
   acquire_credit h n s = (Some (Ok ()), s\<lparr>m_chans := (m_chans s)(h \<mapsto> take_permits n c)\<rparr>)"
  by (simp add: acquire_credit_def upd_chan_def)

lemma reader_data_step:
  "map_of (m_streams s) (stream_id f) = Some h \<Longrightarrow> m_chans s h = Some c \<Longrightarrow> accepts_data f c \<Longrightarrow>
   reader_data f s = s\<lparr>m_chans := (m_chans s)(h \<mapsto> enqueue (payload f) c)\<rparr>"
  by (simp add: reader_data_def accepts_data_def upd_chan_def)

lemma recv_finish_step:
  assumes "c_pending c = Some b" and "m_cmd_open s" and "length (m_cmds s) < CMD_CAPACITY"
    and "finish_chan c = (d, us)"
  shows "recv_finish h c s =
    (Some (Ok b), s\<lparr>m_cmds := m_cmds s @ map CmdWrite us, m_chans := (m_chans s)(h \<mapsto> d)\<rparr>)"
  using assms by (auto simp: recv_finish_def finish_chan_def Let_def split: if_splits)

lemma reader_window_update_step:
  "map_of (m_streams s) (stream_id f) = Some h \<Longrightarrow> 4 \<le> length (payload f) \<Longrightarrow>
   reader_window_update f s = upd_chan h (add_permits (window_credit f)) s"
  by (simp add: reader_window_update_def window_credit_def)

lemma window_credit_update:
  assumes "n \<le> INIT_WINDOW"
  shows "window_credit (window_update_frame i (of_nat (min n (2 ^ 32 - 1)))) = n"
proof -
  have "n < 2 ^ 32"
    using assms by (simp add: INIT_WINDOW_def)
  then show ?thesis
    using assms by (simp add: window_credit_def window_update_frame_def MAX_CREDIT_def unat_of_nat min_def
        INIT_WINDOW_def)
qed

lemma flow_inv_start: "flow_inv (flow_start i target)"
  by (simp add: flow_inv_def flow_start_def new_chan_def permits_def in_flight_def credit_in_flight_def
      WINDOW_THRESHOLD_def INIT_WINDOW_def)

lemma flow_inv_send:
  assumes "flow_inv s" and "c_window (fl_tx s) = Some p" and "good_chunk i (n, f)" and "n \<le> p"
  shows "flow_inv (s\<lparr>fl_tx := take_permits n (fl_tx s), fl_data := fl_data s @ [f]\<rparr>)"
  using assms
  by (auto simp: flow_inv_def take_permits_def permits_def in_flight_def credit_in_flight_def good_chunk_def)

lemma flow_inv_deliver:
  assumes "flow_inv s" and "fl_data s = f # fs"
  shows "flow_inv (s\<lparr>fl_data := fs, fl_rx := enqueue (payload f) (fl_rx s)\<rparr>)"
  using assms by (auto simp: flow_inv_def enqueue_def in_flight_def credit_in_flight_def)

lemma flow_inv_dequeue:
  assumes "flow_inv s" and "recv_dequeue (fl_rx s) = Some (Ok c)"
  shows "flow_inv (s\<lparr>fl_rx := c\<rparr>)"
  using assms
  by (auto simp: flow_inv_def recv_dequeue_def in_flight_def credit_in_flight_def
      split: option.splits list.splits if_splits)

lemma flow_inv_finish:
  assumes "flow_inv s" and "finish_chan (fl_rx s) = (c, us)"
  shows "flow_inv (s\<lparr>fl_rx := c, fl_credits := fl_credits s @ us\<rparr>)"
proof (cases "WINDOW_THRESHOLD \<le> c_consumed (fl_rx s)")
  case True
  have "c_consumed (fl_rx s) \<le> INIT_WINDOW"
    using assms(1) by (simp add: flow_inv_def)
  then have "window_credit (window_update_frame (c_id (fl_rx s))
      (of_nat (min (c_consumed (fl_rx s)) (2 ^ 32 - 1)))) = c_consumed (fl_rx s)"
    by (rule window_credit_update)
  then show ?thesis
    using assms True
    by (auto simp: flow_inv_def finish_chan_def in_flight_def credit_in_flight_def WINDOW_THRESHOLD_def
        INIT_WINDOW_def simp del: min_def)
qed (use assms in \<open>auto simp: flow_inv_def finish_chan_def in_flight_def credit_in_flight_def\<close>)

lemma flow_inv_credit:
  assumes "flow_inv s" and "fl_credits s = f # fs"
  shows "flow_inv (s\<lparr>fl_tx := add_permits (window_credit f) (fl_tx s), fl_credits := fs\<rparr>)"
  using assms
  by (auto simp: flow_inv_def add_permits_def permits_def in_flight_def credit_in_flight_def)

lemma flow_inv_step: "flow_step s t \<Longrightarrow> flow_inv s \<Longrightarrow> flow_inv t"
  by (erule flow_step_cases)
    (auto intro: flow_inv_send flow_inv_deliver flow_inv_dequeue flow_inv_finish flow_inv_credit)

lemma flow_reachable_inv: "flow_reachable s \<Longrightarrow> flow_inv s"
  by (induction rule: flow_reachable.induct) (auto intro: flow_inv_start flow_inv_step)

section \<open>Properties\<close>

text \<open>
  C7. Credit is conserved and the window protects both ends. In every state of a stream whose ends
  both run this code, the permits left, the bytes in flight, buffered and consumed, and the credit on
  its way back add up to the initial window of 256 KiB. So the receiver never buffers more than one
  window, the 4 MiB limit can never reset such a stream, and flow control cannot deadlock: when
  everything sent has been read and all returned credit has arrived, the sender has enough credit for a
  frame of any size.
\<close>

theorem credit_conserved:
  assumes "flow_reachable s"
  shows "permits (fl_tx s) + in_flight s + c_buffered (fl_rx s) + c_consumed (fl_rx s) + credit_in_flight s
           = 256 * 1024 \<and>
         c_buffered (fl_rx s) \<le> 256 * 1024 \<and>
         (\<forall>f fs. fl_data s = f # fs \<longrightarrow> c_buffered (fl_rx s) + length (payload f) \<le> MAX_BUFFERED) \<and>
         (drained s \<longrightarrow> MAX_FRAME_PAYLOAD \<le> permits (fl_tx s))"
proof -
  have inv: "flow_inv s"
    using assms by (rule flow_reachable_inv)
  have total: "permits (fl_tx s) + in_flight s + c_buffered (fl_rx s) + c_consumed (fl_rx s) +
      credit_in_flight s = 262144"
    using inv by (simp add: flow_inv_def INIT_WINDOW_def)
  moreover have "c_buffered (fl_rx s) + length (payload f) \<le> MAX_BUFFERED" if "fl_data s = f # fs" for f fs
    using total that by (simp add: in_flight_def MAX_BUFFERED_def)
  moreover have "MAX_FRAME_PAYLOAD \<le> permits (fl_tx s)" if "drained s"
    using total inv that
    by (simp add: drained_def flow_inv_def in_flight_def credit_in_flight_def WINDOW_THRESHOLD_def
        INIT_WINDOW_def MAX_FRAME_PAYLOAD_def HEADER_LEN_def)
  ultimately show ?thesis
    by simp
qed

lemma flow_sample: "flow_reachable (flow_start 1 ''a:1'') \<and> drained (flow_start 1 ''a:1'')"
proof
  show "flow_reachable (flow_start 1 ''a:1'')"
    by (rule flow_init)
qed (simp add: drained_def flow_start_def new_chan_def)

theorem credit_conserved_witness: "MAX_FRAME_PAYLOAD \<le> permits (fl_tx (flow_start 1 ''a:1''))"
  using credit_conserved [of "flow_start 1 ''a:1''"] flow_sample by blast

end
