(* ===== verification/Transport.thy ===== *)
theory Transport
  imports Frame
begin

text \<open>
  The interface between the multiplexer and what carries its frames,
  \<open>crates/leshiy-core/src/transport.rs\<close> (\<open>FrameRead\<close>, \<open>FrameWrite\<close>), as a locale: a writer and
  a reader that stay in step deliver the frames that were written, in order, and leave untouched whatever
  follows on the wire. Two transports implement it, the Noise session and the REALITY tunnel.
\<close>

section \<open>Sequences of frames\<close>

text \<open>Writing frames one after the other; the bytes of all of them, or the first error.\<close>

primrec write_all_frames ::
    "('w \<Rightarrow> frame \<Rightarrow> (core_error + bytes) \<times> 'w) \<Rightarrow> 'w \<Rightarrow> frame list \<Rightarrow> (core_error + bytes) \<times> 'w" where
  "write_all_frames wr w [] = (Ok [], w)"
| "write_all_frames wr w (f # fs) =
     (case wr w f of
        (Inl e, w') \<Rightarrow> (Inl e, w')
      | (Inr b, w') \<Rightarrow>
         (case write_all_frames wr w' fs of
            (Inl e, w'') \<Rightarrow> (Inl e, w'')
          | (Inr bs, w'') \<Rightarrow> (Ok (b @ bs), w'')))"

primrec read_all_frames ::
    "('r \<Rightarrow> bytes \<Rightarrow> (core_error + (frame \<times> bytes)) \<times> 'r) \<Rightarrow> nat \<Rightarrow> 'r \<Rightarrow> bytes \<Rightarrow>
     (core_error + (frame list \<times> bytes)) \<times> 'r" where
  "read_all_frames rd 0 r bs = (Ok ([], bs), r)"
| "read_all_frames rd (Suc n) r bs =
     (case rd r bs of
        (Inl e, r') \<Rightarrow> (Inl e, r')
      | (Inr (f, rest), r') \<Rightarrow>
         (case read_all_frames rd n r' rest of
            (Inl e, r'') \<Rightarrow> (Inl e, r'')
          | (Inr (fs, rest'), r'') \<Rightarrow> (Ok (f # fs, rest'), r'')))"

section \<open>The interface\<close>

locale frame_transport =
  fixes wr :: "'w \<Rightarrow> frame \<Rightarrow> (core_error + bytes) \<times> 'w"
    and rd :: "'r \<Rightarrow> bytes \<Rightarrow> (core_error + (frame \<times> bytes)) \<times> 'r"
    and sync :: "'w \<Rightarrow> 'r \<Rightarrow> bool"
  assumes read_written:
    "sync w r \<Longrightarrow> wr w f = (Ok b, w') \<Longrightarrow> \<exists>r'. rd r (b @ rest) = (Ok (f, rest), r') \<and> sync w' r'"
begin

lemma read_all_written:
  assumes "sync w r" and "write_all_frames wr w fs = (Ok b, w')"
  shows "\<exists>r'. read_all_frames rd (length fs) r (b @ rest) = (Ok (fs, rest), r') \<and> sync w' r'"
  using assms
proof (induction fs arbitrary: w r b)
  case (Cons f fs)
  from Cons.prems(2) obtain b1 w1 b2 where
    b: "wr w f = (Ok b1, w1)" "write_all_frames wr w1 fs = (Ok b2, w')" "b = b1 @ b2"
    by (auto split: prod.splits sum.splits)
  obtain r1 where r1: "rd r (b1 @ b2 @ rest) = (Ok (f, b2 @ rest), r1)" "sync w1 r1"
    using read_written [OF Cons.prems(1) b(1)] by blast
  obtain r2 where "read_all_frames rd (length fs) r1 (b2 @ rest) = (Ok (fs, rest), r2)" "sync w' r2"
    using Cons.IH [OF r1(2) b(2)] by blast
  then show ?case
    using b(3) r1(1) by simp
qed simp

lemma sequences_differ:
  assumes "sync w r" and "write_all_frames wr w fs = (Ok b, w')" and "write_all_frames wr w gs = (Ok b, w'')"
    and "length fs = length gs"
  shows "fs = gs"
proof -
  obtain r1 where "read_all_frames rd (length fs) r (b @ []) = (Ok (fs, []), r1)"
    using read_all_written [OF assms(1,2)] by blast
  moreover obtain r2 where "read_all_frames rd (length gs) r (b @ []) = (Ok (gs, []), r2)"
    using read_all_written [OF assms(1,3)] by blast
  ultimately show ?thesis
    using assms(4) by simp
qed

end

end
