(* ===== verification/TlsRecord.thy ===== *)
theory TlsRecord
  imports Prelude
begin

text \<open>
  The TLS record layer: \<open>crates/leshiy-tls/src/error.rs\<close>, \<open>record.rs\<close>, \<open>tls13/suite.rs\<close> and
  \<open>tls13/record.rs\<close>.

  The AEAD, hash and HMAC primitives come from other crates (aes-gcm, chacha20poly1305, sha2, hmac,
  hkdf). They are the fields of a \<open>crypto\<close> record, an argument of every definition that uses them;
  what the code relies on is stated by \<open>aead_correct\<close> where a theorem needs it.

  A byte stream is what the peer sends until it closes: reading past its end is the I/O error
  \<open>TIo\<close>. A panic of the code is \<open>None\<close>.
\<close>

section \<open>Definitions\<close>

subsection \<open>Errors\<close>

datatype tls_error =
    TIo
  | TTruncated nat nat
  | TMalformed string string
  | TUnexpectedContentType u8
  | TAlert u8 u8

subsection \<open>Primitives of other crates\<close>

datatype aead_alg = AES_128_GCM | AES_256_GCM | CHACHA20_POLY1305

datatype hash_alg = SHA256 | SHA384

record crypto =
  cr_encrypt :: "aead_alg \<Rightarrow> bytes \<Rightarrow> bytes \<Rightarrow> bytes \<Rightarrow> bytes \<Rightarrow> bytes option"
  cr_decrypt :: "aead_alg \<Rightarrow> bytes \<Rightarrow> bytes \<Rightarrow> bytes \<Rightarrow> bytes \<Rightarrow> bytes option"
  cr_hash :: "hash_alg \<Rightarrow> bytes \<Rightarrow> bytes"
  cr_hmac :: "hash_alg \<Rightarrow> bytes \<Rightarrow> bytes \<Rightarrow> bytes"
  cr_extract :: "hash_alg \<Rightarrow> bytes \<Rightarrow> bytes \<Rightarrow> bytes"
  cr_expand :: "hash_alg \<Rightarrow> bytes \<Rightarrow> bytes \<Rightarrow> nat \<Rightarrow> bytes"

text \<open>
  Documented behaviour of an AEAD: under a key of the right length it encrypts, adding a 16-byte tag, and
  decryption under the same key, nonce and associated data gives the message back.
\<close>

definition aead_key_len :: "aead_alg \<Rightarrow> nat" where
  "aead_key_len a = (case a of AES_128_GCM \<Rightarrow> 16 | AES_256_GCM \<Rightarrow> 32 | CHACHA20_POLY1305 \<Rightarrow> 32)"

definition aead_correct :: "crypto \<Rightarrow> bool" where
  "aead_correct cr \<longleftrightarrow>
     (\<forall>a key nonce aad pt.
        length key = aead_key_len a \<and> length nonce = 12 \<longrightarrow>
        (\<exists>ct. cr_encrypt cr a key nonce aad pt = Some ct \<and> length ct = length pt + 16 \<and>
              cr_decrypt cr a key nonce aad ct = Some pt))"

subsection \<open>Cipher suites\<close>

datatype cipher_suite = Aes128GcmSha256 | Aes256GcmSha384 | ChaCha20Poly1305Sha256

definition suite_from_u16 :: "u16 \<Rightarrow> cipher_suite option" where
  "suite_from_u16 v =
     (if v = 0x1301 then Some Aes128GcmSha256
      else if v = 0x1302 then Some Aes256GcmSha384
      else if v = 0x1303 then Some ChaCha20Poly1305Sha256
      else None)"

fun suite_to_u16 :: "cipher_suite \<Rightarrow> u16" where
  "suite_to_u16 Aes128GcmSha256 = 0x1301"
| "suite_to_u16 Aes256GcmSha384 = 0x1302"
| "suite_to_u16 ChaCha20Poly1305Sha256 = 0x1303"

definition hash_len :: "cipher_suite \<Rightarrow> nat" where
  "hash_len s = (case s of Aes256GcmSha384 \<Rightarrow> 48 | _ \<Rightarrow> 32)"

definition key_len :: "cipher_suite \<Rightarrow> nat" where
  "key_len s = (case s of Aes128GcmSha256 \<Rightarrow> 16 | _ \<Rightarrow> 32)"

definition iv_len :: "cipher_suite \<Rightarrow> nat" where
  "iv_len s = 12"

definition tag_len :: "cipher_suite \<Rightarrow> nat" where
  "tag_len s = 16"

text \<open>Which primitive each suite uses.\<close>

definition suite_hash_alg :: "cipher_suite \<Rightarrow> hash_alg" where
  "suite_hash_alg s = (case s of Aes256GcmSha384 \<Rightarrow> SHA384 | _ \<Rightarrow> SHA256)"

definition suite_aead :: "cipher_suite \<Rightarrow> aead_alg" where
  "suite_aead s =
     (case s of
        Aes128GcmSha256 \<Rightarrow> AES_128_GCM
      | Aes256GcmSha384 \<Rightarrow> AES_256_GCM
      | ChaCha20Poly1305Sha256 \<Rightarrow> CHACHA20_POLY1305)"

definition suite_hash :: "crypto \<Rightarrow> cipher_suite \<Rightarrow> bytes \<Rightarrow> bytes" where
  "suite_hash cr s d = cr_hash cr (suite_hash_alg s) d"

definition aead_seal :: "crypto \<Rightarrow> cipher_suite \<Rightarrow> bytes \<Rightarrow> bytes \<Rightarrow> bytes \<Rightarrow> bytes \<Rightarrow> bytes option" where
  "aead_seal cr s key nonce aad pt = cr_encrypt cr (suite_aead s) key nonce aad pt"

definition aead_open :: "crypto \<Rightarrow> cipher_suite \<Rightarrow> bytes \<Rightarrow> bytes \<Rightarrow> bytes \<Rightarrow> bytes \<Rightarrow> bytes option" where
  "aead_open cr s key nonce aad ct = cr_decrypt cr (suite_aead s) key nonce aad ct"

text \<open>The in-place forms: the buffer that results, or \<open>None\<close>.\<close>

definition aead_seal_in_place ::
    "crypto \<Rightarrow> cipher_suite \<Rightarrow> bytes \<Rightarrow> bytes \<Rightarrow> bytes \<Rightarrow> bytes \<Rightarrow> bytes option" where
  "aead_seal_in_place cr s key nonce aad buf = cr_encrypt cr (suite_aead s) key nonce aad buf"

definition aead_open_in_place ::
    "crypto \<Rightarrow> cipher_suite \<Rightarrow> bytes \<Rightarrow> bytes \<Rightarrow> bytes \<Rightarrow> bytes \<Rightarrow> bytes option" where
  "aead_open_in_place cr s key nonce aad buf = cr_decrypt cr (suite_aead s) key nonce aad buf"

text \<open>The running transcript.\<close>

record transcript =
  tr_suite :: cipher_suite
  tr_buf :: bytes

definition transcript_new :: "cipher_suite \<Rightarrow> transcript" where
  "transcript_new s = \<lparr>tr_suite = s, tr_buf = []\<rparr>"

definition transcript_update :: "bytes \<Rightarrow> transcript \<Rightarrow> transcript" where
  "transcript_update msg t = t\<lparr>tr_buf := tr_buf t @ msg\<rparr>"

definition transcript_hash :: "crypto \<Rightarrow> transcript \<Rightarrow> bytes" where
  "transcript_hash cr t = suite_hash cr (tr_suite t) (tr_buf t)"

subsection \<open>Plaintext records\<close>

definition HANDSHAKE :: u8 where "HANDSHAKE = 0x16"
definition ALERT :: u8 where "ALERT = 0x15"
definition APPLICATION_DATA :: u8 where "APPLICATION_DATA = 0x17"
definition REC_HEADER_LEN :: nat where "REC_HEADER_LEN = 5"
definition MAX_RECORD_PAYLOAD :: nat where "MAX_RECORD_PAYLOAD = 16384"
definition MAX_RECORD_SLACK :: nat where "MAX_RECORD_SLACK = 256"

definition MAX_RECORD_ON_WIRE :: nat where
  "MAX_RECORD_ON_WIRE = MAX_RECORD_PAYLOAD + MAX_RECORD_SLACK"

record tls_record =
  content_type :: u8
  rec_payload :: bytes

definition record_header :: "u8 \<Rightarrow> nat \<Rightarrow> bytes" where
  "record_header ct len = [ct, 0x03, 0x03] @ u16_to_be (of_nat len)"

definition record_bytes :: "tls_record \<Rightarrow> bytes" where
  "record_bytes r = record_header (content_type r) (length (rec_payload r)) @ rec_payload r"

definition encode_record :: "tls_record \<Rightarrow> bytes option" where
  "encode_record r = (if length (rec_payload r) < 2 ^ 16 then Some (record_bytes r) else None)"

definition record_too_large :: "nat \<Rightarrow> tls_error" where
  "record_too_large len =
     TMalformed ''record'' (''payload '' @ show_nat len @ '' exceeds max '' @ show_nat MAX_RECORD_ON_WIRE)"

definition decode_record :: "bytes \<Rightarrow> tls_error + (tls_record \<times> nat)" where
  "decode_record buf =
     (if length buf < REC_HEADER_LEN then Err (TTruncated REC_HEADER_LEN (length buf))
      else let len = unat (u16_from_be [buf ! 3, buf ! 4]) in
        if MAX_RECORD_ON_WIRE < len then Err (record_too_large len)
        else let total = REC_HEADER_LEN + len in
          if length buf < total then Err (TTruncated total (length buf))
          else Ok (\<lparr>content_type = buf ! 0, rec_payload = slice REC_HEADER_LEN total buf\<rparr>, total))"

text \<open>\<open>AsyncReadExt::read_exact\<close> on what the peer sends.\<close>

definition read_exact :: "nat \<Rightarrow> bytes \<Rightarrow> tls_error + (bytes \<times> bytes)" where
  "read_exact n bs = (if length bs < n then Err TIo else Ok (take n bs, drop n bs))"

definition read_record :: "bytes \<Rightarrow> tls_error + (tls_record \<times> bytes)" where
  "read_record bs =
     try_bind (read_exact REC_HEADER_LEN bs) (\<lambda>(hdr, rest).
     let len = unat (u16_from_be [hdr ! 3, hdr ! 4]) in
     if MAX_RECORD_ON_WIRE < len then Err (record_too_large len)
     else try_bind (read_exact len rest) (\<lambda>(p, rest').
       Ok (\<lparr>content_type = hdr ! 0, rec_payload = p\<rparr>, rest')))"

subsection \<open>Protected records\<close>

definition nonce :: "bytes \<Rightarrow> u64 \<Rightarrow> bytes" where
  "nonce iv seq = take 4 iv @ map2 (XOR) (slice 4 12 iv) (u64_to_be seq)"

definition seal_record ::
    "crypto \<Rightarrow> cipher_suite \<Rightarrow> bytes \<Rightarrow> bytes \<Rightarrow> u64 \<Rightarrow> u8 \<Rightarrow> bytes \<Rightarrow> tls_error + bytes" where
  "seal_record cr suite key iv seq inner_type plaintext =
     (let inner = plaintext @ [inner_type];
          ct_len = length inner + tag_len suite in
      if 2 ^ 16 \<le> ct_len then Err (TMalformed ''record'' ''too large'')
      else let header = record_header APPLICATION_DATA ct_len in
        try_bind (ok_or (aead_seal_in_place cr suite key (nonce iv seq) header inner)
                        (TMalformed ''record'' ''seal''))
          (\<lambda>sealed. Ok (header @ sealed)))"

text \<open>Dropping trailing zero bytes, then the last byte is the content type.\<close>

definition strip_zeros :: "bytes \<Rightarrow> bytes" where
  "strip_zeros inner = rev (dropWhile (\<lambda>b. b = 0) (rev inner))"

definition open_record_parts ::
    "crypto \<Rightarrow> cipher_suite \<Rightarrow> bytes \<Rightarrow> bytes \<Rightarrow> u64 \<Rightarrow> bytes \<Rightarrow> bytes \<Rightarrow> tls_error + (u8 \<times> bytes)" where
  "open_record_parts cr suite key iv seq header body =
     try_bind (ok_or (aead_open_in_place cr suite key (nonce iv seq) header body)
                     (TMalformed ''record'' ''open/tag''))
       (\<lambda>inner. let stripped = strip_zeros inner in
          if stripped = [] then Err (TMalformed ''record'' ''empty inner'')
          else Ok (last stripped, butlast stripped))"

definition open_record ::
    "crypto \<Rightarrow> cipher_suite \<Rightarrow> bytes \<Rightarrow> bytes \<Rightarrow> u64 \<Rightarrow> bytes \<Rightarrow> tls_error + (u8 \<times> bytes)" where
  "open_record cr suite key iv seq rec =
     (if length rec < 5 then Err (TTruncated 5 (length rec))
      else open_record_parts cr suite key iv seq (slice 0 5 rec) (drop 5 rec))"

section \<open>Lemmas\<close>

lemmas record_sizes =
  REC_HEADER_LEN_def MAX_RECORD_PAYLOAD_def MAX_RECORD_SLACK_def MAX_RECORD_ON_WIRE_def

lemma length_record_header [simp]: "length (record_header ct n) = 5"
  by (simp add: record_header_def)

lemma record_header_nth: 
  "record_header ct n ! 0 = ct" "u16_from_be [record_header ct n ! 3, record_header ct n ! 4] = of_nat n"
proof -
  obtain a b where ab: "u16_to_be (of_nat n) = [a, b]"
    using two_list [of "u16_to_be (of_nat n)"] by auto
  then have "u16_from_be [a, b] = of_nat n"
    using u16_from_to_be [of "of_nat n"] by simp
  then show "record_header ct n ! 0 = ct" 
    "u16_from_be [record_header ct n ! 3, record_header ct n ! 4] = of_nat n"
    using ab by (simp_all add: record_header_def)
qed

lemma read_exact_append: "length a = n \<Longrightarrow> read_exact n (a @ b) = Ok (a, b)"
  by (simp add: read_exact_def)

definition record_fits :: "tls_record \<Rightarrow> bool" where
  "record_fits r \<longleftrightarrow> length (rec_payload r) \<le> MAX_RECORD_ON_WIRE"

lemma read_record_bytes:
  assumes "record_fits r"
  shows "read_record (record_bytes r @ rest) = Ok (r, rest)"
proof -
  let ?n = "length (rec_payload r)" and ?h = "record_header (content_type r) (length (rec_payload r))"
  have n: "?n \<le> 16640" "unat (of_nat ?n :: u16) = ?n"
    using assms by (simp_all add: record_fits_def record_sizes unat_of_nat)
  have "read_exact REC_HEADER_LEN (record_bytes r @ rest) = Ok (?h, rec_payload r @ rest)"
    by (simp add: record_bytes_def REC_HEADER_LEN_def read_exact_append)
  then show ?thesis
    using n by (simp add: read_record_def record_header_nth read_exact_append MAX_RECORD_ON_WIRE_def
        MAX_RECORD_PAYLOAD_def MAX_RECORD_SLACK_def)
qed

interpretation record_codec: stream_codec record_bytes read_record record_fits
  by unfold_locales (rule read_record_bytes)

text \<open>The in-memory decoder and the stream reader agree.\<close>

lemma decode_record_read:
  "decode_record buf = Ok (r, n) \<longleftrightarrow>
   read_record buf = Ok (r, drop n buf) \<and> n = 5 + length (rec_payload r)"
proof -
  have nth: "take 5 buf ! i = buf ! i" if "i < 5" for i
    using that by simp
  show ?thesis
    by (auto simp: decode_record_def read_record_def read_exact_def Let_def try_bind_def REC_HEADER_LEN_def
        nth slice_def add.commute split: if_splits)
qed

lemma nonce_length: "length iv = 12 \<Longrightarrow> length (nonce iv s) = 12"
  by (simp add: nonce_def slice_def)

lemma xor_cancel_list:
  assumes "length xs = length ys" and "length ys = length zs" and "map2 (XOR) xs ys = map2 (XOR) xs zs"
  shows "ys = (zs :: 'a::len word list)"
  using assms
proof (induction xs ys zs rule: list_induct3)
  case (Cons x xs y ys z zs)
  then have "x XOR (x XOR y) = x XOR (x XOR z)" "ys = zs"
    by auto
  then show ?case
    by (simp add: xor.assoc [symmetric])
qed simp

lemma u64_to_be_inject: "u64_to_be a = u64_to_be b \<Longrightarrow> a = b"
  by (metis u64_from_to_be)

lemma nonce_inject: 
  assumes "length iv = 12" and "nonce iv a = nonce iv b"
  shows "a = b"
proof -
  have "map2 (XOR) (slice 4 12 iv) (u64_to_be a) = map2 (XOR) (slice 4 12 iv) (u64_to_be b)"
    using assms by (simp add: nonce_def)
  then have "u64_to_be a = u64_to_be b"
    by (rule xor_cancel_list [rotated 2]) (simp_all add: assms)
  then show ?thesis
    by (rule u64_to_be_inject)
qed

lemma strip_zeros_snoc: "t \<noteq> 0 \<Longrightarrow> strip_zeros (p @ [t] @ replicate n 0) = p @ [t]"
  by (induction n) (simp_all add: strip_zeros_def dropWhile_append rev_replicate)

lemma aead_round:
  assumes "aead_correct cr" and "length key = key_len s" and "length iv = 12"
  obtains ct where "aead_seal_in_place cr s key (nonce iv q) aad pt = Some ct"
    and "length ct = length pt + 16" and "aead_open_in_place cr s key (nonce iv q) aad ct = Some pt"
proof -
  have "length key = aead_key_len (suite_aead s)"
    using assms(2) by (cases s) (simp_all add: key_len_def aead_key_len_def suite_aead_def)
  then show ?thesis
    using assms nonce_length [OF assms(3), of q] that
    unfolding aead_correct_def aead_seal_in_place_def aead_open_in_place_def by blast
qed

lemma seal_open:
  assumes "aead_correct cr" and "length key = key_len s" and "length iv = 12"
    and "t \<noteq> 0" and "length pt + 17 < 2 ^ 16"
  obtains body where "seal_record cr s key iv q t pt =
      Ok (record_bytes \<lparr>content_type = APPLICATION_DATA, rec_payload = body\<rparr>)"
    and "length body = length pt + 17"
    and "open_record_parts cr s key iv q (record_header APPLICATION_DATA (length body)) body = Ok (t, pt)"
proof -
  let ?h = "record_header APPLICATION_DATA (length pt + 17)"
  obtain ct where ct: "aead_seal_in_place cr s key (nonce iv q) ?h (pt @ [t]) = Some ct"
    "length ct = length pt + 17" "aead_open_in_place cr s key (nonce iv q) ?h ct = Some (pt @ [t])"
    by (rule aead_round [OF assms(1-3), of q ?h "pt @ [t]"]) auto
  have "strip_zeros (pt @ [t]) = pt @ [t]"
    using strip_zeros_snoc [OF assms(4), of pt 0] by simp
  then show ?thesis
    using that [of ct] ct assms(5)
    by (simp add: seal_record_def open_record_parts_def record_bytes_def tag_len_def Let_def add.commute)
qed

end
