(* ===== verification/Tunnel.thy ===== *)
theory Tunnel
  imports Transport TlsRecord Mux
begin

text \<open>
  The REALITY transport: \<open>crates/leshiy-reality/src/tunnel.rs\<close>, leshiy frames in TLS 1.3
  application-data records. The establishment of a session (\<open>establish_server\<close>, \<open>establish_client\<close>)
  calls the TLS handshake and is modelled with it.
\<close>

section \<open>Definitions\<close>

definition MAX_TLS_FRAME_ENCODE :: nat where
  "MAX_TLS_FRAME_ENCODE = MAX_RECORD_PAYLOAD - 1"

text \<open>\<open>TlsFrameReader\<close> and \<open>TlsFrameWriter\<close> hold the same cipher state; the byte stream is apart.\<close>

record tls_half =
  h_suite :: cipher_suite
  h_key :: bytes
  h_iv :: bytes
  h_seq :: u64

record tls_session =
  ts_suite :: cipher_suite
  ts_client_key :: bytes
  ts_client_iv :: bytes
  ts_server_key :: bytes
  ts_server_iv :: bytes

text \<open>\<open>checked_add(1)\<close> of the sequence number.\<close>

definition bump_seq :: "tls_half \<Rightarrow> core_error + tls_half" where
  "bump_seq h =
     (case checked_add64 (h_seq h) 1 of
        None \<Rightarrow> Err (EProtocol ''tls record sequence exhausted'')
      | Some q \<Rightarrow> Ok (h\<lparr>h_seq := q\<rparr>))"

definition tls_recv :: "crypto \<Rightarrow> tls_half \<Rightarrow> bytes \<Rightarrow> (core_error + (frame \<times> bytes)) \<times> tls_half" where
  "tls_recv cr h bs =
     (case read_record bs of
        Inl _ \<Rightarrow> (Err EClosed, h)
      | Inr (rec, rest) \<Rightarrow>
     (case open_record_parts cr (h_suite h) (h_key h) (h_iv h) (h_seq h)
             (record_header (content_type rec) (length (rec_payload rec))) (rec_payload rec) of
        Inl _ \<Rightarrow> (Err (EProtocol ''tls record open''), h)
      | Inr (inner_type, pt) \<Rightarrow>
     (case bump_seq h of
        Inl e \<Rightarrow> (Err e, h)
      | Inr h' \<Rightarrow>
          if inner_type \<noteq> APPLICATION_DATA then (Err (EProtocol ''unexpected inner content type''), h')
          else (try_bind (decode_from_bytes pt) (\<lambda>f. Ok (f, rest)), h'))))"

definition tls_send :: "crypto \<Rightarrow> tls_half \<Rightarrow> frame \<Rightarrow> (core_error + bytes) \<times> tls_half" where
  "tls_send cr h f =
     (let bs = encode_frame f in
      if MAX_TLS_FRAME_ENCODE < length bs then (Err (EFrameTooLarge (length bs)), h)
      else
        case seal_record cr (h_suite h) (h_key h) (h_iv h) (h_seq h) APPLICATION_DATA bs of
          Inl _ \<Rightarrow> (Err (EProtocol ''tls record seal''), h)
        | Inr rec \<Rightarrow>
            (case bump_seq h of
               Inl e \<Rightarrow> (Err e, h)
             | Inr h' \<Rightarrow> (Ok rec, h')))"

text \<open>Role-correct (reader, writer).\<close>

definition into_transport :: "tls_session \<Rightarrow> role \<Rightarrow> tls_half \<times> tls_half" where
  "into_transport s r =
     (let client = \<lparr>h_suite = ts_suite s, h_key = ts_client_key s, h_iv = ts_client_iv s, h_seq = 0\<rparr>;
          server = \<lparr>h_suite = ts_suite s, h_key = ts_server_key s, h_iv = ts_server_iv s, h_seq = 0\<rparr>
      in case r of RoleServer \<Rightarrow> (client, server) | RoleClient \<Rightarrow> (server, client))"

text \<open>Two ends of one direction: same cipher state, keys of the right length.\<close>

definition good_half :: "tls_half \<Rightarrow> bool" where
  "good_half h \<longleftrightarrow> length (h_key h) = key_len (h_suite h) \<and> length (h_iv h) = 12"

definition tls_sync :: "crypto \<Rightarrow> tls_half \<Rightarrow> tls_half \<Rightarrow> bool" where
  "tls_sync cr w r \<longleftrightarrow> aead_correct cr \<and> r = w \<and> good_half w"

definition good_session :: "tls_session \<Rightarrow> bool" where
  "good_session s \<longleftrightarrow>
     length (ts_client_key s) = key_len (ts_suite s) \<and> length (ts_server_key s) = key_len (ts_suite s) \<and>
     length (ts_client_iv s) = 12 \<and> length (ts_server_iv s) = 12"

text \<open>The records a writer emits when it is given a list of frames; frames it refuses emit none.\<close>

primrec sent_records :: "crypto \<Rightarrow> tls_half \<Rightarrow> frame list \<Rightarrow> bytes list" where
  "sent_records cr h [] = []"
| "sent_records cr h (f # fs) =
     (case tls_send cr h f of
        (Inl e, h') \<Rightarrow> sent_records cr h' fs
      | (Inr b, h') \<Rightarrow> b # sent_records cr h' fs)"

text \<open>A cipher that gives away the nonce it was called with, so that the records show it.\<close>

definition reveals_nonce :: "crypto \<Rightarrow> (bytes \<Rightarrow> bytes) \<Rightarrow> bool" where
  "reveals_nonce cr nonce_of \<longleftrightarrow> (\<forall>a key n aad pt ct. length n = 12 \<and> cr_encrypt cr a key n aad pt = Some ct \<longrightarrow> nonce_of ct = n)"

section \<open>Lemmas\<close>

lemma bump_seq_Ok:
  "bump_seq h = Ok h' \<longleftrightarrow> unat (h_seq h) + 1 < 2 ^ 64 \<and> h' = h\<lparr>h_seq := h_seq h + 1\<rparr>"
  by (auto simp: bump_seq_def checked_add64_def)

lemma tls_send_Ok:
  "tls_send cr h f = (Ok b, h') \<longleftrightarrow>
     length (encode_frame f) \<le> MAX_TLS_FRAME_ENCODE \<and>
     seal_record cr (h_suite h) (h_key h) (h_iv h) (h_seq h) APPLICATION_DATA (encode_frame f) = Ok b \<and>
     bump_seq h = Ok h'"
  by (auto simp: tls_send_def Let_def split: sum.splits)

lemma tls_half_step:
  assumes "tls_sync cr w r" and "tls_send cr w f = (Ok b, w')"
  shows "\<exists>r'. tls_recv cr r (b @ rest) = (Ok (f, rest), r') \<and> tls_sync cr w' r'"
proof -
  have s: "length (encode_frame f) \<le> MAX_TLS_FRAME_ENCODE" "bump_seq w = Ok w'"
    "seal_record cr (h_suite w) (h_key w) (h_iv w) (h_seq w) APPLICATION_DATA (encode_frame f) = Ok b"
    using assms(2) by (simp_all add: tls_send_Ok)
  have sync: "aead_correct cr" "r = w" "length (h_key w) = key_len (h_suite w)" "length (h_iv w) = 12"
    using assms(1) by (simp_all add: tls_sync_def good_half_def)
  have size: "length (encode_frame f) + 17 < 2 ^ 16"
    using s(1) by (simp add: MAX_TLS_FRAME_ENCODE_def record_sizes)
  obtain body where body: "b = record_bytes \<lparr>content_type = APPLICATION_DATA, rec_payload = body\<rparr>"
    "length body = length (encode_frame f) + 17"
    "open_record_parts cr (h_suite w) (h_key w) (h_iv w) (h_seq w)
       (record_header APPLICATION_DATA (length body)) body = Ok (APPLICATION_DATA, encode_frame f)"
    using seal_open [OF sync(1,3,4) _ size, of APPLICATION_DATA "h_seq w"] s(3)
    by (auto simp: APPLICATION_DATA_def)
  have "record_fits \<lparr>content_type = APPLICATION_DATA, rec_payload = body\<rparr>"
    using body(2) s(1) by (simp add: record_fits_def MAX_TLS_FRAME_ENCODE_def record_sizes)
  then have "read_record (b @ rest) = Ok (\<lparr>content_type = APPLICATION_DATA, rec_payload = body\<rparr>, rest)"
    using read_record_bytes body(1) by blast
  then have "tls_recv cr r (b @ rest) = (Ok (f, rest), w')"
    using body(3) s(2) by (simp add: tls_recv_def sync(2) decode_encode_frame)
  moreover have "tls_sync cr w' w'"
    using assms(1) s(2) by (auto simp: tls_sync_def good_half_def bump_seq_Ok)
  ultimately show ?thesis by blast
qed

interpretation tls: frame_transport "tls_send cr" "tls_recv cr" "tls_sync cr" for cr :: crypto
  by unfold_locales (rule tls_half_step)

lemma tls_send_accepts:
  assumes "tls_sync cr w r" and "length (payload f) \<le> MAX_FRAME_PAYLOAD" and "unat (h_seq w) + 1 < 2 ^ 64"
  shows "\<exists>b. tls_send cr w f = (Ok b, w\<lparr>h_seq := h_seq w + 1\<rparr>) \<and> length b \<le> 5 + MAX_RECORD_ON_WIRE"
proof -
  have sync: "aead_correct cr" "length (h_key w) = key_len (h_suite w)" "length (h_iv w) = 12"
    using assms(1) by (simp_all add: tls_sync_def good_half_def)
  have size: "length (encode_frame f) \<le> MAX_TLS_FRAME_ENCODE" "length (encode_frame f) + 17 < 2 ^ 16"
    using assms(2) by (simp_all add: MAX_TLS_FRAME_ENCODE_def record_sizes frame_consts)
  obtain body where "seal_record cr (h_suite w) (h_key w) (h_iv w) (h_seq w) APPLICATION_DATA (encode_frame f)
      = Ok (record_bytes \<lparr>content_type = APPLICATION_DATA, rec_payload = body\<rparr>)"
    "length body = length (encode_frame f) + 17"
    using seal_open [OF sync _ size(2), of APPLICATION_DATA "h_seq w"] by (auto simp: APPLICATION_DATA_def)
  then show ?thesis
    using size(1) assms(2,3)
    by (auto simp: tls_send_Ok bump_seq_Ok record_bytes_def frame_consts record_sizes)
qed

lemma tls_send_half: "tls_send cr h f = (x, h') \<Longrightarrow> h_iv h' = h_iv h \<and> h_seq h \<le> h_seq h' \<and> (\<forall>b. x = Ok b \<longrightarrow> h_seq h < h_seq h')"
  by (auto simp: tls_send_def Let_def bump_seq_Ok word_less_nat_alt word_le_nat_alt unat_add64 split: if_splits sum.splits)

lemma sent_nonce:
  assumes "reveals_nonce cr nonce_of" and "length (h_iv h) = 12" and "tls_send cr h f = (Ok b, h')"
  shows "nonce_of (drop REC_HEADER_LEN b) = nonce (h_iv h) (h_seq h)"
proof -
  let ?n = "nonce (h_iv h) (h_seq h)" and ?in = "encode_frame f @ [APPLICATION_DATA]"
  let ?hd = "record_header APPLICATION_DATA (length ?in + tag_len (h_suite h))"
  have "seal_record cr (h_suite h) (h_key h) (h_iv h) (h_seq h) APPLICATION_DATA (encode_frame f) = Ok b"
    using assms(3) by (simp add: tls_send_Ok)
  then obtain ct where "b = ?hd @ ct" "cr_encrypt cr (suite_aead (h_suite h)) (h_key h) ?n ?hd ?in = Some ct"
    unfolding seal_record_def aead_seal_in_place_def Let_def
    by (cases "cr_encrypt cr (suite_aead (h_suite h)) (h_key h) ?n ?hd ?in") (auto simp: ok_or_def split: if_splits)
  moreover have "length ?hd = REC_HEADER_LEN" by (simp add: record_header_def REC_HEADER_LEN_def)
  moreover have "length ?n = 12" using assms(2) by (simp add: nonce_def slice_def)
  ultimately show ?thesis using assms(1) by (auto simp: reveals_nonce_def)
qed

lemma sent_nonces_increase:
  assumes "length (h_iv h) = 12" and "reveals_nonce cr nonce_of"
  shows "distinct (map (\<lambda>b. nonce_of (drop REC_HEADER_LEN b)) (sent_records cr h fs)) \<and>
    (\<forall>b\<in>set (sent_records cr h fs). \<exists>q. h_seq h \<le> q \<and> nonce_of (drop REC_HEADER_LEN b) = nonce (h_iv h) q)"
  using assms(1)
proof (induction fs arbitrary: h)
  case (Cons f fs)
  obtain x h' where Pair: "tls_send cr h f = (x, h')" by (cases "tls_send cr h f")
  note half = tls_send_half [OF Pair]
  have IH: "distinct (map (\<lambda>b. nonce_of (drop REC_HEADER_LEN b)) (sent_records cr h' fs))"
    "\<forall>b\<in>set (sent_records cr h' fs). \<exists>q. h_seq h' \<le> q \<and> nonce_of (drop REC_HEADER_LEN b) = nonce (h_iv h) q"
    using Cons.IH [of h'] Cons.prems half by auto
  then have mono: "\<exists>q. h_seq h \<le> q \<and> nonce_of (drop REC_HEADER_LEN b) = nonce (h_iv h) q" if "b \<in> set (sent_records cr h' fs)" for b
    using that half by (meson order_trans)
  show ?case
  proof (cases x)
    case (Inr b)
    then have lt: "h_seq h < h_seq h'" using half by blast
    have own: "nonce_of (drop REC_HEADER_LEN b) = nonce (h_iv h) (h_seq h)"
      using sent_nonce [OF assms(2) Cons.prems] Pair Inr by blast
    have "nonce_of (drop REC_HEADER_LEN b) \<noteq> nonce_of (drop REC_HEADER_LEN b')" if "b' \<in> set (sent_records cr h' fs)" for b'
      using IH(2) that nonce_inject [OF Cons.prems] lt unfolding own by (metis leD)
    then have "nonce_of (drop REC_HEADER_LEN b) \<notin> (\<lambda>b. nonce_of (drop REC_HEADER_LEN b)) ` set (sent_records cr h' fs)"
      by blast
    then show ?thesis using Pair Inr IH(1) mono own by auto
  qed (use Pair IH(1) mono in simp)
qed simp

text \<open>A toy AEAD: the tag is sixteen zero bytes.\<close>

definition zero_tag :: crypto where
  "zero_tag =
     \<lparr>cr_encrypt = (\<lambda>a k n d p. Some (p @ replicate 16 0)),
      cr_decrypt = (\<lambda>a k n d c. if 16 \<le> length c then Some (take (length c - 16) c) else None),
      cr_hash = (\<lambda>h d. []), cr_hmac = (\<lambda>h k d. []), cr_extract = (\<lambda>h s i. []),
      cr_expand = (\<lambda>h p i n. replicate n 0)\<rparr>"

lemma zero_tag_correct: "aead_correct zero_tag"
  by (simp add: aead_correct_def zero_tag_def)

definition sample_half :: tls_half where
  "sample_half = \<lparr>h_suite = Aes128GcmSha256, h_key = replicate 16 0, h_iv = replicate 12 0, h_seq = 0\<rparr>"

lemma sample_half_sync: "tls_sync zero_tag sample_half sample_half"
  by (simp add: tls_sync_def zero_tag_correct good_half_def sample_half_def key_len_def)

lemma sample_send: "\<exists>b h'. tls_send zero_tag sample_half \<lparr>stream_id = 1, ftype = 4, payload = []\<rparr> = (Ok b, h')"
  using tls_send_accepts [OF sample_half_sync, of "\<lparr>stream_id = 1, ftype = 4, payload = []\<rparr>"]
  by (auto simp: sample_half_def)

section \<open>Properties\<close>

text \<open>
  C9. Over the REALITY tunnel every sequence of frames arrives as it was sent, in order and with nothing
  beyond the bytes of its records, when the AEAD is correct and the two ends hold the keys of one
  session; and no frame the multiplexer builds is refused: a payload within its limit is sealed into one
  record that the peer's record layer accepts, until the sequence number is exhausted.
\<close>

theorem tunnel_delivers:
  assumes "tls_sync cr w r" and "write_all_frames (tls_send cr) w fs = (Ok bs, w')"
  shows "(\<exists>r'. read_all_frames (tls_recv cr) (length fs) r (bs @ rest) = (Ok (fs, rest), r') \<and>
            tls_sync cr w' r') \<and>
         (\<forall>f. length (payload f) \<le> MAX_FRAME_PAYLOAD \<and> unat (h_seq w) + 1 < 2 ^ 64 \<longrightarrow>
            (\<exists>b. tls_send cr w f = (Ok b, w\<lparr>h_seq := h_seq w + 1\<rparr>) \<and> length b \<le> 5 + MAX_RECORD_ON_WIRE))"
  using tls.read_all_written [OF assms] tls_send_accepts [OF assms(1)] by blast

theorem tunnel_delivers_witness:
  "\<exists>b r'. read_all_frames (tls_recv zero_tag) 1 sample_half b =
     (Ok ([\<lparr>stream_id = 1, ftype = 4, payload = []\<rparr>], []), r')"
proof -
  obtain b h' where "tls_send zero_tag sample_half \<lparr>stream_id = 1, ftype = 4, payload = []\<rparr> = (Ok b, h')"
    using sample_send by blast
  then have "write_all_frames (tls_send zero_tag) sample_half [\<lparr>stream_id = 1, ftype = 4, payload = []\<rparr>] =
      (Ok b, h')"
    by simp
  from tunnel_delivers [OF sample_half_sync this, of "[]"] show ?thesis
    by auto
qed


text \<open>A cipher whose ciphertext is the nonce and the plaintext.\<close>

definition open_cipher :: crypto where
  "open_cipher = zero_tag\<lparr>cr_encrypt := (\<lambda>a k n d p. Some (n @ p))\<rparr>"

lemma open_cipher_sends:
  assumes "h_seq h = 0 \<or> h_seq h = 1" and "h_suite h = Aes128GcmSha256"
  shows "\<exists>b. tls_send open_cipher h \<lparr>stream_id = 1, ftype = 4, payload = []\<rparr> = (Ok b, h\<lparr>h_seq := h_seq h + 1\<rparr>)"
  using assms
  by (auto simp: tls_send_Ok bump_seq_Ok seal_record_def aead_seal_in_place_def open_cipher_def ok_or_def Let_def
      MAX_TLS_FRAME_ENCODE_def record_sizes tag_len_def HEADER_LEN_def)


text \<open>
  The keys of a session are split correctly between the roles: what the client writes the server
  reads and the other way round, each direction under its own key, when the key lengths are those of the
  suite.
\<close>

theorem into_transport_pairs:
  assumes "aead_correct cr" and "good_session s"
  shows "tls_sync cr (snd (into_transport s RoleClient)) (fst (into_transport s RoleServer)) \<and>
         tls_sync cr (snd (into_transport s RoleServer)) (fst (into_transport s RoleClient)) \<and>
         h_key (snd (into_transport s RoleClient)) = ts_client_key s \<and>
         h_key (snd (into_transport s RoleServer)) = ts_server_key s"
  using assms by (simp add: into_transport_def tls_sync_def good_half_def good_session_def Let_def)

definition sample_session :: tls_session where
  "sample_session = \<lparr>ts_suite = Aes128GcmSha256, ts_client_key = replicate 16 1, ts_client_iv = replicate 12 0,
     ts_server_key = replicate 16 2, ts_server_iv = replicate 12 0\<rparr>"

theorem into_transport_pairs_witness:
  "tls_sync zero_tag (snd (into_transport sample_session RoleClient)) (fst (into_transport sample_session RoleServer))"
  using into_transport_pairs [OF zero_tag_correct, of sample_session]
  by (simp add: good_session_def sample_session_def key_len_def)

end
