(* ===== verification/TlsMessages.thy ===== *)
theory TlsMessages
  imports TlsRecord
begin

text \<open>
  TLS 1.3 handshake messages, \<open>crates/leshiy-tls/src/tls13/messages.rs\<close> and \<open>server_hello.rs\<close>:
  builders and bounds-checked parsers. An index that the code reads after checking it is \<open>u16_at\<close>
  or \<open>u24_at\<close>.
\<close>

section \<open>Definitions\<close>

definition u16_at :: "bytes \<Rightarrow> nat \<Rightarrow> u16" where
  "u16_at buf p = u16_from_be [buf ! p, buf ! (p + 1)]"

definition u24_at :: "bytes \<Rightarrow> nat \<Rightarrow> nat" where
  "u24_at buf p = be_value [buf ! p, buf ! (p + 1), buf ! (p + 2)]"

text \<open>The three length bytes \<open>l >> 16\<close>, \<open>l >> 8\<close>, \<open>l\<close>.\<close>

definition u24_to_be :: "nat \<Rightarrow> bytes" where
  "u24_to_be l = be_bytes 3 l"

definition hs_msg :: "u8 \<Rightarrow> bytes \<Rightarrow> bytes" where
  "hs_msg msg_type body = [msg_type] @ u24_to_be (length body) @ body"

definition parse_hs_msg :: "bytes \<Rightarrow> tls_error + (u8 \<times> bytes)" where
  "parse_hs_msg msg =
     (if length msg < 4 then Err (TTruncated 4 (length msg))
      else let fin = 4 + u24_at msg 1 in
        if length msg < fin then Err (TTruncated fin (length msg))
        else Ok (msg ! 0, slice 4 fin msg))"

record server_hello_params =
  sh_suite :: u16
  server_random :: bytes
  session_id_echo :: bytes
  key_share_group :: u16
  key_share :: bytes

definition sh_extensions :: "server_hello_params \<Rightarrow> bytes" where
  "sh_extensions p =
     u16_to_be 0x002b @ u16_to_be 0x0002 @ u16_to_be 0x0304 @
     u16_to_be 0x0033 @ u16_to_be (of_nat (2 + 2 + length (key_share p))) @
     u16_to_be (key_share_group p) @ u16_to_be (of_nat (length (key_share p))) @ key_share p"

definition build_server_hello :: "server_hello_params \<Rightarrow> bytes" where
  "build_server_hello p =
     hs_msg 0x02
       ([0x03, 0x03] @ server_random p @ [of_nat (length (session_id_echo p))] @ session_id_echo p @
        u16_to_be (sh_suite p) @ [0x00] @
        u16_to_be (of_nat (length (sh_extensions p))) @ sh_extensions p)"

definition take_bytes :: "bytes \<Rightarrow> nat \<Rightarrow> nat \<Rightarrow> tls_error + (bytes \<times> nat)" where
  "take_bytes buf at n =
     (if length buf < at + n then Err (TTruncated (at + n) (length buf))
      else Ok (slice at (at + n) buf, at + n))"

function sh_exts :: "bytes \<Rightarrow> nat \<Rightarrow> nat \<Rightarrow> u16 \<Rightarrow> bytes \<Rightarrow> u16 \<times> bytes" where
  "sh_exts body p ext_end grp share =
     (if p + 4 \<le> ext_end then
        let etype = u16_at body p; elen = unat (u16_at body (p + 2)); q = p + 4 in
        if ext_end < q + elen then (grp, share)
        else if etype = 0x0033 \<and> 4 \<le> elen then
          let kl = unat (u16_at body (q + 2)) in
          sh_exts body (q + elen) ext_end (u16_at body q)
            (if q + 4 + kl \<le> ext_end then slice (q + 4) (q + 4 + kl) body else share)
        else sh_exts body (q + elen) ext_end grp share
      else (grp, share))"
  by pat_completeness auto
termination
  by (relation "measure (\<lambda>(body, p, ext_end, _, _). ext_end - p)") auto

declare sh_exts.simps [simp del]

definition sh_truncated :: tls_error where
  "sh_truncated = TMalformed ''serverhello'' ''truncated''"

definition parse_server_hello :: "bytes \<Rightarrow> tls_error + server_hello_params" where
  "parse_server_hello msg =
     try_bind (parse_hs_msg msg) (\<lambda>(mt, body).
     if mt \<noteq> 0x02 then Err (TMalformed ''serverhello'' ''wrong type'')
     else
       try_bind (take_bytes body 0 2) (\<lambda>(_, p).
       try_bind (take_bytes body p 32) (\<lambda>(rnd, p).
       try_bind (take_bytes body p 1) (\<lambda>(sl, p).
       try_bind (take_bytes body p (unat (sl ! 0))) (\<lambda>(sid, p).
       if length body < p + 2 then Err sh_truncated
       else let suite = u16_at body p; p = p + 2 in
         try_bind (take_bytes body p 1) (\<lambda>(_, p).
         if length body < p + 2 then Err sh_truncated
         else let ext_total = unat (u16_at body p); p = p + 2;
                  ext_end = min (p + ext_total) (length body);
                  (grp, share) = sh_exts body p ext_end 0 []
           in Ok \<lparr>sh_suite = suite, server_random = rnd, session_id_echo = sid,
                  key_share_group = grp, key_share = share\<rparr>))))))"

definition adapt_server_hello :: "bytes \<Rightarrow> bytes \<Rightarrow> tls_error + bytes" where
  "adapt_server_hello dest_sh new_share =
     try_bind (parse_server_hello dest_sh) (\<lambda>p.
     if (key_share_group p = 0x001d \<and> length new_share = 32) \<or>
        (key_share_group p = 0x11ec \<and> length new_share = 1120)
     then Ok (build_server_hello (p\<lparr>key_share := new_share\<rparr>))
     else Err (TMalformed ''serverhello'' ''unexpected key_share group/len''))"

definition alpn_extension :: "string \<Rightarrow> bytes" where
  "alpn_extension a =
     (let protos = of_nat (length a) # as_bytes a in
      u16_to_be 0x0010 @ u16_to_be (of_nat (length protos + 2)) @ u16_to_be (of_nat (length protos)) @ protos)"

definition build_encrypted_extensions :: "string option \<Rightarrow> bytes" where
  "build_encrypted_extensions alpn =
     (let ext = (case alpn of None \<Rightarrow> [] | Some a \<Rightarrow> alpn_extension a) in
      hs_msg 0x08 (u16_to_be (of_nat (length ext)) @ ext))"

definition build_certificate :: "bytes \<Rightarrow> bytes" where
  "build_certificate cert_der =
     (let entry = u24_to_be (length cert_der) @ cert_der @ [0x00, 0x00] in
      hs_msg 0x0b ([0x00] @ u24_to_be (length entry) @ entry))"

definition parse_certificate :: "bytes \<Rightarrow> tls_error + bytes" where
  "parse_certificate msg =
     try_bind (parse_hs_msg msg) (\<lambda>(mt, body).
     if mt \<noteq> 0x0b then Err (TMalformed ''certificate'' ''wrong type'')
     else if body = [] then Err (TMalformed ''certificate'' ''empty'')
     else let p = 1 + unat (body ! 0) in
       if length body < p + 3 then Err (TTruncated (p + 3) (length body))
       else let list_len = u24_at body p; p = p + 3; list_end = p + list_len in
         if length body < list_end then Err (TTruncated list_end (length body))
         else if list_end < p + 3 then Err (TTruncated (p + 3) list_end)
         else let cl = u24_at body p; p = p + 3 in
           if list_end < p + cl then Err (TMalformed ''certificate'' ''cert entry overruns certificate_list'')
           else Ok (slice p (p + cl) body))"

definition build_certificate_verify :: "u16 \<Rightarrow> bytes \<Rightarrow> bytes" where
  "build_certificate_verify alg sig = hs_msg 0x0f (u16_to_be alg @ u16_to_be (of_nat (length sig)) @ sig)"

definition parse_certificate_verify :: "bytes \<Rightarrow> tls_error + (u16 \<times> bytes)" where
  "parse_certificate_verify msg =
     try_bind (parse_hs_msg msg) (\<lambda>(mt, body).
     if mt \<noteq> 0x0f \<or> length body < 4 then Err (TMalformed ''certverify'' ''bad'')
     else let alg = u16_at body 0; slen = unat (u16_at body 2) in
       if length body < 4 + slen then Err (TTruncated (4 + slen) (length body))
       else Ok (alg, slice 4 (4 + slen) body))"

definition build_finished :: "bytes \<Rightarrow> bytes" where
  "build_finished verify_data = hs_msg 0x14 verify_data"

definition parse_finished :: "bytes \<Rightarrow> tls_error + bytes" where
  "parse_finished msg =
     try_bind (parse_hs_msg msg) (\<lambda>(mt, body).
     if mt \<noteq> 0x14 then Err (TMalformed ''finished'' ''wrong type'') else Ok body)"

text \<open>The lighter parser of \<open>server_hello.rs\<close>.\<close>

record server_hello_info =
  i_cipher_suite :: u16
  i_selected_group :: "u16 option"
  i_server_key_share :: "bytes option"

definition check_not_alert :: "u8 \<Rightarrow> bytes \<Rightarrow> tls_error + unit" where
  "check_not_alert ct p =
     (if ct = ALERT then
        Err (TAlert (case get_at p 0 of None \<Rightarrow> 0 | Some b \<Rightarrow> b) (case get_at p 1 of None \<Rightarrow> 0 | Some b \<Rightarrow> b))
      else Ok ())"

function info_exts :: "bytes \<Rightarrow> nat \<Rightarrow> nat \<Rightarrow> u16 option \<Rightarrow> bytes option \<Rightarrow> u16 option \<times> bytes option" where
  "info_exts msg pos fin grp share =
     (if pos + 4 \<le> fin then
        let etype = u16_at msg pos; elen = unat (u16_at msg (pos + 2)); q = pos + 4 in
        if fin < q + elen then (grp, share)
        else if etype = 0x0033 \<and> 4 \<le> elen then
          let kl = unat (u16_at msg (q + 2)) in
          info_exts msg (q + elen) fin (Some (u16_at msg q))
            (if q + 4 + kl \<le> fin then Some (slice (q + 4) (q + 4 + kl) msg) else share)
        else info_exts msg (q + elen) fin grp share
      else (grp, share))"
  by pat_completeness auto
termination
  by (relation "measure (\<lambda>(msg, pos, fin, _, _). fin - pos)") auto

declare info_exts.simps [simp del]

definition parse_server_hello_info :: "bytes \<Rightarrow> tls_error + server_hello_info" where
  "parse_server_hello_info msg =
     (if get_at msg 0 \<noteq> Some 0x02 then Err (TMalformed ''serverhello'' ''not a ServerHello'')
      else let pos = 4 + 2 + 32 in
      try_bind (ok_or (get_at msg pos) (TTruncated (pos + 1) (length msg))) (\<lambda>sl.
      let pos = pos + 1 + unat sl in
      try_bind (ok_or (get_at msg pos) (TTruncated (pos + 2) (length msg))) (\<lambda>a.
      try_bind (ok_or (get_at msg (pos + 1)) (TTruncated (pos + 2) (length msg))) (\<lambda>b.
      let cs = u16_from_be [a, b]; pos = pos + 2 + 1;
          (grp, share) =
            (if pos + 2 \<le> length msg
             then let ext_len = unat (u16_at msg pos); pos = pos + 2 in
               info_exts msg pos (min (pos + ext_len) (length msg)) None None
             else (None, None))
      in Ok \<lparr>i_cipher_suite = cs, i_selected_group = grp, i_server_key_share = share\<rparr>))))"

section \<open>Lemmas\<close>

subsection \<open>Reading at a position\<close>

lemma u16_at_append [simp]: "u16_at (u16_to_be v @ c) 0 = v"
proof -
  obtain x y where "u16_to_be v = [x, y]"
    using two_list [of "u16_to_be v"] by auto
  then show ?thesis
    using u16_from_to_be [of v] by (simp add: u16_at_def)
qed

lemma u16_at_shift: "length a \<le> p \<Longrightarrow> u16_at (a @ b) p = u16_at b (p - length a)"
  by (simp add: u16_at_def nth_append Suc_diff_le)

lemma u24_at_append [simp]:
  assumes "n < 2 ^ 24"
  shows "u24_at (u24_to_be n @ c) 0 = n"
proof -
  have "length (u24_to_be n) = 3"
    by (simp add: u24_to_be_def)
  then obtain x y z where xyz: "u24_to_be n = [x, y, z]"
    by (auto simp: numeral_eq_Suc length_Suc_conv)
  then have "be_value [x, y, z] = n"
    using assms be_value_bytes [of 3 n] by (simp add: u24_to_be_def)
  then show ?thesis
    by (simp add: u24_at_def xyz)
qed

lemma u24_at_shift: "length a \<le> p \<Longrightarrow> u24_at (a @ b) p = u24_at b (p - length a)"
  by (simp add: u24_at_def nth_append Suc_diff_le numeral_2_eq_2)

lemma length_u24_to_be [simp]: "length (u24_to_be n) = 3"
  by (simp add: u24_to_be_def)

lemma slice_shift: "length a \<le> p \<Longrightarrow> slice p q (a @ b) = slice (p - length a) (q - length a) b"
  by (simp add: slice_def)

lemma slice_front [simp]: "slice 0 (length b) (b @ c) = b"
  by (simp add: slice_def)

lemma take_bytes_at:
  assumes "buf = a @ b @ c" and "at = length a" and "n = length b"
  shows "take_bytes buf at n = Ok (b, at + n)"
  using assms by (simp add: take_bytes_def slice_shift slice_def)

lemma u16_at_pos: "buf = a @ u16_to_be v @ c \<Longrightarrow> p = length a \<Longrightarrow> u16_at buf p = v"
  by (simp add: u16_at_shift)

lemma u24_at_pos: "buf = a @ u24_to_be v @ c \<Longrightarrow> p = length a \<Longrightarrow> v < 2 ^ 24 \<Longrightarrow> u24_at buf p = v"
  by (simp add: u24_at_shift)

lemma slice_at: "buf = a @ b @ c \<Longrightarrow> p = length a \<Longrightarrow> q = length a + length b \<Longrightarrow> slice p q buf = b"
  by (simp add: slice_def)

subsection \<open>Messages\<close>

lemma parse_hs_msg_build:
  assumes "length body < 2 ^ 24"
  shows "parse_hs_msg (hs_msg t body @ rest) = Ok (t, body)"
proof -
  have n: "u24_at (hs_msg t body @ rest) 1 = length body"
    by (rule u24_at_pos [of _ "[t]" _ "body @ rest"]) (use assms in \<open>simp_all add: hs_msg_def\<close>)
  have "slice 4 (4 + length body) (hs_msg t body @ rest) = body"
    by (rule slice_at [of _ "[t] @ u24_to_be (length body)" _ rest]) (simp_all add: hs_msg_def)
  then show ?thesis
    using n by (simp add: parse_hs_msg_def Let_def) (simp add: hs_msg_def)
qed

lemma length_hs_msg [simp]: "length (hs_msg t body) = 4 + length body"
  by (simp add: hs_msg_def)

interpretation finished_codec: wire_codec build_finished parse_finished "\<lambda>vd. length vd < 2 ^ 24"
  by unfold_locales (use parse_hs_msg_build [where rest = "[]"] in
    \<open>simp add: parse_finished_def build_finished_def\<close>)

lemma parse_certificate_verify_build:
  assumes "length sig < 2 ^ 16"
  shows "parse_certificate_verify (build_certificate_verify alg sig @ rest) = Ok (alg, sig)"
proof -
  let ?b = "u16_to_be alg @ u16_to_be (of_nat (length sig)) @ sig"
  have "parse_hs_msg (build_certificate_verify alg sig @ rest) = Ok (0x0f, ?b)"
    unfolding build_certificate_verify_def by (rule parse_hs_msg_build) (use assms in simp)
  moreover have "u16_at ?b 0 = alg"
    by simp
  moreover have "u16_at ?b 2 = of_nat (length sig)"
    by (rule u16_at_pos [of _ "u16_to_be alg" _ sig]) simp_all
  moreover have "unat (of_nat (length sig) :: u16) = length sig"
    using assms by (simp add: unat_of_nat)
  moreover have "slice 4 (4 + length sig) ?b = sig"
    by (rule slice_at [of _ "u16_to_be alg @ u16_to_be (of_nat (length sig))" _ "[]"]) simp_all
  ultimately show ?thesis
    by (simp add: parse_certificate_verify_def Let_def)
qed

interpretation certverify_codec: wire_codec "\<lambda>(alg, sig). build_certificate_verify alg sig"
    parse_certificate_verify "\<lambda>(alg, sig). length sig < 2 ^ 16"
  by unfold_locales (use parse_certificate_verify_build [where rest = "[]"] in auto)

lemma parse_certificate_build:
  assumes "length der + 9 < 2 ^ 24"
  shows "parse_certificate (build_certificate der @ rest) = Ok der"
proof -
  let ?e = "u24_to_be (length der) @ der @ [0, 0]"
  let ?b = "[0] @ u24_to_be (length der + 5) @ ?e"
  have "parse_hs_msg (build_certificate der @ rest) = Ok (0x0b, ?b)"
    unfolding build_certificate_def Let_def
    using parse_hs_msg_build [of ?b "0x0b" rest] assms by (simp add: add.commute)
  moreover have "u24_at ?b 1 = length der + 5"
    by (rule u24_at_pos [of _ "[0]" _ ?e]) (use assms in simp_all)
  moreover have "u24_at ?b 4 = length der"
    by (rule u24_at_pos [of _ "[0] @ u24_to_be (length der + 5)" _ "der @ [0, 0]"]) (use assms in simp_all)
  moreover have "slice 7 (7 + length der) ?b = der"
    by (rule slice_at [of _ "[0] @ u24_to_be (length der + 5) @ u24_to_be (length der)" _ "[0, 0]"]) simp_all
  ultimately show ?thesis
    by (simp add: parse_certificate_def Let_def)
qed

interpretation certificate_codec: wire_codec build_certificate parse_certificate "\<lambda>der. length der + 9 < 2 ^ 24"
  by unfold_locales (use parse_certificate_build [where rest = "[]"] in simp)

subsection \<open>ServerHello\<close>

definition sh_wf :: "server_hello_params \<Rightarrow> bool" where
  "sh_wf p \<longleftrightarrow> length (server_random p) = 32 \<and> length (session_id_echo p) < 256 \<and>
     length (key_share p) + 14 < 2 ^ 16"

definition sh_front :: "server_hello_params \<Rightarrow> bytes" where
  "sh_front p = [0x03, 0x03] @ server_random p @ [of_nat (length (session_id_echo p))] @ session_id_echo p @
     u16_to_be (sh_suite p) @ [0x00] @ u16_to_be (of_nat (length (sh_extensions p)))"

lemma length_sh_extensions [simp]: "length (sh_extensions p) = 14 + length (key_share p)"
  by (simp add: sh_extensions_def)

text \<open>One turn of the extension loops: skipping an extension, and reading the key share.\<close>

lemma sh_exts_skip:
  assumes "u16_at b p \<noteq> 0x0033" and "unat (u16_at b (p + 2)) = n" and "p + 4 + n \<le> e"
  shows "sh_exts b p e g k = sh_exts b (p + 4 + n) e g k"
  using assms by (subst sh_exts.simps) (simp add: Let_def)

lemma info_exts_skip:
  assumes "u16_at b p \<noteq> 0x0033" and "unat (u16_at b (p + 2)) = n" and "p + 4 + n \<le> e"
  shows "info_exts b p e g k = info_exts b (p + 4 + n) e g k"
  using assms by (subst info_exts.simps) (simp add: Let_def)

lemma sh_exts_share:
  assumes "u16_at b p = 0x0033" and "unat (u16_at b (p + 2)) = 4 + n" and "p + 8 + n = e"
    and "unat (u16_at b (p + 4 + 2)) = n"
  shows "sh_exts b p e g k = (u16_at b (p + 4), slice (p + 8) (p + 8 + n) b)"
proof -
  have e: "sh_exts b e e x y = (x, y)" for x y
    by (subst sh_exts.simps) simp
  have "8 + (p + n) = e" "8 + p + n = e"
    using assms(3) by simp_all
  then show ?thesis
    using assms e by (subst sh_exts.simps) (simp add: Let_def ac_simps)
qed

lemma info_exts_share:
  assumes "u16_at b p = 0x0033" and "unat (u16_at b (p + 2)) = 4 + n" and "p + 8 + n = e"
    and "unat (u16_at b (p + 4 + 2)) = n"
  shows "info_exts b p e g k = (Some (u16_at b (p + 4)), Some (slice (p + 8) (p + 8 + n) b))"
proof -
  have e: "info_exts b e e x y = (x, y)" for x y
    by (subst info_exts.simps) simp
  have "8 + (p + n) = e" "8 + p + n = e"
    using assms(3) by simp_all
  then show ?thesis
    using assms e by (subst info_exts.simps) (simp add: Let_def ac_simps)
qed

lemma sh_ext_version:
  assumes "a = length front"
  shows "u16_at (front @ sh_extensions p) a = 0x002b" "unat (u16_at (front @ sh_extensions p) (a + 2)) = 2"
proof -
  show "u16_at (front @ sh_extensions p) a = 0x002b"
    by (simp add: sh_extensions_def u16_at_shift assms)
  have "u16_at (front @ sh_extensions p) (a + 2) = 2"
    by (simp add: sh_extensions_def u16_at_shift assms)
  then show "unat (u16_at (front @ sh_extensions p) (a + 2)) = 2"
    by simp
qed

lemma sh_ext_share:
  assumes "length (key_share p) + 14 < 2 ^ 16" and "q = length front + 6"
  defines "buf \<equiv> front @ sh_extensions p"
  shows "u16_at buf q = 0x0033" "unat (u16_at buf (q + 2)) = 4 + length (key_share p)"
    "u16_at buf (q + 4) = key_share_group p" "unat (u16_at buf (q + 4 + 2)) = length (key_share p)"
    "slice (q + 8) (q + 8 + length (key_share p)) buf = key_share p"
proof -
  let ?k = "key_share p"
  let ?v = "u16_to_be 0x002b @ u16_to_be 0x0002 @ u16_to_be 0x0304"
  let ?l = "u16_to_be (of_nat (2 + 2 + length ?k))" and ?n = "u16_to_be (of_nat (length ?k))"
  have n: "unat (of_nat (length ?k) :: u16) = length ?k"
    "unat (of_nat (2 + 2 + length ?k) :: u16) = 4 + length ?k"
    using assms(1) by (simp_all del: of_nat_add add: unat_of_nat)
  have buf: "buf = front @ ?v @ u16_to_be 0x0033 @ ?l @ u16_to_be (key_share_group p) @ ?n @ ?k"
    by (simp add: buf_def sh_extensions_def)
  show "u16_at buf q = 0x0033"
    by (rule u16_at_pos [of _ "front @ ?v" _ "?l @ u16_to_be (key_share_group p) @ ?n @ ?k"])
      (use buf assms(2) in simp_all)
  have "u16_at buf (q + 2) = of_nat (2 + 2 + length ?k)"
    by (rule u16_at_pos [of _ "front @ ?v @ u16_to_be 0x0033" _ "u16_to_be (key_share_group p) @ ?n @ ?k"])
      (use buf assms(2) in simp_all)
  then show "unat (u16_at buf (q + 2)) = 4 + length ?k"
    using n(2) by simp
  show "u16_at buf (q + 4) = key_share_group p"
    by (rule u16_at_pos [of _ "front @ ?v @ u16_to_be 0x0033 @ ?l" _ "?n @ ?k"])
      (use buf assms(2) in simp_all)
  have "u16_at buf (q + 4 + 2) = of_nat (length ?k)"
    by (rule u16_at_pos [of _ "front @ ?v @ u16_to_be 0x0033 @ ?l @ u16_to_be (key_share_group p)" _ ?k])
      (use buf assms(2) in simp_all)
  then show "unat (u16_at buf (q + 4 + 2)) = length ?k"
    using n(1) by simp
  show "slice (q + 8) (q + 8 + length ?k) buf = ?k"
    by (rule slice_at [of _ "front @ ?v @ u16_to_be 0x0033 @ ?l @ u16_to_be (key_share_group p) @ ?n" _ "[]"])
      (use buf assms(2) in simp_all)
qed

lemma sh_exts_build:
  assumes "length (key_share p) + 14 < 2 ^ 16" and "a = length front"
    and "e = a + 14 + length (key_share p)"
  shows "sh_exts (front @ sh_extensions p) a e g k = (key_share_group p, key_share p)"
    and "info_exts (front @ sh_extensions p) a e g' k' = (Some (key_share_group p), Some (key_share p))"
proof -
  note v = sh_ext_version [OF assms(2), of p]
  note s = sh_ext_share [OF assms(1), of "a + 4 + 2" front]
  have q: "a + 4 + 2 = length front + 6" and e: "a + 4 + 2 \<le> e" "a + 4 + 2 + 8 + length (key_share p) = e"
    using assms(2,3) by simp_all
  have ne: "u16_at (front @ sh_extensions p) a \<noteq> 0x0033"
    using v(1) by simp
  show "sh_exts (front @ sh_extensions p) a e g k = (key_share_group p, key_share p)"
    using sh_exts_skip [OF ne v(2) e(1)] sh_exts_share [OF s(1,2) [OF q] e(2) s(4) [OF q]] s(3,5) [OF q] by simp
  show "info_exts (front @ sh_extensions p) a e g' k' = (Some (key_share_group p), Some (key_share p))"
    using info_exts_skip [OF ne v(2) e(1)] info_exts_share [OF s(1,2) [OF q] e(2) s(4) [OF q]] s(3,5) [OF q] by simp
qed

lemma parse_server_hello_build:
  assumes "sh_wf p"
  shows "parse_server_hello (build_server_hello p @ rest) = Ok p"
proof -
  let ?r = "server_random p" and ?s = "session_id_echo p" and ?k = "key_share p"
  let ?l = "[of_nat (length ?s)] :: bytes" and ?x = "sh_extensions p"
  let ?xl = "u16_to_be (of_nat (length ?x))"
  define b where "b = [0x03, 0x03] @ ?r @ ?l @ ?s @ u16_to_be (sh_suite p) @ [0x00] @ ?xl @ ?x"
  have w: "length ?r = 32" "length ?s < 256" "length ?k + 14 < 2 ^ 16"
    using assms by (simp_all add: sh_wf_def)
  have msg: "parse_hs_msg (build_server_hello p @ rest) = Ok (0x02, b)"
    unfolding build_server_hello_def b_def by (rule parse_hs_msg_build) (use w in simp)
  have t1: "take_bytes b 0 2 = Ok ([0x03, 0x03], 2)"
    by (subst take_bytes_at [of _ "[]" "[0x03, 0x03]"]) (simp_all add: b_def)
  have t2: "take_bytes b 2 32 = Ok (?r, 34)"
    by (subst take_bytes_at [of _ "[0x03, 0x03]" ?r]) (simp_all add: w(1) b_def)
  have t3: "take_bytes b 34 1 = Ok (?l, 35)"
    by (subst take_bytes_at [of _ "[0x03, 0x03] @ ?r" ?l]) (simp_all add: w(1) b_def)
  have t4: "take_bytes b 35 (length ?s) = Ok (?s, 35 + length ?s)"
    by (subst take_bytes_at [of _ "[0x03, 0x03] @ ?r @ ?l" ?s]) (simp_all add: w(1) b_def)
  have sl: "unat (of_nat (length ?s) :: u8) = length ?s"
    using w(2) by (simp add: unat_of_nat)
  have su: "u16_at b (35 + length ?s) = sh_suite p"
    by (rule u16_at_pos [of _ "[0x03, 0x03] @ ?r @ ?l @ ?s" _ "[0x00] @ ?xl @ ?x"]) (simp_all add: w(1) b_def)
  have t5: "take_bytes b (37 + length ?s) 1 = Ok ([0x00], 38 + length ?s)"
    by (subst take_bytes_at [of _ "[0x03, 0x03] @ ?r @ ?l @ ?s @ u16_to_be (sh_suite p)" "[0x00]"])
      (simp_all add: w(1) b_def)
  have el: "u16_at b (38 + length ?s) = of_nat (length ?x)"
    by (rule u16_at_pos [of _ "[0x03, 0x03] @ ?r @ ?l @ ?s @ u16_to_be (sh_suite p) @ [0x00]" _ ?x])
      (simp_all add: w(1) b_def)
  have eln: "unat (of_nat (length ?x) :: u16) = length ?x"
    using w(3) by (simp del: of_nat_add add: unat_of_nat)
  have len: "length b = 54 + length ?s + length ?k"
    by (simp add: w(1) b_def)
  have ex: "sh_exts b (40 + length ?s) (54 + length ?s + length ?k) 0 [] = (key_share_group p, ?k)"
    using sh_exts_build(1) [OF w(3), of "40 + length ?s"
        "[0x03, 0x03] @ ?r @ ?l @ ?s @ u16_to_be (sh_suite p) @ [0x00] @ ?xl"]
    by (simp add: w(1) b_def)
  have "parse_server_hello (build_server_hello p @ rest) =
      Ok \<lparr>sh_suite = sh_suite p, server_random = ?r, session_id_echo = ?s,
         key_share_group = key_share_group p, key_share = ?k\<rparr>"
    unfolding parse_server_hello_def msg
    using t1 t2 t3 t4 t5 sl su el eln len ex by (simp only: try_bind_simps split_conv Let_def nth_Cons_0) (simp add: add.assoc)
  then show ?thesis by simp
qed

interpretation server_hello_codec: wire_codec build_server_hello parse_server_hello sh_wf
  by unfold_locales (use parse_server_hello_build [where rest = "[]"] in simp)

lemma parse_info_build:
  assumes "sh_wf p"
  shows "parse_server_hello_info (build_server_hello p) =
    Ok \<lparr>i_cipher_suite = sh_suite p, i_selected_group = Some (key_share_group p),
       i_server_key_share = Some (key_share p)\<rparr>"
proof -
  let ?r = "server_random p" and ?s = "session_id_echo p" and ?k = "key_share p" and ?x = "sh_extensions p"
  let ?l = "[of_nat (length ?s)] :: bytes" and ?xl = "u16_to_be (of_nat (length ?x))"
  let ?b = "[0x03, 0x03] @ ?r @ ?l @ ?s @ u16_to_be (sh_suite p) @ [0x00] @ ?xl @ ?x"
  let ?h = "[0x02] @ u24_to_be (length ?b) @ [0x03, 0x03] @ ?r"
  define m where "m = ?h @ ?l @ ?s @ u16_to_be (sh_suite p) @ [0x00] @ ?xl @ ?x"
  have m: "build_server_hello p = m"
    by (simp add: m_def build_server_hello_def hs_msg_def)
  have w: "length ?r = 32" "length ?s < 256" "length ?k + 14 < 2 ^ 16"
    using assms by (simp_all add: sh_wf_def)
  have len: "length m = 58 + length ?s + length ?k"
    by (simp add: m_def w(1))
  have m0: "m ! 0 = 0x02"
    by (simp add: m_def)
  have sl: "m ! 38 = of_nat (length ?s)"
    using nth_append_length [of ?h "of_nat (length ?s)"
        "?s @ u16_to_be (sh_suite p) @ [0x00] @ ?xl @ ?x"] by (simp add: m_def w(1))
  have sln: "unat (of_nat (length ?s) :: u8) = length ?s"
    using w(2) by (simp add: unat_of_nat)
  have su: "u16_at m (39 + length ?s) = sh_suite p"
    by (rule u16_at_pos [of _ "?h @ ?l @ ?s" _ "[0x00] @ ?xl @ ?x"]) (simp_all add: w(1) m_def)
  have el: "u16_at m (42 + length ?s) = of_nat (length ?x)"
    by (rule u16_at_pos [of _ "?h @ ?l @ ?s @ u16_to_be (sh_suite p) @ [0x00]" _ ?x])
      (simp_all add: w(1) m_def)
  have eln: "unat (of_nat (length ?x) :: u16) = length ?x"
    using w(3) by (simp del: of_nat_add add: unat_of_nat)
  have ex: "info_exts m (44 + length ?s) (58 + (length ?s + length ?k)) None None =
      (Some (key_share_group p), Some ?k)"
    using sh_exts_build(2) [OF w(3), of "44 + length ?s"
        "?h @ ?l @ ?s @ u16_to_be (sh_suite p) @ [0x00] @ ?xl"]
    by (simp add: w(1) m_def add.assoc)
  have "u16_from_be [m ! (39 + length ?s), m ! Suc (39 + length ?s)] = sh_suite p"
    using su by (simp add: u16_at_def)
  then show ?thesis
    unfolding m parse_server_hello_info_def
    using m0 sl sln el eln ex len by (simp add: get_at_def Let_def add.assoc)
qed

lemma take_bytes_Ok: "take_bytes b a n = Ok (x, q) \<Longrightarrow> length x = n"
  by (auto simp: take_bytes_def split: if_splits)

lemma parse_server_hello_wf:
  assumes "parse_server_hello m = Ok p"
  shows "length (server_random p) = 32 \<and> length (session_id_echo p) < 256"
proof -
  have bound: "unat (b :: u8) < 256" for b
    using unat_bound [of b] by simp
  show ?thesis
    using assms bound
    by (auto simp: parse_server_hello_def try_bind_eq_Inr Let_def split_beta dest!: take_bytes_Ok split: if_splits)
qed

section \<open>Properties\<close>

text \<open>
  The ServerHello the server builds is read back exactly by both parsers of the code base: the
  handshake parser recovers every field, also when more bytes follow, and the light parser sees the same
  suite, group and share.
\<close>

theorem server_hello_roundtrip:
  assumes "length (server_random p) = 32" and "length (session_id_echo p) < 256"
    and "length (key_share p) + 14 < 2 ^ 16"
  shows "parse_server_hello (build_server_hello p @ rest) = Ok p \<and>
         parse_server_hello_info (build_server_hello p) =
           Ok \<lparr>i_cipher_suite = sh_suite p, i_selected_group = Some (key_share_group p),
               i_server_key_share = Some (key_share p)\<rparr>"
  using parse_server_hello_build [of p rest] parse_info_build [of p] assms by (simp add: sh_wf_def)

definition sample_sh :: server_hello_params where
  "sample_sh = \<lparr>sh_suite = 0x1301, server_random = replicate 32 7, session_id_echo = replicate 32 9,
     key_share_group = 0x001d, key_share = replicate 32 5\<rparr>"

theorem server_hello_roundtrip_witness:
  "parse_server_hello (build_server_hello sample_sh) = Ok sample_sh"
  using server_hello_roundtrip [of sample_sh "[]"] by (simp add: sample_sh_def)

text \<open>
  The server answers with the destination's own ServerHello, changed in nothing but the key share:
  what the client parses out of the adapted message is what the destination sent with the new share in
  place. Adaptation fails exactly when the message does not parse or the share does not have the size of
  the group the destination chose.
\<close>

theorem adapt_keeps_server_hello:
  "(\<forall>out p. adapt_server_hello dest share = Ok out \<and> parse_server_hello dest = Ok p \<longrightarrow>
      parse_server_hello (out @ rest) = Ok (p\<lparr>key_share := share\<rparr>)) \<and>
   (is_ok (adapt_server_hello dest share) \<longleftrightarrow>
      (\<exists>p. parse_server_hello dest = Ok p \<and>
         (key_share_group p = 0x001d \<and> length share = 32 \<or> key_share_group p = 0x11ec \<and> length share = 1120)))"
proof -
  have "parse_server_hello (out @ rest) = Ok (p\<lparr>key_share := share\<rparr>)"
    if "adapt_server_hello dest share = Ok out" "parse_server_hello dest = Ok p" for out p
  proof -
    have "out = build_server_hello (p\<lparr>key_share := share\<rparr>)" "length share \<le> 1120"
      using that by (auto simp: adapt_server_hello_def split: if_splits)
    moreover have "sh_wf (p\<lparr>key_share := share\<rparr>)"
      using parse_server_hello_wf [OF that(2)] \<open>length share \<le> 1120\<close> by (simp add: sh_wf_def)
    ultimately show ?thesis
      using parse_server_hello_build by blast
  qed
  moreover have "is_ok (adapt_server_hello dest share) \<longleftrightarrow>
      (\<exists>p. parse_server_hello dest = Ok p \<and>
         (key_share_group p = 0x001d \<and> length share = 32 \<or> key_share_group p = 0x11ec \<and> length share = 1120))"
    by (cases "parse_server_hello dest") (auto simp: adapt_server_hello_def)
  ultimately show ?thesis by blast
qed

theorem adapt_keeps_server_hello_witness:
  "\<exists>out. adapt_server_hello (build_server_hello sample_sh) (replicate 32 6) = Ok out \<and>
     parse_server_hello (out @ [1]) = Ok (sample_sh\<lparr>key_share := replicate 32 6\<rparr>)"
proof -
  have p: "parse_server_hello (build_server_hello sample_sh) = Ok sample_sh"
    using parse_server_hello_build [of sample_sh "[]"] by (simp add: sample_sh_def sh_wf_def)
  then obtain out where "adapt_server_hello (build_server_hello sample_sh) (replicate 32 6) = Ok out"
    by (simp add: adapt_server_hello_def sample_sh_def)
  then show ?thesis
    using adapt_keeps_server_hello [of "build_server_hello sample_sh" "replicate 32 6" "[1]"] p by blast
qed

end
