(* ===== verification/ClientHello.thy ===== *)
theory ClientHello
  imports TlsMessages "HOL-Library.Multiset"
begin

text \<open>
  Reading a ClientHello, \<open>crates/leshiy-tls/src/ja.rs\<close>: the bounds-checked parser, the fields REALITY
  needs, the view for fingerprints, and the JA3 and JA4 fingerprints. MD5, SHA-256 and the hex crate are
  arguments.

  A \<open>parser\<close> is its position and the bytes from there on, so the code's \<open>buf.len()\<close> is the sum of
  the position and the length of the rest.
\<close>

section \<open>Definitions\<close>

subsection \<open>The parser\<close>

record parser =
  p_pos :: nat
  p_rest :: bytes

type_synonym 'a parsed = "tls_error + ('a \<times> parser)"

definition parser_new :: "bytes \<Rightarrow> parser" where
  "parser_new buf = \<lparr>p_pos = 0, p_rest = buf\<rparr>"

definition remaining :: "parser \<Rightarrow> nat" where
  "remaining p = length (p_rest p)"

definition need :: "nat \<Rightarrow> parser \<Rightarrow> tls_error + unit" where
  "need n p = (if remaining p < n then Err (TTruncated n (remaining p)) else Ok ())"

definition advance :: "nat \<Rightarrow> parser \<Rightarrow> parser" where
  "advance n p = \<lparr>p_pos = p_pos p + n, p_rest = drop n (p_rest p)\<rparr>"

definition p_u8 :: "parser \<Rightarrow> u8 parsed" where
  "p_u8 p = try_bind (need 1 p) (\<lambda>_. Ok (p_rest p ! 0, advance 1 p))"

definition p_u16 :: "parser \<Rightarrow> u16 parsed" where
  "p_u16 p = try_bind (need 2 p) (\<lambda>_. Ok (u16_from_be [p_rest p ! 0, p_rest p ! 1], advance 2 p))"

definition p_u24 :: "parser \<Rightarrow> nat parsed" where
  "p_u24 p =
     try_bind (need 3 p) (\<lambda>_. Ok (be_value [p_rest p ! 0, p_rest p ! 1, p_rest p ! 2], advance 3 p))"

definition p_skip :: "nat \<Rightarrow> parser \<Rightarrow> unit parsed" where
  "p_skip n p = try_bind (need n p) (\<lambda>_. Ok ((), advance n p))"

definition p_take :: "nat \<Rightarrow> parser \<Rightarrow> bytes parsed" where
  "p_take n p = try_bind (need n p) (\<lambda>_. Ok (take n (p_rest p), advance n p))"

text \<open>The loops \<open>for _ in 0..n { xs.push(p.u16()?) }\<close> and its \<open>u8\<close> form.\<close>

primrec p_u16s :: "nat \<Rightarrow> parser \<Rightarrow> u16 list parsed" where
  "p_u16s 0 p = Ok ([], p)"
| "p_u16s (Suc n) p = try_bind (p_u16 p) (\<lambda>(x, p). try_bind (p_u16s n p) (\<lambda>(xs, p). Ok (x # xs, p)))"

primrec p_u8s :: "nat \<Rightarrow> parser \<Rightarrow> u8 list parsed" where
  "p_u8s 0 p = Ok ([], p)"
| "p_u8s (Suc n) p = try_bind (p_u8 p) (\<lambda>(x, p). try_bind (p_u8s n p) (\<lambda>(xs, p). Ok (x # xs, p)))"

text \<open>
  The extension loop that both readers run: check that header and body stay inside the block, then hand
  type and body to the reader's \<open>match\<close>.
\<close>

definition ch_malformed :: "string \<Rightarrow> tls_error" where
  "ch_malformed detail = TMalformed ''clienthello'' detail"

function ch_exts :: "(u16 \<Rightarrow> bytes \<Rightarrow> 'a \<Rightarrow> tls_error + 'a) \<Rightarrow> nat \<Rightarrow> parser \<Rightarrow> 'a \<Rightarrow> tls_error + 'a" where
  "ch_exts h fin p acc =
     (if fin \<le> p_pos p then Ok acc
      else if fin - p_pos p < 4 then Err (ch_malformed ''extension header overruns extensions block'')
      else case p_u16 p of
        Inl e \<Rightarrow> Inl e
      | Inr (etype, p1) \<Rightarrow>
     (case p_u16 p1 of
        Inl e \<Rightarrow> Inl e
      | Inr (elen, p2) \<Rightarrow>
          if fin < p_pos p2 + unat elen then Err (ch_malformed ''extension body overruns extensions block'')
          else
     (case p_take (unat elen) p2 of
        Inl e \<Rightarrow> Inl e
      | Inr (ebody, p3) \<Rightarrow>
     (case h etype ebody acc of
        Inl e \<Rightarrow> Inl e
      | Inr acc' \<Rightarrow> ch_exts h fin p3 acc'))))"
  by pat_completeness auto
termination
  by (relation "measure (\<lambda>(h, fin, p, acc). length (p_rest p))")
    (auto simp: p_u16_def p_take_def need_def remaining_def advance_def try_bind_def split: if_splits)

declare ch_exts.simps [simp del]

definition ch_ext_block :: "(u16 \<Rightarrow> bytes \<Rightarrow> 'a \<Rightarrow> tls_error + 'a) \<Rightarrow> parser \<Rightarrow> 'a \<Rightarrow> tls_error + 'a" where
  "ch_ext_block h p acc =
     (if 2 \<le> remaining p then
        try_bind (p_u16 p) (\<lambda>(ext_total, p).
        let fin = p_pos p + unat ext_total in
        if p_pos p + remaining p < fin then Err (TTruncated fin (p_pos p + remaining p))
        else ch_exts h fin p acc)
      else Ok acc)"

subsection \<open>The fields REALITY needs\<close>

record mlkem_client_share =
  mk_ek :: bytes
  mk_x25519 :: bytes

record client_hello_fields =
  ch_random :: bytes
  ch_session_id :: bytes
  key_share_x25519 :: "bytes option"
  key_share_mlkem :: "mlkem_client_share option"
  ch_sni :: "string option"

definition ch_read_sni :: "bytes \<Rightarrow> tls_error + string" where
  "ch_read_sni ebody =
     try_bind (p_u16 (parser_new ebody)) (\<lambda>(_, q).
     try_bind (p_u8 q) (\<lambda>(_, q).
     try_bind (p_u16 q) (\<lambda>(nlen, q).
     try_bind (p_take (unat nlen) q) (\<lambda>(name, q). Ok (from_utf8_lossy name)))))"

definition ch_keep_share :: "u16 \<Rightarrow> bytes \<Rightarrow> client_hello_fields \<Rightarrow> client_hello_fields" where
  "ch_keep_share grp key f =
     (if grp = 0x001d \<and> length key = 32 then f\<lparr>key_share_x25519 := Some key\<rparr>
      else if grp = 0x11ec \<and> length key = 1216 then
        f\<lparr>key_share_mlkem := Some \<lparr>mk_ek = slice 0 1184 key, mk_x25519 = slice 1184 1216 key\<rparr>\<rparr>
      else f)"

function ch_shares :: "parser \<Rightarrow> client_hello_fields \<Rightarrow> tls_error + client_hello_fields" where
  "ch_shares q f =
     (if 4 \<le> remaining q then
        (case p_u16 q of
           Inl e \<Rightarrow> Inl e
         | Inr (grp, q1) \<Rightarrow>
        (case p_u16 q1 of
           Inl e \<Rightarrow> Inl e
         | Inr (klen, q2) \<Rightarrow>
        (case p_take (unat klen) q2 of
           Inl e \<Rightarrow> Inl e
         | Inr (key, q3) \<Rightarrow> ch_shares q3 (ch_keep_share grp key f))))
      else Ok f)"
  by pat_completeness auto
termination
  by (relation "measure (\<lambda>(q, f). length (p_rest q))")
    (auto simp: p_u16_def p_take_def need_def remaining_def advance_def try_bind_def split: if_splits)

declare ch_shares.simps [simp del]

definition field_ext :: "u16 \<Rightarrow> bytes \<Rightarrow> client_hello_fields \<Rightarrow> tls_error + client_hello_fields" where
  "field_ext etype ebody f =
     (if etype = 0x0000 then try_bind (ch_read_sni ebody) (\<lambda>s. Ok (f\<lparr>ch_sni := Some s\<rparr>))
      else if etype = 0x0033 then
        try_bind (p_u16 (parser_new ebody)) (\<lambda>(_, q). ch_shares q f)
      else Ok f)"

definition extract_client_hello_fields :: "bytes \<Rightarrow> tls_error + client_hello_fields" where
  "extract_client_hello_fields msg =
     try_bind (p_u8 (parser_new msg)) (\<lambda>(mt, p).
     if mt \<noteq> 0x01 then Err (ch_malformed ''not ClientHello'')
     else
       try_bind (p_u24 p) (\<lambda>(_, p).
       try_bind (p_u16 p) (\<lambda>(_, p).
       try_bind (p_take 32 p) (\<lambda>(rnd, p).
       try_bind (p_u8 p) (\<lambda>(sid_len, p).
       try_bind (p_take (unat sid_len) p) (\<lambda>(sid, p).
       try_bind (p_u16 p) (\<lambda>(cs_len, p).
       try_bind (p_skip (unat cs_len) p) (\<lambda>(_, p).
       try_bind (p_u8 p) (\<lambda>(comp, p).
       try_bind (p_skip (unat comp) p) (\<lambda>(_, p).
       ch_ext_block field_ext p
         \<lparr>ch_random = rnd, ch_session_id = sid, key_share_x25519 = None, key_share_mlkem = None,
          ch_sni = None\<rparr>))))))))))"

subsection \<open>The view for fingerprints\<close>

record client_hello_view =
  v_legacy_version :: u16
  v_cipher_suites :: "u16 list"
  v_extensions :: "u16 list"
  v_supported_groups :: "u16 list"
  v_ec_point_formats :: "u8 list"
  v_sig_algs :: "u16 list"
  v_alpn :: "string list"
  v_has_sni :: bool
  v_supported_versions :: "u16 list"

definition is_grease :: "u16 \<Rightarrow> bool" where
  "is_grease v \<longleftrightarrow> v AND 0x0f0f = 0x0a0a \<and> drop_bit 8 v = v AND 0xff"

function view_alpn :: "parser \<Rightarrow> tls_error + string list" where
  "view_alpn q =
     (if remaining q = 0 then Ok []
      else case p_u8 q of
        Inl e \<Rightarrow> Inl e
      | Inr (n, q1) \<Rightarrow>
     (case p_take (unat n) q1 of
        Inl e \<Rightarrow> Inl e
      | Inr (s, q2) \<Rightarrow> try_bind (view_alpn q2) (\<lambda>rest. Ok (from_utf8_lossy s # rest))))"
  by pat_completeness auto
termination
  by (relation "measure (\<lambda>q. length (p_rest q))")
    (auto simp: p_u8_def p_take_def need_def remaining_def advance_def try_bind_def split: if_splits)

declare view_alpn.simps [simp del]

definition view_ext :: "u16 \<Rightarrow> bytes \<Rightarrow> client_hello_view \<Rightarrow> tls_error + client_hello_view" where
  "view_ext etype ebody v0 =
     (let v = v0\<lparr>v_extensions := v_extensions v0 @ [etype]\<rparr>; q = parser_new ebody in
      if etype = 0x0000 then Ok (v\<lparr>v_has_sni := True\<rparr>)
      else if etype = 0x000a then
        try_bind (p_u16 q) (\<lambda>(l, q). try_bind (p_u16s (unat l div 2) q) (\<lambda>(xs, _).
          Ok (v\<lparr>v_supported_groups := v_supported_groups v @ xs\<rparr>)))
      else if etype = 0x000b then
        try_bind (p_u8 q) (\<lambda>(l, q). try_bind (p_u8s (unat l) q) (\<lambda>(xs, _).
          Ok (v\<lparr>v_ec_point_formats := v_ec_point_formats v @ xs\<rparr>)))
      else if etype = 0x000d then
        try_bind (p_u16 q) (\<lambda>(l, q). try_bind (p_u16s (unat l div 2) q) (\<lambda>(xs, _).
          Ok (v\<lparr>v_sig_algs := v_sig_algs v @ xs\<rparr>)))
      else if etype = 0x0010 then
        try_bind (p_u16 q) (\<lambda>(_, q). try_bind (view_alpn q) (\<lambda>xs. Ok (v\<lparr>v_alpn := v_alpn v @ xs\<rparr>)))
      else if etype = 0x002b then
        try_bind (p_u8 q) (\<lambda>(l, q). try_bind (p_u16s (unat l div 2) q) (\<lambda>(xs, _).
          Ok (v\<lparr>v_supported_versions := v_supported_versions v @ xs\<rparr>)))
      else Ok v)"

text \<open>Hexadecimal rendering (\<open>{:#x}\<close>, \<open>{:04x}\<close>).\<close>

definition hex_digit :: "nat \<Rightarrow> char" where
  "hex_digit d = (if d < 10 then char_of (48 + d) else char_of (87 + d))"

fun show_hex :: "nat \<Rightarrow> string" where
  "show_hex n = (if n < 16 then [hex_digit n] else show_hex (n div 16) @ [hex_digit (n mod 16)])"

declare show_hex.simps [simp del]

definition pad_left :: "nat \<Rightarrow> string \<Rightarrow> string" where
  "pad_left n s = replicate (n - length s) (CHR ''0'') @ s"

definition parse_view :: "bytes \<Rightarrow> tls_error + client_hello_view" where
  "parse_view msg =
     try_bind (p_u8 (parser_new msg)) (\<lambda>(mt, p).
     if mt \<noteq> 0x01 then Err (ch_malformed (''msg_type 0x'' @ show_hex (unat mt)))
     else
       try_bind (p_u24 p) (\<lambda>(_, p).
       try_bind (p_u16 p) (\<lambda>(legacy_version, p).
       try_bind (p_skip 32 p) (\<lambda>(_, p).
       try_bind (p_u8 p) (\<lambda>(sid, p).
       try_bind (p_skip (unat sid) p) (\<lambda>(_, p).
       try_bind (p_u16 p) (\<lambda>(cs_len, p).
       if unat cs_len mod 2 \<noteq> 0
       then Err (ch_malformed (''odd cipher_suites length '' @ show_nat (unat cs_len)))
       else
         try_bind (p_u16s (unat cs_len div 2) p) (\<lambda>(suites, p).
         try_bind (p_u8 p) (\<lambda>(comp, p).
         try_bind (p_skip (unat comp) p) (\<lambda>(_, p).
         ch_ext_block view_ext p
           \<lparr>v_legacy_version = legacy_version, v_cipher_suites = suites, v_extensions = [],
            v_supported_groups = [], v_ec_point_formats = [], v_sig_algs = [], v_alpn = [],
            v_has_sni = False, v_supported_versions = []\<rparr>))))))))))"

subsection \<open>JA3 and JA4\<close>

fun join :: "string \<Rightarrow> string list \<Rightarrow> string" where
  "join sep [] = []"
| "join sep [x] = x"
| "join sep (x # xs) = x @ sep @ join sep xs"

definition no_grease :: "u16 list \<Rightarrow> u16 list" where
  "no_grease xs = filter (\<lambda>x. \<not> is_grease x) xs"

definition j_u16 :: "u16 list \<Rightarrow> string" where
  "j_u16 xs = join ''-'' (map (\<lambda>x. show_nat (unat x)) (no_grease xs))"

definition ja3_string :: "client_hello_view \<Rightarrow> string" where
  "ja3_string v =
     show_nat (unat (v_legacy_version v)) @ '','' @ j_u16 (v_cipher_suites v) @ '','' @
     j_u16 (v_extensions v) @ '','' @ j_u16 (v_supported_groups v) @ '','' @
     join ''-'' (map (\<lambda>x. show_nat (unat x)) (v_ec_point_formats v))"

definition ja3 :: "(bytes \<Rightarrow> bytes) \<Rightarrow> (bytes \<Rightarrow> string) \<Rightarrow> client_hello_view \<Rightarrow> string" where
  "ja3 md5 hex_encode v = hex_encode (md5 (as_bytes (ja3_string v)))"

definition hex4 :: "u16 \<Rightarrow> string" where
  "hex4 x = pad_left 4 (show_hex (unat x))"

definition ja4_version :: "client_hello_view \<Rightarrow> string" where
  "ja4_version v =
     (case no_grease (v_supported_versions v) of
        [] \<Rightarrow> ''12''
      | x # xs \<Rightarrow>
         (let m = foldl max x xs in
          if m = 0x0304 then ''13'' else if m = 0x0303 then ''12''
          else if m = 0x0302 then ''11'' else if m = 0x0301 then ''10'' else ''12''))"

text \<open>A byte cast to \<open>char\<close> and formatted: one UTF-8 byte below 128, two from there on.\<close>

definition byte_as_char :: "char \<Rightarrow> string" where
  "byte_as_char c =
     (let n = of_char c :: nat in
      if n < 128 then [c] else [char_of (192 + n div 64), char_of (128 + n mod 64)])"

definition ja4_alpn_tag :: "client_hello_view \<Rightarrow> string" where
  "ja4_alpn_tag v =
     (case v_alpn v of
        [] \<Rightarrow> ''00''
      | a # _ \<Rightarrow> (if a = [] then ''00'' else byte_as_char (hd a) @ byte_as_char (last a)))"

definition ja4_part_a :: "client_hello_view \<Rightarrow> string" where
  "ja4_part_a v =
     ''t'' @ ja4_version v @ (if v_has_sni v then ''d'' else ''i'') @
     pad_left 2 (show_nat (length (no_grease (v_cipher_suites v)))) @
     pad_left 2 (show_nat (length (no_grease (v_extensions v)))) @ ja4_alpn_tag v"

definition ja4_ciphers_str :: "client_hello_view \<Rightarrow> string" where
  "ja4_ciphers_str v = join '','' (map hex4 (sort (no_grease (v_cipher_suites v))))"

definition ja4_exts_str :: "client_hello_view \<Rightarrow> string" where
  "ja4_exts_str v =
     join '','' (map hex4 (sort (filter (\<lambda>x. \<not> is_grease x \<and> x \<noteq> 0x0000 \<and> x \<noteq> 0x0010) (v_extensions v))))"

definition ja4_sigalgs_str :: "client_hello_view \<Rightarrow> string" where
  "ja4_sigalgs_str v = join '','' (map hex4 (no_grease (v_sig_algs v)))"

definition ja4 :: "(bytes \<Rightarrow> bytes) \<Rightarrow> (bytes \<Rightarrow> string) \<Rightarrow> client_hello_view \<Rightarrow> string" where
  "ja4 sha256 hex_encode v =
     (let b = hex_encode (take 6 (sha256 (as_bytes (ja4_ciphers_str v))));
          sig_s = ja4_sigalgs_str v;
          c_input = (if sig_s = [] then ja4_exts_str v else ja4_exts_str v @ ''_'' @ sig_s);
          c = hex_encode (take 6 (sha256 (as_bytes c_input)))
      in ja4_part_a v @ ''_'' @ b @ ''_'' @ c)"

definition ja4_r :: "client_hello_view \<Rightarrow> string" where
  "ja4_r v = ja4_part_a v @ ''_'' @ ja4_ciphers_str v @ ''_'' @ ja4_exts_str v @ ''_'' @ ja4_sigalgs_str v"

section \<open>Lemmas\<close>

subsection \<open>Reading what was written\<close>

lemmas parser_defs = need_def remaining_def advance_def

lemma p_u8_cons [simp]: "p_u8 \<lparr>p_pos = k, p_rest = b # bs\<rparr> = Ok (b, \<lparr>p_pos = k + 1, p_rest = bs\<rparr>)"
  by (simp add: p_u8_def parser_defs)

lemma p_u16_append [simp]:
  "p_u16 \<lparr>p_pos = k, p_rest = u16_to_be v @ bs\<rparr> = Ok (v, \<lparr>p_pos = k + 2, p_rest = bs\<rparr>)"
proof -
  obtain x y where "u16_to_be v = [x, y]"
    using two_list [of "u16_to_be v"] by auto
  then show ?thesis
    using u16_from_to_be [of v] by (simp add: p_u16_def parser_defs)
qed

lemma p_u24_append [simp]:
  assumes "n < 2 ^ 24"
  shows "p_u24 \<lparr>p_pos = k, p_rest = u24_to_be n @ bs\<rparr> = Ok (n, \<lparr>p_pos = k + 3, p_rest = bs\<rparr>)"
  using u24_at_append [OF assms, of bs] by (simp add: p_u24_def parser_defs u24_at_def numeral_2_eq_2)

lemma p_take_append:
  "length a = n \<Longrightarrow> p_take n \<lparr>p_pos = k, p_rest = a @ bs\<rparr> = Ok (a, \<lparr>p_pos = k + n, p_rest = bs\<rparr>)"
  by (simp add: p_take_def parser_defs)

lemma p_skip_append:
  "length a = n \<Longrightarrow> p_skip n \<lparr>p_pos = k, p_rest = a @ bs\<rparr> = Ok ((), \<lparr>p_pos = k + n, p_rest = bs\<rparr>)"
  by (simp add: p_skip_def parser_defs)

text \<open>An extension block is a sequence of typed bodies; the loop folds the reader's handler over it.\<close>

definition ext_bytes :: "u16 \<times> bytes \<Rightarrow> bytes" where
  "ext_bytes = (\<lambda>(t, b). u16_to_be t @ u16_to_be (of_nat (length b)) @ b)"

fun handle_all :: "(u16 \<Rightarrow> bytes \<Rightarrow> 'a \<Rightarrow> tls_error + 'a) \<Rightarrow> (u16 \<times> bytes) list \<Rightarrow> 'a \<Rightarrow> tls_error + 'a" where
  "handle_all h [] acc = Ok acc"
| "handle_all h ((t, b) # xs) acc = try_bind (h t b acc) (handle_all h xs)"

lemma length_ext_bytes [simp]: "length (ext_bytes (t, b)) = 4 + length b"
  by (simp add: ext_bytes_def)

lemma ch_exts_step:
  assumes "p_pos p + 4 \<le> fin" and "p_u16 p = Ok (t, p1)" and "p_u16 p1 = Ok (n, p2)"
    and "p_pos p2 + unat n \<le> fin" and "p_take (unat n) p2 = Ok (b, p3)"
  shows "ch_exts h fin p acc = try_bind (h t b acc) (ch_exts h fin p3)"
proof -
  have "\<not> fin - p_pos p < 4" "\<not> fin \<le> p_pos p"
    using assms(1) by arith+
  then show ?thesis
    using assms by (subst ch_exts.simps) (simp add: try_bind_def)
qed

lemma ch_exts_written:
  assumes "list_all (\<lambda>(t, b). length b < 2 ^ 16) xs"
  shows "ch_exts h (k + length (concat (map ext_bytes xs)))
    \<lparr>p_pos = k, p_rest = concat (map ext_bytes xs) @ rest\<rparr> acc = handle_all h xs acc"
  using assms
proof (induction xs arbitrary: k acc)
  case Nil
  then show ?case by (simp add: ch_exts.simps)
next
  case (Cons x xs)
  obtain t b where x: "x = (t, b)" by (cases x)
  let ?r = "concat (map ext_bytes xs) @ rest"
  have n: "unat (of_nat (length b) :: u16) = length b"
    using Cons.prems x by (simp add: unat_of_nat)
  have u1: "p_u16 \<lparr>p_pos = k, p_rest = ext_bytes x @ ?r\<rparr> =
      Ok (t, \<lparr>p_pos = k + 2, p_rest = u16_to_be (of_nat (length b)) @ b @ ?r\<rparr>)"
    by (simp add: x ext_bytes_def)
  have u2: "p_u16 \<lparr>p_pos = k + 2, p_rest = u16_to_be (of_nat (length b)) @ b @ ?r\<rparr> =
      Ok (of_nat (length b), \<lparr>p_pos = k + 2 + 2, p_rest = b @ ?r\<rparr>)"
    by (rule p_u16_append)
  have tk: "p_take (unat (of_nat (length b) :: u16)) \<lparr>p_pos = k + 2 + 2, p_rest = b @ ?r\<rparr> =
      Ok (b, \<lparr>p_pos = k + 4 + length b, p_rest = ?r\<rparr>)"
    using p_take_append [of b "length b" "k + 2 + 2" ?r] n by simp
  have IH: "ch_exts h (k + 4 + length b + length (concat (map ext_bytes xs)))
      \<lparr>p_pos = k + 4 + length b, p_rest = ?r\<rparr> acc' = handle_all h xs acc'" for acc'
    using Cons.IH [of "k + 4 + length b" acc'] Cons.prems by simp
  have fin: "k + length (concat (map ext_bytes (x # xs))) =
      k + 4 + length b + length (concat (map ext_bytes xs))"
    by (simp add: x)
  have "ch_exts h (k + 4 + length b + length (concat (map ext_bytes xs)))
      \<lparr>p_pos = k, p_rest = ext_bytes x @ ?r\<rparr> acc = try_bind (h t b acc) (handle_all h xs)"
    by (subst ch_exts_step [OF _ u1 u2 _ tk]) (use n IH in \<open>simp_all add: try_bind_def split: sum.split\<close>)
  then show ?case
    unfolding fin by (simp add: x)
qed

lemma ch_ext_block_written:
  assumes "list_all (\<lambda>(t, b). length b < 2 ^ 16) xs" and "length (concat (map ext_bytes xs)) < 2 ^ 16"
  shows "ch_ext_block h \<lparr>p_pos = k, p_rest = u16_to_be (of_nat (length (concat (map ext_bytes xs)))) @
      concat (map ext_bytes xs) @ rest\<rparr> acc = handle_all h xs acc"
proof -
  have "unat (of_nat (length (concat (map ext_bytes xs))) :: u16) = length (concat (map ext_bytes xs))"
    using assms(2) by (simp add: unat_of_nat)
  then show ?thesis
    using ch_exts_written [OF assms(1), of h "k + 2" rest acc]
    by (simp add: ch_ext_block_def remaining_def Let_def)
qed

subsection \<open>What a parsed ClientHello guarantees\<close>

lemma ch_exts_inv:
  assumes "ch_exts h fin p acc = Ok r" and "P acc" and "\<And>t b a a'. h t b a = Ok a' \<Longrightarrow> P a \<Longrightarrow> P a'"
  shows "P r"
  using assms
proof (induction h fin p acc rule: ch_exts.induct)
  case (1 h fin p acc)
  show ?case
  proof (cases "fin \<le> p_pos p")
    case True
    then show ?thesis
      using 1(2,3) by (subst (asm) ch_exts.simps) simp
  next
    case False
    with 1(2) obtain etype p1 elen p2 ebody p3 acc' where
      s: "\<not> fin - p_pos p < 4" "p_u16 p = Ok (etype, p1)" "p_u16 p1 = Ok (elen, p2)" "\<not> fin < p_pos p2 + unat elen"
      "p_take (unat elen) p2 = Ok (ebody, p3)" "h etype ebody acc = Ok acc'" "ch_exts h fin p3 acc' = Ok r"
      by (subst (asm) ch_exts.simps) (auto split: if_splits sum.splits prod.splits)
    show ?thesis
      using 1(1) [OF False s(1,2) refl s(3) refl s(4,5) refl s(6,7)] 1(3,4) s(6) by blast
  qed
qed

definition fields_wf :: "client_hello_fields \<Rightarrow> bool" where
  "fields_wf f \<longleftrightarrow> length (ch_random f) = 32 \<and> length (ch_session_id f) < 256 \<and>
     (\<forall>x. key_share_x25519 f = Some x \<longrightarrow> length x = 32) \<and>
     (\<forall>m. key_share_mlkem f = Some m \<longrightarrow> length (mk_ek m) = 1184 \<and> length (mk_x25519 m) = 32)"

lemma keep_share_wf: "fields_wf f \<Longrightarrow> fields_wf (ch_keep_share grp key f)"
  by (auto simp: fields_wf_def ch_keep_share_def slice_def)

lemma shares_wf: "ch_shares q f = Ok f' \<Longrightarrow> fields_wf f \<Longrightarrow> fields_wf f'"
proof (induction q f rule: ch_shares.induct)
  case (1 q f)
  from 1(2,3) show ?case
    by (subst (asm) ch_shares.simps) (auto split: if_splits sum.splits prod.splits intro: 1(1) keep_share_wf)
qed

lemma field_ext_wf: "field_ext t b f = Ok f' \<Longrightarrow> fields_wf f \<Longrightarrow> fields_wf f'"
  by (auto simp: field_ext_def try_bind_eq_Inr split: if_splits intro: shares_wf) (simp add: fields_wf_def)

lemma p_take_length: "p_take n p = Ok (bs, q) \<Longrightarrow> length bs = n"
  by (auto simp: p_take_def try_bind_eq_Inr need_def remaining_def split: if_splits)

lemma extract_wf:
  assumes "extract_client_hello_fields msg = Ok f"
  shows "fields_wf f"
proof -
  obtain rnd sid p n where len: "length rnd = 32" "length sid = unat (n :: u8)"
    and blk: "ch_ext_block field_ext p \<lparr>ch_random = rnd, ch_session_id = sid, key_share_x25519 = None,
        key_share_mlkem = None, ch_sni = None\<rparr> = Ok f"
    using assms unfolding extract_client_hello_fields_def try_bind_eq_Inr
    by (auto simp: try_bind_eq_Inr split: if_splits prod.splits dest!: p_take_length)
  let ?f0 = "\<lparr>ch_random = rnd, ch_session_id = sid, key_share_x25519 = None, key_share_mlkem = None, ch_sni = None\<rparr>"
  have "fields_wf ?f0"
    using len unat_bound [of n] by (simp add: fields_wf_def)
  then show ?thesis
    using blk by (auto simp: ch_ext_block_def try_bind_eq_Inr Let_def split: if_splits
        elim!: ch_exts_inv [where P = fields_wf] intro: field_ext_wf)
qed

end
