(* ===== verification/ClientHelloBuild.thy ===== *)
theory ClientHelloBuild
  imports ClientHello
begin

text \<open>
  Building a ClientHello that looks like a browser's: \<open>crates/leshiy-tls/src/fingerprint.rs\<close>,
  \<open>camouflage.rs\<close> and \<open>client_hello.rs\<close>. SHA-256 is an argument. The theorems show that the server's
  reader gets back exactly what the client put in, and that the JA4 fingerprint of the message does not
  depend on the per-connection entropy that shuffles it.
\<close>

section \<open>Definitions\<close>

subsection \<open>Profiles\<close>

definition GREASE :: u16 where "GREASE = 0x0a0a"
definition GREASE2 :: u16 where "GREASE2 = 0x1a1a"

record profile =
  pr_name :: string
  pr_cipher_suites :: "u16 list"
  pr_extensions :: "u16 list"
  pr_supported_groups :: "u16 list"
  pr_ec_point_formats :: "u8 list"
  pr_sig_algs :: "u16 list"
  pr_supported_versions :: "u16 list"
  pr_alpn :: "string list"

definition yandex :: profile where
  "yandex =
     \<lparr>pr_name = ''yandex'',
      pr_cipher_suites = [GREASE, 4865, 4866, 4867, 49195, 49199, 49196, 49200, 52393, 52392, 49171, 49172,
        156, 157, 47, 53],
      pr_extensions = [GREASE, 51, 27, 65281, 18, 45, 0, 35, 5, 11, 43, 16, 65037, 23, 17613, 13, 10, GREASE2],
      pr_supported_groups = [GREASE, 4588, 29, 23, 24],
      pr_ec_point_formats = [0x00],
      pr_sig_algs = [0x0403, 0x0804, 0x0401, 0x0503, 0x0805, 0x0501, 0x0806, 0x0601],
      pr_supported_versions = [GREASE, 0x0304, 0x0303],
      pr_alpn = [''h2'', ''http/1.1'']\<rparr>"

definition chrome :: profile where
  "chrome = yandex\<lparr>pr_name := ''chrome''\<rparr>"

subsection \<open>Camouflage\<close>

record grease_set =
  g_cipher :: u16
  g_group :: u16
  g_ext1 :: u16
  g_ext2 :: u16
  g_version :: u16

definition grease_from_byte :: "u8 \<Rightarrow> u16" where
  "grease_from_byte b =
     (let byte = (b AND 0xf0) OR 0x0a in push_bit 8 (ucast byte) OR ucast byte)"

definition derive_grease :: "bytes \<Rightarrow> grease_set" where
  "derive_grease entropy =
     (let ext1 = grease_from_byte (entropy ! 2);
          ext2 = grease_from_byte (entropy ! 3)
      in \<lparr>g_cipher = grease_from_byte (entropy ! 0), g_group = grease_from_byte (entropy ! 1),
          g_ext1 = ext1, g_ext2 = (if ext2 = ext1 then ext2 XOR 0x1010 else ext2),
          g_version = grease_from_byte (entropy ! 4)\<rparr>)"

text \<open>
  \<open>expand\<close>: each turn of its loop appends one 32-byte digest, so the loop makes \<open>(n + 31) div 32\<close> turns.
\<close>

primrec expand_blocks :: "(bytes \<Rightarrow> bytes) \<Rightarrow> bytes \<Rightarrow> bytes \<Rightarrow> nat \<Rightarrow> u8 \<Rightarrow> bytes" where
  "expand_blocks sha entropy domain 0 counter = []"
| "expand_blocks sha entropy domain (Suc k) counter =
     sha (entropy @ domain @ [counter]) @ expand_blocks sha entropy domain k (counter + 1)"

definition expand :: "(bytes \<Rightarrow> bytes) \<Rightarrow> bytes \<Rightarrow> bytes \<Rightarrow> nat \<Rightarrow> bytes" where
  "expand sha entropy domain n = take n (expand_blocks sha entropy domain ((n + 31) div 32) 0)"

definition u32_from_le :: "bytes \<Rightarrow> nat" where
  "u32_from_le bs = be_value (rev bs)"

definition swap_at :: "nat \<Rightarrow> nat \<Rightarrow> 'a list \<Rightarrow> 'a list" where
  "swap_at i j xs = xs[i := xs ! j, j := xs ! i]"

text \<open>The Fisher-Yates loop for \<open>i\<close> down to 1.\<close>

primrec shuffle :: "nat \<Rightarrow> bytes \<Rightarrow> nat list \<Rightarrow> nat list" where
  "shuffle 0 stream perm = perm"
| "shuffle (Suc i) stream perm =
     shuffle i (drop 4 stream) (swap_at (Suc i) (u32_from_le (take 4 stream) mod (Suc i + 1)) perm)"

definition chrome_ext_permutation :: "(bytes \<Rightarrow> bytes) \<Rightarrow> bytes \<Rightarrow> nat \<Rightarrow> nat list" where
  "chrome_ext_permutation sha entropy n =
     (if n \<le> 1 then [0..<n]
      else shuffle (n - 1) (expand sha entropy (as_bytes ''leshiy-ext-shuffle'') ((n - 1) * 4)) [0..<n])"

definition grease_ech_outer :: "(bytes \<Rightarrow> bytes) \<Rightarrow> bytes \<Rightarrow> bytes" where
  "grease_ech_outer sha entropy =
     (let stream = expand sha entropy (as_bytes ''leshiy-ech'') (1 + 32 + 1 + 208);
          enc = slice 1 33 stream;
          payload_len = 144 + unat (stream ! 33) mod 65;
          pay = slice 34 (34 + payload_len) stream
      in [0x00] @ u16_to_be 0x0001 @ u16_to_be 0x0001 @ [stream ! 0] @
         u16_to_be (of_nat (length enc)) @ enc @ u16_to_be (of_nat payload_len) @ pay)"

subsection \<open>The message\<close>

definition list_u16_with_u16len :: "u16 list \<Rightarrow> bytes" where
  "list_u16_with_u16len items =
     (let inner = concat (map u16_to_be items) in u16_to_be (of_nat (length inner)) @ inner)"

definition sub_grease :: "u16 \<Rightarrow> u16 list \<Rightarrow> u16 list" where
  "sub_grease g xs = map (\<lambda>x. if is_grease x then g else x) xs"

definition sni_body :: "string \<Rightarrow> bytes" where
  "sni_body sni =
     (let host = as_bytes sni in
      u16_to_be (1 + 2 + of_nat (length host)) @ [0x00] @ u16_to_be (of_nat (length host)) @ host)"

definition alpn_body :: "string list \<Rightarrow> bytes" where
  "alpn_body alpn =
     (let protos = concat (map (\<lambda>a. of_nat (length a) # as_bytes a) alpn) in
      u16_to_be (of_nat (length protos)) @ protos)"

definition versions_body :: "u16 \<Rightarrow> u16 list \<Rightarrow> bytes" where
  "versions_body g vs = of_nat (length vs * 2) # concat (map u16_to_be (sub_grease g vs))"

definition key_share_body :: "u16 \<Rightarrow> bytes \<Rightarrow> bytes \<Rightarrow> bytes" where
  "key_share_body g x25519_pub mlkem_ek =
     (let entries = u16_to_be g @ u16_to_be 1 @ [0x00] @
                    u16_to_be 0x11ec @ u16_to_be 1216 @ mlkem_ek @ x25519_pub @
                    u16_to_be 0x001d @ u16_to_be 32 @ x25519_pub
      in u16_to_be (of_nat (length entries)) @ entries)"

definition build_extension ::
    "(bytes \<Rightarrow> bytes) \<Rightarrow> u16 \<Rightarrow> profile \<Rightarrow> string \<Rightarrow> bytes \<Rightarrow> bytes \<Rightarrow> grease_set \<Rightarrow> bytes \<Rightarrow> bytes" where
  "build_extension sha etype pr sni x25519_pub mlkem_ek grease entropy =
     (if etype = 0x0000 then sni_body sni
      else if etype = 0x000a then list_u16_with_u16len (sub_grease (g_group grease) (pr_supported_groups pr))
      else if etype = 0x000b then of_nat (length (pr_ec_point_formats pr)) # pr_ec_point_formats pr
      else if etype = 0x000d then list_u16_with_u16len (pr_sig_algs pr)
      else if etype = 0x0010 then alpn_body (pr_alpn pr)
      else if etype = 0x002b then versions_body (g_version grease) (pr_supported_versions pr)
      else if etype = 0x0033 then key_share_body (g_group grease) x25519_pub mlkem_ek
      else if etype = 0xff01 then [0x00]
      else if etype = 0x002d then [0x01, 0x01]
      else if etype = 0x0005 then [0x01, 0x00, 0x00, 0x00, 0x00]
      else if etype = 0x001b then [0x02, 0x00, 0x02]
      else if etype = 0xfe0d then grease_ech_outer sha entropy
      else if etype = 0x44cd then [0x00, 0x03, 0x02, 0x68, 0x32]
      else [])"

definition ch_extensions ::
    "(bytes \<Rightarrow> bytes) \<Rightarrow> profile \<Rightarrow> string \<Rightarrow> bytes \<Rightarrow> bytes \<Rightarrow> bytes \<Rightarrow> (u16 \<times> bytes) list" where
  "ch_extensions sha pr sni x25519_pub mlkem_ek entropy =
     (let grease = derive_grease entropy;
          middle = filter (\<lambda>t. \<not> is_grease t) (pr_extensions pr);
          perm = chrome_ext_permutation sha entropy (length middle)
      in (g_ext1 grease, []) #
         map (\<lambda>idx. (middle ! idx,
                      build_extension sha (middle ! idx) pr sni x25519_pub mlkem_ek grease entropy)) perm @
         [(g_ext2 grease, [0x00])])"

definition build_client_hello_with_entropy ::
    "(bytes \<Rightarrow> bytes) \<Rightarrow> profile \<Rightarrow> string \<Rightarrow> bytes \<Rightarrow> bytes \<Rightarrow> bytes \<Rightarrow> bytes \<Rightarrow> bytes" where
  "build_client_hello_with_entropy sha pr sni x25519_pub mlkem_ek rnd entropy =
     (let cs = concat (map u16_to_be (sub_grease (g_cipher (derive_grease entropy)) (pr_cipher_suites pr)));
          exts = concat (map ext_bytes (ch_extensions sha pr sni x25519_pub mlkem_ek entropy));
          body = [0x03, 0x03] @ rnd @ [32] @ rnd @ u16_to_be (of_nat (length cs)) @ cs @ [0x01, 0x00] @
                 u16_to_be (of_nat (length exts)) @ exts
      in [0x01] @ u24_to_be (length body) @ body)"

text \<open>With the entropy the operating system gives.\<close>

definition build_client_hello ::
    "(bytes \<Rightarrow> bytes) \<Rightarrow> profile \<Rightarrow> string \<Rightarrow> bytes \<Rightarrow> bytes \<Rightarrow> bytes \<Rightarrow> bytes \<Rightarrow> bytes" where
  "build_client_hello sha pr sni x25519_pub mlkem_ek rnd os_entropy =
     build_client_hello_with_entropy sha pr sni x25519_pub mlkem_ek rnd os_entropy"

section \<open>Lemmas\<close>

subsection \<open>GREASE values\<close>

lemma grease_from_byte_grease: "is_grease (grease_from_byte b)"
  by (rule all_bytes) code_simp

lemma grease_xor: "is_grease (grease_from_byte b XOR 0x1010)"
  by (rule all_bytes) code_simp

lemma derive_grease_grease:
  "is_grease (g_cipher (derive_grease e))" "is_grease (g_group (derive_grease e))"
  "is_grease (g_ext1 (derive_grease e))" "is_grease (g_ext2 (derive_grease e))"
  "is_grease (g_version (derive_grease e))"
  by (simp_all add: derive_grease_def Let_def grease_from_byte_grease grease_xor)

lemma derive_grease_distinct: "g_ext1 (derive_grease e) \<noteq> g_ext2 (derive_grease e)"
proof -
  have "w XOR 0x1010 \<noteq> w" for w :: u16
  proof
    assume "w XOR 0x1010 = w"
    then have "w XOR (w XOR 0x1010) = 0"
      by simp
    then show False
      by (simp add: xor.assoc [symmetric])
  qed
  then show ?thesis
    by (simp add: derive_grease_def Let_def) metis
qed

lemma no_grease_sub: "is_grease g \<Longrightarrow> no_grease (sub_grease g xs) = no_grease xs"
  by (induction xs) (simp_all add: no_grease_def sub_grease_def)

subsection \<open>The shuffle is a permutation\<close>

lemma mset_swap_at: "i < length xs \<Longrightarrow> j < length xs \<Longrightarrow> mset (swap_at i j xs) = mset xs"
  by (simp add: swap_at_def mset_swap)

lemma mset_shuffle: "i < length perm \<Longrightarrow> mset (shuffle i stream perm) = mset perm"
proof (induction i arbitrary: stream perm)
  case (Suc i)
  let ?j = "u32_from_le (take 4 stream) mod (Suc i + 1)"
  have j: "?j < length perm"
    using Suc.prems mod_less_divisor [of "Suc i + 1" "u32_from_le (take 4 stream)"] by linarith
  have "i < length (swap_at (Suc i) ?j perm)"
    using Suc.prems by (simp add: swap_at_def)
  then show ?case
    using Suc.IH mset_swap_at [OF Suc.prems j] by simp
qed simp

lemma mset_permutation: "mset (chrome_ext_permutation sha entropy n) = mset [0..<n]"
  unfolding chrome_ext_permutation_def using mset_shuffle [of "n - 1" "[0..<n]"] by simp

lemma mset_map_permutation:
  "mset (map (\<lambda>i. f (xs ! i)) (chrome_ext_permutation sha entropy (length xs))) = mset (map f xs)"
proof -
  have "mset (map (\<lambda>i. f (xs ! i)) (chrome_ext_permutation sha entropy (length xs))) =
      image_mset (\<lambda>i. f (xs ! i)) (mset [0..<length xs])"
    using mset_permutation [of sha entropy "length xs"] by simp
  also have "\<dots> = mset (map (\<lambda>i. f (xs ! i)) [0..<length xs])"
    by simp
  also have "map (\<lambda>i. f (xs ! i)) [0..<length xs] = map f xs"
    by (rule nth_equalityI) simp_all
  finally show ?thesis .
qed

subsection \<open>The extension list\<close>

definition middle_exts :: "u16 list" where
  "middle_exts = [51, 27, 65281, 18, 45, 0, 35, 5, 11, 43, 16, 65037, 23, 17613, 13, 10]"

lemma middle_yandex: "filter (\<lambda>t. \<not> is_grease t) (pr_extensions yandex) = middle_exts"
  by code_simp

lemma middle_not_grease: "list_all (\<lambda>t. \<not> is_grease t) middle_exts"
  by code_simp

abbreviation yandex_ext :: "(bytes \<Rightarrow> bytes) \<Rightarrow> string \<Rightarrow> bytes \<Rightarrow> bytes \<Rightarrow> bytes \<Rightarrow> u16 \<Rightarrow> bytes" where
  "yandex_ext sha sni x ek e t \<equiv> build_extension sha t yandex sni x ek (derive_grease e) e"

lemma mset_extensions:
  "mset (map f (ch_extensions sha yandex sni x ek e)) =
   {#f (g_ext1 (derive_grease e), []), f (g_ext2 (derive_grease e), [0])#} +
   mset (map (\<lambda>t. f (t, yandex_ext sha sni x ek e t)) middle_exts)"
  using mset_map_permutation [of "\<lambda>t. f (t, yandex_ext sha sni x ek e t)" middle_exts sha e]
  by (simp add: ch_extensions_def Let_def middle_yandex comp_def)

lemma set_extensions:
  assumes "(t, b) \<in> set (ch_extensions sha yandex sni x ek e)"
  shows "t \<in> set middle_exts \<and> b = yandex_ext sha sni x ek e t \<or> is_grease t \<and> length b \<le> 1"
proof -
  have "(t, b) \<in># mset (map id (ch_extensions sha yandex sni x ek e))"
    using assms by simp
  then show ?thesis
    unfolding mset_extensions by (auto simp: derive_grease_grease)
qed

lemma types_extensions:
  assumes "t \<in> set middle_exts"
  shows "count (mset (map fst (ch_extensions sha yandex sni x ek e))) t = 1"
proof -
  have "\<not> is_grease t"
    using assms middle_not_grease by (auto simp: list_all_iff)
  then have "t \<noteq> g_ext1 (derive_grease e)" "t \<noteq> g_ext2 (derive_grease e)"
    using derive_grease_grease by metis+
  moreover have "count (mset middle_exts) t = 1"
    using assms by (auto simp: middle_exts_def)
  ultimately show ?thesis
    unfolding mset_extensions by simp
qed

text \<open>Sizes.\<close>

lemma length_ech: "length (grease_ech_outer sha e) \<le> 250"
proof -
  have "unat (w :: u8) mod 65 \<le> 64" for w
    using mod_less_divisor [of 65 "unat w"] by linarith
  then show ?thesis
    by (auto simp: grease_ech_outer_def Let_def slice_def min_def)
qed

lemma length_u16s: "length (concat (map u16_to_be xs)) = 2 * length xs"
  by (induction xs) simp_all

definition ext_limit :: "nat \<Rightarrow> u16 \<Rightarrow> nat" where
  "ext_limit n t =
     (if t = 0x0000 then 5 + n else if t = 0x0033 then 1263 else if t = 0xfe0d then 250 else 18)"

lemma length_yandex_ext:
  assumes "length x = 32" and "length ek = 1184"
  shows "length (yandex_ext sha sni x ek e t) \<le> ext_limit (length sni) t"
  using assms length_ech [of sha e]
  by (auto simp: build_extension_def ext_limit_def sni_body_def key_share_body_def alpn_body_def versions_body_def
      list_u16_with_u16len_def sub_grease_def yandex_def Let_def length_u16s)

lemma length_extensions:
  assumes "length x = 32" and "length ek = 1184" and "length sni \<le> 60000"
  shows "length (concat (map ext_bytes (ch_extensions sha yandex sni x ek e))) < 2 ^ 16"
proof -
  have "length (concat (map ext_bytes xs)) = sum_list (map (\<lambda>(t, b). 4 + length b) xs)"
    for xs :: "(u16 \<times> bytes) list"
    by (induction xs) (auto simp: ext_bytes_def)
  moreover have "sum_list (map (\<lambda>(t, b). 4 + length b) (ch_extensions sha yandex sni x ek e)) =
      9 + sum_list (map (\<lambda>t. 4 + length (yandex_ext sha sni x ek e t)) middle_exts)"
    using mset_extensions [of "\<lambda>(t, b). 4 + length b" sha sni x ek e]
    by (subst (1 2) sum_mset_sum_list [symmetric]) simp
  moreover have "sum_list (map (\<lambda>t. 4 + length (yandex_ext sha sni x ek e t)) middle_exts) \<le>
      sum_list (map (\<lambda>t. 4 + ext_limit (length sni) t) middle_exts)"
    using length_yandex_ext [OF assms(1,2)] by (intro sum_list_mono) simp
  moreover have "sum_list (map (\<lambda>t. 4 + ext_limit (length sni) t) middle_exts) = 1816 + length sni"
    by (simp add: middle_exts_def ext_limit_def)
  ultimately show ?thesis
    using assms(3) by simp
qed

lemma body_sizes:
  assumes "length x = 32" and "length ek = 1184" and "length sni \<le> 60000"
  shows "list_all (\<lambda>(t, b). length b < 2 ^ 16) (ch_extensions sha yandex sni x ek e)"
proof -
  have "length b < 2 ^ 16" if "(t, b) \<in> set (ch_extensions sha yandex sni x ek e)" for t b
  proof -
    have "length (yandex_ext sha sni x ek e t) \<le> 5 + 60000"
      using length_yandex_ext [OF assms(1,2), of sha t sni e] assms(3) by (simp add: ext_limit_def split: if_splits)
    then show ?thesis
      using set_extensions [OF that] by auto
  qed
  then show ?thesis
    by (auto simp: list_all_iff)
qed

subsection \<open>Reading the fields back\<close>

lemma parser_new_eq: "parser_new b = \<lparr>p_pos = 0, p_rest = b\<rparr>"
  by (simp add: parser_new_def)

lemma p_u16_nil:
  "p_u16 \<lparr>p_pos = k, p_rest = u16_to_be v\<rparr> = Ok (v, \<lparr>p_pos = k + 2, p_rest = []\<rparr>)"
  using p_u16_append [of k v "[]"] by simp

lemma p_take_all: "length a = n \<Longrightarrow> p_take n \<lparr>p_pos = k, p_rest = a\<rparr> = Ok (a, \<lparr>p_pos = k + n, p_rest = []\<rparr>)"
  using p_take_append [of a n k "[]"] by simp

lemma read_sni_body:
  assumes "length sni \<le> 60000" and "utf8_valid (as_bytes sni)"
  shows "ch_read_sni (sni_body sni) = Ok sni"
proof -
  have n: "unat (of_nat (length sni) :: u16) = length sni"
    using assms(1) by (simp add: unat_of_nat)
  have "p_take (length sni) \<lparr>p_pos = k, p_rest = as_bytes sni\<rparr> =
      Ok (as_bytes sni, \<lparr>p_pos = k + length sni, p_rest = []\<rparr>)" for k
    by (rule p_take_all) simp
  then show ?thesis
    using from_utf8_lossy_as_bytes [OF assms(2)]
    by (simp add: ch_read_sni_def sni_body_def parser_new_eq Let_def n)
qed

lemma ch_shares_step:
  assumes "unat n = length key"
  shows "ch_shares \<lparr>p_pos = k, p_rest = u16_to_be g @ u16_to_be n @ key @ r\<rparr> f =
    ch_shares \<lparr>p_pos = k + 2 + 2 + length key, p_rest = r\<rparr> (ch_keep_share g key f)"
proof -
  have "p_take (unat n) \<lparr>p_pos = k + 2 + 2, p_rest = key @ r\<rparr> =
      Ok (key, \<lparr>p_pos = k + 2 + 2 + length key, p_rest = r\<rparr>)"
    unfolding assms by (rule p_take_append) simp
  then show ?thesis
    by (subst ch_shares.simps) (simp add: remaining_def)
qed

lemma field_key_share:
  assumes "length x = 32" and "length ek = 1184" and "is_grease g"
  shows "field_ext 0x0033 (key_share_body g x ek) f =
    Ok (f\<lparr>key_share_x25519 := Some x, key_share_mlkem := Some \<lparr>mk_ek = ek, mk_x25519 = x\<rparr>\<rparr>)"
proof -
  have g: "g \<noteq> 0x001d" "g \<noteq> 0x11ec"
    using assms(3) by (auto simp: is_grease_def)
  have fin: "ch_shares \<lparr>p_pos = k, p_rest = []\<rparr> h = Ok h" for k h
    by (subst ch_shares.simps) (simp add: remaining_def)
  have s1: "ch_shares \<lparr>p_pos = k, p_rest = u16_to_be g @ u16_to_be 1 @ [0] @ r\<rparr> h =
      ch_shares \<lparr>p_pos = k + 2 + 2 + 1, p_rest = r\<rparr> h" for k r h
    using ch_shares_step [of 1 "[0]" k g r h] g by (simp add: ch_keep_share_def)
  have s2: "ch_shares \<lparr>p_pos = k, p_rest = u16_to_be 0x11ec @ u16_to_be 1216 @ (ek @ x) @ r\<rparr> h =
      ch_shares \<lparr>p_pos = k + 2 + 2 + 1216, p_rest = r\<rparr> (h\<lparr>key_share_mlkem := Some \<lparr>mk_ek = ek, mk_x25519 = x\<rparr>\<rparr>)"
    for k r h
    using ch_shares_step [of 1216 "ek @ x" k "0x11ec" r h] assms(1,2)
    by (simp add: ch_keep_share_def slice_def)
  have s3: "ch_shares \<lparr>p_pos = k, p_rest = u16_to_be 0x001d @ u16_to_be 32 @ x @ []\<rparr> h =
      ch_shares \<lparr>p_pos = k + 2 + 2 + 32, p_rest = []\<rparr> (h\<lparr>key_share_x25519 := Some x\<rparr>)" for k h
    using ch_shares_step [of 32 x k "0x001d" "[]" h] assms(1) by (simp add: ch_keep_share_def)
  show ?thesis
    using s1 s2 s3 fin
    by (simp add: field_ext_def key_share_body_def parser_new_eq Let_def)
qed

text \<open>The handlers of the two interesting extensions, over any list in which they occur at most consistently.\<close>

lemma handle_all_fields:
  assumes "\<And>b. (0x0000, b) \<in> set xs \<Longrightarrow> ch_read_sni b = Ok s"
    and "\<And>b f. (0x0033, b) \<in> set xs \<Longrightarrow>
           field_ext 0x0033 b f = Ok (f\<lparr>key_share_x25519 := Some x, key_share_mlkem := Some m\<rparr>)"
  shows "handle_all field_ext xs f =
    Ok (f\<lparr>ch_sni := (if 0x0000 \<in> fst ` set xs then Some s else ch_sni f),
          key_share_x25519 := (if 0x0033 \<in> fst ` set xs then Some x else key_share_x25519 f),
          key_share_mlkem := (if 0x0033 \<in> fst ` set xs then Some m else key_share_mlkem f)\<rparr>)"
  using assms
proof (induction xs arbitrary: f)
  case (Cons y ys)
  obtain t b where y: "y = (t, b)" by (cases y)
  have IH: "handle_all field_ext ys g =
    Ok (g\<lparr>ch_sni := (if 0x0000 \<in> fst ` set ys then Some s else ch_sni g),
          key_share_x25519 := (if 0x0033 \<in> fst ` set ys then Some x else key_share_x25519 g),
          key_share_mlkem := (if 0x0033 \<in> fst ` set ys then Some m else key_share_mlkem g)\<rparr>)" for g
    using Cons by simp
  consider "t = 0x0000" | "t = 0x0033" | "t \<noteq> 0x0000" "t \<noteq> 0x0033" by blast
  then show ?case
  proof cases
    case 1
    then have "field_ext t b f = Ok (f\<lparr>ch_sni := Some s\<rparr>)"
      using Cons.prems(1) [of b] y by (simp add: field_ext_def)
    then show ?thesis
      using IH 1 by (simp add: y)
  next
    case 2
    then have "field_ext t b f = Ok (f\<lparr>key_share_x25519 := Some x, key_share_mlkem := Some m\<rparr>)"
      using Cons.prems(2) [of b f] y by simp
    then show ?thesis
      using IH 2 by (simp add: y)
  next
    case 3
    then have "field_ext t b f = Ok f"
      by (simp add: field_ext_def)
    then show ?thesis
      using IH 3 by (simp add: y)
  qed
qed simp

lemma not_grease_consts: "\<not> is_grease 0x0000" "\<not> is_grease 0x0033"
  by code_simp+

lemma fields_of_extensions:
  assumes "length x = 32" and "length ek = 1184" and "length sni \<le> 60000" and "utf8_valid (as_bytes sni)"
  shows "handle_all field_ext (ch_extensions sha yandex sni x ek e) f =
    Ok (f\<lparr>ch_sni := Some sni, key_share_x25519 := Some x,
          key_share_mlkem := Some \<lparr>mk_ek = ek, mk_x25519 = x\<rparr>\<rparr>)"
proof -
  let ?xs = "ch_extensions sha yandex sni x ek e"
  have b0: "b = sni_body sni" if "(0x0000, b) \<in> set ?xs" for b
    using set_extensions [OF that] not_grease_consts(1) by (auto simp: build_extension_def)
  have b33: "b = key_share_body (g_group (derive_grease e)) x ek" if "(0x0033, b) \<in> set ?xs" for b
    using set_extensions [OF that] not_grease_consts(2) by (auto simp: build_extension_def)
  have mem: "t \<in> fst ` set ?xs" if "t \<in> set middle_exts" for t
    using types_extensions [OF that, of sha sni x ek e] count_eq_zero_iff [of "mset (map fst ?xs)" t] by force
  have in0: "0x0000 \<in> fst ` set ?xs" and in33: "0x0033 \<in> fst ` set ?xs"
    by (rule mem; simp add: middle_exts_def)+
  show ?thesis
    by (subst handle_all_fields [where s = sni and x = x and m = "\<lparr>mk_ek = ek, mk_x25519 = x\<rparr>"])
      (use b0 b33 in0 in33 read_sni_body [OF assms(3,4)] field_key_share [OF assms(1,2) derive_grease_grease(2)]
        in \<open>auto\<close>)
qed

lemma legacy_version_bytes: "[3, 3] = u16_to_be 0x0303"
  by code_simp

text \<open>Any message of the ClientHello's shape gives its random, session id and what its extensions hold.\<close>

definition ch_message :: "bytes \<Rightarrow> bytes \<Rightarrow> u16 list \<Rightarrow> (u16 \<times> bytes) list \<Rightarrow> bytes" where
  "ch_message rnd sid suites exts =
     (let cs = concat (map u16_to_be suites);
          xs = concat (map ext_bytes exts);
          body = [0x03, 0x03] @ rnd @ [32] @ sid @ u16_to_be (of_nat (length cs)) @ cs @ [0x01, 0x00] @
                 u16_to_be (of_nat (length xs)) @ xs
      in [0x01] @ u24_to_be (length body) @ body)"

lemma build_as_message:
  "build_client_hello_with_entropy sha pr sni x ek rnd e =
   ch_message rnd rnd (sub_grease (g_cipher (derive_grease e)) (pr_cipher_suites pr))
     (ch_extensions sha pr sni x ek e)"
  by (simp add: build_client_hello_with_entropy_def ch_message_def Let_def)

lemma extract_message:
  assumes "length rnd = 32" and "length sid = 32" and "length suites < 1000"
    and "list_all (\<lambda>(t, b). length b < 2 ^ 16) exts" and "length (concat (map ext_bytes exts)) < 2 ^ 16"
  shows "extract_client_hello_fields (ch_message rnd sid suites exts) =
    handle_all field_ext exts
      \<lparr>ch_random = rnd, ch_session_id = sid, key_share_x25519 = None, key_share_mlkem = None, ch_sni = None\<rparr>"
proof -
  let ?cs = "concat (map u16_to_be suites)" and ?xs = "concat (map ext_bytes exts)"
  let ?t = "u16_to_be (of_nat (length ?xs)) @ ?xs"
  have ncs: "unat (of_nat (length ?cs) :: u16) = length ?cs" and lcs: "length ?cs < 2000"
    using assms(3) by (simp_all del: of_nat_mult add: length_u16s unat_of_nat)
  define n where "n = length ([0x03, 0x03] @ rnd @ [32] @ sid @ u16_to_be (of_nat (length ?cs)) @ ?cs @
      [0x01, 0x00] @ ?t)"
  have n: "n < 2 ^ 24"
    using assms(1,2,5) lcs by (simp add: n_def)
  have msg: "ch_message rnd sid suites exts = 1 # u24_to_be n @ u16_to_be 0x0303 @ rnd @ 32 # sid @
      u16_to_be (of_nat (length ?cs)) @ ?cs @ 1 # [0] @ ?t"
    by (simp add: ch_message_def Let_def n_def legacy_version_bytes [symmetric])
  have sk: "p_skip (length ?cs) \<lparr>p_pos = k, p_rest = ?cs @ r\<rparr> = Ok ((), \<lparr>p_pos = k + length ?cs, p_rest = r\<rparr>)" for k r
    by (rule p_skip_append) simp
  have sk1: "p_skip 1 \<lparr>p_pos = k, p_rest = [0] @ r\<rparr> = Ok ((), \<lparr>p_pos = k + 1, p_rest = r\<rparr>)" for k r
    by (rule p_skip_append) simp
  show ?thesis
    using ch_ext_block_written [OF assms(4,5), where rest = "[]" and h = field_ext]
    unfolding msg extract_client_hello_fields_def parser_new_eq
    by (simp add: p_u24_append [OF n] p_take_append assms(1,2) ncs sk sk1 [simplified])
qed

subsection \<open>Reading the view back\<close>

lemma p_u16s_written:
  "p_u16s (length xs) \<lparr>p_pos = k, p_rest = concat (map u16_to_be xs) @ r\<rparr> =
   Ok (xs, \<lparr>p_pos = k + 2 * length xs, p_rest = r\<rparr>)"
  by (induction xs arbitrary: k) simp_all

lemma p_u16s_all:
  "p_u16s (length xs) \<lparr>p_pos = k, p_rest = concat (map u16_to_be xs)\<rparr> =
   Ok (xs, \<lparr>p_pos = k + 2 * length xs, p_rest = []\<rparr>)"
  using p_u16s_written [of xs k "[]"] by simp

lemma view_alpn_written:
  assumes "list_all (\<lambda>a. length a < 256 \<and> utf8_valid (as_bytes a)) alpn"
  shows "view_alpn \<lparr>p_pos = k, p_rest = concat (map (\<lambda>a. of_nat (length a) # as_bytes a) alpn)\<rparr> = Ok alpn"
  using assms
proof (induction alpn arbitrary: k)
  case Nil
  then show ?case
    by (subst view_alpn.simps) (simp add: remaining_def)
next
  case (Cons a as)
  have n: "unat (of_nat (length a) :: u8) = length a"
    using Cons.prems by (simp add: unat_of_nat)
  have "p_take (length a) \<lparr>p_pos = j, p_rest = as_bytes a @ r\<rparr> =
      Ok (as_bytes a, \<lparr>p_pos = j + length a, p_rest = r\<rparr>)" for j r
    by (rule p_take_append) simp
  then show ?case
    using Cons n from_utf8_lossy_as_bytes [of a] by (subst view_alpn.simps) (simp add: remaining_def)
qed

lemma list_body_read:
  assumes "length xs < 1000"
  shows "p_u16 (parser_new (list_u16_with_u16len xs)) =
      Ok (of_nat (2 * length xs), \<lparr>p_pos = 2, p_rest = concat (map u16_to_be xs)\<rparr>)"
    and "unat (of_nat (2 * length xs) :: u16) div 2 = length xs"
  using assms
  by (simp_all del: of_nat_mult add: list_u16_with_u16len_def parser_new_eq length_u16s Let_def unat_of_nat)

text \<open>What each extension of the profile adds to the view.\<close>

definition view_add :: "grease_set \<Rightarrow> u16 \<Rightarrow> client_hello_view \<Rightarrow> client_hello_view" where
  "view_add g t v =
     (let v = v\<lparr>v_extensions := v_extensions v @ [t]\<rparr> in
      if t = 0x0000 then v\<lparr>v_has_sni := True\<rparr>
      else if t = 0x000a then
        v\<lparr>v_supported_groups := v_supported_groups v @ sub_grease (g_group g) (pr_supported_groups yandex)\<rparr>
      else if t = 0x000b then v\<lparr>v_ec_point_formats := v_ec_point_formats v @ pr_ec_point_formats yandex\<rparr>
      else if t = 0x000d then v\<lparr>v_sig_algs := v_sig_algs v @ pr_sig_algs yandex\<rparr>
      else if t = 0x0010 then v\<lparr>v_alpn := v_alpn v @ pr_alpn yandex\<rparr>
      else if t = 0x002b then
        v\<lparr>v_supported_versions := v_supported_versions v @ sub_grease (g_version g) (pr_supported_versions yandex)\<rparr>
      else v)"

lemma view_ext_yandex: "view_ext t (yandex_ext sha sni x ek e t) v = Ok (view_add (derive_grease e) t v)"
proof -
  let ?g = "derive_grease e"
  have a: "view_alpn \<lparr>p_pos = k, p_rest = concat (map (\<lambda>a. of_nat (length a) # as_bytes a) (pr_alpn yandex))\<rparr> =
      Ok (pr_alpn yandex)" for k
    by (rule view_alpn_written) (simp add: yandex_def, code_simp)
  let ?vs = "sub_grease (g_version ?g) (pr_supported_versions yandex)"
  have vlen: "length ?vs = 3" "length (pr_supported_versions yandex) = 3"
    by (simp_all add: sub_grease_def yandex_def)
  have vs: "p_u16s 3 \<lparr>p_pos = k, p_rest = concat (map u16_to_be ?vs)\<rparr> = Ok (?vs, \<lparr>p_pos = k + 6, p_rest = []\<rparr>)" for k
    using p_u16s_all [of ?vs k] vlen by simp
  have gl: "length (sub_grease (g_group ?g) (pr_supported_groups yandex)) < 1000" "length (pr_sig_algs yandex) < 1000"
    by (simp_all add: sub_grease_def yandex_def)
  have ec: "pr_ec_point_formats yandex = [0]"
    by (simp add: yandex_def)
  show ?thesis
    using a vs vlen p_u16s_all list_body_read [OF gl(1)] list_body_read [OF gl(2)]
    by (auto simp: view_ext_def view_add_def build_extension_def Let_def versions_body_def alpn_body_def
        parser_new_eq ec)
qed

lemma grease_unknown:
  assumes "is_grease t"
  shows "t \<notin> {0x0000, 0x000a, 0x000b, 0x000d, 0x0010, 0x002b}"
proof -
  have "list_all (\<lambda>u. \<not> is_grease u) [0x0000, 0x000a, 0x000b, 0x000d, 0x0010, 0x002b]"
    by code_simp
  then show ?thesis
    using assms by auto
qed

lemma view_ext_grease: "is_grease t \<Longrightarrow> view_ext t b v = Ok (v\<lparr>v_extensions := v_extensions v @ [t]\<rparr>)"
  using grease_unknown [of t] by (simp add: view_ext_def)

lemma view_add_grease: "is_grease t \<Longrightarrow> view_add g t v = v\<lparr>v_extensions := v_extensions v @ [t]\<rparr>"
  using grease_unknown [of t] by (simp add: view_add_def)

lemma view_ext_all:
  assumes "(t, b) \<in> set (ch_extensions sha yandex sni x ek e)"
  shows "view_ext t b v = Ok (view_add (derive_grease e) t v)"
  using set_extensions [OF assms] view_ext_yandex view_ext_grease view_add_grease by metis

lemma handle_all_views:
  assumes "\<And>t b v. (t, b) \<in> set xs \<Longrightarrow> view_ext t b v = Ok (view_add g t v)"
  shows "handle_all view_ext xs v = Ok (fold (view_add g) (map fst xs) v)"
  using assms by (induction xs arbitrary: v) (auto simp: split_beta)

text \<open>The fields of the view after a list of extensions.\<close>

definition picked :: "u16 \<Rightarrow> 'a list \<Rightarrow> u16 list \<Rightarrow> 'a list" where
  "picked t ys ts = concat (map (\<lambda>u. if u = t then ys else []) ts)"

lemma picked_once: "count (mset ts) t = 1 \<Longrightarrow> picked t ys ts = ys"
proof (induction ts)
  case (Cons u ts)
  have none: "count (mset us) t = 0 \<Longrightarrow> picked t ys us = []" for us
    by (induction us) (auto simp: picked_def split: if_splits)
  show ?case
    using Cons none [of ts] by (auto simp: picked_def split: if_splits)
qed simp

lemma fold_view_add:
  fixes g :: grease_set
  defines "w \<equiv> \<lambda>ts v. fold (view_add g) ts v"
  shows "v_extensions (w ts v) = v_extensions v @ ts"
    and "v_has_sni (w ts v) = (v_has_sni v \<or> 0x0000 \<in> set ts)"
    and "v_sig_algs (w ts v) = v_sig_algs v @ picked 0x000d (pr_sig_algs yandex) ts"
    and "v_alpn (w ts v) = v_alpn v @ picked 0x0010 (pr_alpn yandex) ts"
    and "v_supported_versions (w ts v) =
      v_supported_versions v @ picked 0x002b (sub_grease (g_version g) (pr_supported_versions yandex)) ts"
    and "v_cipher_suites (w ts v) = v_cipher_suites v"
  unfolding w_def by (induction ts arbitrary: v) (auto simp: view_add_def Let_def picked_def)

lemma parse_view_message:
  assumes "length rnd = 32" and "length sid = 32" and "length suites < 1000"
    and "list_all (\<lambda>(t, b). length b < 2 ^ 16) exts" and "length (concat (map ext_bytes exts)) < 2 ^ 16"
  shows "parse_view (ch_message rnd sid suites exts) =
    handle_all view_ext exts
      \<lparr>v_legacy_version = 0x0303, v_cipher_suites = suites, v_extensions = [], v_supported_groups = [],
       v_ec_point_formats = [], v_sig_algs = [], v_alpn = [], v_has_sni = False, v_supported_versions = []\<rparr>"
proof -
  let ?cs = "concat (map u16_to_be suites)" and ?xs = "concat (map ext_bytes exts)"
  let ?t = "u16_to_be (of_nat (length ?xs)) @ ?xs"
  have ncs: "unat (of_nat (length ?cs) :: u16) = 2 * length suites" and lcs: "length ?cs < 2000"
    using assms(3) by (simp_all del: of_nat_mult add: length_u16s unat_of_nat)
  define n where "n = length ([0x03, 0x03] @ rnd @ [32] @ sid @ u16_to_be (of_nat (length ?cs)) @ ?cs @
      [0x01, 0x00] @ ?t)"
  have n: "n < 2 ^ 24"
    using assms(1,2,5) lcs by (simp add: n_def)
  have msg: "ch_message rnd sid suites exts = 1 # u24_to_be n @ u16_to_be 0x0303 @ rnd @ 32 # sid @
      u16_to_be (of_nat (length ?cs)) @ ?cs @ 1 # [0] @ ?t"
    by (simp add: ch_message_def Let_def n_def legacy_version_bytes [symmetric])
  have sk1: "p_skip 1 \<lparr>p_pos = k, p_rest = [0] @ r\<rparr> = Ok ((), \<lparr>p_pos = k + 1, p_rest = r\<rparr>)" for k r
    by (rule p_skip_append) simp
  show ?thesis
    using ch_ext_block_written [OF assms(4,5), where rest = "[]" and h = view_ext]
    unfolding msg parse_view_def parser_new_eq
    by (simp add: p_u24_append [OF n] p_skip_append assms(1,2) ncs sk1 [simplified] p_u16s_written)
qed

lemma yandex_suites: "length (sub_grease g (pr_cipher_suites yandex)) < 1000"
  by (simp add: sub_grease_def yandex_def)

lemma extract_built:
  assumes "length x = 32" and "length ek = 1184" and "length rnd = 32" and "length sid = 32"
    and "length sni \<le> 60000" and "utf8_valid (as_bytes sni)" and "length suites < 1000"
  shows "extract_client_hello_fields (ch_message rnd sid suites (ch_extensions sha yandex sni x ek e)) =
    Ok \<lparr>ch_random = rnd, ch_session_id = sid, key_share_x25519 = Some x,
        key_share_mlkem = Some \<lparr>mk_ek = ek, mk_x25519 = x\<rparr>, ch_sni = Some sni\<rparr>"
  using extract_message [OF assms(3,4,7) body_sizes [OF assms(1,2,5)] length_extensions [OF assms(1,2,5)]]
    fields_of_extensions [OF assms(1,2,5,6)]
  by simp

subsection \<open>The fingerprint of the view\<close>

definition middle_sorted :: "u16 list" where
  "middle_sorted = [5, 10, 11, 13, 18, 23, 27, 35, 43, 45, 51, 17613, 65037, 65281]"

lemma sorted_extensions:
  assumes "mset (filter P ts) = mset ys" and "sorted ys"
  shows "sort (filter P ts) = ys"
  using assms by (metis properties_for_sort)

lemma view_types:
  fixes sha sni x ek e
  defines "ts \<equiv> map fst (ch_extensions sha yandex sni x ek e)"
  shows "sort (filter (\<lambda>t. \<not> is_grease t \<and> t \<noteq> 0x0000 \<and> t \<noteq> 0x0010) ts) = middle_sorted"
    and "length (no_grease ts) = 16"
proof -
  let ?g = "derive_grease e"
  have ts: "mset ts = {#g_ext1 ?g, g_ext2 ?g#} + mset middle_exts"
    unfolding ts_def mset_extensions by (simp add: comp_def)
  have P: "mset (filter P ts) = mset (filter P middle_exts)" if "\<And>t. is_grease t \<Longrightarrow> \<not> P t" for P
    using that derive_grease_grease [of e] by (simp add: ts)
  have "mset (filter (\<lambda>t. \<not> is_grease t \<and> t \<noteq> 0x0000 \<and> t \<noteq> 0x0010) middle_exts) = mset middle_sorted"
    by code_simp
  moreover have "sorted middle_sorted"
    by code_simp
  ultimately show "sort (filter (\<lambda>t. \<not> is_grease t \<and> t \<noteq> 0x0000 \<and> t \<noteq> 0x0010) ts) = middle_sorted"
    using P [of "\<lambda>t. \<not> is_grease t \<and> t \<noteq> 0x0000 \<and> t \<noteq> 0x0010"] by (intro sorted_extensions) simp_all
  have "mset (no_grease ts) = mset (no_grease middle_exts)"
    unfolding no_grease_def by (rule P) simp
  then have "length (no_grease ts) = length (no_grease middle_exts)"
    by (rule mset_eq_length)
  then show "length (no_grease ts) = 16"
    using middle_not_grease by (simp add: no_grease_def list_all_iff middle_exts_def)
qed

text \<open>The raw JA4 of the browser that the profile imitates.\<close>

definition yandex_ja4_r :: string where
  "yandex_ja4_r = ''t13d1516h2_002f,0035,009c,009d,1301,1302,1303,c013,c014,c02b,c02c,c02f,c030,cca8,cca9_0005,000a,000b,000d,0012,0017,001b,0023,002b,002d,0033,44cd,fe0d,ff01_0403,0804,0401,0503,0805,0501,0806,0601''"

definition yandex_ja4 :: "(bytes \<Rightarrow> bytes) \<Rightarrow> (bytes \<Rightarrow> string) \<Rightarrow> string" where
  "yandex_ja4 sha hex =
     ''t13d1516h2_'' @
     hex (take 6 (sha (as_bytes ''002f,0035,009c,009d,1301,1302,1303,c013,c014,c02b,c02c,c02f,c030,cca8,cca9''))) @ ''_'' @
     hex (take 6 (sha (as_bytes ''0005,000a,000b,000d,0012,0017,001b,0023,002b,002d,0033,44cd,fe0d,ff01_0403,0804,0401,0503,0805,0501,0806,0601'')))"

definition yandex_suites_sorted :: "u16 list" where
  "yandex_suites_sorted = [47, 53, 156, 157, 4865, 4866, 4867, 49171, 49172, 49195, 49196, 49199, 49200, 52392, 52393]"

lemma sorted_suites: "sort (no_grease (pr_cipher_suites yandex)) = yandex_suites_sorted"
proof (rule properties_for_sort)
  show "mset yandex_suites_sorted = mset (no_grease (pr_cipher_suites yandex))"
    by code_simp
qed (code_simp)

lemma hex_digits:
  "hex_digit 0 = CHR ''0''" "hex_digit 1 = CHR ''1''" "hex_digit 2 = CHR ''2''" "hex_digit 3 = CHR ''3''" 
  "hex_digit 4 = CHR ''4''" "hex_digit 5 = CHR ''5''" "hex_digit 6 = CHR ''6''" "hex_digit 7 = CHR ''7''" 
  "hex_digit 8 = CHR ''8''" "hex_digit 9 = CHR ''9''" "hex_digit 10 = CHR ''a''" "hex_digit 11 = CHR ''b''" 
  "hex_digit 12 = CHR ''c''" "hex_digit 13 = CHR ''d''" "hex_digit 14 = CHR ''e''" "hex_digit 15 = CHR ''f''" "hex_digit (Suc 0) = CHR ''1''"
  by code_simp+

lemma replicate_few: "replicate 2 c = [c, c]" "replicate 3 c = [c, c, c]"
  by (simp_all add: numeral_2_eq_2 numeral_3_eq_3)

lemma ja4_lists:
  "join '','' (map hex4 yandex_suites_sorted) =
   ''002f,0035,009c,009d,1301,1302,1303,c013,c014,c02b,c02c,c02f,c030,cca8,cca9''"
  "join '','' (map hex4 middle_sorted) =
   ''0005,000a,000b,000d,0012,0017,001b,0023,002b,002d,0033,44cd,fe0d,ff01''"
  "join '','' (map hex4 (pr_sig_algs yandex)) = ''0403,0804,0401,0503,0805,0501,0806,0601''"
  by (simp_all add: yandex_suites_sorted_def middle_sorted_def yandex_def hex4_def show_hex.simps hex_digits
      pad_left_def replicate_few)

lemma ja4_counts:
  "no_grease (pr_sig_algs yandex) = pr_sig_algs yandex"
  "length (no_grease (pr_cipher_suites yandex)) = 15"
  "no_grease (pr_supported_versions yandex) = [0x0304, 0x0303]"
  "pr_alpn yandex = [''h2'', ''http/1.1'']"
  "byte_as_char (CHR ''h'') = ''h''" "byte_as_char (CHR ''2'') = ''2''"
  by code_simp+

lemma decimal_digits: "char_of (49 :: nat) = CHR ''1''" "char_of (53 :: nat) = CHR ''5''"
  "char_of (54 :: nat) = CHR ''6''"
  by code_simp+

lemma ja4_pads: "pad_left 2 (show_nat 15) = ''15''" "pad_left 2 (show_nat 16) = ''16''"
  by (simp_all add: pad_left_def show_nat.simps decimal_digits)

lemma view_of_built:
  assumes "length x = 32" and "length ek = 1184" and "length rnd = 32" and "length sni \<le> 60000"
  obtains v where "parse_view (build_client_hello_with_entropy sha yandex sni x ek rnd e) = Ok v"
    and "v_extensions v = map fst (ch_extensions sha yandex sni x ek e)"
    and "ja4_r v = yandex_ja4_r"
    and "\<And>sha' hex. ja4 sha' hex v = yandex_ja4 sha' hex"
proof -
  let ?g = "derive_grease e" and ?xs = "ch_extensions sha yandex sni x ek e"
  let ?v0 = "\<lparr>v_legacy_version = 0x0303, v_cipher_suites = sub_grease (g_cipher ?g) (pr_cipher_suites yandex),
     v_extensions = [], v_supported_groups = [], v_ec_point_formats = [], v_sig_algs = [], v_alpn = [],
     v_has_sni = False, v_supported_versions = []\<rparr>"
  define v where "v = fold (view_add ?g) (map fst ?xs) ?v0"
  have once: "count (mset (map fst ?xs)) t = 1" if "t \<in> set middle_exts" for t
    using types_extensions [OF that] .
  have pick: "picked t ys (map fst ?xs) = ys" if "t \<in> set middle_exts" for t ys
    using picked_once [OF once [OF that]] .
  have mid: "0x000d \<in> set middle_exts" "0x0010 \<in> set middle_exts" "0x002b \<in> set middle_exts"
    "0x0000 \<in> set middle_exts"
    by (simp_all add: middle_exts_def)
  have sni0: "0x0000 \<in> set (map fst ?xs)"
    using once [OF mid(4)] count_eq_zero_iff [of "mset (map fst ?xs)" "0x0000"] by force
  have fields: "v_extensions v = map fst ?xs" "v_has_sni v" "v_sig_algs v = pr_sig_algs yandex"
    "v_alpn v = pr_alpn yandex" "v_supported_versions v = sub_grease (g_version ?g) (pr_supported_versions yandex)"
    "v_cipher_suites v = sub_grease (g_cipher ?g) (pr_cipher_suites yandex)"
    unfolding v_def using sni0 pick mid by (simp_all add: fold_view_add)
  have nc: "no_grease (v_cipher_suites v) = no_grease (pr_cipher_suites yandex)"
    and nv: "no_grease (v_supported_versions v) = [0x0304, 0x0303]"
    using no_grease_sub [OF derive_grease_grease(1)] no_grease_sub [OF derive_grease_grease(5)] ja4_counts(3)
    by (simp_all add: fields)
  have ne: "length (no_grease (v_extensions v)) = 16"
    using view_types(2) by (simp add: fields)
  have parts: "ja4_ciphers_str v = ''002f,0035,009c,009d,1301,1302,1303,c013,c014,c02b,c02c,c02f,c030,cca8,cca9''"
    "ja4_exts_str v = ''0005,000a,000b,000d,0012,0017,001b,0023,002b,002d,0033,44cd,fe0d,ff01''"
    "ja4_sigalgs_str v = ''0403,0804,0401,0503,0805,0501,0806,0601''"
    unfolding ja4_ciphers_str_def ja4_exts_str_def ja4_sigalgs_str_def nc fields(1,3) view_types(1)
      sorted_suites ja4_counts(1)
    by (rule ja4_lists)+
  have a: "ja4_part_a v = ''t13d1516h2''"
    using nc nv ne fields(2,4) ja4_pads ja4_counts(2,4,5,6)
    by (simp add: ja4_part_a_def ja4_version_def ja4_alpn_tag_def)
  have "parse_view (build_client_hello_with_entropy sha yandex sni x ek rnd e) = Ok v"
    unfolding build_as_message v_def
    using parse_view_message [OF assms(3,3) yandex_suites body_sizes [OF assms(1,2,4)]
        length_extensions [OF assms(1,2,4)]] handle_all_views [OF view_ext_all]
    by simp
  moreover have "ja4_r v = yandex_ja4_r"
    unfolding ja4_r_def parts a by (simp add: yandex_ja4_r_def)
  moreover have "ja4 sha' hex v = yandex_ja4 sha' hex" for sha' hex
    unfolding ja4_def parts a by (simp add: yandex_ja4_def Let_def)
  ultimately show ?thesis
    using that fields(1) by blast
qed

section \<open>Properties\<close>

text \<open>
  C13. The server reads out of a ClientHello exactly what the client put into it: whatever the entropy
  that shuffles the extensions, the field extraction of the server returns the random, the session id,
  both key shares and the server name that the builder was given.
\<close>

theorem client_hello_roundtrip:
  assumes "length x25519_pub = 32" and "length mlkem_ek = 1184" and "length rnd = 32"
    and "length sni \<le> 60000" and "utf8_valid (as_bytes sni)"
  shows "extract_client_hello_fields (build_client_hello sha yandex sni x25519_pub mlkem_ek rnd entropy) =
    Ok \<lparr>ch_random = rnd, ch_session_id = rnd, key_share_x25519 = Some x25519_pub,
        key_share_mlkem = Some \<lparr>mk_ek = mlkem_ek, mk_x25519 = x25519_pub\<rparr>, ch_sni = Some sni\<rparr>"
  unfolding build_client_hello_def build_as_message
  by (rule extract_built) (use assms yandex_suites in auto)

theorem client_hello_roundtrip_witness:
  "\<exists>f. extract_client_hello_fields (build_client_hello (\<lambda>b. replicate 32 1) yandex ''example.org''
        (replicate 32 7) (replicate 1184 9) (replicate 32 3) (replicate 32 5)) = Ok f \<and>
       ch_sni f = Some ''example.org''"
proof -
  have "utf8_valid (as_bytes ''example.org'')"
    by code_simp
  then show ?thesis
    using client_hello_roundtrip [of "replicate 32 7" "replicate 1184 9" "replicate 32 3" "''example.org''"
        "\<lambda>b. replicate 32 1" "replicate 32 5"] by simp
qed

text \<open>
  C14. The fingerprint does not give the client away: every ClientHello of the default profile parses,
  carries one GREASE extension first and a different one last, has the extensions of the profile in
  between in some order, and has the raw JA4 of the imitated browser, whatever the entropy. So has its
  hashed JA4, for any hash and hex encoding.
\<close>

theorem ja4_independent_of_entropy:
  assumes "length x25519_pub = 32" and "length mlkem_ek = 1184" and "length rnd = 32" and "length sni \<le> 60000"
  shows "\<exists>v ts a b. parse_view (build_client_hello_with_entropy sha yandex sni x25519_pub mlkem_ek rnd entropy) = Ok v \<and>
    v_extensions v = a # ts @ [b] \<and> is_grease a \<and> is_grease b \<and> a \<noteq> b \<and> mset ts = mset middle_exts \<and>
    ja4_r v = yandex_ja4_r \<and> (\<forall>sha' hex. ja4 sha' hex v = yandex_ja4 sha' hex)"
proof -
  obtain v where v: "parse_view (build_client_hello_with_entropy sha yandex sni x25519_pub mlkem_ek rnd entropy) = Ok v"
    "v_extensions v = map fst (ch_extensions sha yandex sni x25519_pub mlkem_ek entropy)" "ja4_r v = yandex_ja4_r"
    "\<And>sha' hex. ja4 sha' hex v = yandex_ja4 sha' hex"
    using view_of_built [OF assms] by metis
  let ?g = "derive_grease entropy"
  let ?ts = "map (\<lambda>i. middle_exts ! i) (chrome_ext_permutation sha entropy (length middle_exts))"
  have "v_extensions v = g_ext1 ?g # ?ts @ [g_ext2 ?g]"
    by (simp add: v(2) ch_extensions_def middle_yandex Let_def comp_def)
  moreover have "mset ?ts = mset middle_exts"
    using mset_map_permutation [of "\<lambda>t. t" middle_exts sha entropy] by simp
  ultimately show ?thesis
    using v(1,3,4) derive_grease_grease(3,4) derive_grease_distinct by blast
qed

theorem ja4_independent_of_entropy_witness:
  "\<exists>v. parse_view (build_client_hello_with_entropy (\<lambda>b. replicate 32 1) yandex ''example.org''
        (replicate 32 7) (replicate 1184 9) (replicate 32 3) (replicate 32 5)) = Ok v \<and> ja4_r v = yandex_ja4_r"
  using ja4_independent_of_entropy [of "replicate 32 7" "replicate 1184 9" "replicate 32 3" "''example.org''"
      "\<lambda>b. replicate 32 1" "replicate 32 5"] by auto

text \<open>
  C19. What the server-side parser returns has the shapes the rest of the code relies on, whatever the buffer:
  a 32-byte random, a session id of fewer than 256 bytes, a 32-byte X25519 share and, in a hybrid share,
  a 1184-byte encapsulation key with a 32-byte X25519 part.
\<close>

theorem client_hello_fields_wf:
  assumes "extract_client_hello_fields msg = Ok f"
  shows "length (ch_random f) = 32 \<and> length (ch_session_id f) < 256 \<and>
    (\<forall>x. key_share_x25519 f = Some x \<longrightarrow> length x = 32) \<and>
    (\<forall>m. key_share_mlkem f = Some m \<longrightarrow> length (mk_ek m) = 1184 \<and> length (mk_x25519 m) = 32)"
  using extract_wf [OF assms] by (simp add: fields_wf_def)

theorem client_hello_fields_wf_witness:
  "\<exists>msg f. extract_client_hello_fields msg = Ok f \<and> length (ch_random f) = 32"
proof -
  have "utf8_valid (as_bytes ''a.org'')"
    by code_simp
  then obtain msg f where "extract_client_hello_fields msg = Ok f"
    using extract_built [of "replicate 32 1" "replicate 1184 2" "replicate 32 3" "replicate 32 4" "''a.org''" "[]"]
    by auto
  then show ?thesis
    using client_hello_fields_wf by blast
qed

end
