(* ===== verification/NetGuard.thy ===== *)
theory NetGuard
  imports Prelude
begin

text \<open>
  The egress policy, \<open>crates/leshiy-reality/src/netguard.rs\<close>.

  An address is its octets. The classification predicates of \<open>std::net\<close> are written out from their
  documented ranges. The resolver (\<open>tokio::net::lookup_host\<close>) is an argument: what it returned for the
  target.

  The specification is a table of address blocks in CIDR form; \<open>egress_policy\<close> shows that the
  hand-written tests of \<open>check_ip\<close> decide exactly membership in the table.
\<close>

section \<open>Definitions\<close>

datatype ip_addr = V4 bytes | V6 bytes

fun ip_wf :: "ip_addr \<Rightarrow> bool" where
  "ip_wf (V4 o4) \<longleftrightarrow> length o4 = 4"
| "ip_wf (V6 o6) \<longleftrightarrow> length o6 = 16"

text \<open>\<open>std::net\<close>.\<close>

definition to_ipv4_mapped :: "bytes \<Rightarrow> bytes option" where
  "to_ipv4_mapped o6 =
     (if slice 0 12 o6 = replicate 10 0 @ [0xff, 0xff] then Some (slice 12 16 o6) else None)"

definition segment0 :: "bytes \<Rightarrow> u16" where
  "segment0 o6 = u16_from_be [o6 ! 0, o6 ! 1]"

definition v4_is_unspecified :: "bytes \<Rightarrow> bool" where
  "v4_is_unspecified o4 \<longleftrightarrow> o4 = [0, 0, 0, 0]"

definition v4_is_multicast :: "bytes \<Rightarrow> bool" where
  "v4_is_multicast o4 \<longleftrightarrow> 224 \<le> o4 ! 0 \<and> o4 ! 0 \<le> 239"

definition v4_is_link_local :: "bytes \<Rightarrow> bool" where
  "v4_is_link_local o4 \<longleftrightarrow> o4 ! 0 = 169 \<and> o4 ! 1 = 254"

definition v4_is_broadcast :: "bytes \<Rightarrow> bool" where
  "v4_is_broadcast o4 \<longleftrightarrow> o4 = [255, 255, 255, 255]"

definition v4_is_loopback :: "bytes \<Rightarrow> bool" where
  "v4_is_loopback o4 \<longleftrightarrow> o4 ! 0 = 127"

definition v4_is_private :: "bytes \<Rightarrow> bool" where
  "v4_is_private o4 \<longleftrightarrow>
     o4 ! 0 = 10 \<or> (o4 ! 0 = 172 \<and> 16 \<le> o4 ! 1 \<and> o4 ! 1 \<le> 31) \<or> (o4 ! 0 = 192 \<and> o4 ! 1 = 168)"

definition v6_is_unspecified :: "bytes \<Rightarrow> bool" where
  "v6_is_unspecified o6 \<longleftrightarrow> o6 = replicate 16 0"

definition v6_is_multicast :: "bytes \<Rightarrow> bool" where
  "v6_is_multicast o6 \<longleftrightarrow> o6 ! 0 = 0xff"

definition v6_is_unicast_link_local :: "bytes \<Rightarrow> bool" where
  "v6_is_unicast_link_local o6 \<longleftrightarrow> segment0 o6 AND 0xffc0 = 0xfe80"

definition v6_is_loopback :: "bytes \<Rightarrow> bool" where
  "v6_is_loopback o6 \<longleftrightarrow> o6 = replicate 15 0 @ [1]"

text \<open>The module.\<close>

fun canonical_ip :: "ip_addr \<Rightarrow> ip_addr" where
  "canonical_ip (V6 o6) = (case to_ipv4_mapped o6 of Some v4 \<Rightarrow> V4 v4 | None \<Rightarrow> V6 o6)"
| "canonical_ip (V4 o4) = V4 o4"

definition forbidden_ip :: "ip_addr \<Rightarrow> bool \<Rightarrow> bool" where
  "forbidden_ip addr allow_private =
     (case addr of
        V4 o4 \<Rightarrow>
          let is_cgnat = (o4 ! 0 = 100 \<and> o4 ! 1 AND 0xc0 = 64);
              is_special = ((o4 ! 0 = 192 \<and> o4 ! 1 = 0 \<and> o4 ! 2 = 0) \<or>
                            (o4 ! 0 = 198 \<and> (o4 ! 1 = 18 \<or> o4 ! 1 = 19)) \<or> 240 \<le> o4 ! 0)
          in v4_is_unspecified o4 \<or> v4_is_multicast o4 \<or> v4_is_link_local o4 \<or> v4_is_broadcast o4 \<or>
             is_special \<or>
             (\<not> allow_private \<and> (v4_is_loopback o4 \<or> v4_is_private o4 \<or> is_cgnat))
      | V6 o6 \<Rightarrow>
          let is_unique_local = (segment0 o6 AND 0xfe00 = 0xfc00)
          in v6_is_unspecified o6 \<or> v6_is_multicast o6 \<or> v6_is_unicast_link_local o6 \<or>
             (\<not> allow_private \<and> (v6_is_loopback o6 \<or> is_unique_local)))"

datatype net_error = NetIo | NetMalformed string

definition check_ip :: "ip_addr \<Rightarrow> bool \<Rightarrow> net_error + unit" where
  "check_ip addr allow_private =
     (let addr = canonical_ip addr in
      if forbidden_ip addr allow_private then Err (NetMalformed ''forbidden target address'') else Ok ())"

definition check_ip_allowed :: "ip_addr \<Rightarrow> bool \<Rightarrow> net_error + unit" where
  "check_ip_allowed addr allow_private = check_ip addr allow_private"

type_synonym socket_addr = "ip_addr \<times> u16"

definition resolve_all_checked ::
    "(string \<Rightarrow> net_error + socket_addr list) \<Rightarrow> string \<Rightarrow> bool \<Rightarrow> net_error + socket_addr list" where
  "resolve_all_checked lookup_host target allow_private =
     try_bind (lookup_host target) (\<lambda>found.
     let addrs = filter (\<lambda>a. is_ok (check_ip (fst a) allow_private)) found in
     if addrs = [] then Err (NetMalformed (''no allowed address resolved for '' @ target)) else Ok addrs)"

section \<open>Address blocks\<close>

text \<open>\<open>in_block bits base len octets\<close>: the first \<open>len\<close> of the \<open>bits\<close> address bits are those of the base.\<close>

definition in_block :: "nat \<Rightarrow> bytes \<Rightarrow> nat \<Rightarrow> bytes \<Rightarrow> bool" where
  "in_block bits base len octets \<longleftrightarrow>
     be_value octets div 2 ^ (bits - len) = be_value base div 2 ^ (bits - len)"

definition v4_never :: "(bytes \<times> nat) list" where
  "v4_never = [([0, 0, 0, 0], 32), ([224, 0, 0, 0], 4), ([169, 254, 0, 0], 16), ([255, 255, 255, 255], 32),
     ([192, 0, 0, 0], 24), ([198, 18, 0, 0], 15), ([240, 0, 0, 0], 4)]"

definition v4_internal :: "(bytes \<times> nat) list" where
  "v4_internal = [([127, 0, 0, 0], 8), ([10, 0, 0, 0], 8), ([172, 16, 0, 0], 12), ([192, 168, 0, 0], 16),
     ([100, 64, 0, 0], 10)]"

definition v6_never :: "(bytes \<times> nat) list" where
  "v6_never = [(replicate 16 0, 128), (0xff # replicate 15 0, 8), ([0xfe, 0x80] @ replicate 14 0, 10)]"

definition v6_internal :: "(bytes \<times> nat) list" where
  "v6_internal = [(replicate 15 0 @ [1], 128), (0xfc # replicate 15 0, 7)]"

fun in_table :: "ip_addr \<Rightarrow> bool \<Rightarrow> bool" where
  "in_table (V4 o4) allow_private \<longleftrightarrow>
     (\<exists>(base, len) \<in> set (v4_never @ (if allow_private then [] else v4_internal)). in_block 32 base len o4)"
| "in_table (V6 o6) allow_private \<longleftrightarrow>
     (\<exists>(base, len) \<in> set (v6_never @ (if allow_private then [] else v6_internal)). in_block 128 base len o6)"

section \<open>Lemmas\<close>

lemma be_value_append: "be_value (xs @ ys) = be_value xs * 256 ^ length ys + be_value ys"
  by (induction ys rule: rev_induct) (simp_all add: be_value_def algebra_simps flip: append_assoc)

text \<open>The first octets of an address, and a part of the last of them.\<close>

lemma prefix_value:
  assumes "length o1 = n" and "k \<le> n" and "j \<le> 8"
  shows "be_value o1 div 2 ^ (8 * (n - k) + j) = be_value (take k o1) div 2 ^ j"
proof -
  have d: "length (drop k o1) = n - k"
    using assms by simp
  have "be_value o1 = be_value (take k o1) * 256 ^ (n - k) + be_value (drop k o1)"
    using be_value_append [of "take k o1" "drop k o1"] d by simp
  moreover have "be_value (drop k o1) < 256 ^ (n - k)"
    using be_value_less [of "drop k o1"] d by simp
  ultimately have "be_value o1 div 256 ^ (n - k) = be_value (take k o1)"
    by simp
  moreover have "(256 :: nat) ^ (n - k) = 2 ^ (8 * (n - k))"
    by (simp add: power_mult)
  ultimately show ?thesis
    by (simp add: power_add div_mult2_eq)
qed

lemma block_prefix:
  assumes "length o1 = n" and "length base = n" and "k \<le> n" and "j \<le> 8" and "len + j = 8 * k"
  shows "in_block (8 * n) base len o1 \<longleftrightarrow> be_value (take k o1) div 2 ^ j = be_value (take k base) div 2 ^ j"
proof -
  have "8 * n - len = 8 * (n - k) + j"
    using assms by (simp add: algebra_simps)
  then show ?thesis
    using prefix_value [OF assms(1,3,4)] prefix_value [OF assms(2,3,4)] by (simp add: in_block_def)
qed

lemma radix:
  fixes x x' y y' m :: nat
  assumes "y < m" and "y' < m"
  shows "x * m + y = x' * m + y' \<longleftrightarrow> x = x' \<and> y = y'"
proof
  assume eq: "x * m + y = x' * m + y'"
  have "(x * m + y) div m = x" "(x' * m + y') div m = x'"
    using assms by simp_all
  then show "x = x' \<and> y = y'"
    using eq by auto
qed simp

lemma be_value_inj: "length xs = length ys \<Longrightarrow> be_value xs = be_value ys \<longleftrightarrow> xs = ys"
proof (induction xs arbitrary: ys rule: rev_induct)
  case (snoc x xs)
  then obtain y ys' where ys: "ys = ys' @ [y]" "length xs = length ys'"
    by (cases ys rule: rev_cases) auto
  have b: "unat x < 256" "unat y < 256"
    using unat_bound [of x] unat_bound [of y] by simp_all
  note radix [OF b, of "be_value xs" "be_value ys'"]
  moreover have "be_value (xs @ [x]) = be_value xs * 256 + unat x" "be_value (ys' @ [y]) = be_value ys' * 256 + unat y"
    by (simp_all add: be_value_append be_value_def)
  ultimately show ?case
    using snoc.IH [OF ys(2)] by (auto simp: ys word_unat_eq_iff)
qed simp

lemma block_whole:
  assumes "length o1 = n" and "length base = n" and "len = 8 * k" and "k \<le> n"
  shows "in_block (8 * n) base len o1 \<longleftrightarrow> take k o1 = take k base"
  using block_prefix [OF assms(1,2,4), of 0 len] assms by (simp add: be_value_inj)

lemma be_value_1: "be_value [a] = unat a"
  by (simp add: be_value_def)

lemma be_value_2: "be_value [a, b] = unat a * 256 + unat b"
  by (simp add: be_value_def)

text \<open>One prefix octet, or one octet and the top bits of the next.\<close>

lemma two_octets:
  fixes a b a' b' :: u8
  assumes "j \<le> 8"
  shows "(unat a * 256 + unat b) div 2 ^ j = (unat a' * 256 + unat b') div 2 ^ j \<longleftrightarrow>
    a = a' \<and> unat b div 2 ^ j = unat b' div 2 ^ j"
proof -
  have "(256 :: nat) = 2 ^ (8 - j) * 2 ^ j"
    using assms by (simp flip: power_add)
  then have d: "(x * 256 + y) div 2 ^ j = x * 2 ^ (8 - j) + y div 2 ^ j" for x y :: nat
  proof -
    have "(x * 2 ^ (8 - j)) * 2 ^ j + y = x * 256 + y"
      using \<open>256 = _\<close> by (simp add: mult.assoc)
    then show ?thesis
      by (metis add.commute div_mult_self3 power_not_zero zero_neq_numeral)
  qed
  have r: "unat y div 2 ^ j < 2 ^ (8 - j)" for y :: u8
    using unat_bound [of y] \<open>256 = 2 ^ (8 - j) * 2 ^ j\<close> by (simp add: less_mult_imp_div_less)
  show ?thesis
    unfolding d using radix [OF r r] by (simp add: word_unat_eq_iff)
qed

lemma and_top:
  fixes w v m :: "'a::len word"
  assumes "m = NOT (mask n)"
  shows "w AND m = v \<longleftrightarrow> v AND m = v \<and> unat w div 2 ^ n = unat v div 2 ^ n"
proof -
  have "w AND m = push_bit n (drop_bit n w)" for w :: "'a word"
    by (rule bit_word_eqI) (auto simp: assms bit_simps)
  moreover have "drop_bit n w = drop_bit n v \<longleftrightarrow> unat w div 2 ^ n = unat v div 2 ^ n"
    using unat_drop_bit_eq [of n w] unat_drop_bit_eq [of n v] unfolding word_unat_eq_iff
    by (simp only: drop_bit_eq_div [where ?'a = nat])
  moreover have "drop_bit n (push_bit n (drop_bit n w)) = drop_bit n w" for w :: "'a word"
    by (rule bit_word_eqI) (auto simp: bit_simps dest: bit_imp_le_length)
  ultimately show ?thesis
    by metis
qed

subsection \<open>The IPv4 table\<close>

lemma octet_tests:
  fixes b :: u8
  shows "unat b div 16 = 14 \<longleftrightarrow> 224 \<le> b \<and> b \<le> 239" "unat b div 16 = 15 \<longleftrightarrow> 240 \<le> b"
    "unat b div 2 = 9 \<longleftrightarrow> b = 18 \<or> b = 19" "unat b div 16 = 1 \<longleftrightarrow> 16 \<le> b \<and> b \<le> 31"
    "unat b div 64 = 1 \<longleftrightarrow> b AND 0xc0 = 64"
proof -
  have u: "unat b < 256"
    using unat_bound [of b] by simp
  show "unat b div 16 = 14 \<longleftrightarrow> 224 \<le> b \<and> b \<le> 239"
    unfolding word_le_nat_alt by simp arith
  show "unat b div 16 = 15 \<longleftrightarrow> 240 \<le> b"
    unfolding word_le_nat_alt using u by simp arith
  show "unat b div 2 = 9 \<longleftrightarrow> b = 18 \<or> b = 19"
    unfolding word_unat_eq_iff by simp arith
  show "unat b div 16 = 1 \<longleftrightarrow> 16 \<le> b \<and> b \<le> 31"
    unfolding word_le_nat_alt by simp arith
  have m: "(0xc0 :: u8) = NOT (mask 6)"
    by code_simp
  show "unat b div 64 = 1 \<longleftrightarrow> b AND 0xc0 = 64"
    using and_top [OF m, of b 64] by simp
qed

lemma v4_blocks:
  fixes a b c d :: u8
  defines "o4 \<equiv> [a, b, c, d]"
  shows "in_block 32 [224, 0, 0, 0] 4 o4 \<longleftrightarrow> v4_is_multicast o4"
    and "in_block 32 [240, 0, 0, 0] 4 o4 \<longleftrightarrow> 240 \<le> o4 ! 0"
    and "in_block 32 [198, 18, 0, 0] 15 o4 \<longleftrightarrow> o4 ! 0 = 198 \<and> (o4 ! 1 = 18 \<or> o4 ! 1 = 19)"
    and "in_block 32 [172, 16, 0, 0] 12 o4 \<longleftrightarrow> o4 ! 0 = 172 \<and> 16 \<le> o4 ! 1 \<and> o4 ! 1 \<le> 31"
    and "in_block 32 [100, 64, 0, 0] 10 o4 \<longleftrightarrow> o4 ! 0 = 100 \<and> o4 ! 1 AND 0xc0 = 64"
proof -
  have p: "in_block 32 base len o4 \<longleftrightarrow> be_value (take k o4) div 2 ^ j = be_value (take k base) div 2 ^ j"
    if "length base = 4" "k \<le> 4" "j \<le> 8" "len + j = 8 * k" for base len k j
    using block_prefix [of o4 4 base k j len] that by (simp add: o4_def)
  show "in_block 32 [224, 0, 0, 0] 4 o4 \<longleftrightarrow> v4_is_multicast o4"
    by (subst p [of _ 1 4]) (simp_all add: o4_def be_value_1 v4_is_multicast_def octet_tests del: power_Suc)
  show "in_block 32 [240, 0, 0, 0] 4 o4 \<longleftrightarrow> 240 \<le> o4 ! 0"
    by (subst p [of _ 1 4]) (simp_all add: o4_def be_value_1 octet_tests)
  show "in_block 32 [198, 18, 0, 0] 15 o4 \<longleftrightarrow> o4 ! 0 = 198 \<and> (o4 ! 1 = 18 \<or> o4 ! 1 = 19)"
    using two_octets [of 1 a b 198 18] octet_tests(3) [of b]
    by (subst p [of _ 2 1]) (simp_all add: o4_def be_value_2)
  show "in_block 32 [172, 16, 0, 0] 12 o4 \<longleftrightarrow> o4 ! 0 = 172 \<and> 16 \<le> o4 ! 1 \<and> o4 ! 1 \<le> 31"
    using two_octets [of 4 a b 172 16] octet_tests(4) [of b]
    by (subst p [of _ 2 4]) (simp_all add: o4_def be_value_2)
  show "in_block 32 [100, 64, 0, 0] 10 o4 \<longleftrightarrow> o4 ! 0 = 100 \<and> o4 ! 1 AND 0xc0 = 64"
    using two_octets [of 6 a b 100 64] octet_tests(5) [of b]
    by (subst p [of _ 2 6]) (simp_all add: o4_def be_value_2)
qed

lemma v4_whole_blocks:
  fixes a b c d :: u8
  defines "o4 \<equiv> [a, b, c, d]"
  shows "in_block 32 [0, 0, 0, 0] 32 o4 \<longleftrightarrow> v4_is_unspecified o4"
    and "in_block 32 [255, 255, 255, 255] 32 o4 \<longleftrightarrow> v4_is_broadcast o4"
    and "in_block 32 [192, 0, 0, 0] 24 o4 \<longleftrightarrow> o4 ! 0 = 192 \<and> o4 ! 1 = 0 \<and> o4 ! 2 = 0"
    and "in_block 32 [169, 254, 0, 0] 16 o4 \<longleftrightarrow> v4_is_link_local o4"
    and "in_block 32 [192, 168, 0, 0] 16 o4 \<longleftrightarrow> o4 ! 0 = 192 \<and> o4 ! 1 = 168"
    and "in_block 32 [127, 0, 0, 0] 8 o4 \<longleftrightarrow> v4_is_loopback o4"
    and "in_block 32 [10, 0, 0, 0] 8 o4 \<longleftrightarrow> o4 ! 0 = 10"
proof -
  have w: "in_block 32 base len o4 \<longleftrightarrow> take k o4 = take k base"
    if "length base = 4" "len = 8 * k" "k \<le> 4" for base len k
    using block_whole [of o4 4 base len k] that by (simp add: o4_def)
  show "in_block 32 [0, 0, 0, 0] 32 o4 \<longleftrightarrow> v4_is_unspecified o4"
    by (subst w [of _ _ 4]) (simp_all add: o4_def v4_is_unspecified_def)
  show "in_block 32 [255, 255, 255, 255] 32 o4 \<longleftrightarrow> v4_is_broadcast o4"
    by (subst w [of _ _ 4]) (simp_all add: o4_def v4_is_broadcast_def)
  show "in_block 32 [192, 0, 0, 0] 24 o4 \<longleftrightarrow> o4 ! 0 = 192 \<and> o4 ! 1 = 0 \<and> o4 ! 2 = 0"
    by (subst w [of _ _ 3]) (simp_all add: o4_def)
  show "in_block 32 [169, 254, 0, 0] 16 o4 \<longleftrightarrow> v4_is_link_local o4"
    by (subst w [of _ _ 2]) (simp_all add: o4_def v4_is_link_local_def)
  show "in_block 32 [192, 168, 0, 0] 16 o4 \<longleftrightarrow> o4 ! 0 = 192 \<and> o4 ! 1 = 168"
    by (subst w [of _ _ 2]) (simp_all add: o4_def)
  show "in_block 32 [127, 0, 0, 0] 8 o4 \<longleftrightarrow> v4_is_loopback o4"
    by (subst w [of _ _ 1]) (simp_all add: o4_def v4_is_loopback_def)
  show "in_block 32 [10, 0, 0, 0] 8 o4 \<longleftrightarrow> o4 ! 0 = 10"
    by (subst w [of _ _ 1]) (simp_all add: o4_def)
qed

lemma v4_policy:
  assumes "length o4 = 4"
  shows "forbidden_ip (V4 o4) allow \<longleftrightarrow> in_table (V4 o4) allow"
proof -
  obtain a b c d where o4: "o4 = [a, b, c, d]"
    using assms by (auto simp: numeral_eq_Suc length_Suc_conv)
  show ?thesis
    by (cases allow)
      (auto simp: forbidden_ip_def v4_never_def v4_internal_def v4_is_private_def v4_blocks v4_whole_blocks o4
        simp del: nth_Cons_0)
qed

subsection \<open>The IPv6 table\<close>

lemma segment0_value: "unat (segment0 o6) = unat (o6 ! 0) * 256 + unat (o6 ! 1)"
proof -
  have "unat (o6 ! 0) * 256 + unat (o6 ! 1) < 65536"
    using unat_bound [of "o6 ! 0"] unat_bound [of "o6 ! 1"] by simp
  then show ?thesis
    by (simp add: segment0_def u16_from_be_def be_value_2 unat_of_nat del: of_nat_add of_nat_mult)
qed

lemma v6_blocks:
  assumes "length o6 = 16"
  shows "in_block 128 (replicate 16 0) 128 o6 \<longleftrightarrow> v6_is_unspecified o6"
    and "in_block 128 (replicate 15 0 @ [1]) 128 o6 \<longleftrightarrow> v6_is_loopback o6"
    and "in_block 128 (0xff # replicate 15 0) 8 o6 \<longleftrightarrow> v6_is_multicast o6"
    and "in_block 128 ([0xfe, 0x80] @ replicate 14 0) 10 o6 \<longleftrightarrow> v6_is_unicast_link_local o6"
    and "in_block 128 (0xfc # replicate 15 0) 7 o6 \<longleftrightarrow> segment0 o6 AND 0xfe00 = 0xfc00"
proof -
  have t: "take 1 o6 = [o6 ! 0]" "take 2 o6 = [o6 ! 0, o6 ! 1]"
    using assms by (auto simp: take_Suc_conv_app_nth numeral_2_eq_2)
  have w: "in_block 128 base len o6 \<longleftrightarrow> take k o6 = take k base"
    if "length base = 16" "len = 8 * k" "k \<le> 16" for base len k
    using block_whole [of o6 16 base len k] that assms by simp
  have p: "in_block 128 base len o6 \<longleftrightarrow> be_value (take k o6) div 2 ^ j = be_value (take k base) div 2 ^ j"
    if "length base = 16" "k \<le> 16" "j \<le> 8" "len + j = 8 * k" for base len k j
    using block_prefix [of o6 16 base k j len] that assms by simp
  show "in_block 128 (replicate 16 0) 128 o6 \<longleftrightarrow> v6_is_unspecified o6"
    by (subst w [of _ _ 16]) (simp_all add: v6_is_unspecified_def assms)
  show "in_block 128 (replicate 15 0 @ [1]) 128 o6 \<longleftrightarrow> v6_is_loopback o6"
    by (subst w [of _ _ 16]) (simp_all add: v6_is_loopback_def assms)
  show "in_block 128 (0xff # replicate 15 0) 8 o6 \<longleftrightarrow> v6_is_multicast o6"
    by (subst w [of _ _ 1]) (simp_all only: t, simp_all add: v6_is_multicast_def)
  have m: "(0xffc0 :: u16) = NOT (mask 6)" "(0xfe00 :: u16) = NOT (mask 9)"
    by code_simp+
  have "in_block 128 ([0xfe, 0x80] @ replicate 14 0) 10 o6 \<longleftrightarrow>
      (unat (o6 ! 0) * 256 + unat (o6 ! 1)) div 64 = 1018"
    by (subst p [of _ 2 6]) (simp_all only: t be_value_2, simp_all add: be_value_2)
  then show "in_block 128 ([0xfe, 0x80] @ replicate 14 0) 10 o6 \<longleftrightarrow> v6_is_unicast_link_local o6"
    using and_top [OF m(1), of "segment0 o6" "0xfe80"] by (simp add: v6_is_unicast_link_local_def segment0_value)
  have "in_block 128 (0xfc # replicate 15 0) 7 o6 \<longleftrightarrow> unat (o6 ! 0) div 2 = 126"
    by (subst p [of _ 1 1]) (simp_all only: t be_value_1, simp_all add: be_value_1)
  moreover have "(unat (o6 ! 0) * 256 + unat (o6 ! 1)) div 512 = unat (o6 ! 0) div 2"
    using unat_bound [of "o6 ! 1"] div_mult2_eq [of "unat (o6 ! 0) * 256 + unat (o6 ! 1)" 256 2] by simp
  ultimately show "in_block 128 (0xfc # replicate 15 0) 7 o6 \<longleftrightarrow> segment0 o6 AND 0xfe00 = 0xfc00"
    using and_top [OF m(2), of "segment0 o6" "0xfc00"] by (simp add: segment0_value)
qed

lemma v6_policy:
  assumes "length o6 = 16"
  shows "forbidden_ip (V6 o6) allow \<longleftrightarrow> in_table (V6 o6) allow"
  using v6_blocks [OF assms]
  by (cases allow) (simp_all add: forbidden_ip_def v6_never_def v6_internal_def)

lemma canonical_wf: "ip_wf a \<Longrightarrow> ip_wf (canonical_ip a)"
  by (cases a) (auto simp: to_ipv4_mapped_def slice_def)

lemma canonical_idem: "canonical_ip (canonical_ip a) = canonical_ip a"
  by (cases a) (auto simp: to_ipv4_mapped_def split: if_splits)

section \<open>Properties\<close>

text \<open>
  C18. The egress policy is the table: for every address, \<open>check_ip\<close> refuses exactly the addresses whose
  canonical form lies in a block that is never a relay target, or, unless private egress is allowed, in an
  internal block. An IPv4-mapped IPv6 address gets the verdict of the IPv4 address it carries.
\<close>

theorem egress_policy:
  assumes "ip_wf a"
  shows "check_ip a allow = (if in_table (canonical_ip a) allow
            then Err (NetMalformed ''forbidden target address'') else Ok ()) \<and>
    (\<forall>o4. length o4 = 4 \<longrightarrow> check_ip (V6 (replicate 10 0 @ [0xff, 0xff] @ o4)) allow = check_ip (V4 o4) allow)"
proof -
  have "forbidden_ip (canonical_ip a) allow \<longleftrightarrow> in_table (canonical_ip a) allow"
    using canonical_wf [OF assms] v4_policy v6_policy by (cases "canonical_ip a") auto
  moreover have "canonical_ip (V6 (replicate 10 0 @ [0xff, 0xff] @ o4)) = V4 o4" if "length o4 = 4" for o4
    using that by (simp add: to_ipv4_mapped_def slice_def)
  ultimately show ?thesis
    by (simp add: check_ip_def Let_def del: canonical_ip.simps(1))
qed

theorem egress_policy_witness:
  "check_ip (V6 (replicate 10 0 @ [0xff, 0xff] @ [169, 254, 169, 254])) True =
     Err (NetMalformed ''forbidden target address'')"
proof -
  have "check_ip (V4 [169, 254, 169, 254]) True = Err (NetMalformed ''forbidden target address'')"
    using egress_policy [of "V4 [169, 254, 169, 254]" True] v4_whole_blocks(4) [of 169 254 169 254]
    by (simp add: v4_never_def v4_is_link_local_def)
  then show ?thesis
    using egress_policy [of "V4 [169, 254, 169, 254]" True] by simp
qed

text \<open>
  Only checked addresses are dialled: a resolution succeeds exactly when the resolver gave some
  allowed address, and then returns the allowed ones, all of them, in the resolver's order.
\<close>

theorem resolve_all_checked_ok:
  "resolve_all_checked lookup target allow =
     (case lookup target of
        Inl e \<Rightarrow> Inl e
      | Inr found \<Rightarrow>
          if list_all (\<lambda>a. forbidden_ip (canonical_ip (fst a)) allow) found
          then Inl (NetMalformed (''no allowed address resolved for '' @ target))
          else Inr (filter (\<lambda>a. \<not> forbidden_ip (canonical_ip (fst a)) allow) found))"
proof -
  have "is_ok (check_ip x allow) \<longleftrightarrow> \<not> forbidden_ip (canonical_ip x) allow" for x
    by (simp add: check_ip_def is_ok_def Let_def)
  then show ?thesis
    by (auto simp: resolve_all_checked_def try_bind_def list_all_iff filter_empty_conv Let_def split: sum.split)
qed

end
