(* ===== verification/Admission.thy ===== *)
theory Admission
  imports NetGuard "HOL-Library.AList" "HOL-Library.Multiset"
begin

text \<open>
  Admission of connections before authentication: \<open>crates/leshiy-reality/src/connlimit.rs\<close> and
  \<open>acceptloop.rs\<close>.

  The limiter's shared state is the record \<open>conn_inner\<close>; a guard is the bucket it holds a slot of, and
  dropping it is \<open>drop_guard\<close>. The counters are \<open>usize\<close>: they are bounded by the caps, so they are natural
  numbers here; the one subtraction that would wrap (\<open>*c -= 1\<close> at zero) is the panic \<open>None\<close>.

  Times of the back-off are nanoseconds.
\<close>

section \<open>Definitions\<close>

subsection \<open>The connection limiter\<close>

fun bucket :: "ip_addr \<Rightarrow> ip_addr" where
  "bucket (V4 o4) = V4 o4"
| "bucket (V6 o6) = V6 (take 8 o6 @ replicate (length o6 - 8) 0)"

record conn_inner =
  cl_total :: nat
  cl_per_ip :: "(ip_addr \<times> nat) list"

record conn_limiter =
  max_total :: nat
  max_per_ip :: nat
  cl_inner :: conn_inner

definition limiter_new :: "nat \<Rightarrow> nat \<Rightarrow> conn_limiter" where
  "limiter_new mt mi = \<lparr>max_total = mt, max_per_ip = mi, cl_inner = \<lparr>cl_total = 0, cl_per_ip = []\<rparr>\<rparr>"

definition ip_count :: "conn_limiter \<Rightarrow> ip_addr \<Rightarrow> nat" where
  "ip_count l key = (case map_of (cl_per_ip (cl_inner l)) key of None \<Rightarrow> 0 | Some c \<Rightarrow> c)"

definition try_acquire :: "ip_addr \<Rightarrow> conn_limiter \<Rightarrow> ip_addr option \<times> conn_limiter" where
  "try_acquire ip l =
     (let key = bucket ip; g = cl_inner l in
      if max_total l \<le> cl_total g then (None, l)
      else let cur = ip_count l key in
        if max_per_ip l \<le> cur then (None, l)
        else (Some key, l\<lparr>cl_inner := \<lparr>cl_total = cl_total g + 1, cl_per_ip = AList.update key (cur + 1) (cl_per_ip g)\<rparr>\<rparr>))"

definition drop_guard :: "ip_addr \<Rightarrow> conn_limiter \<Rightarrow> conn_limiter option" where
  "drop_guard ip l =
     (let g = cl_inner l; total = cl_total g - 1 in
      case map_of (cl_per_ip g) ip of
        None \<Rightarrow> Some (l\<lparr>cl_inner := g\<lparr>cl_total := total\<rparr>\<rparr>)
      | Some 0 \<Rightarrow> None
      | Some (Suc c) \<Rightarrow>
          if c = 0 then Some (l\<lparr>cl_inner := \<lparr>cl_total = total, cl_per_ip = AList.delete ip (cl_per_ip g)\<rparr>\<rparr>)
          else Some (l\<lparr>cl_inner := \<lparr>cl_total = total, cl_per_ip = AList.update ip c (cl_per_ip g)\<rparr>\<rparr>))"

subsection \<open>The accept back-off\<close>

definition BASE_DELAY :: nat where "BASE_DELAY = 5 * 10 ^ 6"
definition MAX_DELAY :: nat where "MAX_DELAY = 10 ^ 9"
definition LOG_EVERY :: nat where "LOG_EVERY = 30 * 10 ^ 9"

record accept_failure =
  af_delay :: nat
  log_suppressed :: "u64 option"

record accept_backoff =
  consecutive :: u32
  last_logged :: "nat option"
  suppressed :: u64

definition backoff_new :: accept_backoff where
  "backoff_new = \<lparr>consecutive = 0, last_logged = None, suppressed = 0\<rparr>"

definition record_success :: "accept_backoff \<Rightarrow> accept_backoff" where
  "record_success b = \<lparr>consecutive = 0, last_logged = None, suppressed = 0\<rparr>"

definition backoff_delay :: "u32 \<Rightarrow> nat" where
  "backoff_delay c = min (BASE_DELAY * 2 ^ min (unat c) 20) MAX_DELAY"

definition record_failure :: "nat \<Rightarrow> accept_backoff \<Rightarrow> accept_failure \<times> accept_backoff" where
  "record_failure now b =
     (let delay = backoff_delay (consecutive b);
          b = b\<lparr>consecutive := sat_add32 (consecutive b) 1\<rparr>;
          due = (case last_logged b of None \<Rightarrow> True | Some t \<Rightarrow> LOG_EVERY \<le> now - t) in
      if due then
        (\<lparr>af_delay = delay, log_suppressed = Some (suppressed b)\<rparr>, b\<lparr>last_logged := Some now, suppressed := 0\<rparr>)
      else
        (\<lparr>af_delay = delay, log_suppressed = None\<rparr>, b\<lparr>suppressed := sat_add64 (suppressed b) 1\<rparr>))"

section \<open>The limiter counts its guards\<close>

text \<open>
  The live guards, as a multiset of buckets. \<open>lim_inv l gs\<close>: the counters are those of \<open>gs\<close>, every stored
  count is positive, and the caps hold.
\<close>

definition lim_inv :: "conn_limiter \<Rightarrow> ip_addr multiset \<Rightarrow> bool" where
  "lim_inv l gs \<longleftrightarrow> cl_total (cl_inner l) = size gs \<and>
     (\<forall>ip. map_of (cl_per_ip (cl_inner l)) ip = (if count gs ip = 0 then None else Some (count gs ip))) \<and>
     size gs \<le> max_total l \<and> (\<forall>ip. count gs ip \<le> max_per_ip l)"

lemma lim_inv_new: "lim_inv (limiter_new mt mi) {#}"
  by (simp add: lim_inv_def limiter_new_def)

lemma ip_count_inv: "lim_inv l gs \<Longrightarrow> ip_count l k = count gs k"
  by (simp add: lim_inv_def ip_count_def)

lemma try_acquire_inv:
  assumes "lim_inv l gs"
  shows "try_acquire ip l = (None, l) \<and> (size gs = max_total l \<or> count gs (bucket ip) = max_per_ip l) \<or>
    (\<exists>l'. try_acquire ip l = (Some (bucket ip), l') \<and> lim_inv l' (add_mset (bucket ip) gs) \<and>
          max_total l' = max_total l \<and> max_per_ip l' = max_per_ip l \<and>
          size gs < max_total l \<and> count gs (bucket ip) < max_per_ip l)"
proof -
  have t: "cl_total (cl_inner l) = size gs" "size gs \<le> max_total l" "count gs (bucket ip) \<le> max_per_ip l"
    using assms by (simp_all add: lim_inv_def)
  consider "size gs = max_total l" | "size gs < max_total l" "count gs (bucket ip) = max_per_ip l"
    | "size gs < max_total l" "count gs (bucket ip) < max_per_ip l"
    using t by linarith
  then show ?thesis
  proof cases
    case 3
    then show ?thesis
      using assms t by (auto simp: try_acquire_def ip_count_inv [OF assms] Let_def lim_inv_def update_conv' count_eq_zero_iff)
  qed (simp_all add: try_acquire_def ip_count_inv [OF assms] Let_def t)
qed

lemma drop_guard_inv:
  assumes "lim_inv l gs" and "ip \<in># gs"
  shows "\<exists>l'. drop_guard ip l = Some l' \<and> lim_inv l' (gs - {#ip#}) \<and> max_total l' = max_total l \<and>
    max_per_ip l' = max_per_ip l"
proof -
  obtain c where c: "count gs ip = Suc c"
    using assms(2) by (metis Suc_pred count_greater_zero_iff)
  have m: "map_of (cl_per_ip (cl_inner l)) ip = Some (Suc c)" and t: "cl_total (cl_inner l) = size gs"
    using assms(1) c by (simp_all add: lim_inv_def)
  have s: "size (gs - {#ip#}) = size gs - 1"
    using assms(2) by (simp add: size_Diff_singleton)
  have le: "size gs - 1 \<le> max_total l" "\<And>j. count gs j - n \<le> max_per_ip l" for n
    using assms(1) by (auto simp: lim_inv_def intro: le_trans diff_le_self)
  show ?thesis
  proof (cases "c = 0")
    case True
    then show ?thesis
      using assms(1) c m t s le by (auto simp: drop_guard_def Let_def lim_inv_def delete_conv' count_eq_zero_iff)
  next
    case False
    then show ?thesis
      using assms(1) c m t s le by (auto simp: drop_guard_def Let_def lim_inv_def update_conv' count_eq_zero_iff)
  qed
qed

text \<open>
  The accept loop: an arrival is admitted under its canonical address and its guard joins the live ones;
  a connection that ends drops its guard.
\<close>

datatype conn_event = Arrive ip_addr | Finish nat

fun conn_step :: "conn_event \<Rightarrow> conn_limiter \<times> ip_addr list \<Rightarrow> (conn_limiter \<times> ip_addr list) option" where
  "conn_step (Arrive ip) (l, gs) =
     (case try_acquire (canonical_ip ip) l of (Some g, l') \<Rightarrow> Some (l', gs @ [g]) | (None, l') \<Rightarrow> Some (l', gs))"
| "conn_step (Finish i) (l, gs) =
     (if i < length gs then map_option (\<lambda>l'. (l', take i gs @ drop (Suc i) gs)) (drop_guard (gs ! i) l)
      else Some (l, gs))"

primrec conn_run :: "conn_event list \<Rightarrow> conn_limiter \<times> ip_addr list \<Rightarrow> (conn_limiter \<times> ip_addr list) option" where
  "conn_run [] s = Some s"
| "conn_run (e # es) s = Option.bind (conn_step e s) (conn_run es)"

lemma mset_remove_nth: "i < length xs \<Longrightarrow> mset (take i xs @ drop (Suc i) xs) = mset xs - {#xs ! i#}"
  by (subst (3) id_take_nth_drop [of i xs]) simp_all

lemma conn_step_inv:
  assumes "lim_inv l (mset gs)"
  shows "\<exists>l' gs'. conn_step e (l, gs) = Some (l', gs') \<and> lim_inv l' (mset gs') \<and>
    max_total l' = max_total l \<and> max_per_ip l' = max_per_ip l"
proof (cases e)
  case (Arrive ip)
  then show ?thesis
    using try_acquire_inv [OF assms, of "canonical_ip ip"] assms by auto
next
  case (Finish i)
  then show ?thesis
    using drop_guard_inv [OF assms, of "gs ! i"] assms
    by (cases "i < length gs") (auto simp: mset_remove_nth simp del: mset_append)
qed

lemma conn_run_inv:
  assumes "lim_inv l (mset gs)"
  shows "\<exists>l' gs'. conn_run es (l, gs) = Some (l', gs') \<and> lim_inv l' (mset gs') \<and>
    max_total l' = max_total l \<and> max_per_ip l' = max_per_ip l"
  using assms
proof (induction es arbitrary: l gs)
  case (Cons e es)
  obtain l1 gs1 where "conn_step e (l, gs) = Some (l1, gs1)" "lim_inv l1 (mset gs1)"
    "max_total l1 = max_total l" "max_per_ip l1 = max_per_ip l"
    using conn_step_inv [OF Cons.prems] by blast
  then show ?case
    using Cons.IH [of l1 gs1] by simp
qed simp

section \<open>The back-off\<close>

fun run_failures :: "nat list \<Rightarrow> accept_backoff \<Rightarrow> accept_failure list \<times> accept_backoff" where
  "run_failures [] b = ([], b)"
| "run_failures (now # ts) b =
     (let (f, b') = record_failure now b; (fs, b'') = run_failures ts b' in (f # fs, b''))"

text \<open>The times of the failures that were logged, and how many failures the log lines account for.\<close>

definition logged_times :: "nat list \<Rightarrow> accept_failure list \<Rightarrow> nat list" where
  "logged_times ts fs = map fst (filter (\<lambda>(t, f). log_suppressed f \<noteq> None) (zip ts fs))"

definition accounted :: "accept_failure list \<Rightarrow> nat" where
  "accounted fs = sum_list (map (\<lambda>f. case log_suppressed f of None \<Rightarrow> 0 | Some n \<Rightarrow> Suc (unat n)) fs)"

lemma sat_add32_1: "unat (sat_add32 c 1) = min (Suc (unat c)) (2 ^ 32 - 1)"
  using unat_bound [of c] by (auto simp: sat_add32_def unat_word_ariths)

lemma backoff_delay_sat: "unat c = min n (2 ^ 32 - 1) \<Longrightarrow> backoff_delay c = min (BASE_DELAY * 2 ^ min n 20) MAX_DELAY"
proof -
  assume "unat c = min n (2 ^ 32 - 1)"
  then have "min (unat c) 20 = min n 20"
    by (simp add: min.assoc)
  then show ?thesis
    by (simp only: backoff_delay_def)
qed

lemma run_failures_length: "length (fst (run_failures ts b)) = length ts"
  by (induction ts arbitrary: b) (simp_all add: Let_def split_beta)

lemma run_delays:
  assumes "unat (consecutive b) = min n (2 ^ 32 - 1)" and "i < length ts"
  shows "af_delay (fst (run_failures ts b) ! i) = min (BASE_DELAY * 2 ^ min (n + i) 20) MAX_DELAY"
  using assms
proof (induction ts arbitrary: b n i)
  case (Cons t ts)
  have d: "af_delay (fst (record_failure t b)) = min (BASE_DELAY * 2 ^ min n 20) MAX_DELAY"
    using backoff_delay_sat [OF Cons.prems(1)] by (simp add: record_failure_def Let_def)
  have c: "unat (consecutive (snd (record_failure t b))) = min (Suc n) (2 ^ 32 - 1)"
    using Cons.prems(1) by (simp add: record_failure_def Let_def sat_add32_1 min_def)
  show ?case
    using Cons.IH [OF c] Cons.prems(2) d by (cases i) (simp_all add: Let_def split_beta)
qed simp

lemma run_log_gaps:
  "successively (\<lambda>a b. LOG_EVERY \<le> b - a)
     ((case last_logged b of None \<Rightarrow> [] | Some t \<Rightarrow> [t]) @ logged_times ts (fst (run_failures ts b)))"
proof (induction ts arbitrary: b)
  case (Cons t ts)
  from Cons.IH [of "snd (record_failure t b)"] show ?case
    by (auto simp: record_failure_def Let_def split_beta logged_times_def split: option.splits if_splits)
qed (simp add: logged_times_def split: option.split)

lemma run_accounted:
  assumes "unat (suppressed b) + length ts < 2 ^ 64"
  shows "accounted (fst (run_failures ts b)) + unat (suppressed (snd (run_failures ts b))) =
    unat (suppressed b) + length ts"
  using assms
proof (induction ts arbitrary: b)
  case (Cons t ts)
  have s: "unat (sat_add64 (suppressed b) 1) = Suc (unat (suppressed b))"
    using Cons.prems by (simp add: sat_add64_def unat_word_ariths)
  have "unat (suppressed (snd (record_failure t b))) + length ts < 2 ^ 64"
    using Cons.prems s by (auto simp: record_failure_def Let_def)
  from Cons.IH [OF this] show ?case
    using s by (auto simp: record_failure_def Let_def split_beta accounted_def)
qed (simp add: accounted_def)

section \<open>Properties\<close>

text \<open>
  Admission counts live connections: from a new limiter, after any arrivals and endings, nothing has
  panicked, the total and the per-source counts are exactly those of the guards still alive, neither
  exceeds its cap, and the counts of sources without a live connection are gone. An arrival is refused
  only when one of the two caps is reached for its source.
\<close>

theorem limiter_counts_guards:
  "\<exists>l gs. conn_run es (limiter_new mt mi, []) = Some (l, gs) \<and>
     cl_total (cl_inner l) = length gs \<and> length gs \<le> mt \<and>
     (\<forall>ip. map_of (cl_per_ip (cl_inner l)) ip = (if ip \<in> set gs then Some (count_list gs ip) else None)) \<and>
     (\<forall>ip. count_list gs ip \<le> mi) \<and>
     (\<forall>ip. fst (try_acquire ip l) = None \<longleftrightarrow> length gs = mt \<or> count_list gs (bucket ip) = mi)"
proof -
  obtain l gs where run: "conn_run es (limiter_new mt mi, []) = Some (l, gs)" and inv: "lim_inv l (mset gs)"
    and caps: "max_total l = mt" "max_per_ip l = mi"
    using conn_run_inv [of "limiter_new mt mi" "[]" es] lim_inv_new [of mt mi] by (auto simp: limiter_new_def)
  have c: "count_list gs ip = count (mset gs) ip" for ip
    by (simp add: count_mset)
  have "fst (try_acquire ip l) = None \<longleftrightarrow> length gs = mt \<or> count_list gs (bucket ip) = mi" for ip
    using try_acquire_inv [OF inv, of ip] caps by (auto simp: c)
  then show ?thesis
    using run inv caps by (auto simp: lim_inv_def c [symmetric] count_list_0_iff)
qed

theorem limiter_counts_guards_witness:
  "fst (try_acquire (V4 [1, 2, 3, 4]) (limiter_new 1 1)) \<noteq> None"
  using limiter_counts_guards [of "[]" 1 1] by simp

text \<open>
  Sources that are one allocation count as one: IPv6 addresses that share their first 64 bits are in
  the same bucket, different IPv4 addresses never are, and an IPv4-mapped peer has the bucket of its IPv4
  address.
\<close>

theorem bucket_of_source:
  assumes "length a = 16" and "length b = 16"
  shows "(bucket (V6 a) = bucket (V6 b) \<longleftrightarrow> take 8 a = take 8 b) \<and>
    (bucket (V4 c) = bucket (V4 d) \<longleftrightarrow> c = d) \<and>
    (length c = 4 \<longrightarrow> bucket (canonical_ip (V6 (replicate 10 0 @ [0xff, 0xff] @ c))) = bucket (V4 c))"
  using assms by (auto simp: to_ipv4_mapped_def slice_def)

theorem bucket_of_source_witness:
  "bucket (V6 (replicate 15 1 @ [2])) = bucket (V6 (replicate 15 1 @ [3]))"
proof -
  have "take 8 (replicate 15 1 @ [2 :: u8]) = take 8 (replicate 15 1 @ [3])"
    by simp
  then show ?thesis
    using bucket_of_source [of "replicate 15 1 @ [2]" "replicate 15 1 @ [3]" "[]" "[]"] by (simp only: length_append) simp
qed

text \<open>
  A failing listener neither spins nor floods the log: in a run of failures the \<open>i\<close>-th delay is 5 ms
  doubled \<open>i\<close> times and capped at one second; the first failure is logged, logged failures are at least
  30 seconds apart, and the log lines with their suppressed counts account for every failure but those
  suppressed since the last line. A success starts afresh.
\<close>

theorem backoff_bounds:
  fixes ts :: "nat list"
  assumes "length ts < 2 ^ 64"
  defines "fs \<equiv> fst (run_failures ts backoff_new)" and "b \<equiv> snd (run_failures ts backoff_new)"
  shows "(\<forall>i < length ts. af_delay (fs ! i) = min (5000000 * 2 ^ min i 20) 1000000000) \<and>
    (ts \<noteq> [] \<longrightarrow> log_suppressed (hd fs) = Some 0) \<and>
    successively (\<lambda>x y. x + 30000000000 \<le> y) (logged_times ts fs) \<and>
    accounted fs + unat (suppressed b) = length ts \<and>
    record_success b = backoff_new"
proof -
  have "successively (\<lambda>x y. LOG_EVERY \<le> y - x) (logged_times ts fs)"
    using run_log_gaps [of backoff_new ts] by (simp add: fs_def backoff_new_def)
  then have "successively (\<lambda>x y. x + 30000000000 \<le> y) (logged_times ts fs)"
    by (rule successively_mono) (simp add: LOG_EVERY_def)
  moreover have "ts \<noteq> [] \<longrightarrow> log_suppressed (hd fs) = Some 0"
    by (cases ts) (simp_all add: fs_def backoff_new_def record_failure_def Let_def split_beta)
  moreover have "af_delay (fs ! i) = min (5000000 * 2 ^ min i 20) 1000000000" if "i < length ts" for i
    using run_delays [of backoff_new 0 i ts] that by (simp add: fs_def backoff_new_def BASE_DELAY_def MAX_DELAY_def)
  moreover have "accounted fs + unat (suppressed b) = length ts"
    using run_accounted [of backoff_new ts] assms(1) by (simp add: fs_def b_def backoff_new_def)
  ultimately show ?thesis
    by (simp add: record_success_def backoff_new_def)
qed

theorem backoff_bounds_witness:
  "accounted (fst (run_failures [7, 8, 9] backoff_new)) + unat (suppressed (snd (run_failures [7, 8, 9] backoff_new))) = 3"
  using backoff_bounds [of "[7, 8, 9]"] by simp

end
