(* ===== verification/KeySchedule.thy ===== *)
theory KeySchedule
  imports TlsRecord
begin

text \<open>
  The TLS 1.3 key schedule: \<open>crates/leshiy-tls/src/tls13/kdf.rs\<close> and \<open>tls13/schedule.rs\<close>.

  HKDF and HMAC are fields of \<open>crypto\<close>. The two \<open>expect\<close> calls of \<open>hkdf_expand_label\<close> panic on a
  pseudo-random key shorter than the hash and on an output beyond 255 hash lengths: there the result
  is \<open>None\<close>, and every function above it passes \<open>None\<close> on.
\<close>

section \<open>Definitions\<close>

definition hash_alg_len :: "hash_alg \<Rightarrow> nat" where
  "hash_alg_len h = (case h of SHA256 \<Rightarrow> 32 | SHA384 \<Rightarrow> 48)"

text \<open>Output sizes of the hash, HMAC and HKDF functions.\<close>

definition hkdf_sizes :: "crypto \<Rightarrow> bool" where
  "hkdf_sizes cr \<longleftrightarrow>
     (\<forall>h d. length (cr_hash cr h d) = hash_alg_len h) \<and>
     (\<forall>h k d. length (cr_hmac cr h k d) = hash_alg_len h) \<and>
     (\<forall>h salt ikm. length (cr_extract cr h salt ikm) = hash_alg_len h) \<and>
     (\<forall>h prk info n. length (cr_expand cr h prk info n) = n)"

definition hkdf_extract :: "crypto \<Rightarrow> cipher_suite \<Rightarrow> bytes \<Rightarrow> bytes \<Rightarrow> bytes" where
  "hkdf_extract cr suite salt ikm =
     (case suite of
        Aes256GcmSha384 \<Rightarrow> cr_extract cr SHA384 salt ikm
      | _ \<Rightarrow> cr_extract cr SHA256 salt ikm)"

definition hkdf_label :: "string \<Rightarrow> bytes \<Rightarrow> nat \<Rightarrow> bytes" where
  "hkdf_label label ctx len =
     (let full_label = as_bytes (''tls13 '' @ label) in
      u16_to_be (of_nat len) @ [of_nat (length full_label)] @ full_label @
      [of_nat (length ctx)] @ ctx)"

definition hkdf_expand_label ::
    "crypto \<Rightarrow> cipher_suite \<Rightarrow> bytes \<Rightarrow> string \<Rightarrow> bytes \<Rightarrow> nat \<Rightarrow> bytes option" where
  "hkdf_expand_label cr suite secret label ctx len =
     (if length secret < hash_len suite then None
      else if 255 * hash_len suite < len then None
      else Some (case suite of
             Aes256GcmSha384 \<Rightarrow> cr_expand cr SHA384 secret (hkdf_label label ctx len) len
           | _ \<Rightarrow> cr_expand cr SHA256 secret (hkdf_label label ctx len) len))"

definition derive_secret :: "crypto \<Rightarrow> cipher_suite \<Rightarrow> bytes \<Rightarrow> string \<Rightarrow> bytes \<Rightarrow> bytes option" where
  "derive_secret cr suite secret label th = hkdf_expand_label cr suite secret label th (hash_len suite)"

definition zeros :: "cipher_suite \<Rightarrow> bytes" where
  "zeros suite = replicate (hash_len suite) 0"

definition early_secret :: "crypto \<Rightarrow> cipher_suite \<Rightarrow> bytes" where
  "early_secret cr suite = hkdf_extract cr suite [] (zeros suite)"

definition handshake_secret :: "crypto \<Rightarrow> cipher_suite \<Rightarrow> bytes \<Rightarrow> bytes \<Rightarrow> bytes option" where
  "handshake_secret cr suite early ecdhe =
     (let empty_hash = suite_hash cr suite [] in
      Option.bind (hkdf_expand_label cr suite early ''derived'' empty_hash (hash_len suite))
        (\<lambda>derived. Some (hkdf_extract cr suite derived ecdhe)))"

definition master_secret :: "crypto \<Rightarrow> cipher_suite \<Rightarrow> bytes \<Rightarrow> bytes option" where
  "master_secret cr suite handshake =
     (let empty_hash = suite_hash cr suite [] in
      Option.bind (hkdf_expand_label cr suite handshake ''derived'' empty_hash (hash_len suite))
        (\<lambda>derived. Some (hkdf_extract cr suite derived (zeros suite))))"

definition client_hs_traffic :: "crypto \<Rightarrow> cipher_suite \<Rightarrow> bytes \<Rightarrow> bytes \<Rightarrow> bytes option" where
  "client_hs_traffic cr suite hs th = derive_secret cr suite hs ''c hs traffic'' th"

definition server_hs_traffic :: "crypto \<Rightarrow> cipher_suite \<Rightarrow> bytes \<Rightarrow> bytes \<Rightarrow> bytes option" where
  "server_hs_traffic cr suite hs th = derive_secret cr suite hs ''s hs traffic'' th"

definition client_ap_traffic :: "crypto \<Rightarrow> cipher_suite \<Rightarrow> bytes \<Rightarrow> bytes \<Rightarrow> bytes option" where
  "client_ap_traffic cr suite master th = derive_secret cr suite master ''c ap traffic'' th"

definition server_ap_traffic :: "crypto \<Rightarrow> cipher_suite \<Rightarrow> bytes \<Rightarrow> bytes \<Rightarrow> bytes option" where
  "server_ap_traffic cr suite master th = derive_secret cr suite master ''s ap traffic'' th"

definition traffic_key :: "crypto \<Rightarrow> cipher_suite \<Rightarrow> bytes \<Rightarrow> (bytes \<times> bytes) option" where
  "traffic_key cr suite secret =
     Option.bind (hkdf_expand_label cr suite secret ''key'' [] (key_len suite)) (\<lambda>key.
     Option.bind (hkdf_expand_label cr suite secret ''iv'' [] 12) (\<lambda>iv.
     Some (key, iv)))"

definition finished_verify_data :: "crypto \<Rightarrow> cipher_suite \<Rightarrow> bytes \<Rightarrow> bytes \<Rightarrow> bytes option" where
  "finished_verify_data cr suite base_key th =
     Option.bind (hkdf_expand_label cr suite base_key ''finished'' [] (hash_len suite)) (\<lambda>fk.
     Some (case suite of
        Aes256GcmSha384 \<Rightarrow> cr_hmac cr SHA384 fk th
      | _ \<Rightarrow> cr_hmac cr SHA256 fk th))"

section \<open>The schedule never panics\<close>

lemma hash_len_alg: "hash_len s = hash_alg_len (suite_hash_alg s)"
  by (cases s) (simp_all add: hash_len_def hash_alg_len_def suite_hash_alg_def)

lemma hash_len_bounds: "32 \<le> hash_len s" "hash_len s \<le> 48"
  by (cases s; simp add: hash_len_def)+

lemma length_suite_hash: "hkdf_sizes cr \<Longrightarrow> length (suite_hash cr s d) = hash_len s"
  by (simp add: hkdf_sizes_def suite_hash_def hash_len_alg)

lemma length_hkdf_extract: "hkdf_sizes cr \<Longrightarrow> length (hkdf_extract cr s salt ikm) = hash_len s"
  by (cases s) (simp_all add: hkdf_sizes_def hkdf_extract_def hash_len_def hash_alg_len_def)

lemma hkdf_expand_label_total:
  assumes "hkdf_sizes cr" and "hash_len s \<le> length secret" and "n \<le> 255 * hash_len s"
  obtains k where "hkdf_expand_label cr s secret label ctx n = Some k" and "length k = n"
  using assms by (cases s) (auto simp: hkdf_expand_label_def hkdf_sizes_def)

lemma derive_secret_total:
  assumes "hkdf_sizes cr" and "hash_len s \<le> length secret"
  obtains k where "derive_secret cr s secret label th = Some k" and "length k = hash_len s"
  by (rule hkdf_expand_label_total [OF assms, of "hash_len s" label th])
    (use that in \<open>auto simp: derive_secret_def\<close>)

lemma handshake_secret_total:
  assumes "hkdf_sizes cr" and "hash_len s \<le> length early"
  obtains hs where "handshake_secret cr s early ecdhe = Some hs" and "length hs = hash_len s"
  by (rule derive_secret_total [OF assms, of "''derived''" "suite_hash cr s []"])
    (auto intro: that simp: handshake_secret_def derive_secret_def length_hkdf_extract [OF assms(1)])

lemma master_secret_total:
  assumes "hkdf_sizes cr" and "hash_len s \<le> length hs"
  obtains ms where "master_secret cr s hs = Some ms" and "length ms = hash_len s"
  by (rule derive_secret_total [OF assms, of "''derived''" "suite_hash cr s []"])
    (auto intro: that simp: master_secret_def derive_secret_def length_hkdf_extract [OF assms(1)])

lemma traffic_key_total:
  assumes "hkdf_sizes cr" and "hash_len s \<le> length secret"
  obtains key iv where "traffic_key cr s secret = Some (key, iv)" and "length key = key_len s"
    and "length iv = 12"
proof -
  have "key_len s \<le> 255 * hash_len s" "12 \<le> 255 * hash_len s"
    using hash_len_bounds(1) [of s] by (cases s; simp add: key_len_def hash_len_def)+
  then obtain k i where "hkdf_expand_label cr s secret ''key'' [] (key_len s) = Some k" "length k = key_len s"
    "hkdf_expand_label cr s secret ''iv'' [] 12 = Some i" "length i = 12"
    using hkdf_expand_label_total [OF assms] by metis
  then show ?thesis
    by (intro that [of k i]) (simp_all add: traffic_key_def)
qed

lemma finished_verify_data_total:
  assumes "hkdf_sizes cr" and "hash_len s \<le> length base"
  obtains vd where "finished_verify_data cr s base th = Some vd" and "length vd = hash_len s"
proof -
  obtain fk where "derive_secret cr s base ''finished'' [] = Some fk"
    using derive_secret_total [OF assms] by blast
  then show ?thesis
    using that assms(1) unfolding finished_verify_data_def derive_secret_def
    by (cases s) (auto simp: hkdf_sizes_def hash_len_def hash_alg_len_def)
qed

text \<open>
  The whole tree, as both ends of a handshake compute it from the shared secret and the two
  transcript hashes.
\<close>

record hs_keys =
  k_hs :: bytes
  k_server_hs :: bytes
  k_client_hs :: bytes
  k_server_hs_key :: "bytes \<times> bytes"
  k_client_hs_key :: "bytes \<times> bytes"

definition handshake_keys :: "crypto \<Rightarrow> cipher_suite \<Rightarrow> bytes \<Rightarrow> bytes \<Rightarrow> hs_keys option" where
  "handshake_keys cr suite shared th_chsh =
     Option.bind (handshake_secret cr suite (early_secret cr suite) shared) (\<lambda>hs.
     Option.bind (server_hs_traffic cr suite hs th_chsh) (\<lambda>s_hs.
     Option.bind (client_hs_traffic cr suite hs th_chsh) (\<lambda>c_hs.
     Option.bind (traffic_key cr suite s_hs) (\<lambda>sk.
     Option.bind (traffic_key cr suite c_hs) (\<lambda>ck.
     Some \<lparr>k_hs = hs, k_server_hs = s_hs, k_client_hs = c_hs, k_server_hs_key = sk, k_client_hs_key = ck\<rparr>)))))"

definition application_keys ::
    "crypto \<Rightarrow> cipher_suite \<Rightarrow> bytes \<Rightarrow> bytes \<Rightarrow> ((bytes \<times> bytes) \<times> (bytes \<times> bytes)) option" where
  "application_keys cr suite hs th_sfin =
     Option.bind (master_secret cr suite hs) (\<lambda>master.
     Option.bind (client_ap_traffic cr suite master th_sfin) (\<lambda>c_ap.
     Option.bind (server_ap_traffic cr suite master th_sfin) (\<lambda>s_ap.
     Option.bind (traffic_key cr suite c_ap) (\<lambda>ck.
     Option.bind (traffic_key cr suite s_ap) (\<lambda>sk.
     Some (ck, sk))))))"

definition key_pair_ok :: "cipher_suite \<Rightarrow> bytes \<times> bytes \<Rightarrow> bool" where
  "key_pair_ok s k \<longleftrightarrow> length (fst k) = key_len s \<and> length (snd k) = 12"

lemma handshake_keys_total:
  assumes "hkdf_sizes cr"
  obtains k where "handshake_keys cr s shared th = Some k" and "length (k_hs k) = hash_len s"
    and "length (k_server_hs k) = hash_len s" and "length (k_client_hs k) = hash_len s"
    and "key_pair_ok s (k_server_hs_key k)" and "key_pair_ok s (k_client_hs_key k)"
proof -
  have e: "hash_len s \<le> length (early_secret cr s)"
    by (simp add: early_secret_def length_hkdf_extract [OF assms])
  obtain hs where hs: "handshake_secret cr s (early_secret cr s) shared = Some hs" "length hs = hash_len s"
    by (rule handshake_secret_total [OF assms e])
  have h: "hash_len s \<le> length hs"
    using hs by simp
  obtain sh where sh: "server_hs_traffic cr s hs th = Some sh" "length sh = hash_len s"
    unfolding server_hs_traffic_def by (rule derive_secret_total [OF assms h])
  obtain ch where ch: "client_hs_traffic cr s hs th = Some ch" "length ch = hash_len s"
    unfolding client_hs_traffic_def by (rule derive_secret_total [OF assms h])
  obtain a b where ab: "traffic_key cr s sh = Some (a, b)" "length a = key_len s" "length b = 12"
    by (rule traffic_key_total [OF assms, of s sh]) (use sh in simp_all)
  obtain c d where cd: "traffic_key cr s ch = Some (c, d)" "length c = key_len s" "length d = 12"
    by (rule traffic_key_total [OF assms, of s ch]) (use ch in simp_all)
  show ?thesis
    by (rule that [of "\<lparr>k_hs = hs, k_server_hs = sh, k_client_hs = ch, k_server_hs_key = (a, b),
          k_client_hs_key = (c, d)\<rparr>"]) (simp_all add: handshake_keys_def key_pair_ok_def hs sh ch ab cd)
qed

lemma application_keys_total:
  assumes "hkdf_sizes cr" and "hash_len s \<le> length hs"
  obtains ck sk where "application_keys cr s hs th = Some (ck, sk)" and "key_pair_ok s ck" and "key_pair_ok s sk"
proof -
  obtain ms where ms: "master_secret cr s hs = Some ms" "length ms = hash_len s"
    by (rule master_secret_total [OF assms])
  have m: "hash_len s \<le> length ms"
    using ms by simp
  obtain sh where sh: "server_ap_traffic cr s ms th = Some sh" "length sh = hash_len s"
    unfolding server_ap_traffic_def by (rule derive_secret_total [OF assms(1) m])
  obtain ch where ch: "client_ap_traffic cr s ms th = Some ch" "length ch = hash_len s"
    unfolding client_ap_traffic_def by (rule derive_secret_total [OF assms(1) m])
  obtain a b where ab: "traffic_key cr s sh = Some (a, b)" "length a = key_len s" "length b = 12"
    by (rule traffic_key_total [OF assms(1), of s sh]) (use sh in simp_all)
  obtain c d where cd: "traffic_key cr s ch = Some (c, d)" "length c = key_len s" "length d = 12"
    by (rule traffic_key_total [OF assms(1), of s ch]) (use ch in simp_all)
  show ?thesis
    by (rule that [of "(c, d)" "(a, b)"]) (simp_all add: application_keys_def key_pair_ok_def ms sh ch ab cd)
qed

text \<open>Primitives of the right sizes that can be evaluated.\<close>

definition plain_crypto :: crypto where
  "plain_crypto =
     \<lparr>cr_encrypt = (\<lambda>a k n d p. Some (p @ replicate 16 0)),
      cr_decrypt = (\<lambda>a k n d c. if 16 \<le> length c then Some (take (length c - 16) c) else None),
      cr_hash = (\<lambda>h d. replicate (hash_alg_len h) 0), cr_hmac = (\<lambda>h k d. replicate (hash_alg_len h) 0),
      cr_extract = (\<lambda>h s i. replicate (hash_alg_len h) 0), cr_expand = (\<lambda>h p i n. replicate n 0)\<rparr>"

lemma plain_crypto_ok: "aead_correct plain_crypto" "hkdf_sizes plain_crypto"
  by (simp_all add: aead_correct_def hkdf_sizes_def plain_crypto_def)

end
