(* ===== verification/Config.thy ===== *)
theory Config
  imports Prelude TlsRecord
begin

text \<open>
  Configuration of a REALITY deployment: \<open>crates/leshiy-reality/src/error.rs\<close> and \<open>config.rs\<close> with the
  \<open>leshiy://\<close> URI a server operator hands to a client.

  The base64url and hexadecimal codecs are the crates \<open>base64\<close> and \<open>hex\<close>: a \<open>text_codec\<close> record of an
  encoder and a decoder. What the URI relies on, that decoding inverts encoding and that an encoding
  contains none of the URI's separators, is \<open>codec_ok\<close>. Sets of names and the per-name destinations are
  lists, read by membership and by key. A \<open>Duration\<close> of the configuration is its whole seconds.
\<close>

section \<open>Definitions\<close>

datatype reality_error = RIo | RTls tls_error | RMalformed string

record quic_endpoint =
  q_addr :: string
  q_sni :: string
  q_cert_sha256 :: "bytes option"

record server_auth_config =
  static_secret :: bytes
  server_names :: "string list"
  short_ids :: "bytes list"
  max_time_diff :: u64
  cfg_dest :: string
  dest_by_sni :: "(string \<times> string) list"
  cfg_mtproxy :: "bytes option"

record client_auth_config =
  server_public :: bytes
  ca_short_id :: bytes
  ca_sni :: string

definition short_id_allowed :: "server_auth_config \<Rightarrow> bytes \<Rightarrow> bool" where
  "short_id_allowed cfg i \<longleftrightarrow> i \<in> set (short_ids cfg)"

definition sni_allowed :: "server_auth_config \<Rightarrow> string \<Rightarrow> bool" where
  "sni_allowed cfg sni \<longleftrightarrow> sni \<in> set (server_names cfg)"

definition dest_for :: "server_auth_config \<Rightarrow> string option \<Rightarrow> string" where
  "dest_for cfg sni =
     (case Option.bind sni (map_of (dest_by_sni cfg)) of Some d \<Rightarrow> d | None \<Rightarrow> cfg_dest cfg)"

record text_codec =
  tc_encode :: "bytes \<Rightarrow> string"
  tc_decode :: "string \<Rightarrow> bytes option"

definition format_reality_uri_full ::
    "text_codec \<Rightarrow> text_codec \<Rightarrow> bytes \<Rightarrow> string \<Rightarrow> string \<Rightarrow> bytes \<Rightarrow> quic_endpoint option \<Rightarrow> string" where
  "format_reality_uri_full b64 hex pk host_port sni sid quic =
     ''leshiy://'' @ tc_encode b64 pk @ ''@'' @ host_port @ ''?sni='' @ sni @ ''&sid='' @ tc_encode hex sid @
     (case quic of
        None \<Rightarrow> []
      | Some q \<Rightarrow> ''&quic='' @ q_addr q @ ''&qsni='' @ q_sni q @
          (case q_cert_sha256 q of None \<Rightarrow> [] | Some c \<Rightarrow> ''&qcert='' @ tc_encode hex c))"

definition format_reality_uri :: "text_codec \<Rightarrow> text_codec \<Rightarrow> bytes \<Rightarrow> string \<Rightarrow> string \<Rightarrow> bytes \<Rightarrow> string" where
  "format_reality_uri b64 hex pk host_port sni sid = format_reality_uri_full b64 hex pk host_port sni sid None"

record reality_uri =
  server_addr :: string
  uri_client :: client_auth_config
  uri_quic :: "quic_endpoint option"

text \<open>\<open>str::split_once\<close> and \<open>str::split\<close> on a character.\<close>

fun split_once :: "'a \<Rightarrow> 'a list \<Rightarrow> ('a list \<times> 'a list) option" where
  "split_once d [] = None"
| "split_once d (c # s) =
     (if c = d then Some ([], s) else map_option (\<lambda>(a, b). (c # a, b)) (split_once d s))"

fun split_on :: "'a \<Rightarrow> 'a list \<Rightarrow> 'a list list" where
  "split_on d [] = [[]]"
| "split_on d (c # s) =
     (if c = d then [] # split_on d s
      else (case split_on d s of [] \<Rightarrow> [[c]] | w # ws \<Rightarrow> (c # w) # ws))"

text \<open>\<open>str::rsplit_once\<close> and \<open>str::parse::<u16>\<close>.\<close>

definition rsplit_once :: "'a \<Rightarrow> 'a list \<Rightarrow> ('a list \<times> 'a list) option" where
  "rsplit_once d s = map_option (\<lambda>(a, b). (rev b, rev a)) (split_once d (rev s))"

definition is_digit :: "char \<Rightarrow> bool" where
  "is_digit c \<longleftrightarrow> 48 \<le> (of_char c :: nat) \<and> (of_char c :: nat) \<le> 57"

definition dec_value :: "string \<Rightarrow> nat" where
  "dec_value s = foldl (\<lambda>a c. a * 10 + (of_char c - 48)) 0 s"

definition parse_u16 :: "string \<Rightarrow> u16 option" where
  "parse_u16 s =
     (let d = (case s of c # r \<Rightarrow> if c = CHR ''+'' then r else s | [] \<Rightarrow> s) in
      if d = [] \<or> \<not> list_all is_digit d \<or> 65536 \<le> dec_value d then None else Some (of_nat (dec_value d)))"

text \<open>
  White space of \<open>char::is_whitespace\<close> in UTF-8, and \<open>str::trim\<close>, \<open>str::split_whitespace\<close> and \<open>str::lines\<close>.
\<close>

definition white_space :: "string list" where
  "white_space =
     map (\<lambda>n. [char_of n]) [9, 10, 11, 12, 13, 32 :: nat] @
     map (map (\<lambda>n. char_of (n :: nat)))
       ([[0xC2, 0x85], [0xC2, 0xA0], [0xE1, 0x9A, 0x80]] @ map (\<lambda>k. [0xE2, 0x80, 0x80 + k]) [0..<11] @
        [[0xE2, 0x80, 0xA8], [0xE2, 0x80, 0xA9], [0xE2, 0x80, 0xAF], [0xE2, 0x81, 0x9F], [0xE3, 0x80, 0x80]])"

definition space_len :: "string list \<Rightarrow> string \<Rightarrow> nat" where
  "space_len ws s = (case find (\<lambda>w. take (length w) s = w) ws of None \<Rightarrow> 0 | Some w \<Rightarrow> length w)"

function drop_spaces :: "string list \<Rightarrow> string \<Rightarrow> string" where
  "drop_spaces ws s = (if space_len ws s = 0 \<or> s = [] then s else drop_spaces ws (drop (space_len ws s) s))"
  by auto
termination
  by (relation "measure (\<lambda>(_, s). length s)") auto

declare drop_spaces.simps [simp del]

definition str_trim :: "string \<Rightarrow> string" where
  "str_trim s = rev (drop_spaces (map rev white_space) (rev (drop_spaces white_space s)))"

fun take_word :: "string \<Rightarrow> string" where
  "take_word [] = []"
| "take_word (c # s) = (if 0 < space_len white_space (c # s) then [] else c # take_word s)"

function split_whitespace :: "string \<Rightarrow> string list" where
  "split_whitespace s =
     (let r = drop_spaces white_space s; w = take_word r in
      if w = [] then [] else w # split_whitespace (drop (length w) r))"
  by auto
termination
proof (relation "measure length", simp)
  fix s r w assume rw: "r = drop_spaces white_space s" "w = take_word r" "w \<noteq> []"
  have "length (drop_spaces ws s) \<le> length s" for ws
    by (induction ws s rule: drop_spaces.induct) (subst drop_spaces.simps, auto)
  then have "length r \<le> length s"
    by (simp add: rw(1))
  moreover have "r \<noteq> []" "0 < length w"
    using rw(2,3) by auto
  ultimately show "(drop (length w) r, s) \<in> measure length"
    using rw(3) by (auto intro: le_less_trans [of _ "length r - length w"] simp: less_le_trans [OF diff_less])
qed

declare split_whitespace.simps [simp del]

definition strip_cr :: "string \<Rightarrow> string" where
  "strip_cr l = (if l \<noteq> [] \<and> last l = CHR 0x0D then butlast l else l)"

text \<open>A line that ends with a line feed loses a carriage return before it; an empty rest is no line.\<close>

definition str_lines :: "string \<Rightarrow> string list" where
  "str_lines s =
     (let ls = split_on (CHR 0x0A) s in map strip_cr (butlast ls) @ (if last ls = [] then [] else [last ls]))"

text \<open>The variables that the query loop assigns.\<close>

record uri_query =
  uq_sni :: "string option"
  uq_sid :: "string option"
  uq_quic :: "string option"
  uq_qsni :: "string option"
  uq_qcert :: "string option"

definition empty_query :: uri_query where
  "empty_query = \<lparr>uq_sni = None, uq_sid = None, uq_quic = None, uq_qsni = None, uq_qcert = None\<rparr>"

definition query_kv :: "string \<Rightarrow> uri_query \<Rightarrow> uri_query" where
  "query_kv kv q =
     (case split_once CHR ''='' kv of
        None \<Rightarrow> q
      | Some (k, v) \<Rightarrow>
          if k = ''sni'' then q\<lparr>uq_sni := Some v\<rparr>
          else if k = ''sid'' then q\<lparr>uq_sid := Some v\<rparr>
          else if k = ''quic'' then q\<lparr>uq_quic := Some v\<rparr>
          else if k = ''qsni'' then q\<lparr>uq_qsni := Some v\<rparr>
          else if k = ''qcert'' then q\<lparr>uq_qcert := Some v\<rparr>
          else q)"

definition sized :: "nat \<Rightarrow> string \<Rightarrow> bytes \<Rightarrow> reality_error + bytes" where
  "sized n msg v = (if length v = n then Ok v else Err (RMalformed msg))"

definition parse_quic :: "text_codec \<Rightarrow> uri_query \<Rightarrow> reality_error + quic_endpoint option" where
  "parse_quic hex q =
     (case uq_quic q of
        None \<Rightarrow> Ok None
      | Some addr \<Rightarrow>
          try_bind (ok_or (uq_qsni q) (RMalformed ''quic= requires qsni='')) (\<lambda>sni.
          try_bind
            (case uq_qcert q of
               None \<Rightarrow> Ok None
             | Some h \<Rightarrow>
                 try_bind (ok_or (tc_decode hex h) (RMalformed ''bad qcert hex'')) (\<lambda>bs.
                 try_bind (sized 32 ''qcert must be 32 bytes'' bs) (\<lambda>arr. Ok (Some arr))))
            (\<lambda>cert. Ok (Some \<lparr>q_addr = addr, q_sni = sni, q_cert_sha256 = cert\<rparr>))))"

definition parse_reality_uri :: "text_codec \<Rightarrow> text_codec \<Rightarrow> string \<Rightarrow> reality_error + reality_uri" where
  "parse_reality_uri b64 hex s =
     try_bind (ok_or (strip_prefix ''leshiy://'' s) (RMalformed ''missing leshiy:// scheme'')) (\<lambda>rest.
     try_bind (ok_or (split_once CHR ''@'' rest) (RMalformed ''missing @'')) (\<lambda>(auth, hostq).
     try_bind (ok_or (tc_decode b64 auth) (RMalformed ''bad base64 pubkey'')) (\<lambda>pk_vec.
     try_bind (sized 32 ''pubkey must be 32 bytes'' pk_vec) (\<lambda>pk.
     try_bind (ok_or (split_once CHR ''?'' hostq) (RMalformed ''missing query'')) (\<lambda>(host_port, query).
     let q = fold query_kv (split_on CHR ''&'' query) empty_query in
     try_bind (ok_or (uq_sni q) (RMalformed ''missing sni'')) (\<lambda>sni.
     try_bind (ok_or (uq_sid q) (RMalformed ''missing sid'')) (\<lambda>sid_hex.
     try_bind (ok_or (tc_decode hex sid_hex) (RMalformed ''bad sid hex'')) (\<lambda>sid_vec.
     try_bind (sized 8 ''sid must be 8 bytes'' sid_vec) (\<lambda>sid.
     try_bind (parse_quic hex q) (\<lambda>quic.
     Ok \<lparr>server_addr = host_port,
         uri_client = \<lparr>server_public = pk, ca_short_id = sid, ca_sni = sni\<rparr>,
         uri_quic = quic\<rparr>))))))))))"

section \<open>Lemmas\<close>

definition separators :: "char set" where
  "separators = {CHR ''@'', CHR ''?'', CHR ''&'', CHR ''=''}"

definition codec_ok :: "text_codec \<Rightarrow> bool" where
  "codec_ok tc \<longleftrightarrow> (\<forall>bs. tc_decode tc (tc_encode tc bs) = Some bs \<and> set (tc_encode tc bs) \<inter> separators = {})"

lemma split_once_append: "d \<notin> set a \<Longrightarrow> split_once d (a @ d # b) = Some (a, b)"
  by (induction a) auto

lemma split_on_Cons: "split_on d (w @ d # s) = w # split_on d s" if "d \<notin> set w"
  using that by (induction w) auto

lemma split_on_last: "d \<notin> set w \<Longrightarrow> split_on d w = [w]"
  by (induction w) auto

lemma query_kv_fields:
  "query_kv (''sni='' @ v) q = q\<lparr>uq_sni := Some v\<rparr>"
  "query_kv (''sid='' @ v) q = q\<lparr>uq_sid := Some v\<rparr>"
  "query_kv (''quic='' @ v) q = q\<lparr>uq_quic := Some v\<rparr>"
  "query_kv (''qsni='' @ v) q = q\<lparr>uq_qsni := Some v\<rparr>"
  "query_kv (''qcert='' @ v) q = q\<lparr>uq_qcert := Some v\<rparr>"
  by (simp_all add: query_kv_def)

lemmas query_kv_simps [simp] = query_kv_fields [simplified]

text \<open>Joining fields with the ampersand and splitting them again.\<close>

fun join_amp :: "string list \<Rightarrow> string" where
  "join_amp [] = []"
| "join_amp [w] = w"
| "join_amp (w # ws) = w @ ''&'' @ join_amp ws"

lemma split_join: "ws \<noteq> [] \<Longrightarrow> list_all (\<lambda>w. CHR ''&'' \<notin> set w) ws \<Longrightarrow> split_on CHR ''&'' (join_amp ws) = ws"
  by (induction ws rule: join_amp.induct) (simp_all add: split_on_last split_on_Cons)

definition query_fields :: "text_codec \<Rightarrow> string \<Rightarrow> bytes \<Rightarrow> quic_endpoint option \<Rightarrow> string list" where
  "query_fields hex sni sid quic =
     [''sni='' @ sni, ''sid='' @ tc_encode hex sid] @
     (case quic of
        None \<Rightarrow> []
      | Some q \<Rightarrow> [''quic='' @ q_addr q, ''qsni='' @ q_sni q] @
          (case q_cert_sha256 q of None \<Rightarrow> [] | Some c \<Rightarrow> [''qcert='' @ tc_encode hex c]))"

lemma format_fields:
  "format_reality_uri_full b64 hex pk hp sni sid quic =
   ''leshiy://'' @ tc_encode b64 pk @ CHR ''@'' # hp @ CHR ''?'' # join_amp (query_fields hex sni sid quic)"
  by (auto simp: format_reality_uri_full_def query_fields_def split: option.split)

definition quic_wf :: "quic_endpoint \<Rightarrow> bool" where
  "quic_wf q \<longleftrightarrow> CHR ''&'' \<notin> set (q_addr q) \<and> CHR ''&'' \<notin> set (q_sni q) \<and>
     (case q_cert_sha256 q of None \<Rightarrow> True | Some c \<Rightarrow> length c = 32)"

section \<open>Properties\<close>

text \<open>
  A client that is handed a server's URI reads the server's values out of it: parsing a formatted URI
  gives back the key, the address, the server name, the short id and the QUIC endpoint, whenever the
  address has no question mark and the names no ampersand.
\<close>

theorem reality_uri_roundtrip:
  assumes "codec_ok b64" and "codec_ok hex" and "length pk = 32" and "length sid = 8"
    and "CHR ''?'' \<notin> set hp" and "CHR ''&'' \<notin> set sni" and "pred_option quic_wf quic"
  shows "parse_reality_uri b64 hex (format_reality_uri_full b64 hex pk hp sni sid quic) =
    Ok \<lparr>server_addr = hp, uri_client = \<lparr>server_public = pk, ca_short_id = sid, ca_sni = sni\<rparr>, uri_quic = quic\<rparr>"
proof -
  have dec: "tc_decode b64 (tc_encode b64 bs) = Some bs" "tc_decode hex (tc_encode hex bs) = Some bs"
    and at: "CHR ''@'' \<notin> set (tc_encode b64 bs)" and amp: "CHR ''&'' \<notin> set (tc_encode hex bs)" for bs
    using assms(1,2) by (auto simp: codec_ok_def separators_def disjoint_iff)
  have "list_all (\<lambda>w. CHR ''&'' \<notin> set w) (query_fields hex sni sid quic)" "query_fields hex sni sid quic \<noteq> []"
    using assms(6,7) amp by (auto simp: query_fields_def quic_wf_def split: option.split)
  note split = split_join [OF this(2,1)]
  let ?q = "fold query_kv (query_fields hex sni sid quic) empty_query"
  have q: "uq_sni ?q = Some sni" "uq_sid ?q = Some (tc_encode hex sid)"
    by (simp_all add: query_fields_def empty_query_def split: option.split)
  have quic: "parse_quic hex ?q = Ok quic"
  proof (cases quic)
    case None
    then show ?thesis
      by (simp add: query_fields_def empty_query_def parse_quic_def)
  next
    case (Some e)
    then show ?thesis
      using assms(7) by (cases "q_cert_sha256 e")
        (simp_all add: query_fields_def empty_query_def parse_quic_def quic_wf_def dec sized_def)
  qed
  show ?thesis
    by (simp add: parse_reality_uri_def format_fields strip_prefix_def split_once_append at dec sized_def assms split q quic Let_def)
qed

text \<open>A codec that writes a byte as two letters.\<close>

definition letter :: "nat \<Rightarrow> char" where
  "letter n = char_of (97 + n)"

fun unletter :: "string \<Rightarrow> bytes" where
  "unletter (c # d # s) = of_nat ((of_char c - 97) * 16 + (of_char d - 97)) # unletter s"
| "unletter s = []"

definition letters :: text_codec where
  "letters = \<lparr>tc_encode = (\<lambda>bs. concat (map (\<lambda>b. [letter (unat b div 16), letter (unat b mod 16)]) bs)),
     tc_decode = (\<lambda>s. Some (unletter s))\<rparr>"

lemma of_char_letter: "n < 16 \<Longrightarrow> (of_char (letter n) :: nat) = 97 + n"
  by (simp add: letter_def of_char_of)

lemma letters_ok: "codec_ok letters"
proof -
  have half: "unat b div 16 < 16" "unat b mod 16 < 16" for b :: u8
    using unat_bound [of b] by auto
  have "unletter (tc_encode letters bs) = bs" for bs
    using half by (induction bs) (simp_all add: letters_def of_char_letter)
  moreover have "letter n \<notin> separators" if "n < 16" for n
  proof
    assume "letter n \<in> separators"
    then have "(of_char (letter n) :: nat) \<in> {64, 63, 38, 61}"
      by (auto simp: separators_def)
    then show False
      using of_char_letter [OF that] by auto
  qed
  ultimately show ?thesis
    using half by (auto simp: codec_ok_def letters_def)
qed

theorem reality_uri_roundtrip_witness:
  "\<exists>u. parse_reality_uri letters letters
        (format_reality_uri_full letters letters (replicate 32 7) ''h:443'' ''a.org'' (replicate 8 1) None) = Ok u \<and>
       server_addr u = ''h:443''"
  using reality_uri_roundtrip [OF letters_ok letters_ok, of "replicate 32 7" "replicate 8 1" "''h:443''" "''a.org''" None]
  by simp

end
