(* ===== verification/Session.thy ===== *)
theory Session
  imports Transport
begin

text \<open>
  The Noise transport: \<open>crates/leshiy-core/src/session.rs\<close> and \<open>handshake.rs\<close>.

  The Noise protocol itself is the snow crate. Its handshake and transport states are an abstract type,
  and the operations the code calls are the fields of a \<open>snow\<close> record. The wire is the bytes the
  peer sends until it closes; \<open>None\<close> for an expired deadline is an argument.
\<close>

section \<open>Definitions\<close>

definition NOISE_PARAMS :: string where
  "NOISE_PARAMS = ''Noise_IK_25519_ChaChaPoly_BLAKE2s''"

definition PROTOCOL_MAJOR :: u16 where
  "PROTOCOL_MAJOR = 1"

definition prologue :: "u16 \<Rightarrow> bytes" where
  "prologue major = as_bytes ''leshiy'' @ u16_to_be major @ as_bytes NOISE_PARAMS"

text \<open>
  Builder: suite string, local private key, remote public key, prologue. A call that writes takes the
  payload and the size of the buffer it may fill.
\<close>

record ('h, 't) snow =
  sn_initiator :: "string \<Rightarrow> bytes \<Rightarrow> bytes \<Rightarrow> bytes \<Rightarrow> core_error + 'h"
  sn_responder :: "string \<Rightarrow> bytes \<Rightarrow> bytes \<Rightarrow> core_error + 'h"
  sn_hs_write :: "'h \<Rightarrow> bytes \<Rightarrow> nat \<Rightarrow> core_error + (bytes \<times> 'h)"
  sn_hs_read :: "'h \<Rightarrow> bytes \<Rightarrow> nat \<Rightarrow> core_error + 'h"
  sn_transport :: "'h \<Rightarrow> core_error + 't"
  sn_write :: "'t \<Rightarrow> bytes \<Rightarrow> nat \<Rightarrow> (core_error + bytes) \<times> 't"
  sn_read :: "'t \<Rightarrow> bytes \<Rightarrow> nat \<Rightarrow> (core_error + bytes) \<times> 't"

definition build_initiator :: "('h, 't) snow \<Rightarrow> bytes \<Rightarrow> bytes \<Rightarrow> u16 \<Rightarrow> core_error + 'h" where
  "build_initiator sn server_pub client_priv major =
     sn_initiator sn NOISE_PARAMS client_priv server_pub (prologue major)"

definition build_responder :: "('h, 't) snow \<Rightarrow> bytes \<Rightarrow> u16 \<Rightarrow> core_error + 'h" where
  "build_responder sn server_priv major = sn_responder sn NOISE_PARAMS server_priv (prologue major)"

text \<open>Framing of a sealed message: two length bytes, then the ciphertext.\<close>

definition io_eof :: core_error where
  "io_eof = EIo ''early eof''"

definition read_sealed :: "bytes \<Rightarrow> core_error + (bytes \<times> bytes)" where
  "read_sealed bs =
     (if length bs < 2 then Err io_eof
      else let n = unat (u16_from_be (take 2 bs)); rest = drop 2 bs in
        if length rest < n then Err io_eof else Ok (take n rest, drop n rest))"

definition write_sealed :: "bytes \<Rightarrow> core_error + bytes" where
  "write_sealed ct =
     (if length ct < 2 ^ 16 then Ok (u16_to_be (of_nat (length ct)) @ ct)
      else Err (EFrameTooLarge (length ct)))"

text \<open>
  The two handshakes, as what they write, what they leave unread, and the transport they end with. An
  error ends the connection. \<open>connect_start\<close> and \<open>connect_end\<close> are the parts of \<open>connect\<close> before and
  after it waits for the second message.
\<close>

definition connect_start ::
    "('h, 't) snow \<Rightarrow> bytes \<Rightarrow> bytes \<Rightarrow> u16 \<Rightarrow> core_error + (bytes \<times> 'h)" where
  "connect_start sn server_pub client_priv major =
     try_bind (build_initiator sn server_pub client_priv major) (\<lambda>hs.
     try_bind (sn_hs_write sn hs [] 1024) (\<lambda>(msg1, hs).
     try_bind (write_sealed msg1) (\<lambda>out. Ok (out, hs))))"

definition connect_end :: "('h, 't) snow \<Rightarrow> 'h \<Rightarrow> bytes \<Rightarrow> core_error + ('t \<times> bytes)" where
  "connect_end sn hs input =
     try_bind (read_sealed input) (\<lambda>(msg2, rest).
     try_bind (sn_hs_read sn hs msg2 1024) (\<lambda>hs.
     try_bind (sn_transport sn hs) (\<lambda>t. Ok (t, rest))))"

definition session_connect ::
    "('h, 't) snow \<Rightarrow> bytes \<Rightarrow> bytes \<Rightarrow> u16 \<Rightarrow> bytes option \<Rightarrow> core_error + (bytes \<times> 't \<times> bytes)" where
  "session_connect sn server_pub client_priv major input =
     try_bind (connect_start sn server_pub client_priv major) (\<lambda>(out, hs).
     case input of
       None \<Rightarrow> Err ETimeout
     | Some bs \<Rightarrow> try_bind (connect_end sn hs bs) (\<lambda>(t, rest). Ok (out, t, rest)))"

definition session_accept ::
    "('h, 't) snow \<Rightarrow> bytes \<Rightarrow> u16 \<Rightarrow> bytes option \<Rightarrow> core_error + (bytes \<times> 't \<times> bytes)" where
  "session_accept sn server_priv major input =
     try_bind (build_responder sn server_priv major) (\<lambda>hs.
     case input of
       None \<Rightarrow> Err ETimeout
     | Some bs \<Rightarrow>
        try_bind (read_sealed bs) (\<lambda>(msg1, rest).
        try_bind (sn_hs_read sn hs msg1 1024) (\<lambda>hs.
        try_bind (sn_hs_write sn hs [] 1024) (\<lambda>(msg2, hs).
        try_bind (write_sealed msg2) (\<lambda>out.
        try_bind (sn_transport sn hs) (\<lambda>t. Ok (out, t, rest)))))))"

text \<open>\<open>write_frame\<close> / \<open>send_frame\<close> and \<open>read_frame\<close> / \<open>recv_frame\<close>; the state is snow's.\<close>

definition session_write :: "('h, 't) snow \<Rightarrow> 't \<Rightarrow> frame \<Rightarrow> (core_error + bytes) \<times> 't" where
  "session_write sn t f =
     (let pt = encode_frame f in
      if MAX_PLAINTEXT < length pt then (Err (EFrameTooLarge (length pt)), t)
      else case sn_write sn t pt (length pt + 16) of
             (Inl e, t') \<Rightarrow> (Err e, t')
           | (Inr ct, t') \<Rightarrow> (write_sealed ct, t'))"

definition session_read :: "('h, 't) snow \<Rightarrow> 't \<Rightarrow> bytes \<Rightarrow> (core_error + (frame \<times> bytes)) \<times> 't" where
  "session_read sn t bs =
     (case read_sealed bs of
        Inl e \<Rightarrow> (Err e, t)
      | Inr (ct, rest) \<Rightarrow>
         (case sn_read sn t ct (length ct) of
            (Inl e, t') \<Rightarrow> (Err e, t')
          | (Inr pt, t') \<Rightarrow> (try_bind (decode_frame pt) (\<lambda>f. Ok (f, rest)), t')))"

text \<open>
  What snow documents of two transport states of one handshake: a message written by one and read by
  the other in the same order is given back, and the states stay paired.
\<close>

definition noise_paired :: "('h, 't) snow \<Rightarrow> ('t \<Rightarrow> 't \<Rightarrow> bool) \<Rightarrow> bool" where
  "noise_paired sn R \<longleftrightarrow>
     (\<forall>a b pt n ct a'. R a b \<longrightarrow> sn_write sn a pt n = (Ok ct, a') \<longrightarrow>
        (\<exists>b'. sn_read sn b ct (length ct) = (Ok pt, b') \<and> R a' b'))"

definition session_sync :: "('h, 't) snow \<Rightarrow> 't \<Rightarrow> 't \<Rightarrow> bool" where
  "session_sync sn a b \<longleftrightarrow> (\<exists>R. noise_paired sn R \<and> R a b)"

section \<open>Lemmas\<close>

lemma read_write_sealed:
  assumes "write_sealed ct = Ok b"
  shows "read_sealed (b @ rest) = Ok (ct, rest)"
  using assms by (auto simp: write_sealed_def read_sealed_def Let_def unat_of_nat split: if_splits)

lemma session_step:
  assumes "session_sync sn a b" and "session_write sn a f = (Ok bs, a')"
  shows "\<exists>b'. session_read sn b (bs @ rest) = (Ok (f, rest), b') \<and> session_sync sn a' b'"
proof -
  obtain R where R: "noise_paired sn R" "R a b"
    using assms(1) by (auto simp: session_sync_def)
  obtain ct where ct: "sn_write sn a (encode_frame f) (length (encode_frame f) + 16) = (Ok ct, a')"
    "write_sealed ct = Ok bs"
    using assms(2) by (auto simp: session_write_def Let_def split: if_splits prod.splits sum.splits)
  obtain b' where "sn_read sn b ct (length ct) = (Ok (encode_frame f), b')" "R a' b'"
    using R ct(1) unfolding noise_paired_def by blast
  then show ?thesis
    using R(1) read_write_sealed [OF ct(2), of rest] decode_encode_frame [of f]
    by (auto simp: session_read_def decode_frame_def session_sync_def)
qed

interpretation noise: frame_transport "session_write sn" "session_read sn" "session_sync sn"
  for sn :: "('h, 't) snow"
  by unfold_locales (rule session_step)

lemma prologue_inject: "prologue a = prologue b \<Longrightarrow> a = b"
  unfolding prologue_def by (metis append_eq_append_conv length_uN_to_be(1) u16_from_to_be)

text \<open>The prologue is bound into the first message: only a responder with the same one accepts it.\<close>

definition prologue_bound :: "('h, 't) snow \<Rightarrow> bool" where
  "prologue_bound sn \<longleftrightarrow>
     (\<forall>suite ck sp sk p q i r msg i' r' n k.
        sn_initiator sn suite ck sp p = Ok i \<longrightarrow> sn_responder sn suite sk q = Ok r \<longrightarrow>
        sn_hs_write sn i [] n = Ok (msg, i') \<longrightarrow> sn_hs_read sn r msg k = Ok r' \<longrightarrow> p = q)"

text \<open>A toy Noise: the prologue is the handshake message, a counter in each state and a counter byte in front of each message.\<close>

definition count_snow :: "(bytes, nat) snow" where
  "count_snow =
     \<lparr>sn_initiator = (\<lambda>suite key pub pro. Ok pro),
      sn_responder = (\<lambda>suite key pro. Ok pro),
      sn_hs_write = (\<lambda>h p n. Ok (h @ p, h)),
      sn_hs_read = (\<lambda>h m n. if m = h then Ok h else Err (ENoise ''decrypt'')),
      sn_transport = (\<lambda>h. Ok 0),
      sn_write = (\<lambda>c p n. (Ok (of_nat c # p), Suc c)),
      sn_read = (\<lambda>c m n. (if m \<noteq> [] \<and> hd m = of_nat c then (Ok (tl m), Suc c)
                           else (Err (ENoise ''decrypt''), c)))\<rparr>"

lemma count_snow_sync: "session_sync count_snow 0 0"
  unfolding session_sync_def
  by (rule exI [of _ "(=)"]) (auto simp: noise_paired_def count_snow_def)

section \<open>Properties\<close>

text \<open>
  Over a Noise session every sequence of frames arrives as it was sent: whatever frames one end
  writes without an error, the other end reads back in the same order and nothing beyond their bytes,
  provided that the two cipher states are the two ends of one handshake. A frame too large for one Noise
  message is refused before anything is sealed.
\<close>

theorem session_delivers:
  assumes "session_sync sn a b" and "write_all_frames (session_write sn) a fs = (Ok bs, a')"
  shows "(\<exists>b'. read_all_frames (session_read sn) (length fs) b (bs @ rest) = (Ok (fs, rest), b') \<and>
            session_sync sn a' b') \<and>
         (\<forall>f. MAX_PLAINTEXT < length (encode_frame f) \<longrightarrow>
            session_write sn a f = (Err (EFrameTooLarge (length (encode_frame f))), a))"
  using noise.read_all_written [OF assms] by (simp add: session_write_def Let_def)

theorem session_delivers_witness:
  "\<exists>b'. read_all_frames (session_read count_snow) 1 0
     ((u16_to_be 6 @ 0 # encode_frame \<lparr>stream_id = 1, ftype = 4, payload = []\<rparr>) @ [])
     = (Ok ([\<lparr>stream_id = 1, ftype = 4, payload = []\<rparr>], []), b')"
proof -
  have "write_all_frames (session_write count_snow) 0 [\<lparr>stream_id = 1, ftype = 4, payload = []\<rparr>] =
      (Ok (u16_to_be 6 @ 0 # encode_frame \<lparr>stream_id = 1, ftype = 4, payload = []\<rparr>), 1)"
    by (simp add: session_write_def count_snow_def write_sealed_def Let_def frame_consts)
  from session_delivers [OF count_snow_sync this, of "[]"] show ?thesis
    by auto
qed

text \<open>
  The two ends of a session agree on the protocol epoch before any frame flows: the Noise prologue
  determines the major version, so a handshake that only succeeds between equal prologues fails between
  different majors; and the framing of handshake messages is exact, so a responder that accepts what an
  initiator wrote leaves the rest of the input unread.
\<close>

theorem handshake_epoch:
  assumes "prologue_bound sn"
    and "connect_start sn server_pub client_priv m1 = Ok (out, hs)"
    and "session_accept sn server_priv m2 (Some (out @ rest)) = Ok (reply, t, left)"
  shows "m1 = m2 \<and> left = rest"
proof -
  obtain i msg1 where i: "sn_initiator sn NOISE_PARAMS client_priv server_pub (prologue m1) = Ok i"
    "sn_hs_write sn i [] 1024 = Ok (msg1, hs)" "write_sealed msg1 = Ok out"
    using assms(2) by (auto simp: connect_start_def build_initiator_def try_bind_eq_Inr)
  have rs: "read_sealed (out @ rest) = Ok (msg1, rest)"
    using i(3) by (rule read_write_sealed)
  obtain r r' where "sn_responder sn NOISE_PARAMS server_priv (prologue m2) = Ok r"
    "sn_hs_read sn r msg1 1024 = Ok r'" "left = rest"
    using assms(3) by (auto simp: session_accept_def build_responder_def try_bind_eq_Inr rs)
  then show ?thesis
    using assms(1) i(1,2) prologue_inject unfolding prologue_bound_def by blast
qed

lemma count_snow_bound: "prologue_bound count_snow"
  by (auto simp: prologue_bound_def count_snow_def split: if_splits)

lemma count_snow_start:
  "\<exists>out. connect_start count_snow pub priv 1 = Ok (out, prologue 1) \<and>
         (\<exists>reply. session_accept count_snow key 1 (Some (out @ [7])) = Ok (reply, 0, [7]))"
proof -
  have len: "length (prologue 1) < 2 ^ 16"
    by (simp add: prologue_def NOISE_PARAMS_def)
  then obtain out where out: "write_sealed (prologue 1) = Ok out"
    by (simp add: write_sealed_def)
  then have "read_sealed (out @ [7]) = Ok (prologue 1, [7])"
    by (rule read_write_sealed)
  then show ?thesis
    using out
    by (simp add: connect_start_def session_accept_def build_initiator_def build_responder_def count_snow_def)
qed

theorem handshake_epoch_witness:
  "\<exists>out hs. connect_start count_snow [] [] 1 = Ok (out, hs) \<and>
     (\<exists>reply. session_accept count_snow [] 1 (Some (out @ [7])) = Ok (reply, 0, [7])) \<and>
     (\<nexists>reply t left. session_accept count_snow [] 2 (Some (out @ [7])) = Ok (reply, t, left))"
proof -
  obtain out where out: "connect_start count_snow [] [] 1 = Ok (out, prologue 1)"
    "\<exists>reply. session_accept count_snow [] 1 (Some (out @ [7])) = Ok (reply, 0, [7])"
    using count_snow_start [of "[]" "[]" "[]"] by blast
  have "\<nexists>reply t left. session_accept count_snow [] 2 (Some (out @ [7])) = Ok (reply, t, left)"
    using handshake_epoch [OF count_snow_bound out(1), of "[]" 2 "[7]"] by auto
  then show ?thesis
    using out by blast
qed

end
