(* ===== verification/Auth.thy ===== *)
theory Auth
  imports ClientHelloBuild KeySchedule Config Session Version
begin

text \<open>
  REALITY authentication: \<open>crates/leshiy-reality/src/auth.rs\<close>, the authenticated ClientHello of
  \<open>client.rs\<close>, and \<open>crates/leshiy-tls/src/tls13/mlkem.rs\<close>.

  The client seals an auth payload into the session id of an ordinary ClientHello; the server that knows
  the static secret recomputes the key and opens it. X25519, ML-KEM-768, Ed25519 and HMAC-SHA512 come from
  other crates: they are the fields of \<open>reality_crypto\<close> beside the \<open>crypto\<close> of the record layer. Random
  bytes are arguments. Panics (\<open>expect\<close>, slice length mismatch) are \<open>None\<close>.
\<close>

section \<open>Definitions\<close>

record reality_crypto =
  rc_cr :: crypto
  rc_dh :: "bytes \<Rightarrow> bytes \<Rightarrow> bytes"
  rc_pub :: "bytes \<Rightarrow> bytes"
  rc_hmac512 :: "bytes \<Rightarrow> bytes \<Rightarrow> bytes"
  rc_ed_public :: "bytes \<Rightarrow> bytes"
  rc_ed_sign :: "bytes \<Rightarrow> bytes \<Rightarrow> bytes"
  rc_ed_verify :: "bytes \<Rightarrow> bytes \<Rightarrow> bytes \<Rightarrow> bool"
  rc_kem_keypair :: "bytes \<Rightarrow> bytes \<times> bytes"
  rc_kem_encap :: "bytes \<Rightarrow> bytes \<Rightarrow> (bytes \<times> bytes) option"
  rc_kem_decap :: "bytes \<Rightarrow> bytes \<Rightarrow> bytes"

text \<open>Documented behaviour of X25519: both sides of an exchange compute the same 32 bytes.\<close>

definition dh_agrees :: "reality_crypto \<Rightarrow> bool" where
  "dh_agrees rc \<longleftrightarrow>
     (\<forall>a b. length a = 32 \<and> length b = 32 \<longrightarrow>
        rc_dh rc a (rc_pub rc b) = rc_dh rc b (rc_pub rc a) \<and>
        length (rc_dh rc a (rc_pub rc b)) = 32 \<and> length (rc_pub rc a) = 32)"

subsection \<open>ML-KEM-768\<close>

definition ML_KEM_EK :: nat where "ML_KEM_EK = 1184"
definition ML_KEM_CT :: nat where "ML_KEM_CT = 1088"
definition ML_KEM_SS :: nat where "ML_KEM_SS = 32"

definition mlkem_generate :: "reality_crypto \<Rightarrow> bytes \<Rightarrow> bytes \<times> bytes" where
  "mlkem_generate rc seed = rc_kem_keypair rc seed"

definition encapsulate :: "reality_crypto \<Rightarrow> bytes \<Rightarrow> bytes \<Rightarrow> (bytes \<times> bytes) option" where
  "encapsulate rc ek_bytes seed = (if length ek_bytes \<noteq> ML_KEM_EK then None else rc_kem_encap rc ek_bytes seed)"

definition decapsulate :: "reality_crypto \<Rightarrow> bytes \<Rightarrow> bytes \<Rightarrow> bytes option" where
  "decapsulate rc dk ct_bytes = (if length ct_bytes \<noteq> ML_KEM_CT then None else Some (rc_kem_decap rc dk ct_bytes))"

text \<open>
  Documented behaviour of the key encapsulation: keys and ciphertexts have their fixed sizes, and a
  generated pair round-trips.
\<close>

definition kem_agrees :: "reality_crypto \<Rightarrow> bool" where
  "kem_agrees rc \<longleftrightarrow>
     (\<forall>seed dk ek. rc_kem_keypair rc seed = (dk, ek) \<longrightarrow> length ek = ML_KEM_EK \<and>
        (\<forall>r. \<exists>ct ss. rc_kem_encap rc ek r = Some (ct, ss) \<and> length ct = ML_KEM_CT \<and> length ss = ML_KEM_SS \<and>
              rc_kem_decap rc dk ct = ss))"

subsection \<open>The auth payload\<close>

definition HKDF_INFO :: bytes where "HKDF_INFO = as_bytes ''leshiy-reality''"
definition SID_OFFSET :: nat where "SID_OFFSET = 39"

record auth_payload =
  ap_version :: bytes
  ap_unix_secs :: u32
  ap_short_id :: bytes

definition encode_payload :: "auth_payload \<Rightarrow> bytes" where
  "encode_payload p = ap_version p @ [0] @ u32_to_be (ap_unix_secs p) @ ap_short_id p"

definition decode_payload :: "bytes \<Rightarrow> auth_payload" where
  "decode_payload b =
     \<lparr>ap_version = slice 0 3 b, ap_unix_secs = u32_from_be (slice 4 8 b), ap_short_id = slice 8 16 b\<rparr>"

definition derive_auth_key :: "crypto \<Rightarrow> bytes \<Rightarrow> bytes \<Rightarrow> bytes" where
  "derive_auth_key cr shared rnd =
     cr_expand cr SHA256 (cr_extract cr SHA256 (slice 0 20 rnd) shared) HKDF_INFO 32"

definition seal_session_id :: "crypto \<Rightarrow> bytes \<Rightarrow> bytes \<Rightarrow> auth_payload \<Rightarrow> bytes \<Rightarrow> bytes option" where
  "seal_session_id cr auth_key rnd p aad =
     Option.bind (cr_encrypt cr AES_256_GCM auth_key (slice 20 32 rnd) aad (encode_payload p)) (\<lambda>ct.
     if length ct = 32 then Some ct else None)"

definition open_session_id :: "crypto \<Rightarrow> bytes \<Rightarrow> bytes \<Rightarrow> bytes \<Rightarrow> bytes \<Rightarrow> bytes option" where
  "open_session_id cr auth_key rnd session_id aad =
     Option.bind (cr_decrypt cr AES_256_GCM auth_key (slice 20 32 rnd) aad session_id) (\<lambda>pt.
     if length pt \<noteq> 16 then None else Some pt)"

definition aad_from_client_hello :: "bytes \<Rightarrow> bytes" where
  "aad_from_client_hello ch =
     (if SID_OFFSET < length ch then
        let sid_len = unat (case get_at ch (SID_OFFSET - 1) of None \<Rightarrow> 0 | Some b \<Rightarrow> b);
            fin = min (SID_OFFSET + sid_len) (length ch)
        in take SID_OFFSET ch @ replicate (fin - SID_OFFSET) 0 @ drop fin ch
      else ch)"

subsection \<open>The client\<close>

definition LESHIY_VERSION :: bytes where "LESHIY_VERSION = [1, 0, 0]"

text \<open>The random bytes drawn while building, in the order of the draws.\<close>

record client_draws =
  dr_ephem :: bytes
  dr_kem_seed :: bytes
  dr_random :: bytes
  dr_entropy :: bytes

definition build_authed_client_hello ::
    "reality_crypto \<Rightarrow> profile \<Rightarrow> client_auth_config \<Rightarrow> u32 \<Rightarrow> client_draws \<Rightarrow> (bytes \<times> bytes \<times> bytes) option" where
  "build_authed_client_hello rc pr cfg now_secs dr =
     (let ephem_pub = rc_pub rc (dr_ephem dr);
          (mlkem_dk, mlkem_ek) = mlkem_generate rc (dr_kem_seed dr);
          rnd = dr_random dr;
          shared = rc_dh rc (dr_ephem dr) (server_public cfg);
          auth_key = derive_auth_key (rc_cr rc) shared rnd;
          ch = build_client_hello (cr_hash (rc_cr rc) SHA256) pr (ca_sni cfg) ephem_pub mlkem_ek rnd (dr_entropy dr);
          aad = aad_from_client_hello ch;
          p = \<lparr>ap_version = LESHIY_VERSION, ap_unix_secs = now_secs, ap_short_id = ca_short_id cfg\<rparr>
      in Option.bind (seal_session_id (rc_cr rc) auth_key rnd p aad) (\<lambda>sid.
         let fin = min (SID_OFFSET + 32) (length ch) in
         if fin < SID_OFFSET then None
         else Some (write_at SID_OFFSET (take (fin - SID_OFFSET) sid) ch, dr_ephem dr, mlkem_dk)))"

definition CLIENT_IDLE_TOLERANCE :: u32 where "CLIENT_IDLE_TOLERANCE = 600"

definition client_hello_version :: hello where
  "client_hello_version =
     \<lparr>h_version = PROTOCOL_MAJOR, min_supported = 1,
      h_capabilities = CAP_DATAGRAM OR CAP_KEEPALIVE OR CAP_FLOWCONTROL OR CAP_ICMP OR CAP_IDLE_TOLERANCE,
      idle_tolerance = CLIENT_IDLE_TOLERANCE\<rparr>"

section \<open>Lemmas\<close>

lemma length_payload:
  "length (ap_version p) = 3 \<Longrightarrow> length (ap_short_id p) = 8 \<Longrightarrow> length (encode_payload p) = 16"
  by (simp add: encode_payload_def)

lemma decode_encode_payload:
  assumes "length (ap_version p) = 3" and "length (ap_short_id p) = 8"
  shows "decode_payload (encode_payload p) = p"
proof -
  have "slice 0 3 (encode_payload p) = ap_version p" "slice 4 8 (encode_payload p) = u32_to_be (ap_unix_secs p)"
    "slice 8 16 (encode_payload p) = ap_short_id p"
    using assms by (simp_all add: encode_payload_def slice_def)
  then show ?thesis
    by (simp add: decode_payload_def)
qed

interpretation payload_codec: wire_codec encode_payload "\<lambda>b. Ok (decode_payload b) :: tls_error + auth_payload"
    "\<lambda>p. length (ap_version p) = 3 \<and> length (ap_short_id p) = 8"
  by unfold_locales (simp add: decode_encode_payload)

text \<open>The fixed part of a ClientHello before its session id.\<close>

lemma ch_message_split:
  assumes "length rnd = 32" and "length sid = 32"
  obtains a b where "length a = 39" and "a ! 38 = 32"
    and "\<And>sid'. length sid' = 32 \<Longrightarrow> ch_message rnd sid' suites exts = a @ sid' @ b"
proof -
  let ?cs = "concat (map u16_to_be suites)" and ?xs = "concat (map ext_bytes exts)"
  let ?b = "u16_to_be (of_nat (length ?cs)) @ ?cs @ [0x01, 0x00] @ u16_to_be (of_nat (length ?xs)) @ ?xs"
  let ?n = "2 + 32 + 1 + 32 + length ?b"
  let ?a = "[0x01] @ u24_to_be ?n @ [0x03, 0x03] @ rnd @ [32]"
  have "ch_message rnd sid' suites exts = ?a @ sid' @ ?b" if "length sid' = 32" for sid'
    using assms(1) that by (simp add: ch_message_def Let_def)
  moreover have "length ?a = 39" "?a ! 38 = 32"
    using assms(1) by (simp_all add: nth_append)
  ultimately show ?thesis
    using that by blast
qed

lemma aad_of_message:
  assumes "length rnd = 32" and "length sid = 32"
  shows "aad_from_client_hello (ch_message rnd sid suites exts) = ch_message rnd (replicate 32 0) suites exts"
proof -
  obtain a b where a: "length a = 39" "a ! 38 = 32"
    and m: "\<And>sid'. length sid' = 32 \<Longrightarrow> ch_message rnd sid' suites exts = a @ sid' @ b"
    using ch_message_split [OF assms] by blast
  show ?thesis
    using a assms(2) by (simp add: m aad_from_client_hello_def SID_OFFSET_def Let_def get_at_def nth_append)
qed

lemma write_session_id:
  assumes "length rnd = 32" and "length sid0 = 32" and "length sid = 32"
  shows "write_at 39 sid (ch_message rnd sid0 suites exts) = ch_message rnd sid suites exts"
    and "71 \<le> length (ch_message rnd sid0 suites exts)"
proof -
  obtain a b where a: "length a = 39"
    and m: "\<And>sid'. length sid' = 32 \<Longrightarrow> ch_message rnd sid' suites exts = a @ sid' @ b"
    using ch_message_split [OF assms(1,2)] by blast
  show "write_at 39 sid (ch_message rnd sid0 suites exts) = ch_message rnd sid suites exts"
    "71 \<le> length (ch_message rnd sid0 suites exts)"
    using a assms by (simp_all add: m write_at_def)
qed

lemma session_id_opens:
  assumes "aead_correct cr" and "length key = 32" and "length rnd = 32"
    and "length (ap_version p) = 3" and "length (ap_short_id p) = 8"
  obtains sid where "seal_session_id cr key rnd p aad = Some sid" and "length sid = 32"
    and "open_session_id cr key rnd sid aad = Some (encode_payload p)"
proof -
  have "length (slice 20 32 rnd) = 12"
    using assms(3) by (simp add: slice_def)
  moreover have "length key = aead_key_len AES_256_GCM"
    using assms(2) by (simp add: aead_key_len_def)
  ultimately obtain ct where "cr_encrypt cr AES_256_GCM key (slice 20 32 rnd) aad (encode_payload p) = Some ct"
    "length ct = length (encode_payload p) + 16" 
    "cr_decrypt cr AES_256_GCM key (slice 20 32 rnd) aad ct = Some (encode_payload p)"
    using assms(1) unfolding aead_correct_def by blast
  then show ?thesis
    using that length_payload [OF assms(4,5)] by (simp add: seal_session_id_def open_session_id_def)
qed

lemma length_derive_auth_key: "hkdf_sizes cr \<Longrightarrow> length (derive_auth_key cr s r) = 32"
  by (simp add: hkdf_sizes_def derive_auth_key_def)

text \<open>What the client's draws and configuration have to be for the arrays of the code.\<close>

definition draws_ok :: "client_draws \<Rightarrow> bool" where
  "draws_ok dr \<longleftrightarrow> length (dr_ephem dr) = 32 \<and> length (dr_random dr) = 32 \<and> length (dr_entropy dr) = 32"

definition client_cfg_ok :: "client_auth_config \<Rightarrow> bool" where
  "client_cfg_ok cfg \<longleftrightarrow> length (server_public cfg) = 32 \<and> length (ca_short_id cfg) = 8 \<and>
     length (ca_sni cfg) \<le> 60000 \<and> utf8_valid (as_bytes (ca_sni cfg))"

definition primitives_ok :: "reality_crypto \<Rightarrow> bool" where
  "primitives_ok rc \<longleftrightarrow> aead_correct (rc_cr rc) \<and> hkdf_sizes (rc_cr rc) \<and> dh_agrees rc \<and> kem_agrees rc"

lemma authed_client_hello:
  fixes now :: u32
  assumes "primitives_ok rc" and "draws_ok dr" and "client_cfg_ok cfg"
  defines "key \<equiv> derive_auth_key (rc_cr rc) (rc_dh rc (dr_ephem dr) (server_public cfg)) (dr_random dr)"
    and "p \<equiv> \<lparr>ap_version = LESHIY_VERSION, ap_unix_secs = now, ap_short_id = ca_short_id cfg\<rparr>"
    and "dk \<equiv> fst (mlkem_generate rc (dr_kem_seed dr))" and "ek \<equiv> snd (mlkem_generate rc (dr_kem_seed dr))"
  obtains ch sid where "build_authed_client_hello rc yandex cfg now dr = Some (ch, dr_ephem dr, dk)"
    and "extract_client_hello_fields ch =
      Ok \<lparr>ch_random = dr_random dr, ch_session_id = sid, key_share_x25519 = Some (rc_pub rc (dr_ephem dr)),
          key_share_mlkem = Some \<lparr>mk_ek = ek, mk_x25519 = rc_pub rc (dr_ephem dr)\<rparr>, ch_sni = Some (ca_sni cfg)\<rparr>"
    and "length sid = 32"
    and "open_session_id (rc_cr rc) key (dr_random dr) sid (aad_from_client_hello ch) = Some (encode_payload p)"
proof -
  let ?rnd = "dr_random dr" and ?x = "rc_pub rc (dr_ephem dr)" and ?sha = "cr_hash (rc_cr rc) SHA256"
  let ?suites = "sub_grease (g_cipher (derive_grease (dr_entropy dr))) (pr_cipher_suites yandex)"
  let ?exts = "ch_extensions ?sha yandex (ca_sni cfg) ?x ek (dr_entropy dr)"
  let ?msg = "\<lambda>sid. ch_message ?rnd sid ?suites ?exts"
  have rnd: "length ?rnd = 32"
    using assms(2) by (simp add: draws_ok_def)
  have x: "length ?x = 32" and ek: "length ek = 1184"
    using assms(1,2) unfolding primitives_ok_def dh_agrees_def kem_agrees_def draws_ok_def ek_def mlkem_generate_def
      ML_KEM_EK_def by (blast, metis prod.collapse)
  have suites: "length ?suites < 1000"
    using yandex_suites by auto
  have p: "length (ap_version p) = 3" "length (ap_short_id p) = 8"
    using assms(3) by (simp_all add: p_def LESHIY_VERSION_def client_cfg_ok_def)
  have "aead_correct (rc_cr rc)" "length key = 32"
    using assms(1) length_derive_auth_key unfolding primitives_ok_def key_def by blast+
  from session_id_opens [OF this rnd p, of "?msg (replicate 32 0)"]
  obtain sid where sid: "seal_session_id (rc_cr rc) key ?rnd p (?msg (replicate 32 0)) = Some sid" "length sid = 32"
    "open_session_id (rc_cr rc) key ?rnd sid (?msg (replicate 32 0)) = Some (encode_payload p)"
    by blast
  have len: "71 \<le> length (?msg ?rnd)"
    by (rule write_session_id(2) [OF rnd rnd sid(2)])
  then have fin: "min (39 + 32) (length (?msg ?rnd)) = 71"
    by simp
  show ?thesis
  proof (rule that [of "?msg sid" sid])
    have "write_at 39 (take 32 sid) (?msg ?rnd) = ?msg sid"
      using write_session_id(1) [OF rnd rnd sid(2)] sid(2) by simp
    then show "build_authed_client_hello rc yandex cfg now dr = Some (?msg sid, dr_ephem dr, dk)"
      using sid(1) fin unfolding build_authed_client_hello_def build_client_hello_def build_as_message
      by (simp add: aad_of_message rnd SID_OFFSET_def Let_def split_beta flip: key_def p_def dk_def ek_def)
    show "extract_client_hello_fields (?msg sid) =
      Ok \<lparr>ch_random = ?rnd, ch_session_id = sid, key_share_x25519 = Some ?x,
          key_share_mlkem = Some \<lparr>mk_ek = ek, mk_x25519 = ?x\<rparr>, ch_sni = Some (ca_sni cfg)\<rparr>"
      by (rule extract_built) (use x ek rnd sid(2) suites assms(3) in \<open>simp_all add: client_cfg_ok_def\<close>)
    show "open_session_id (rc_cr rc) key ?rnd sid (aad_from_client_hello (?msg sid)) = Some (encode_payload p)"
      using sid(3) by (simp add: aad_of_message rnd sid(2))
  qed (rule sid(2))
qed

text \<open>Primitives of the right sizes that can be evaluated, and a client of them.\<close>

definition plain_rc :: reality_crypto where
  "plain_rc =
     \<lparr>rc_cr = plain_crypto, rc_dh = (\<lambda>a b. replicate 32 0), rc_pub = (\<lambda>a. replicate 32 0),
      rc_hmac512 = (\<lambda>k d. replicate 64 0), rc_ed_public = (\<lambda>s. replicate 32 0), rc_ed_sign = (\<lambda>s m. replicate 64 0),
      rc_ed_verify = (\<lambda>p m s. True), rc_kem_keypair = (\<lambda>s. (s, replicate 1184 0)),
      rc_kem_encap = (\<lambda>ek r. Some (replicate 1088 0, replicate 32 0)), rc_kem_decap = (\<lambda>dk ct. replicate 32 0)\<rparr>"

lemma plain_rc_ok: "primitives_ok plain_rc"
  using plain_crypto_ok
  by (simp add: primitives_ok_def plain_rc_def dh_agrees_def kem_agrees_def ML_KEM_EK_def ML_KEM_CT_def ML_KEM_SS_def)

definition sample_draws :: client_draws where
  "sample_draws = \<lparr>dr_ephem = replicate 32 1, dr_kem_seed = [], dr_random = replicate 32 2, dr_entropy = replicate 32 3\<rparr>"

definition sample_client :: client_auth_config where
  "sample_client = \<lparr>server_public = replicate 32 0, ca_short_id = replicate 8 1, ca_sni = ''a.org''\<rparr>"

lemma sample_client_ok: "draws_ok sample_draws" "client_cfg_ok sample_client"
proof -
  have "utf8_valid (as_bytes ''a.org'')"
    by code_simp
  then show "draws_ok sample_draws" "client_cfg_ok sample_client"
    by (simp_all add: draws_ok_def sample_draws_def client_cfg_ok_def sample_client_def)
qed

end
