(* ===== verification/MtProxy.thy ===== *)
theory MtProxy
  imports KeySchedule Config TlsMessages
begin

text \<open>
  Telegram MTProxy on the REALITY listener: \<open>crates/leshiy-reality/src/mtproxy/\<close>, files \<open>mod.rs\<close>,
  \<open>faketls.rs\<close>, \<open>obfs2.rs\<close> and \<open>relay.rs\<close>.

  HMAC-SHA256 and SHA-256 are fields of \<open>crypto\<close>; AES-256-CTR is a keystream \<open>ks key iv\<close>, an argument, and
  a cipher object is its key, its initial counter block and its position. Random bytes are arguments. What
  a peer sends is the list of records it completes; the end of the list stands for an error, an end of
  file or a read that its timeout cuts off, which the code treats alike.
\<close>

section \<open>Definitions\<close>

subsection \<open>mod.rs\<close>

definition secret_from_hex :: "text_codec \<Rightarrow> (string \<Rightarrow> string) \<Rightarrow> string \<Rightarrow> reality_error + bytes" where
  "secret_from_hex hex trim s =
     (case tc_decode hex (trim s) of
        Some b \<Rightarrow> if length b = 16 then Ok b else Err (RMalformed ''mtproxy secret must be 32 hex chars'')
      | None \<Rightarrow> Err (RMalformed ''mtproxy secret must be 32 hex chars''))"

definition secret_to_hex :: "text_codec \<Rightarrow> bytes \<Rightarrow> string" where
  "secret_to_hex hex s = tc_encode hex s"

definition tg_link :: "text_codec \<Rightarrow> string \<Rightarrow> bytes \<Rightarrow> string \<Rightarrow> string" where
  "tg_link hex host_port secret sni =
     (let (host, port) =
            (case rsplit_once CHR '':'' host_port of
               Some (h, p) \<Rightarrow> if parse_u16 p \<noteq> None then (h, p) else (host_port, ''443'')
             | None \<Rightarrow> (host_port, ''443''));
          host = rev (dropWhile (\<lambda>c. c = CHR '']'') (rev (dropWhile (\<lambda>c. c = CHR ''['') host)))
      in ''tg://proxy?server='' @ host @ ''&port='' @ port @ ''&secret=ee'' @ secret_to_hex hex secret @
         tc_encode hex (as_bytes sni))"

subsection \<open>faketls.rs\<close>

definition CHANGE_CIPHER_SPEC :: u8 where "CHANGE_CIPHER_SPEC = 0x14"

definition HRR_RANDOM :: bytes where
  "HRR_RANDOM =
     [0xcf, 0x21, 0xad, 0x74, 0xe5, 0x9a, 0x61, 0x11, 0xbe, 0x1d, 0x8c, 0x02, 0x1e, 0x65, 0xb8, 0x91,
      0xc2, 0xa2, 0x11, 0x16, 0x7a, 0xbb, 0x8c, 0x5e, 0x07, 0x9e, 0x09, 0xe2, 0xc8, 0xa8, 0x33, 0x9c]"

definition FLIGHT_MAX_RECORDS :: nat where "FLIGHT_MAX_RECORDS = 8"

definition mt_hmac :: "crypto \<Rightarrow> bytes \<Rightarrow> bytes list \<Rightarrow> bytes" where
  "mt_hmac cr secret parts = cr_hmac cr SHA256 secret (concat parts)"

text \<open>\<open>msg[11..43].fill(0)\<close> and \<open>copy_from_slice\<close> into the same range.\<close>

definition set_random :: "bytes \<Rightarrow> bytes \<Rightarrow> bytes" where
  "set_random r msg = write_at 11 r msg"

definition le32 :: "bytes \<Rightarrow> u32" where
  "le32 bs = u32_from_be (rev bs)"

definition faketls_authenticate :: "crypto \<Rightarrow> bytes \<Rightarrow> bytes \<Rightarrow> u32 \<Rightarrow> u64 \<Rightarrow> bytes option" where
  "faketls_authenticate cr ch_payload secret now_secs max_skew =
     (if 2 ^ 16 \<le> length ch_payload then None
      else let msg = [HANDSHAKE, 0x03, 0x01] @ u16_to_be (of_nat (length ch_payload)) @ ch_payload in
        if length msg < 43 then None
        else let digest = slice 11 43 msg;
                 mac = mt_hmac cr secret [set_random (replicate 32 0) msg];
                 mac_ok = (take 28 mac = take 28 digest);
                 ts = map2 (XOR) (drop 28 digest) (drop 28 mac);
                 skew_ok = (ucast (abs_diff32 now_secs (le32 ts)) \<le> max_skew)
          in if mac_ok \<and> skew_ok then Some digest else None)"

record dest_flight =
  df_server_hello :: tls_record
  df_app_len :: nat

text \<open>The loop over the dest's records; \<open>n\<close> turns are left.\<close>

fun flight_loop :: "nat \<Rightarrow> tls_record list \<Rightarrow> nat \<Rightarrow> nat option" where
  "flight_loop 0 rs app_len = Some app_len"
| "flight_loop (Suc n) [] app_len = (if app_len = 0 then None else Some app_len)"
| "flight_loop (Suc n) (r # rs) app_len =
     (if content_type r = CHANGE_CIPHER_SPEC then flight_loop n rs app_len
      else if content_type r = APPLICATION_DATA then flight_loop n rs (app_len + length (rec_payload r))
      else None)"

definition read_dest_flight :: "tls_record list \<Rightarrow> dest_flight option" where
  "read_dest_flight recs =
     (case recs of
        [] \<Rightarrow> None
      | sh # rest \<Rightarrow>
          let p = rec_payload sh;
              is_sh = (content_type sh = HANDSHAKE \<and> get_at p 0 = Some 0x02 \<and> 38 \<le> length p \<and>
                       slice 6 38 p \<noteq> HRR_RANDOM) in
          if \<not> is_sh then None
          else Option.bind (flight_loop FLIGHT_MAX_RECORDS rest 0) (\<lambda>app_len.
            if 0 < app_len
            then Some \<lparr>df_server_hello = sh, df_app_len = min app_len MAX_RECORD_PAYLOAD\<rparr>
            else None))"

definition server_response :: "crypto \<Rightarrow> bytes \<Rightarrow> dest_flight \<Rightarrow> bytes \<Rightarrow> bytes \<Rightarrow> bytes option" where
  "server_response cr client flight secret fill =
     Option.bind (encode_record (df_server_hello flight)) (\<lambda>sh.
     if length sh < 43 \<or> 2 ^ 16 \<le> df_app_len flight then None
     else let out = set_random (replicate 32 0) sh @ [CHANGE_CIPHER_SPEC, 0x03, 0x03, 0x00, 0x01, 0x01] @
                [APPLICATION_DATA, 0x03, 0x03] @ u16_to_be (of_nat (df_app_len flight)) @ fill;
              mac = mt_hmac cr secret [client, out]
       in Some (set_random mac out))"

fun read_app_data :: "tls_record list \<Rightarrow> (bytes \<times> tls_record list) option" where
  "read_app_data [] = None"
| "read_app_data (r # rs) =
     (if content_type r = CHANGE_CIPHER_SPEC then read_app_data rs
      else if content_type r = APPLICATION_DATA then Some (rec_payload r, rs)
      else None)"

text \<open>\<open>slice::chunks\<close>.\<close>

function chunks_of :: "nat \<Rightarrow> 'a list \<Rightarrow> 'a list list" where
  "chunks_of n xs = (if xs = [] \<or> n = 0 then [] else take n xs # chunks_of n (drop n xs))"
  by pat_completeness auto
termination
  by (relation "measure (\<lambda>(n, xs). length xs)") auto

declare chunks_of.simps [simp del]

definition write_app_data :: "bytes \<Rightarrow> tls_record list" where
  "write_app_data data =
     map (\<lambda>c. \<lparr>content_type = APPLICATION_DATA, rec_payload = c\<rparr>) (chunks_of MAX_RECORD_PAYLOAD data)"

subsection \<open>obfs2.rs\<close>

type_synonym keystream = "bytes \<Rightarrow> bytes \<Rightarrow> nat \<Rightarrow> u8"

record aes_ctr =
  ctr_key :: bytes
  ctr_iv :: bytes
  ctr_pos :: nat

definition new_ctr :: "bytes \<Rightarrow> bytes \<Rightarrow> aes_ctr" where
  "new_ctr key iv = \<lparr>ctr_key = key, ctr_iv = iv, ctr_pos = 0\<rparr>"

definition apply_keystream :: "keystream \<Rightarrow> bytes \<Rightarrow> aes_ctr \<Rightarrow> bytes \<times> aes_ctr" where
  "apply_keystream ks data c =
     (map2 (XOR) data (map (ks (ctr_key c) (ctr_iv c)) [ctr_pos c..<ctr_pos c + length data]),
      c\<lparr>ctr_pos := ctr_pos c + length data\<rparr>)"

definition HANDSHAKE_LEN :: nat where "HANDSHAKE_LEN = 64"
definition PROTO_TAG_SECURE :: bytes where "PROTO_TAG_SECURE = [0xdd, 0xdd, 0xdd, 0xdd]"

definition DCS :: "string list" where
  "DCS = [''149.154.175.50:443'', ''149.154.167.51:443'', ''149.154.175.100:443'', ''149.154.167.91:443'',
     ''149.154.171.5:443'']"

record ciphers =
  c_dec :: aes_ctr
  c_enc :: aes_ctr

record client_session =
  cs_ciphers :: ciphers
  cs_dc :: u16

definition key_iv :: "bytes \<Rightarrow> bytes" where
  "key_iv src = src"

definition reversed_key_iv :: "bytes \<Rightarrow> bytes" where
  "reversed_key_iv src = rev (key_iv src)"

definition keyed :: "crypto \<Rightarrow> bytes \<Rightarrow> bytes \<Rightarrow> bytes" where
  "keyed cr prekey secret = cr_hash cr SHA256 (prekey @ secret)"

definition accept_client :: "crypto \<Rightarrow> keystream \<Rightarrow> bytes \<Rightarrow> bytes \<Rightarrow> client_session option" where
  "accept_client cr ks hs secret =
     (let fwd = key_iv (slice 8 56 hs);
          rv = reversed_key_iv (slice 8 56 hs);
          dec = new_ctr (keyed cr (take 32 fwd) secret) (drop 32 fwd);
          enc = new_ctr (keyed cr (take 32 rv) secret) (drop 32 rv);
          (plain, dec) = apply_keystream ks hs dec in
      if slice 56 60 plain \<noteq> PROTO_TAG_SECURE then None
      else Some \<lparr>cs_ciphers = \<lparr>c_dec = dec, c_enc = enc\<rparr>, cs_dc = u16_from_be [plain ! 61, plain ! 60]\<rparr>)"

record upstream_t =
  up_hello :: bytes
  up_ciphers :: ciphers

definition RESERVED_START :: "bytes list" where
  "RESERVED_START = [as_bytes ''HEAD'', as_bytes ''POST'', as_bytes ''GET '', as_bytes ''OPTI'',
     [0x16, 0x03, 0x01, 0x02], replicate 4 0xdd, replicate 4 0xee]"

definition is_reserved :: "bytes \<Rightarrow> bool" where
  "is_reserved rnd \<longleftrightarrow> rnd ! 0 = 0xef \<or> take 4 rnd \<in> set RESERVED_START \<or> slice 4 8 rnd = replicate 4 0"

text \<open>The drawing loop, over the draws the generator will give; \<open>None\<close> when they run out.\<close>

fun pick_draw :: "bytes list \<Rightarrow> bytes option" where
  "pick_draw [] = None"
| "pick_draw (r # rs) = (if is_reserved r then pick_draw rs else Some r)"

definition seal_hello :: "keystream \<Rightarrow> bytes \<Rightarrow> upstream_t" where
  "seal_hello ks rnd0 =
     (let rnd = write_at 56 PROTO_TAG_SECURE rnd0;
          fwd = key_iv (slice 8 56 rnd);
          rv = reversed_key_iv (slice 8 56 rnd);
          enc = new_ctr (take 32 fwd) (drop 32 fwd);
          dec = new_ctr (take 32 rv) (drop 32 rv);
          (sealed, enc) = apply_keystream ks rnd enc
      in \<lparr>up_hello = take 56 rnd @ drop 56 sealed, up_ciphers = \<lparr>c_dec = dec, c_enc = enc\<rparr>\<rparr>)"

definition upstream :: "keystream \<Rightarrow> bytes list \<Rightarrow> upstream_t option" where
  "upstream ks draws = map_option (seal_hello ks) (pick_draw draws)"

definition dc_addr :: "u16 \<Rightarrow> string option" where
  "dc_addr dc = (let a = nat \<bar>sint dc\<bar> in if a = 0 then None else get_at DCS (a - 1))"

subsection \<open>relay.rs\<close>

lemma read_app_data_shorter: "read_app_data rs = Some (d, rs') \<Longrightarrow> length rs' < length rs"
  by (induction rs rule: read_app_data.induct) (auto split: if_splits)

function read_header_loop :: "bytes \<Rightarrow> tls_record list \<Rightarrow> (bytes \<times> tls_record list) option" where
  "read_header_loop buf rs =
     (if length buf < HANDSHAKE_LEN then
        (case read_app_data rs of None \<Rightarrow> None | Some (d, rs') \<Rightarrow> read_header_loop (buf @ d) rs')
      else Some (buf, rs))"
  by pat_completeness auto
termination
  by (relation "measure (\<lambda>(buf, rs). length rs)") (auto dest: read_app_data_shorter)

declare read_header_loop.simps [simp del]

definition read_obfs2_header :: "tls_record list \<Rightarrow> (bytes \<times> bytes \<times> tls_record list) option" where
  "read_obfs2_header rs =
     map_option (\<lambda>(buf, rs'). (take HANDSHAKE_LEN buf, drop HANDSHAKE_LEN buf, rs')) (read_header_loop [] rs)"

text \<open>One chunk through a pair of ciphers: out of one session and into the other.\<close>

definition recrypt :: "keystream \<Rightarrow> bytes \<Rightarrow> aes_ctr \<times> aes_ctr \<Rightarrow> bytes \<times> aes_ctr \<times> aes_ctr" where
  "recrypt ks data = (\<lambda>(d, e).
     let (b, d) = apply_keystream ks data d; (b, e) = apply_keystream ks b e in (b, d, e))"

fun to_telegram :: "keystream \<Rightarrow> tls_record list \<Rightarrow> aes_ctr \<times> aes_ctr \<Rightarrow> bytes" where
  "to_telegram ks [] cs = []"
| "to_telegram ks (r # rs) cs =
     (if content_type r = CHANGE_CIPHER_SPEC then to_telegram ks rs cs
      else if content_type r = APPLICATION_DATA then
        (let (b, cs') = recrypt ks (rec_payload r) cs in b @ to_telegram ks rs cs')
      else [])"

fun to_client :: "keystream \<Rightarrow> bytes list \<Rightarrow> aes_ctr \<times> aes_ctr \<Rightarrow> tls_record list" where
  "to_client ks [] cs = []"
| "to_client ks (b # bs) cs =
     (if b = [] then [] else let (c, cs') = recrypt ks b cs in write_app_data c @ to_client ks bs cs')"

text \<open>
  The session: what the client is sent, where the egress connects and what it is sent first, and the two
  cipher pairs with the client's records that are left for the pumps. \<open>None\<close>: the drawing loop has not
  ended.
\<close>

datatype mt_outcome =
    MtDropped
  | MtAnswered bytes
  | MtRelaying bytes string bytes "aes_ctr \<times> aes_ctr" "aes_ctr \<times> aes_ctr" "tls_record list"

definition mt_serve ::
    "crypto \<Rightarrow> keystream \<Rightarrow> bytes \<Rightarrow> bytes \<Rightarrow> (string \<Rightarrow> bool) \<Rightarrow> (nat \<Rightarrow> bytes) \<Rightarrow> bytes list \<Rightarrow>
     tls_record list \<Rightarrow> tls_record list \<Rightarrow> (reality_error + mt_outcome) option" where
  "mt_serve cr ks digest secret egress_open fill draws dest_recs client_recs =
     (case read_dest_flight dest_recs of
        None \<Rightarrow> Some (Ok MtDropped)
      | Some flight \<Rightarrow>
          (case server_response cr digest flight secret (fill (df_app_len flight)) of
             None \<Rightarrow> Some (Err (RMalformed ''mtproxy server hello''))
           | Some response \<Rightarrow>
               (case read_obfs2_header client_recs of
                  None \<Rightarrow> Some (Ok (MtAnswered response))
                | Some (hs, early, rest) \<Rightarrow>
                    (case accept_client cr ks hs secret of
                       None \<Rightarrow> Some (Ok (MtAnswered response))
                     | Some session \<Rightarrow>
                         (case dc_addr (cs_dc session) of
                            None \<Rightarrow> Some (Ok (MtAnswered response))
                          | Some dc \<Rightarrow>
                              if \<not> egress_open dc then Some (Err RIo)
                              else map_option (\<lambda>up.
                                let cli = cs_ciphers session; tg = up_ciphers up;
                                    (sent, up_pair) =
                                      (if early = [] then ([], (c_dec cli, c_enc tg))
                                       else let (b, cs) = recrypt ks early (c_dec cli, c_enc tg) in (b, cs))
                                in Ok (MtRelaying response dc (up_hello up @ sent) up_pair
                                         (c_dec tg, c_enc cli) rest)) (upstream ks draws))))))"

section \<open>Lemmas\<close>

subsection \<open>Stream ciphers\<close>

lemma length_keystream [simp]: "length (fst (apply_keystream ks data c)) = length data"
  by (simp add: apply_keystream_def)

lemma apply_keystream_append:
  "apply_keystream ks (a @ b) c =
   (let (x, c) = apply_keystream ks a c; (y, c) = apply_keystream ks b c in (x @ y, c))"
proof (cases c)
  case (fields key iv p)
  have "[p..<p + length (a @ b)] = [p..<p + length a] @ [p + length a..<p + length a + length b]"
    using upt_add_eq_append [of p "p + length a" "length b"] by (simp add: add.assoc)
  then have "map2 (XOR) (a @ b) (map (ks key iv) [p..<p + length (a @ b)]) =
      map2 (XOR) a (map (ks key iv) [p..<p + length a]) @
      map2 (XOR) b (map (ks key iv) [p + length a..<p + length a + length b])"
    by (simp only: map_append) simp
  then show ?thesis
    unfolding fields apply_keystream_def Let_def prod.case aes_ctr.simps by (simp only: length_append add.assoc)
qed

lemma xor_twice: "length k = length d \<Longrightarrow> map2 (XOR) (map2 (XOR) d k) k = (d :: bytes)"
  by (induction k d rule: list_induct2) (simp_all add: xor.assoc)

lemma keystream_inverse: "fst (apply_keystream ks (fst (apply_keystream ks data c)) c) = data"
  by (simp add: apply_keystream_def xor_twice)

lemma keystream_state: "snd (apply_keystream ks data c) = c\<lparr>ctr_pos := ctr_pos c + length data\<rparr>"
  by (simp add: apply_keystream_def)

text \<open>Recrypting takes a tx from one session into the other, whatever the chunks.\<close>

lemma recrypt_text:
  assumes "data = fst (apply_keystream ks tx d)"
  shows "recrypt ks data (d, e) =
    (fst (apply_keystream ks tx e), snd (apply_keystream ks tx d), snd (apply_keystream ks tx e))"
proof -
  have "length data = length tx"
    by (simp add: assms)
  then show ?thesis
    using keystream_inverse [of ks tx d] assms
    by (simp add: recrypt_def split_beta Let_def keystream_state)
qed

subsection \<open>Application data\<close>

lemma concat_chunks: "0 < n \<Longrightarrow> concat (chunks_of n xs) = xs"
  by (induction n xs rule: chunks_of.induct) (subst chunks_of.simps, simp)

lemma length_chunks: "c \<in> set (chunks_of n xs) \<Longrightarrow> length c \<le> n \<and> c \<noteq> []"
proof (induction n xs rule: chunks_of.induct)
  case (1 n xs)
  then show ?case
    by (subst (asm) chunks_of.simps) (auto split: if_splits)
qed

text \<open>The bytes of the application-data records, up to the first record of another kind.\<close>

fun app_bytes :: "tls_record list \<Rightarrow> bytes" where
  "app_bytes [] = []"
| "app_bytes (r # rs) =
     (if content_type r = CHANGE_CIPHER_SPEC then app_bytes rs
      else if content_type r = APPLICATION_DATA then rec_payload r @ app_bytes rs
      else [])"

lemma record_types_differ [simp]: "CHANGE_CIPHER_SPEC \<noteq> APPLICATION_DATA" "APPLICATION_DATA \<noteq> CHANGE_CIPHER_SPEC"
  by (simp_all add: CHANGE_CIPHER_SPEC_def APPLICATION_DATA_def)

lemma app_bytes_written: "app_bytes (write_app_data data @ rs) = data @ app_bytes rs"
proof -
  have "app_bytes (map (\<lambda>c. \<lparr>content_type = APPLICATION_DATA, rec_payload = c\<rparr>) cs @ rs) = concat cs @ app_bytes rs" for cs
    by (induction cs) simp_all
  then show ?thesis
    by (simp add: write_app_data_def concat_chunks MAX_RECORD_PAYLOAD_def)
qed

lemma app_bytes_read: "read_app_data rs = Some (d, rs') \<Longrightarrow> app_bytes rs = d @ app_bytes rs'"
  by (induction rs rule: read_app_data.induct) (auto split: if_splits)

lemma app_bytes_header:
  "read_header_loop buf rs = Some (b, rs') \<Longrightarrow> HANDSHAKE_LEN \<le> length b \<and> buf @ app_bytes rs = b @ app_bytes rs'"
proof (induction buf rs rule: read_header_loop.induct)
  case (1 buf rs)
  show ?case
  proof (cases "length buf < HANDSHAKE_LEN")
    case True
    then obtain d rs1 where d: "read_app_data rs = Some (d, rs1)" "read_header_loop (buf @ d) rs1 = Some (b, rs')"
      using 1(2) by (subst (asm) read_header_loop.simps) (auto split: option.splits)
    then show ?thesis
      using 1(1) [OF True d(1) refl d(2)] app_bytes_read [OF d(1)] by simp
  next
    case False
    then show ?thesis
      using 1(2) by (subst (asm) read_header_loop.simps) auto
  qed
qed

lemma header_read:
  assumes "HANDSHAKE_LEN \<le> length (buf @ app_bytes rs)"
  shows "\<exists>b rs'. read_header_loop buf rs = Some (b, rs')"
  using assms
proof (induction buf rs rule: read_header_loop.induct)
  case (1 buf rs)
  show ?case
  proof (cases "length buf < HANDSHAKE_LEN")
    case True
    have "read_app_data rs \<noteq> None"
      using True 1(2) by (induction rs) (auto split: if_splits)
    then obtain d rs1 where d: "read_app_data rs = Some (d, rs1)"
      by auto
    from app_bytes_read [OF this] 1(1) [OF True d refl] 1(2) show ?thesis
      by (subst read_header_loop.simps) (simp add: True d)
  next
    case False
    then show ?thesis
      by (subst read_header_loop.simps) simp
  qed
qed

lemma obfs2_header:
  assumes "app_bytes rs = hs @ body" and "length hs = 64"
  shows "\<exists>early rest. read_obfs2_header rs = Some (hs, early, rest) \<and> body = early @ app_bytes rest"
proof -
  obtain b rest where b: "read_header_loop [] rs = Some (b, rest)"
    using header_read [of "[]" rs] assms by (auto simp: HANDSHAKE_LEN_def)
  from app_bytes_header [OF this] have "64 \<le> length b" "hs @ body = b @ app_bytes rest"
    using assms by (simp_all add: HANDSHAKE_LEN_def)
  then have "take 64 b = hs" "body = drop 64 b @ app_bytes rest"
    using assms(2) by (auto simp: append_eq_append_conv_if)
  then show ?thesis
    using b by (auto simp: read_obfs2_header_def HANDSHAKE_LEN_def)
qed

subsection \<open>The pumps\<close>

lemma to_telegram_text:
  assumes "app_bytes rs = fst (apply_keystream ks tx d)"
  shows "to_telegram ks rs (d, e) = fst (apply_keystream ks tx e)"
  using assms
proof (induction rs arbitrary: tx d e)
  case (Cons r rs)
  show ?case
  proof (cases "content_type r = APPLICATION_DATA")
    case True
    let ?n = "length (rec_payload r)"
    have len: "?n \<le> length tx"
      using Cons.prems True length_keystream [of ks tx d] by (metis app_bytes.simps(2) length_append le_add1 record_types_differ(2))
    define a b where "a = take ?n tx" and "b = drop ?n tx"
    have t: "tx = a @ b" and la: "length a = ?n"
      using len by (simp_all add: a_def b_def)
    have split: "fst (apply_keystream ks tx c) = fst (apply_keystream ks a c) @ fst (apply_keystream ks b (snd (apply_keystream ks a c)))" for c
      by (simp add: t apply_keystream_append split_beta Let_def)
    have p: "rec_payload r = fst (apply_keystream ks a d)" "app_bytes rs = fst (apply_keystream ks b (snd (apply_keystream ks a d)))"
      using Cons.prems True la split [of d] by simp_all
    show ?thesis
      using True recrypt_text [OF p(1), of e] Cons.IH [OF p(2)] split [of e] by (simp add: Let_def)
  next
    case False
    then show ?thesis
      using Cons by (auto simp: apply_keystream_def split: if_splits)
  qed
qed (auto simp: apply_keystream_def)

lemma to_client_text:
  assumes "concat bs = fst (apply_keystream ks tx d)" and "[] \<notin> set bs"
  shows "app_bytes (to_client ks bs (d, e)) = fst (apply_keystream ks tx e)"
  using assms
proof (induction bs arbitrary: tx d e)
  case (Cons c bs)
  let ?n = "length c"
  have len: "?n \<le> length tx"
    using Cons.prems(1) length_keystream [of ks tx d] by (metis concat.simps(2) length_append le_add1)
  define a b where "a = take ?n tx" and "b = drop ?n tx"
  have t: "tx = a @ b" and la: "length a = ?n"
    using len by (simp_all add: a_def b_def)
  have split: "fst (apply_keystream ks tx c) = fst (apply_keystream ks a c) @ fst (apply_keystream ks b (snd (apply_keystream ks a c)))" for c
    by (simp add: t apply_keystream_append split_beta Let_def)
  have p: "c = fst (apply_keystream ks a d)" "concat bs = fst (apply_keystream ks b (snd (apply_keystream ks a d)))"
    using Cons.prems(1) la split [of d] by simp_all
  show ?case
    using Cons.prems(2) recrypt_text [OF p(1), of e] Cons.IH [OF p(2)] split [of e]
    by (auto simp: Let_def app_bytes_written)
qed (auto simp: apply_keystream_def)

subsection \<open>The signed ClientHello of a Telegram client\<close>

definition le32_bytes :: "u32 \<Rightarrow> bytes" where
  "le32_bytes w = rev (u32_to_be w)"

definition hello_record :: "bytes \<Rightarrow> bytes \<Rightarrow> bytes \<Rightarrow> bytes" where
  "hello_record pre rnd post =
     [HANDSHAKE, 0x03, 0x01] @ u16_to_be (of_nat (length (pre @ rnd @ post))) @ pre @ rnd @ post"

definition signed_hello :: "crypto \<Rightarrow> bytes \<Rightarrow> bytes \<Rightarrow> u32 \<Rightarrow> bytes \<Rightarrow> bytes" where
  "signed_hello cr secret pre ts post =
     (let mac = cr_hmac cr SHA256 secret (hello_record pre (replicate 32 0) post)
      in pre @ take 28 mac @ map2 (XOR) (drop 28 mac) (le32_bytes ts) @ post)"

lemma le32_inverse: "le32 (le32_bytes w) = w"
  by (simp add: le32_def le32_bytes_def)

lemma le32_inverse': "length bs = 4 \<Longrightarrow> le32_bytes (le32 bs) = bs"
  by (simp add: le32_def le32_bytes_def u32_to_from_be)

lemma xor_solve:
  fixes a b c :: bytes
  assumes "length a = n" and "length b = n" and "length c = n"
  shows "map2 (XOR) a b = c \<longleftrightarrow> a = map2 (XOR) b c"
proof -
  have "map2 (XOR) x (map2 (XOR) x y) = y" if "length x = length y" for x y :: bytes
    using that by (induction x y rule: list_induct2) (simp_all add: xor.assoc [symmetric])
  moreover have "map2 (XOR) x y = map2 (XOR) y x" if "length x = length y" for x y :: bytes
    using that by (induction x y rule: list_induct2) (simp_all add: xor.commute)
  ultimately show ?thesis
    using assms by metis
qed

lemma authenticate_parts:
  fixes secret :: bytes
  assumes "length pre = 6" and "length rnd = 32" and "length post < 2 ^ 16 - 38" and "hkdf_sizes cr"
  defines "mac \<equiv> cr_hmac cr SHA256 secret (hello_record pre (replicate 32 0) post)"
  shows "faketls_authenticate cr (pre @ rnd @ post) secret now skew =
    (if take 28 mac = take 28 rnd \<and> ucast (abs_diff32 now (le32 (map2 (XOR) (drop 28 rnd) (drop 28 mac)))) \<le> skew
     then Some rnd else None)"
proof -
  have rec: "hello_record pre rnd post = ([HANDSHAKE, 3, 1] @ u16_to_be (of_nat (38 + length post)) @ pre) @ rnd @ post"
    if "length rnd = 32" for rnd
    using that assms(1) by (simp add: hello_record_def)
  have "slice 11 43 (hello_record pre rnd post) = rnd"
    using assms(1,2) by (simp add: rec slice_def)
  moreover have "set_random (replicate 32 0) (hello_record pre rnd post) = hello_record pre (replicate 32 0) post"
    using assms(1,2) by (simp add: rec set_random_def write_at_def)
  moreover have "[HANDSHAKE, 3, 1] @ u16_to_be (of_nat (length (pre @ rnd @ post))) @ pre @ rnd @ post = hello_record pre rnd post"
    by (simp add: hello_record_def)
  moreover have "length (hello_record pre rnd post) = 43 + length post"
    using assms(1,2) by (simp add: rec)
  moreover have "\<not> 2 ^ 16 \<le> length (pre @ rnd @ post)"
    using assms(1-3) by simp
  ultimately show ?thesis
    unfolding faketls_authenticate_def mt_hmac_def mac_def Let_def by simp
qed

subsection \<open>The other ends of the relay\<close>

text \<open>
  What a Telegram client sends first, made from 64 bytes that carry the tag and the DC: the tail is
  encrypted. \<open>tail_cipher\<close> is the cipher of both ends, with or without the secret.
\<close>

definition tg_hello :: "keystream \<Rightarrow> aes_ctr \<Rightarrow> bytes \<Rightarrow> bytes" where
  "tg_hello ks enc rnd = take 56 rnd @ drop 56 (fst (apply_keystream ks rnd enc))"

definition client_enc :: "crypto \<Rightarrow> bytes \<Rightarrow> bytes \<Rightarrow> aes_ctr" where
  "client_enc cr secret rnd = new_ctr (keyed cr (slice 8 40 rnd) secret) (slice 40 56 rnd)"

definition client_dec :: "crypto \<Rightarrow> bytes \<Rightarrow> bytes \<Rightarrow> aes_ctr" where
  "client_dec cr secret rnd =
     new_ctr (keyed cr (take 32 (rev (slice 8 56 rnd))) secret) (drop 32 (rev (slice 8 56 rnd)))"

lemma keystream_split:
  "fst (apply_keystream ks (a @ b) c) =
   fst (apply_keystream ks a c) @ fst (apply_keystream ks b (c\<lparr>ctr_pos := ctr_pos c + length a\<rparr>))"
  by (simp add: apply_keystream_append split_beta Let_def keystream_state)

lemma tail_decrypts:
  assumes "length rnd = 64"
  shows "drop 56 (fst (apply_keystream ks (tg_hello ks c rnd) c)) = drop 56 rnd"
proof -
  let ?a = "take 56 rnd" and ?b = "drop 56 rnd"
  have ab: "rnd = ?a @ ?b" "length ?a = 56"
    using assms by simp_all
  have "fst (apply_keystream ks rnd c) = fst (apply_keystream ks ?a c) @ fst (apply_keystream ks ?b (c\<lparr>ctr_pos := ctr_pos c + 56\<rparr>))"
    using keystream_split [of ks ?a ?b c] ab by simp
  then have "drop 56 (fst (apply_keystream ks rnd c)) = fst (apply_keystream ks ?b (c\<lparr>ctr_pos := ctr_pos c + 56\<rparr>))"
    using ab(2) by simp
  then have "tg_hello ks c rnd = ?a @ fst (apply_keystream ks ?b (c\<lparr>ctr_pos := ctr_pos c + 56\<rparr>))"
    by (simp add: tg_hello_def)
  then show ?thesis
    using ab(2) by (simp add: keystream_split keystream_inverse)
qed

lemma accept_client_wire:
  assumes "length rnd = 64" and "slice 56 60 rnd = PROTO_TAG_SECURE"
  shows "accept_client cr ks (tg_hello ks (client_enc cr secret rnd) rnd) secret =
    Some \<lparr>cs_ciphers = \<lparr>c_dec = (client_enc cr secret rnd)\<lparr>ctr_pos := 64\<rparr>, c_enc = client_dec cr secret rnd\<rparr>,
          cs_dc = u16_from_be [rnd ! 61, rnd ! 60]\<rparr>"
proof -
  let ?e = "client_enc cr secret rnd" and ?w = "tg_hello ks (client_enc cr secret rnd) rnd"
  let ?p = "fst (apply_keystream ks ?w ?e)"
  have w: "slice 8 56 ?w = slice 8 56 rnd" "length ?w = 64"
    using assms(1) by (simp_all add: tg_hello_def slice_def drop_take)
  have e: "new_ctr (keyed cr (take 32 (slice 8 56 rnd)) secret) (drop 32 (slice 8 56 rnd)) = ?e"
    using assms(1) by (simp add: client_enc_def slice_def take_drop min_def)
  have d: "drop 56 ?p = drop 56 rnd" and p: "length ?p = 64"
    using tail_decrypts [OF assms(1)] w(2) by simp_all
  have "?p ! (56 + i) = rnd ! (56 + i)" for i
    using nth_drop [of 56 ?p i] nth_drop [of 56 rnd i] d p assms(1) by simp
  note nth = this
  have "slice 56 60 ?p = PROTO_TAG_SECURE" "?p ! 60 = rnd ! 60" "?p ! 61 = rnd ! 61"
    using nth [of 4] nth [of 5] d assms(2) by (simp_all add: slice_def)
  moreover have "ctr_pos ?e = 0"
    by (simp add: client_enc_def new_ctr_def)
  ultimately show ?thesis
    by (simp add: accept_client_def w key_iv_def reversed_key_iv_def e Let_def split_beta keystream_state
        flip: client_dec_def)
qed

section \<open>Properties\<close>

text \<open>
  C16. The front door accepts exactly the ClientHellos a holder of the secret signed within the time
  window: a payload authenticates, with its random as the digest, if and only if it is the one a Telegram
  client makes from the other bytes and some time at most the allowed skew from now.
\<close>

theorem mtproxy_authenticates:
  assumes "hkdf_sizes cr" and "length pre = 6" and "length rnd = 32" and "length post < 2 ^ 16 - 38"
  shows "faketls_authenticate cr (pre @ rnd @ post) secret now skew =
    (if \<exists>ts. ucast (abs_diff32 now ts) \<le> skew \<and> pre @ rnd @ post = signed_hello cr secret pre ts post
     then Some rnd else None)"
proof -
  let ?mac = "cr_hmac cr SHA256 secret (hello_record pre (replicate 32 0) post)"
  have mac: "length ?mac = 32"
    using assms(1) by (simp add: hkdf_sizes_def hash_alg_len_def)
  have signed: "pre @ rnd @ post = signed_hello cr secret pre ts post \<longleftrightarrow>
      take 28 ?mac = take 28 rnd \<and> le32 (map2 (XOR) (drop 28 rnd) (drop 28 ?mac)) = ts" for ts
  proof -
    have "pre @ rnd @ post = signed_hello cr secret pre ts post \<longleftrightarrow>
        take 28 rnd @ drop 28 rnd = take 28 ?mac @ map2 (XOR) (drop 28 ?mac) (le32_bytes ts)"
      using assms(3) mac by (simp add: signed_hello_def Let_def)
    also have "\<dots> \<longleftrightarrow> take 28 rnd = take 28 ?mac \<and> drop 28 rnd = map2 (XOR) (drop 28 ?mac) (le32_bytes ts)"
      using assms(3) mac by (subst append_eq_append_conv) simp_all
    also have "drop 28 rnd = map2 (XOR) (drop 28 ?mac) (le32_bytes ts) \<longleftrightarrow>
        map2 (XOR) (drop 28 rnd) (drop 28 ?mac) = le32_bytes ts"
      using xor_solve [of "drop 28 rnd" 4 "drop 28 ?mac" "le32_bytes ts"] assms(3) mac
      by (simp add: le32_bytes_def)
    also have "\<dots> \<longleftrightarrow> le32 (map2 (XOR) (drop 28 rnd) (drop 28 ?mac)) = ts"
      using le32_inverse [of ts] le32_inverse' [of "map2 (XOR) (drop 28 rnd) (drop 28 ?mac)"] assms(3) mac by auto
    finally show ?thesis
      by auto
  qed
  show ?thesis
    unfolding authenticate_parts [OF assms(2-4,1)] by (auto simp: signed)
qed

definition sample_random :: bytes where
  "sample_random = replicate 28 0 @ [7, 0, 0, 0]"

theorem mtproxy_authenticates_witness:
  "faketls_authenticate plain_crypto (replicate 6 1 @ sample_random @ [9]) (replicate 16 3) 7 0 = Some sample_random"
proof -
  have z: "replicate 4 (0 :: u8) = [0, 0, 0, 0]" and le: "le32_bytes 7 = [7, 0, 0, 0]"
    by code_simp+
  have "take 28 (replicate 32 (0 :: u8)) = replicate 28 0" "drop 28 (replicate 32 (0 :: u8)) = replicate 4 0"
    by simp_all
  then have "signed_hello plain_crypto (replicate 16 3) (replicate 6 1) 7 [9] = replicate 6 1 @ sample_random @ [9]"
    unfolding signed_hello_def sample_random_def le by (simp add: plain_crypto_def hash_alg_len_def z)
  then have "\<exists>ts. ucast (abs_diff32 7 ts) \<le> (0 :: u64) \<and>
      replicate 6 1 @ sample_random @ [9] = signed_hello plain_crypto (replicate 16 3) (replicate 6 1) ts [9]"
    by (intro exI [of _ 7]) (simp add: abs_diff32_def)
  then show ?thesis
    using mtproxy_authenticates [OF plain_crypto_ok(2), of "replicate 6 1" sample_random "[9]" "replicate 16 3" 7 0]
    by (simp only: if_True length_replicate) (simp add: sample_random_def)
qed

text \<open>
  The proxy's answer convinces the client and looks like the borrowed site: it is the site's
  ServerHello with only the 32 random bytes replaced, a ChangeCipherSpec and one application-data record
  of the size of the site's flight, and the random is the MAC of the client's digest and the answer with
  a zero random.
\<close>

theorem mtproxy_answer:
  assumes "hkdf_sizes cr" and "read_dest_flight recs = Some flight" and "record_fits (hd recs)"
    and "length fill = df_app_len flight"
  shows "\<exists>resp. server_response cr digest flight secret fill = Some resp \<and>
    slice 11 43 resp = cr_hmac cr SHA256 secret (digest @ set_random (replicate 32 0) resp) \<and>
    take 11 resp = take 11 (record_bytes (hd recs)) \<and>
    drop 43 resp = drop 43 (record_bytes (hd recs)) @ [0x14, 3, 3, 0, 1, 1, 0x17, 3, 3] @
      u16_to_be (of_nat (df_app_len flight)) @ fill \<and>
    0 < df_app_len flight \<and> df_app_len flight \<le> 16384"
proof -
  obtain sh rest n where recs: "recs = sh # rest" and sh: "df_server_hello flight = sh" "38 \<le> length (rec_payload sh)"
    and n: "0 < n" "df_app_len flight = min n 16384"
    using assms(2) by (auto simp: read_dest_flight_def Let_def MAX_RECORD_PAYLOAD_def bind_eq_Some_conv
        split: list.splits if_splits)
  define b where "b = record_bytes sh"
  have b: "encode_record sh = Some b" "43 \<le> length b"
    using assms(3) sh(2) by (simp_all add: b_def recs record_fits_def record_sizes encode_record_def record_bytes_def)
  define tl where "tl = [0x14, 3, 3, 0, 1, 1, 0x17, 3, 3] @ u16_to_be (of_nat (df_app_len flight)) @ fill"
  define out where "out = set_random (replicate 32 0) b @ tl"
  define mac where "mac = cr_hmac cr SHA256 secret (digest @ out)"
  have mac: "length mac = 32"
    using assms(1) by (simp add: mac_def hkdf_sizes_def hash_alg_len_def)
  have out: "out = take 11 b @ replicate 32 0 @ drop 43 b @ tl"
    using b(2) by (simp add: out_def set_random_def write_at_def)
  have resp: "server_response cr digest flight secret fill = Some (set_random mac out)"
    using b n(2) by (simp add: server_response_def sh(1) mt_hmac_def Let_def CHANGE_CIPHER_SPEC_def
        APPLICATION_DATA_def mac_def out_def tl_def)
  have r: "set_random mac out = take 11 b @ mac @ drop 43 b @ tl"
    using b(2) mac by (simp add: out set_random_def write_at_def)
  have "set_random (replicate 32 0) (set_random mac out) = out"
    using b(2) mac by (simp add: r out set_random_def write_at_def)
  then have "slice 11 43 (set_random mac out) = cr_hmac cr SHA256 secret (digest @ set_random (replicate 32 0) (set_random mac out))"
    using b(2) mac by (simp add: r slice_def flip: mac_def)
  then show ?thesis
    using resp b(2) mac n unfolding tl_def [symmetric] by (auto simp: r recs b_def [symmetric])
qed

definition site_hello :: tls_record where
  "site_hello = \<lparr>content_type = HANDSHAKE, rec_payload = 2 # replicate 40 0\<rparr>"

definition site_flight :: tls_record where
  "site_flight = \<lparr>content_type = APPLICATION_DATA, rec_payload = [1, 2, 3]\<rparr>"

theorem mtproxy_answer_witness:
  "\<exists>resp. server_response plain_crypto (replicate 32 1) \<lparr>df_server_hello = site_hello, df_app_len = 3\<rparr>
      (replicate 16 3) [4, 5, 6] = Some resp"
proof -
  have "flight_loop 8 [site_flight] 0 = Some 3"
    by (simp add: site_flight_def numeral_eq_Suc)
  moreover have "replicate 32 0 \<noteq> HRR_RANDOM"
    by code_simp
  ultimately have "read_dest_flight [site_hello, site_flight] = Some \<lparr>df_server_hello = site_hello, df_app_len = 3\<rparr>"
    by (simp add: read_dest_flight_def site_hello_def get_at_def slice_def FLIGHT_MAX_RECORDS_def
        MAX_RECORD_PAYLOAD_def Let_def)
  moreover have "record_fits site_hello"
    by (simp add: record_fits_def site_hello_def record_sizes)
  ultimately show ?thesis
    using mtproxy_answer [OF plain_crypto_ok(2), of "[site_hello, site_flight]" _ "[4, 5, 6]"] by fastforce
qed

text \<open>
  C15. The relay is transparent: when a holder of the secret has opened a session to a production DC, the
  proxy connects to that DC, and whatever the records and reads the bytes arrive in, what the DC decrypts
  after its handshake is the text the client encrypted, and what the client decrypts is the text the DC
  encrypted.
\<close>

theorem mtproxy_transparent:
  assumes "length rnd = 64" and "slice 56 60 rnd = PROTO_TAG_SECURE"
    and "dc_addr (u16_from_be [rnd ! 61, rnd ! 60]) = Some dc" and "egress_open dc"
    and "read_dest_flight dest_recs = Some flight" and "server_response cr digest flight secret (fill (df_app_len flight)) = Some resp"
    and "upstream ks draws = Some up"
    and "app_bytes recs = tg_hello ks (client_enc cr secret rnd) rnd @
      fst (apply_keystream ks up_text ((client_enc cr secret rnd)\<lparr>ctr_pos := 64\<rparr>))"
    and "concat reads = fst (apply_keystream ks down_text (c_dec (up_ciphers up)))" and "[] \<notin> set reads"
  shows "\<exists>sent p q rest.
    mt_serve cr ks digest secret egress_open fill draws dest_recs recs = Some (Ok (MtRelaying resp dc sent p q rest)) \<and>
    sent @ to_telegram ks rest p = up_hello up @ fst (apply_keystream ks up_text (c_enc (up_ciphers up))) \<and>
    app_bytes (to_client ks reads q) = fst (apply_keystream ks down_text (client_dec cr secret rnd))"
proof -
  let ?ce = "client_enc cr secret rnd" and ?tg = "up_ciphers up"
  let ?w = "tg_hello ks ?ce rnd" and ?d = "(client_enc cr secret rnd)\<lparr>ctr_pos := 64\<rparr>"
  have "length ?w = 64"
    using assms(1) by (simp add: tg_hello_def)
  from obfs2_header [OF assms(8) this] obtain early rest where
    hd: "read_obfs2_header recs = Some (?w, early, rest)" and body: "fst (apply_keystream ks up_text ?d) = early @ app_bytes rest"
    by blast
  define a b where "a = take (length early) up_text" and "b = drop (length early) up_text"
  have len: "length early \<le> length up_text"
    using body length_keystream [of ks up_text ?d] by (metis length_append le_add1)
  then have ab: "up_text = a @ b" "length a = length early"
    by (simp_all add: a_def b_def)
  have split: "fst (apply_keystream ks up_text c) =
      fst (apply_keystream ks a c) @ fst (apply_keystream ks b (snd (apply_keystream ks a c)))" for c
    by (simp add: ab(1) keystream_split keystream_state)
  have e: "early = fst (apply_keystream ks a ?d)" "app_bytes rest = fst (apply_keystream ks b (snd (apply_keystream ks a ?d)))"
    using body split [of ?d] ab(2) by simp_all
  have r: "recrypt ks early (?d, c_enc ?tg) =
      (fst (apply_keystream ks a (c_enc ?tg)), snd (apply_keystream ks a ?d), snd (apply_keystream ks a (c_enc ?tg)))"
    by (rule recrypt_text [OF e(1)])
  have nil: "a = []" if "early = []"
    using that ab(2) by simp
  let ?p = "(snd (apply_keystream ks a ?d), snd (apply_keystream ks a (c_enc ?tg)))"
  have serve: "mt_serve cr ks digest secret egress_open fill draws dest_recs recs =
      Some (Ok (MtRelaying resp dc (up_hello up @ fst (apply_keystream ks a (c_enc ?tg))) ?p
        (c_dec ?tg, client_dec cr secret rnd) rest))"
    using assms(3-7) accept_client_wire [OF assms(1,2), of cr ks secret] hd r nil
    by (auto simp: mt_serve_def Let_def apply_keystream_def)
  show ?thesis
    using serve to_telegram_text [OF e(2)] split [of "c_enc ?tg"] to_client_text [OF assms(9,10)] by force
qed

definition zero_ks :: keystream where
  "zero_ks key iv i = 0"

lemma zero_ks_text: "fst (apply_keystream zero_ks data c) = data"
proof -
  have "map2 (XOR) d (replicate (length d) 0) = d" for d :: bytes
    by (induction d) simp_all
  moreover have "zero_ks key iv = (\<lambda>i. 0)" for key iv
    by (simp add: fun_eq_iff zero_ks_def)
  ultimately show ?thesis
    by (simp add: apply_keystream_def map_replicate_const)
qed

definition sample_start :: bytes where
  "sample_start = replicate 56 1 @ PROTO_TAG_SECURE @ [2, 0, 0, 0]"

theorem mtproxy_transparent_witness:
  "\<exists>resp sent p q rest. mt_serve plain_crypto zero_ks (replicate 32 1) (replicate 16 3) (\<lambda>dc. True) (\<lambda>n. replicate n 0)
      [replicate 64 1] [site_hello, site_flight]
      [\<lparr>content_type = APPLICATION_DATA, rec_payload = sample_start @ [5]\<rparr>] =
     Some (Ok (MtRelaying resp ''149.154.167.51:443'' sent p q rest))"
proof -
  let ?fl = "\<lparr>df_server_hello = site_hello, df_app_len = 3\<rparr>"
  have fl: "flight_loop 8 [site_flight] 0 = Some 3" "replicate 32 0 \<noteq> HRR_RANDOM"
    by (simp add: site_flight_def numeral_eq_Suc) code_simp
  then have flight: "read_dest_flight [site_hello, site_flight] = Some ?fl"
    by (simp add: read_dest_flight_def site_hello_def get_at_def slice_def FLIGHT_MAX_RECORDS_def
        MAX_RECORD_PAYLOAD_def Let_def)
  obtain resp where resp: "server_response plain_crypto (replicate 32 1) ?fl (replicate 16 3) (replicate 3 0) = Some resp"
    by (simp add: server_response_def site_hello_def encode_record_def record_bytes_def Let_def)
  have nr: "is_reserved (replicate 64 1) = False" and dc: "dc_addr (u16_from_be [0, 2]) = Some ''149.154.167.51:443''"
    by code_simp+
  from nr obtain up where up: "upstream zero_ks [replicate 64 1] = Some up"
    by (simp add: upstream_def)
  have st: "length sample_start = 64" "slice 56 60 sample_start = PROTO_TAG_SECURE"
    "sample_start ! 61 = 0" "sample_start ! 60 = 2"
    by (simp_all add: sample_start_def PROTO_TAG_SECURE_def slice_def nth_append)
  have hello: "tg_hello zero_ks c sample_start = sample_start" for c
    by (simp add: tg_hello_def zero_ks_text)
  show ?thesis
    using mtproxy_transparent [OF st(1,2), of "''149.154.167.51:443''" "\<lambda>dc. True" "[site_hello, site_flight]" ?fl
        plain_crypto "replicate 32 1" "replicate 16 3" "\<lambda>n. replicate n 0" resp zero_ks "[replicate 64 1]" up
        "[\<lparr>content_type = APPLICATION_DATA, rec_payload = sample_start @ [5]\<rparr>]" "[5]" "[]" "[]"]
      flight resp up dc by (auto simp: st hello zero_ks_text)
qed

end
