(* ===== verification/Replay.thy ===== *)
theory Replay
  imports Prelude
begin

text \<open>
  The replay guard, \<open>crates/leshiy-reality/src/replay.rs\<close>: the keys of recently accepted ClientHellos, in
  order of arrival (\<open>VecDeque\<close>, a list with the front first) beside a membership index (\<open>HashSet\<close>, a
  set). The mutex makes each call atomic: a call is a function of the guard's state. Times are \<open>u64\<close>
  seconds, \<open>saturating_sub\<close> is written out.

  \<open>scan_check\<close> is the guard without the index, with a scan over the queue. The locale \<open>replay_filter\<close> is
  what a caller relies on; the guard interprets it.
\<close>

section \<open>Definitions\<close>

type_synonym replay_key_t = bytes

definition replay_key :: "bytes \<Rightarrow> bytes \<Rightarrow> replay_key_t option" where
  "replay_key rnd session_id =
     (if length rnd \<noteq> 32 \<or> length session_id \<noteq> 32 then None else Some (rnd @ session_id))"

record replay_guard =
  ttl_secs :: u64
  max_entries :: nat
  rg_order :: "(replay_key_t \<times> u64) list"
  rg_present :: "replay_key_t set"

definition replay_new :: "u64 \<Rightarrow> replay_guard" where
  "replay_new ttl = \<lparr>ttl_secs = ttl, max_entries = 100000, rg_order = [], rg_present = {}\<rparr>"

text \<open>The eviction loop: pop the front while it is older than the cutoff.\<close>

fun evict :: "u64 \<Rightarrow> (replay_key_t \<times> u64) list \<Rightarrow> replay_key_t set \<Rightarrow> (replay_key_t \<times> u64) list \<times> replay_key_t set" where
  "evict cutoff [] present = ([], present)"
| "evict cutoff ((k, ts) # rest) present =
     (if ts < cutoff then evict cutoff rest (present - {k}) else ((k, ts) # rest, present))"

text \<open>Dropping the oldest entry when the guard is full.\<close>

definition cap_oldest :: "nat \<Rightarrow> (replay_key_t \<times> u64) list \<Rightarrow> replay_key_t set \<Rightarrow> (replay_key_t \<times> u64) list \<times> replay_key_t set" where
  "cap_oldest cap order present =
     (if cap \<le> length order then
        (case order of
           [] \<Rightarrow> (order, present)
         | (old, _) # rest \<Rightarrow> (rest, present - {old}))
      else (order, present))"

definition check_and_record :: "replay_key_t \<Rightarrow> u64 \<Rightarrow> replay_guard \<Rightarrow> bool \<times> replay_guard" where
  "check_and_record key now g =
     (let cutoff = sat_sub64 now (ttl_secs g);
          (order, present) = evict cutoff (rg_order g) (rg_present g) in
      if key \<in> present then (True, g\<lparr>rg_order := order, rg_present := present\<rparr>)
      else let (order, present) = cap_oldest (max_entries g) order present in
        (False, g\<lparr>rg_order := order @ [(key, now)], rg_present := insert key present\<rparr>))"

section \<open>The guard without its index\<close>

definition scan_evict :: "u64 \<Rightarrow> (replay_key_t \<times> u64) list \<Rightarrow> (replay_key_t \<times> u64) list" where
  "scan_evict cutoff log = dropWhile (\<lambda>(k, ts). ts < cutoff) log"

definition scan_check :: "u64 \<Rightarrow> nat \<Rightarrow> replay_key_t \<Rightarrow> u64 \<Rightarrow> (replay_key_t \<times> u64) list \<Rightarrow> bool \<times> (replay_key_t \<times> u64) list" where
  "scan_check ttl cap key now log =
     (let live = scan_evict (sat_sub64 now ttl) log in
      if key \<in> fst ` set live then (True, live)
      else (False, (if cap \<le> length live then tl live else live) @ [(key, now)]))"

section \<open>Lockstep\<close>

definition guard_inv :: "replay_guard \<Rightarrow> bool" where
  "guard_inv g \<longleftrightarrow> distinct (map fst (rg_order g)) \<and> rg_present g = fst ` set (rg_order g) \<and>
     length (rg_order g) \<le> max_entries g \<and> 0 < max_entries g"

lemma replay_new_inv: "guard_inv (replay_new ttl)"
  by (simp add: guard_inv_def replay_new_def)

lemma evict_lockstep:
  assumes "distinct (map fst order)"
  shows "evict c order (fst ` set order) = (scan_evict c order, fst ` set (scan_evict c order))"
  using assms
proof (induction order)
  case (Cons e order)
  obtain k ts where e: "e = (k, ts)"
    by (cases e)
  have "insert k (fst ` set order) - {k} = fst ` set order"
    using Cons.prems by (auto simp: e image_iff)
  then show ?case
    using Cons by (simp add: e scan_evict_def)
qed (simp add: scan_evict_def)

lemma cap_lockstep:
  assumes "distinct (map fst order)" and "0 < cap"
  shows "cap_oldest cap order (fst ` set order) =
    ((if cap \<le> length order then tl order else order),
     fst ` set (if cap \<le> length order then tl order else order))"
proof (cases order)
  case (Cons e rest)
  then have "insert (fst e) (fst ` set rest) - {fst e} = fst ` set rest"
    using assms(1) by (auto simp: image_iff)
  then show ?thesis
    using Cons by (simp add: cap_oldest_def split_beta)
qed (use assms in \<open>simp add: cap_oldest_def\<close>)

lemma scan_evict_suffix: "\<exists>a. log = a @ scan_evict c log \<and> (\<forall>(k, ts)\<in>set a. ts < c)"
  unfolding scan_evict_def
  by (rule exI [of _ "takeWhile (\<lambda>(k, ts). ts < c) log"]) (auto dest: set_takeWhileD)

lemma scan_evict_sub: "length (scan_evict c log) \<le> length log" "distinct (map fst log) \<Longrightarrow> distinct (map fst (scan_evict c log))"
proof -
  obtain a where a: "log = a @ scan_evict c log"
    using scan_evict_suffix by blast
  have "length log = length a + length (scan_evict c log)"
    by (subst a) simp
  then show "length (scan_evict c log) \<le> length log"
    by simp
  assume "distinct (map fst log)"
  then have "distinct (map fst (a @ scan_evict c log))"
    using a by simp
  then show "distinct (map fst (scan_evict c log))"
    by simp
qed

lemma check_refines:
  assumes "guard_inv g"
  shows "fst (check_and_record key now g) = fst (scan_check (ttl_secs g) (max_entries g) key now (rg_order g))"
    and "rg_order (snd (check_and_record key now g)) = snd (scan_check (ttl_secs g) (max_entries g) key now (rg_order g))"
    and "guard_inv (snd (check_and_record key now g))"
    and "ttl_secs (snd (check_and_record key now g)) = ttl_secs g"
    and "max_entries (snd (check_and_record key now g)) = max_entries g"
proof -
  let ?live = "scan_evict (sat_sub64 now (ttl_secs g)) (rg_order g)"
  let ?kept = "if max_entries g \<le> length ?live then tl ?live else ?live"
  have d: "distinct (map fst (rg_order g))" "distinct (map fst ?live)" "0 < max_entries g"
    and len: "length ?live \<le> max_entries g"
    using assms scan_evict_sub [where log = "rg_order g"] by (auto simp: guard_inv_def intro: order_trans)
  have ev: "evict (sat_sub64 now (ttl_secs g)) (rg_order g) (rg_present g) = (?live, fst ` set ?live)"
    using assms evict_lockstep [OF d(1)] by (simp add: guard_inv_def)
  have step: "check_and_record key now g =
      (if key \<in> fst ` set ?live then (True, g\<lparr>rg_order := ?live, rg_present := fst ` set ?live\<rparr>)
       else (False, g\<lparr>rg_order := ?kept @ [(key, now)], rg_present := insert key (fst ` set ?kept)\<rparr>))"
    unfolding check_and_record_def Let_def ev prod.case cap_lockstep [OF d(2,3)] by simp
  show "fst (check_and_record key now g) = fst (scan_check (ttl_secs g) (max_entries g) key now (rg_order g))"
    "rg_order (snd (check_and_record key now g)) = snd (scan_check (ttl_secs g) (max_entries g) key now (rg_order g))"
    "ttl_secs (snd (check_and_record key now g)) = ttl_secs g"
    "max_entries (snd (check_and_record key now g)) = max_entries g"
    unfolding step scan_check_def Let_def by simp_all
  have kept: "distinct (map fst ?kept)" "length ?kept < max_entries g" "set ?kept \<subseteq> set ?live"
    using d len by (auto simp: distinct_tl map_tl dest: list.set_sel(2) [rotated])
  show "guard_inv (snd (check_and_record key now g))"
    unfolding step using d len kept by (auto simp: guard_inv_def)
qed

section \<open>What a caller relies on\<close>

text \<open>A caller's calls, each with its key and the time of the call.\<close>

primrec run_checks :: "('k \<Rightarrow> u64 \<Rightarrow> 's \<Rightarrow> bool \<times> 's) \<Rightarrow> ('k \<times> u64) list \<Rightarrow> 's \<Rightarrow> 's" where
  "run_checks check [] s = s"
| "run_checks check (c # cs) s = run_checks check cs (snd (check (fst c) (snd c) s))"

text \<open>
  \<open>holds s k t n\<close>: the filter \<open>s\<close> remembers the key \<open>k\<close>, recorded at time \<open>t\<close>, and \<open>n\<close> further calls
  do not push it out.
\<close>

locale replay_filter =
  fixes check :: "'k \<Rightarrow> u64 \<Rightarrow> 's \<Rightarrow> bool \<times> 's"
    and inv :: "'s \<Rightarrow> bool"
    and holds :: "'s \<Rightarrow> 'k \<Rightarrow> u64 \<Rightarrow> nat \<Rightarrow> bool"
    and ttl :: nat
    and cap :: nat
  assumes keeps_inv: "inv s \<Longrightarrow> inv (snd (check k now s))"
    and records: "inv s \<Longrightarrow> \<not> fst (check k now s) \<Longrightarrow> holds (snd (check k now s)) k now (cap - 1)"
    and keeps: "holds s k t (Suc n) \<Longrightarrow> unat now \<le> unat t + ttl \<Longrightarrow> holds (snd (check k' now s)) k t n"
    and detects: "holds s k t n \<Longrightarrow> unat now \<le> unat t + ttl \<Longrightarrow> fst (check k now s)"
begin

lemma run_inv: "inv s \<Longrightarrow> inv (run_checks check cs s)"
  by (induction cs arbitrary: s) (simp_all add: keeps_inv)

lemma run_keeps:
  "holds s k t (length cs + n) \<Longrightarrow> list_all (\<lambda>c. unat (snd c) \<le> unat t + ttl) cs \<Longrightarrow> holds (run_checks check cs s) k t n"
  by (induction cs arbitrary: s) (simp_all add: keeps)

lemma second_sight:
  assumes "inv s" and "\<not> fst (check k t s)" and "length cs < cap"
    and "list_all (\<lambda>c. unat (snd c) \<le> unat t + ttl) cs" and "unat now \<le> unat t + ttl"
  shows "fst (check k now (run_checks check cs (snd (check k t s))))"
proof -
  have "holds (snd (check k t s)) k t (length cs + (cap - 1 - length cs))"
    using records [OF assms(1,2)] assms(3) by simp
  then show ?thesis
    using run_keeps [OF _ assms(4)] detects [OF _ assms(5)] by blast
qed

end

definition guard_holds :: "u64 \<Rightarrow> nat \<Rightarrow> replay_guard \<Rightarrow> replay_key_t \<Rightarrow> u64 \<Rightarrow> nat \<Rightarrow> bool" where
  "guard_holds ttl cap g k t n \<longleftrightarrow> guard_inv g \<and> ttl_secs g = ttl \<and> max_entries g = cap \<and>
     (\<exists>a b. rg_order g = a @ (k, t) # b \<and> length b + n < cap)"

lemma sat_sub64_le: "unat now \<le> unat t + unat d \<Longrightarrow> \<not> t < sat_sub64 now d"
  by (auto simp: sat_sub64_def word_less_nat_alt unat_sub word_le_nat_alt not_less)

lemma scan_evict_keeps:
  assumes "\<not> t < c"
  shows "\<exists>a'. scan_evict c (a @ (k, t) # b) = a' @ (k, t) # b"
  using assms by (induction a) (auto simp: scan_evict_def)

lemma guard_holds_scan:
  assumes "guard_holds ttl cap g k t n" and "unat now \<le> unat t + unat ttl"
  obtains a b where "scan_evict (sat_sub64 now ttl) (rg_order g) = a @ (k, t) # b" and "length b + n < cap"
  using assms scan_evict_keeps [OF sat_sub64_le [OF assms(2)]] unfolding guard_holds_def by metis

lemma guard_keeps:
  assumes "guard_holds ttl cap g k t (Suc n)" and "unat now \<le> unat t + unat ttl"
  shows "guard_holds ttl cap (snd (check_and_record k' now g)) k t n"
proof -
  obtain a b where live: "scan_evict (sat_sub64 now ttl) (rg_order g) = a @ (k, t) # b" and n: "length b + Suc n < cap"
    using guard_holds_scan [OF assms] .
  have g: "guard_inv g" "ttl_secs g = ttl" "max_entries g = cap"
    using assms(1) by (simp_all add: guard_holds_def)
  let ?o = "snd (scan_check ttl cap k' now (rg_order g))"
  have "\<exists>a' b'. ?o = a' @ (k, t) # b' \<and> length b' + n < cap"
  proof (cases "k' \<in> fst ` set (a @ (k, t) # b)")
    case True
    then have "?o = a @ (k, t) # b"
      by (simp add: scan_check_def live Let_def)
    then show ?thesis
      using n by (intro exI [of _ a] exI [of _ b]) simp
  next
    case False
    let ?a = "if cap \<le> length (a @ (k, t) # b) then tl a else a"
    have "(if cap \<le> length (a @ (k, t) # b) then tl (a @ (k, t) # b) else a @ (k, t) # b) = ?a @ (k, t) # b"
      using n by (cases a) auto
    then have "?o = ?a @ (k, t) # (b @ [(k', now)])"
      using False by (simp add: scan_check_def live)
    then show ?thesis
      using n by (intro exI [of _ ?a] exI [of _ "b @ [(k', now)]"]) simp
  qed
  then show ?thesis
    using check_refines [OF g(1), of k' now] g unfolding guard_holds_def by simp
qed

interpretation guard: replay_filter check_and_record
    "\<lambda>g. guard_inv g \<and> ttl_secs g = ttl \<and> max_entries g = cap" "guard_holds ttl cap" "unat ttl" cap
  for ttl cap
proof (unfold_locales, goal_cases)
  case (1 s k now)
  then show ?case
    using check_refines(3-5) [of s] by simp
next
  case (2 s k now)
  then have r: "\<not> fst (scan_check ttl cap k now (rg_order s))" "0 < cap"
    using check_refines(1) [of s k now] by (auto simp: guard_inv_def)
  then obtain a where "snd (scan_check ttl cap k now (rg_order s)) = a @ (k, now) # []"
    unfolding scan_check_def Let_def by (auto split: if_splits)
  then have "rg_order (snd (check_and_record k now s)) = a @ (k, now) # []"
    using 2 check_refines(2) [of s k now] by simp
  moreover have "length ([] :: (replay_key_t \<times> u64) list) + (cap - 1) < cap"
    using r by simp
  ultimately show ?case
    using 2 check_refines(3-5) [of s k now] unfolding guard_holds_def by blast
next
  case (3 s k t n now k')
  then show ?case
    by (rule guard_keeps)
next
  case (4 s k t n now)
  then obtain a b where "scan_evict (sat_sub64 now ttl) (rg_order s) = a @ (k, t) # b"
    using guard_holds_scan by metis
  then show ?case
    using 4(1) check_refines(1) [of s k now] by (auto simp: guard_holds_def scan_check_def)
qed

section \<open>Properties\<close>

text \<open>
  The membership index changes nothing: from a fresh guard, after any calls, \<open>check_and_record\<close>
  answers like a scan over the queue, the queue is the one the scanning guard would have, and the index
  holds exactly the queue's keys, of which there are never more than the capacity.
\<close>

theorem replay_index_lockstep:
  fixes calls :: "(replay_key_t \<times> u64) list" and ttl :: u64
  defines "g \<equiv> run_checks check_and_record calls (replay_new ttl)"
    and "log \<equiv> run_checks (scan_check ttl 100000) calls []"
  shows "rg_order g = log \<and> rg_present g = fst ` set log \<and> distinct (map fst log) \<and> length log \<le> 100000 \<and>
    fst (check_and_record k now g) = fst (scan_check ttl 100000 k now log)"
proof -
  have "guard_inv (run_checks check_and_record cs g0) \<and> ttl_secs (run_checks check_and_record cs g0) = ttl \<and>
      max_entries (run_checks check_and_record cs g0) = cap \<and>
      rg_order (run_checks check_and_record cs g0) = run_checks (scan_check ttl cap) cs (rg_order g0)"
    if "guard_inv g0" "ttl_secs g0 = ttl" "max_entries g0 = cap" for cs g0 cap
    using that by (induction cs arbitrary: g0) (simp_all add: check_refines)
  from this [OF replay_new_inv, of ttl] have g: "guard_inv g" "ttl_secs g = ttl" "max_entries g = 100000" "rg_order g = log"
    by (simp_all add: g_def log_def replay_new_def)
  then show ?thesis
    using check_refines(1) [OF g(1)] by (simp add: guard_inv_def)
qed

text \<open>
  A replay is caught: once a key has been accepted, and until its time-to-live has passed or as many
  calls as the guard has entries have followed, the same key is reported as seen, whatever keys the calls
  in between had and in whatever order their clocks ran.
\<close>

theorem replay_detected:
  assumes "guard_inv g" and "fst (check_and_record k t g) = False"
    and "length calls < max_entries g"
    and "list_all (\<lambda>c. unat (snd c) \<le> unat t + unat (ttl_secs g)) calls"
    and "unat now \<le> unat t + unat (ttl_secs g)"
  shows "fst (check_and_record k now (run_checks check_and_record calls (snd (check_and_record k t g))))"
  using assms by (intro guard.second_sight) auto

theorem replay_detected_witness:
  "fst (check_and_record [1] 240 (run_checks check_and_record [([2], 7)] (snd (check_and_record [1] 5 (replay_new 240)))))"
proof -
  have f: "fst (check_and_record [1] 5 (replay_new 240)) = False"
    by (simp add: check_and_record_def replay_new_def cap_oldest_def)
  show ?thesis
    by (rule replay_detected [OF replay_new_inv f]) (simp_all add: replay_new_def)
qed

text \<open>
  The guard trusts the times it is given. A check with a time just over the guard's period after the first sight of a key
  forgets the key, so a later check of that key with a time still inside the period does not detect it.
\<close>

theorem late_stamp_forgets:
  assumes "k \<noteq> k'" and "unat t + unat ttl + 1 < 2 ^ 64"
  shows "\<not> fst (check_and_record k (t + ttl) (snd (check_and_record k' (t + ttl + 1) (snd (check_and_record k t (replay_new ttl))))))"
proof -
  have s: "unat (t + ttl) = unat t + unat ttl" "unat (t + ttl + 1) = unat t + unat ttl + 1"
    using assms(2) by (simp_all add: unat_word_ariths)
  have "t < sat_sub64 (t + ttl + 1) ttl"
    using s assms(2) by (auto simp: sat_sub64_def word_less_nat_alt word_le_nat_alt unat_word_ariths)
  then show ?thesis
    using assms(1) by (simp add: check_and_record_def replay_new_def cap_oldest_def Let_def split_beta)
qed

theorem late_stamp_forgets_witness:
  "\<not> fst (check_and_record [1] (5 + 240) (snd (check_and_record [2] (5 + 240 + 1) (snd (check_and_record [1] 5 (replay_new 240))))))"
  by (rule late_stamp_forgets) simp_all

end
