(* ===== verification/Users.thy ===== *)
theory Users
  imports Prelude "HOL-Library.AList"
begin

text \<open>
  The user registry, \<open>crates/leshiy-reality/src/user.rs\<close>.

  The map of entries is an association list (its order stands for the unspecified iteration order of
  \<open>HashMap\<close>). The usage counters are \<open>AtomicU64\<close>: \<open>fetch_add\<close> wraps, the sum compared with the cap
  saturates. Each method holds its locks for a call without waiting, so a method is one step on the
  store. A token bucket is shared by reference: \<open>bk_ref\<close> is its identity, drawn from a counter when
  \<open>def_of\<close> makes one, and \<open>bk_rate\<close> the rate it was made with; its floating-point arithmetic is not modelled.

  The trait \<open>UserStore\<close> is the record \<open>store_ops\<close> of its methods, as the server passes it around; the
  locale \<open>user_store\<close> states its contract and the in-memory store interprets it.
\<close>

section \<open>Definitions\<close>

type_synonym short_id = bytes

record user =
  u_short_id :: short_id
  u_enabled :: bool
  u_expires_at :: "u64 option"
  u_data_cap :: "u64 option"
  u_rate_up :: "u32 option"
  u_rate_down :: "u32 option"

record bucket_ref =
  bk_ref :: nat
  bk_rate :: u64

record user_limits =
  lim_up :: "bucket_ref option"
  lim_down :: "bucket_ref option"

record user_status =
  st_user :: user
  st_used_up :: u64
  st_used_down :: u64

record user_def =
  d_enabled :: bool
  d_expires_at :: "u64 option"
  d_data_cap :: "u64 option"
  d_up :: "bucket_ref option"
  d_down :: "bucket_ref option"
  d_rate_up :: "u32 option"
  d_rate_down :: "u32 option"

record user_entry =
  e_short_id :: short_id
  e_def :: user_def
  e_used_up :: u64
  e_used_down :: u64

record user_map =
  um_users :: "(short_id \<times> user_entry) list"
  um_next_bucket :: nat

definition lookup_user :: "user_map \<Rightarrow> short_id \<Rightarrow> user_entry option" where
  "lookup_user s i = map_of (um_users s) i"

definition set_entry :: "short_id \<Rightarrow> user_entry \<Rightarrow> user_map \<Rightarrow> user_map" where
  "set_entry i e s = s\<lparr>um_users := AList.update i e (um_users s)\<rparr>"

definition new_bucket :: "u32 option \<Rightarrow> nat \<Rightarrow> bucket_ref option" where
  "new_bucket rate n = map_option (\<lambda>r. \<lparr>bk_ref = n, bk_rate = ucast r\<rparr>) rate"

definition def_of :: "user \<Rightarrow> nat \<Rightarrow> user_def" where
  "def_of u n =
     \<lparr>d_enabled = u_enabled u, d_expires_at = u_expires_at u, d_data_cap = u_data_cap u,
      d_up = new_bucket (u_rate_up u) n, d_down = new_bucket (u_rate_down u) (n + 1),
      d_rate_up = u_rate_up u, d_rate_down = u_rate_down u\<rparr>"

definition user_ok :: "user_def \<Rightarrow> u64 \<Rightarrow> u64 \<Rightarrow> bool" where
  "user_ok d used now =
     (if \<not> d_enabled d then False
      else if (case d_expires_at d of Some ex \<Rightarrow> ex < now | None \<Rightarrow> False) then False
      else if (case d_data_cap d of Some cap \<Rightarrow> cap \<le> used | None \<Rightarrow> False) then False
      else True)"

definition entry_used :: "user_entry \<Rightarrow> u64" where
  "entry_used e = sat_add64 (e_used_up e) (e_used_down e)"

subsection \<open>The datapath interface\<close>

definition authorize :: "user_map \<Rightarrow> short_id \<Rightarrow> u64 \<Rightarrow> user_limits option" where
  "authorize s i now =
     (case lookup_user s i of
        None \<Rightarrow> None
      | Some e \<Rightarrow>
          if \<not> user_ok (e_def e) (entry_used e) now then None
          else Some \<lparr>lim_up = d_up (e_def e), lim_down = d_down (e_def e)\<rparr>)"

definition add_usage :: "short_id \<Rightarrow> u64 \<Rightarrow> u64 \<Rightarrow> user_map \<Rightarrow> user_map" where
  "add_usage i up down s =
     (case lookup_user s i of
        None \<Rightarrow> s
      | Some e \<Rightarrow>
          let e = (if 0 < up then e\<lparr>e_used_up := e_used_up e + up\<rparr> else e);
              e = (if 0 < down then e\<lparr>e_used_down := e_used_down e + down\<rparr> else e)
          in set_entry i e s)"

definition still_allowed :: "user_map \<Rightarrow> short_id \<Rightarrow> u64 \<Rightarrow> bool" where
  "still_allowed s i now =
     (case lookup_user s i of
        None \<Rightarrow> False
      | Some e \<Rightarrow> user_ok (e_def e) (entry_used e) now)"

subsection \<open>The admin interface\<close>

definition upsert :: "user \<Rightarrow> user_map \<Rightarrow> user_map" where
  "upsert u s =
     (let n = um_next_bucket s; s' = s\<lparr>um_next_bucket := n + 2\<rparr> in
      case lookup_user s (u_short_id u) of
        Some e \<Rightarrow> set_entry (u_short_id u) (e\<lparr>e_def := def_of u n\<rparr>) s'
      | None \<Rightarrow> set_entry (u_short_id u)
          \<lparr>e_short_id = u_short_id u, e_def = def_of u n, e_used_up = 0, e_used_down = 0\<rparr> s')"

definition remove_user :: "short_id \<Rightarrow> user_map \<Rightarrow> bool \<times> user_map" where
  "remove_user i s = (lookup_user s i \<noteq> None, s\<lparr>um_users := AList.delete i (um_users s)\<rparr>)"

definition set_enabled :: "short_id \<Rightarrow> bool \<Rightarrow> user_map \<Rightarrow> bool \<times> user_map" where
  "set_enabled i on s =
     (case lookup_user s i of
        Some e \<Rightarrow> (True, set_entry i (e\<lparr>e_def := (e_def e)\<lparr>d_enabled := on\<rparr>\<rparr>) s)
      | None \<Rightarrow> (False, s))"

definition reset_usage :: "short_id \<Rightarrow> user_map \<Rightarrow> bool \<times> user_map" where
  "reset_usage i s =
     (case lookup_user s i of
        Some e \<Rightarrow> (True, set_entry i (e\<lparr>e_used_up := 0, e_used_down := 0\<rparr>) s)
      | None \<Rightarrow> (False, s))"

definition entry_status :: "user_entry \<Rightarrow> user_status" where
  "entry_status e =
     \<lparr>st_user = \<lparr>u_short_id = e_short_id e, u_enabled = d_enabled (e_def e), u_expires_at = d_expires_at (e_def e),
        u_data_cap = d_data_cap (e_def e), u_rate_up = d_rate_up (e_def e), u_rate_down = d_rate_down (e_def e)\<rparr>,
      st_used_up = e_used_up e, st_used_down = e_used_down e\<rparr>"

definition snapshot :: "user_map \<Rightarrow> user_status list" where
  "snapshot s = map (\<lambda>(i, e). entry_status e) (um_users s)"

definition empty_users :: user_map where
  "empty_users = \<lparr>um_users = [], um_next_bucket = 0\<rparr>"

definition users_new :: "user list \<Rightarrow> user_map" where
  "users_new us = fold upsert us empty_users"

definition unlimited_user :: "short_id \<Rightarrow> user" where
  "unlimited_user i = \<lparr>u_short_id = i, u_enabled = True, u_expires_at = None, u_data_cap = None,
     u_rate_up = None, u_rate_down = None\<rparr>"

definition from_short_ids :: "short_id list \<Rightarrow> user_map" where
  "from_short_ids ids = users_new (map unlimited_user ids)"

subsection \<open>The trait\<close>

record ('s, 'l) store_ops =
  so_authorize :: "'s \<Rightarrow> short_id \<Rightarrow> u64 \<Rightarrow> 'l option"
  so_add_usage :: "short_id \<Rightarrow> u64 \<Rightarrow> u64 \<Rightarrow> 's \<Rightarrow> 's"
  so_still_allowed :: "'s \<Rightarrow> short_id \<Rightarrow> u64 \<Rightarrow> bool"

definition mem_store :: "(user_map, user_limits) store_ops" where
  "mem_store = \<lparr>so_authorize = authorize, so_add_usage = add_usage, so_still_allowed = still_allowed\<rparr>"

section \<open>Lemmas\<close>

lemma lookup_set_entry [simp]:
  "lookup_user (set_entry i e s) j = (if j = i then Some e else lookup_user s j)"
  by (simp add: lookup_user_def set_entry_def update_conv')

lemma lookup_bucket [simp]: "lookup_user (s\<lparr>um_next_bucket := n\<rparr>) j = lookup_user s j"
  by (simp add: lookup_user_def)

lemma lookup_remove: "lookup_user (snd (remove_user i s)) j = (if j = i then None else lookup_user s j)"
  by (simp add: lookup_user_def remove_user_def delete_conv')

definition usage :: "user_map \<Rightarrow> short_id \<Rightarrow> (u64 \<times> u64) option" where
  "usage s i = map_option (\<lambda>e. (e_used_up e, e_used_down e)) (lookup_user s i)"

lemma add_usage_lookup:
  "lookup_user (add_usage i up down s) j =
   (if j = i then map_option (\<lambda>e. e\<lparr>e_used_up := e_used_up e + up, e_used_down := e_used_down e + down\<rparr>) (lookup_user s i)
    else lookup_user s j)"
  by (cases "lookup_user s i") (auto simp: add_usage_def Let_def word_gt_0)

lemma user_ok_mono: "user_ok d used' now' \<Longrightarrow> used \<le> used' \<Longrightarrow> now \<le> now' \<Longrightarrow> user_ok d used now"
  by (auto simp: user_ok_def split: option.splits if_splits)

lemma sat_add64_mono:
  assumes "unat a \<le> unat a'" and "unat b \<le> unat b'"
  shows "sat_add64 a b \<le> sat_add64 a' b'"
proof -
  have "unat (sat_add64 x y) = min (unat x + unat y) (2 ^ 64 - 1)" for x y
    by (auto simp: sat_add64_def unat_word_ariths)
  then show ?thesis
    using assms by (simp add: word_le_nat_alt)
qed

section \<open>The contract of a user store\<close>

text \<open>
  \<open>used\<close> is what a store has counted for a user, up and down. An authorization and the later check agree;
  counting affects only the named user, adds what it is told, and (short of a counter wrapping) never
  makes a refused user allowed.
\<close>

locale user_store =
  fixes ops :: "('s, 'l) store_ops"
    and used :: "'s \<Rightarrow> short_id \<Rightarrow> (u64 \<times> u64) option"
  assumes authorize_iff: "so_authorize ops s i now \<noteq> None \<longleftrightarrow> so_still_allowed ops s i now"
    and known: "so_still_allowed ops s i now \<Longrightarrow> used s i \<noteq> None"
    and earlier: "so_still_allowed ops s i now' \<Longrightarrow> now \<le> now' \<Longrightarrow> so_still_allowed ops s i now"
    and used_add: "used (so_add_usage ops i up down s) j =
          (if j = i then map_option (\<lambda>(u, d). (u + up, d + down)) (used s j) else used s j)"
    and other_user: "j \<noteq> i \<Longrightarrow> so_still_allowed ops (so_add_usage ops i up down s) j now = so_still_allowed ops s j now"
    and counted_out: "so_still_allowed ops (so_add_usage ops i up down s) i now \<Longrightarrow> used s i = Some (u, d) \<Longrightarrow>
          unat u + unat up < 2 ^ 64 \<Longrightarrow> unat d + unat down < 2 ^ 64 \<Longrightarrow> so_still_allowed ops s i now"
begin

text \<open>The usage after a list of reports.\<close>

lemma used_reports:
  "used (fold (\<lambda>(u, d). so_add_usage ops i u d) rs s) j =
   (if j = i then map_option (\<lambda>(u, d). (u + sum_list (map fst rs), d + sum_list (map snd rs))) (used s j) else used s j)"
proof (induction rs arbitrary: s)
  case (Cons r rs)
  then show ?case
    by (cases "used s j") (auto simp: used_add split_beta ac_simps)
qed (simp add: option.map_ident case_prod_beta')

text \<open>A refused user stays refused however much more is reported for it, until a counter would wrap.\<close>

lemma stays_refused:
  assumes "\<not> so_still_allowed ops s i now" and "used s i = Some (u, d)"
    and "unat u + sum_list (map (unat \<circ> fst) rs) < 2 ^ 64" and "unat d + sum_list (map (unat \<circ> snd) rs) < 2 ^ 64"
  shows "\<not> so_still_allowed ops (fold (\<lambda>(u, d). so_add_usage ops i u d) rs s) i now"
  using assms
proof (induction rs arbitrary: s u d)
  case (Cons r rs)
  obtain a b where r: "r = (a, b)"
    by (cases r)
  have fits: "unat u + unat a < 2 ^ 64" "unat d + unat b < 2 ^ 64"
    using Cons.prems(3,4) by (simp_all add: r)
  then have sum: "unat (u + a) = unat u + unat a" "unat (d + b) = unat d + unat b"
    by (simp_all add: unat_word_ariths)
  have "\<not> so_still_allowed ops (so_add_usage ops i a b s) i now"
    using counted_out [OF _ Cons.prems(2) fits] Cons.prems(1) by blast
  moreover have "used (so_add_usage ops i a b s) i = Some (u + a, d + b)"
    using Cons.prems(2) by (simp add: used_add)
  ultimately show ?case
    using Cons.IH [of "so_add_usage ops i a b s" "u + a" "d + b"] Cons.prems(3,4) by (simp add: r sum comp_def)
qed simp

end

lemma still_allowed_add:
  assumes "still_allowed (add_usage i up down s) i now" and "usage s i = Some (u, d)"
    and "unat u + unat up < 2 ^ 64" and "unat d + unat down < 2 ^ 64"
  shows "still_allowed s i now"
proof -
  obtain e where e: "lookup_user s i = Some e" "e_used_up e = u" "e_used_down e = d"
    using assms(2) by (auto simp: usage_def)
  have le: "sat_add64 u d \<le> sat_add64 (u + up) (d + down)"
    using assms(3,4) by (intro sat_add64_mono) (simp_all add: unat_word_ariths)
  have "user_ok (e_def e) (sat_add64 (u + up) (d + down)) now"
    using assms(1) e by (simp add: still_allowed_def add_usage_lookup entry_used_def)
  from user_ok_mono [OF this le order_refl] show ?thesis
    using e by (simp add: still_allowed_def entry_used_def)
qed

interpretation mem: user_store mem_store usage
proof (unfold_locales, goal_cases)
  case (1 s i now)
  then show ?case
    by (simp add: mem_store_def authorize_def still_allowed_def split: option.split)
next
  case (2 s i now)
  then show ?case
    by (auto simp: mem_store_def still_allowed_def usage_def split: option.splits)
next
  case (3 s i now' now)
  then show ?case
    by (auto simp: mem_store_def still_allowed_def split: option.splits elim: user_ok_mono)
next
  case (4 i up down s j)
  then show ?case
    by (cases "lookup_user s j") (auto simp: mem_store_def usage_def add_usage_lookup)
next
  case (5 j i up down s now)
  then show ?case
    by (simp add: mem_store_def still_allowed_def add_usage_lookup)
next
  case (6 i up down s now u d)
  then show ?case
    using still_allowed_add by (simp add: mem_store_def)
qed

section \<open>Runs of the registry\<close>

datatype user_op =
    OpUpsert user
  | OpRemove short_id
  | OpSetEnabled short_id bool
  | OpResetUsage short_id
  | OpAddUsage short_id u64 u64

fun apply_op :: "user_op \<Rightarrow> user_map \<Rightarrow> user_map" where
  "apply_op (OpUpsert u) s = upsert u s"
| "apply_op (OpRemove i) s = snd (remove_user i s)"
| "apply_op (OpSetEnabled i on) s = snd (set_enabled i on s)"
| "apply_op (OpResetUsage i) s = snd (reset_usage i s)"
| "apply_op (OpAddUsage i up down) s = add_usage i up down s"

text \<open>Which entry an operation leaves under a key.\<close>

fun op_target :: "user_op \<Rightarrow> short_id" where
  "op_target (OpUpsert u) = u_short_id u"
| "op_target (OpRemove i) = i"
| "op_target (OpSetEnabled i on) = i"
| "op_target (OpResetUsage i) = i"
| "op_target (OpAddUsage i up down) = i"

lemma apply_op_other: "j \<noteq> op_target op \<Longrightarrow> lookup_user (apply_op op s) j = lookup_user s j"
  by (cases op) (simp_all add: upsert_def lookup_remove set_enabled_def reset_usage_def add_usage_lookup Let_def
      split: option.split)

text \<open>Every entry is stored under its own id, ids are unique.\<close>

definition users_inv :: "user_map \<Rightarrow> bool" where
  "users_inv s \<longleftrightarrow> distinct (map fst (um_users s)) \<and> (\<forall>(i, e) \<in> set (um_users s). e_short_id e = i)"

lemma users_inv_alt:
  "users_inv s \<longleftrightarrow> distinct (map fst (um_users s)) \<and> (\<forall>i e. lookup_user s i = Some e \<longrightarrow> e_short_id e = i)"
  unfolding users_inv_def lookup_user_def by (auto simp: map_of_eq_Some_iff)

lemma distinct_apply: "distinct (map fst (um_users s)) \<Longrightarrow> distinct (map fst (um_users (apply_op op s)))"
  by (cases op) (simp_all add: upsert_def remove_user_def set_enabled_def reset_usage_def add_usage_def
      set_entry_def Let_def distinct_update distinct_delete split: option.split)

lemma apply_op_inv:
  assumes "users_inv s"
  shows "users_inv (apply_op op s)"
proof -
  have "e_short_id e = i" if "lookup_user (apply_op op s) i = Some e" for i e
  proof (cases "i = op_target op")
    case True
    then show ?thesis
      using that assms unfolding users_inv_alt
      by (cases op) (auto simp: upsert_def lookup_remove set_enabled_def reset_usage_def add_usage_lookup
          Let_def split: option.splits)
  next
    case False
    then show ?thesis
      using that assms by (simp add: apply_op_other users_inv_alt)
  qed
  then show ?thesis
    using assms distinct_apply unfolding users_inv_alt by blast
qed

lemma users_new_inv: "users_inv (users_new us)"
proof -
  have "users_inv (fold upsert us s)" if "users_inv s" for s
    using that apply_op_inv [where op = "OpUpsert u" for u] by (induction us arbitrary: s) simp_all
  moreover have "users_inv empty_users"
    by (simp add: users_inv_def empty_users_def)
  ultimately show ?thesis
    by (simp add: users_new_def)
qed

lemma run_inv_users: "users_inv s \<Longrightarrow> users_inv (fold apply_op ops s)"
  by (induction ops arbitrary: s) (simp_all add: apply_op_inv)

section \<open>Properties\<close>

text \<open>
  Who is let in: \<open>authorize\<close> hands out limits exactly to a registered, enabled user whose expiry has not
  passed and whose saturating total of both counters is below its cap, \<open>still_allowed\<close> decides the same
  way, and the limits are the buckets of the user's definition.
\<close>

theorem authorize_decision:
  "authorize s i now =
     (if \<exists>e. lookup_user s i = Some e \<and> d_enabled (e_def e) \<and>
            (\<forall>x. d_expires_at (e_def e) = Some x \<longrightarrow> now \<le> x) \<and>
            (\<forall>c. d_data_cap (e_def e) = Some c \<longrightarrow>
                  min (unat (e_used_up e) + unat (e_used_down e)) (2 ^ 64 - 1) < unat c)
      then map_option (\<lambda>e. \<lparr>lim_up = d_up (e_def e), lim_down = d_down (e_def e)\<rparr>) (lookup_user s i)
      else None) \<and>
   (still_allowed s i now \<longleftrightarrow> authorize s i now \<noteq> None)"
proof -
  have sat: "c \<le> sat_add64 x y \<longleftrightarrow> \<not> min (unat x + unat y) (2 ^ 64 - 1) < unat c" for c x y
  proof -
    have "unat (sat_add64 x y) = min (unat x + unat y) (2 ^ 64 - 1)"
      by (auto simp: sat_add64_def unat_word_ariths)
    then show ?thesis
      by (simp add: word_le_nat_alt not_less)
  qed
  have "still_allowed s i now \<longleftrightarrow> authorize s i now \<noteq> None"
    using mem.authorize_iff [of s i now] by (simp add: mem_store_def)
  then show ?thesis
    by (cases "lookup_user s i")
      (auto simp: authorize_def user_ok_def entry_used_def sat not_less split: option.splits)
qed

definition demo_user :: user where
  "demo_user = \<lparr>u_short_id = [1], u_enabled = True, u_expires_at = Some 100, u_data_cap = Some 50,
     u_rate_up = None, u_rate_down = None\<rparr>"

theorem authorize_decision_witness:
  "authorize (users_new [demo_user]) [1] 100 \<noteq> None \<and> \<not> still_allowed (users_new [demo_user]) [1] 101"
  using authorize_decision [of "users_new [demo_user]" "[1]" 100]
  by (simp add: users_new_def upsert_def empty_users_def demo_user_def lookup_user_def set_entry_def def_of_def
      still_allowed_def user_ok_def Let_def)

text \<open>
  Spent quota is final for a live session: a user that is refused stays refused whatever further
  usage is reported for it, as long as the 64-bit counters have room, and the reports add up exactly.
\<close>

theorem refused_stays_refused:
  assumes "\<not> still_allowed s i now" and "usage s i = Some (u, d)"
    and "unat u + sum_list (map (unat \<circ> fst) rs) < 2 ^ 64" and "unat d + sum_list (map (unat \<circ> snd) rs) < 2 ^ 64"
  shows "\<not> still_allowed (fold (\<lambda>(u, d). add_usage i u d) rs s) i now \<and>
         usage (fold (\<lambda>(u, d). add_usage i u d) rs s) i = Some (u + sum_list (map fst rs), d + sum_list (map snd rs))"
  using mem.stays_refused [of s i now u d rs] mem.used_reports [of i rs s i] assms
  by (simp add: mem_store_def)

definition spent :: user_map where
  "spent = add_usage [1] 50 0 (users_new [demo_user])"

theorem refused_stays_refused_witness:
  "\<not> still_allowed (fold (\<lambda>(u, d). add_usage [1] u d) [(0, 4)] spent) [1] 1"
proof -
  have d: "still_allowed spent [1] 1 = False" "usage spent [1] = Some (50, 0)"
    by (simp_all add: spent_def users_new_def upsert_def empty_users_def demo_user_def lookup_user_def
        set_entry_def def_of_def still_allowed_def user_ok_def Let_def add_usage_def usage_def entry_used_def
        sat_add64_def)
  show ?thesis
    using refused_stays_refused [of spent "[1]" 1 50 0 "[(0, 4)]"] d by simp
qed

text \<open>
  Administration touches one user: after any operations on a registry built from a user list, each
  operation changes at most its own user's entry; a re-upsert replaces the definition and keeps both usage
  counters, disabling refuses at once, removal forgets the user, and a reset zeroes the counters. The
  snapshot lists every registered user once, under its own id.
\<close>

theorem admin_operations:
  fixes ops us
  defines "s \<equiv> fold apply_op ops (users_new us)"
  shows "(\<forall>op j. j \<noteq> op_target op \<longrightarrow> lookup_user (apply_op op s) j = lookup_user s j) \<and>
    (\<forall>u e. lookup_user s (u_short_id u) = Some e \<longrightarrow>
       usage (upsert u s) (u_short_id u) = usage s (u_short_id u) \<and>
       lookup_user (upsert u s) (u_short_id u) = Some (e\<lparr>e_def := def_of u (um_next_bucket s)\<rparr>)) \<and>
    (\<forall>u. lookup_user s (u_short_id u) = None \<longrightarrow> usage (upsert u s) (u_short_id u) = Some (0, 0)) \<and>
    (\<forall>i now. \<not> still_allowed (snd (set_enabled i False s)) i now) \<and>
    (\<forall>i now. lookup_user (snd (remove_user i s)) i = None \<and> \<not> still_allowed (snd (remove_user i s)) i now) \<and>
    (\<forall>i. fst (reset_usage i s) \<longrightarrow> usage (snd (reset_usage i s)) i = Some (0, 0)) \<and>
    distinct (map (u_short_id \<circ> st_user) (snapshot s)) \<and>
    (\<forall>i. i \<in> set (map (u_short_id \<circ> st_user) (snapshot s)) \<longleftrightarrow> lookup_user s i \<noteq> None)"
proof -
  have inv: "users_inv s"
    unfolding s_def by (rule run_inv_users [OF users_new_inv])
  then have ids: "map (u_short_id \<circ> st_user) (snapshot s) = map fst (um_users s)"
    by (auto simp: users_inv_def snapshot_def entry_status_def)
  have "usage (upsert u s) (u_short_id u) = usage s (u_short_id u) \<and>
       lookup_user (upsert u s) (u_short_id u) = Some (e\<lparr>e_def := def_of u (um_next_bucket s)\<rparr>)"
    if "lookup_user s (u_short_id u) = Some e" for u e
    using that by (simp add: usage_def upsert_def Let_def)
  moreover have "\<not> still_allowed (snd (set_enabled i False s)) i now" for i now
    by (cases "lookup_user s i") (simp_all add: set_enabled_def still_allowed_def user_ok_def)
  moreover have "usage (snd (reset_usage i s)) i = Some (0, 0)" if "fst (reset_usage i s)" for i
    using that by (cases "lookup_user s i") (simp_all add: reset_usage_def usage_def)
  moreover have "i \<in> set (map fst (um_users s)) \<longleftrightarrow> lookup_user s i \<noteq> None" for i
    by (simp add: lookup_user_def map_of_eq_None_iff)
  ultimately show ?thesis
    using inv unfolding ids
    by (auto simp: apply_op_other users_inv_def lookup_remove still_allowed_def usage_def upsert_def Let_def)
qed

theorem admin_operations_witness:
  "usage (upsert demo_user spent) [1] = Some (50, 0)"
proof -
  have s: "spent = fold apply_op [OpAddUsage [1] 50 0] (users_new [demo_user])"
    by (simp add: spent_def)
  have i: "u_short_id demo_user = [1]"
    by (simp add: demo_user_def)
  have "lookup_user spent [1] \<noteq> None" "usage spent [1] = Some (50, 0)"
    by (simp_all add: spent_def users_new_def upsert_def empty_users_def demo_user_def lookup_user_def
        set_entry_def def_of_def add_usage_def usage_def)
  then show ?thesis
    using admin_operations [of "[OpAddUsage [1] 50 0]" "[demo_user]"] unfolding s [symmetric]
    by (metis i option.exhaust)
qed

end
