(* ===== verification/RealityServer.thy ===== *)
theory RealityServer
  imports Auth MtProxy Replay Users
begin

text \<open>
  The REALITY server's front door, \<open>crates/leshiy-reality/src/server.rs\<close>: classification of a ClientHello
  and the decision of \<open>serve_connection\<close>, up to the point where the connection is relayed, handed to
  MTProxy or taken over.

  A connection's input is what its reads and dials give: the first record (\<open>None\<close> for an error, an end of
  file or the read timeout), whether the dial of a destination succeeds in time, whether the first record
  can be forwarded, and the destination's first record. The user store is the trait's record of
  operations with its state; the replay guard is threaded through.
\<close>

section \<open>Definitions\<close>

datatype classification = Authed bytes u32 | Unauthed

datatype classification_full = AuthedFull bytes u32 bytes | UnauthedFull

definition classify_full :: "reality_crypto \<Rightarrow> bytes \<Rightarrow> server_auth_config \<Rightarrow> u32 \<Rightarrow> classification_full" where
  "classify_full rc ch cfg now_secs =
     (case extract_client_hello_fields ch of
        Inl _ \<Rightarrow> UnauthedFull
      | Inr hf \<Rightarrow>
          let sni_ok = (case ch_sni hf of Some s \<Rightarrow> sni_allowed cfg s | None \<Rightarrow> False);
              session_ok = (length (ch_session_id hf) = 32);
              keyshare_ok = (key_share_x25519 hf \<noteq> None);
              client_pub = (case key_share_x25519 hf of Some k \<Rightarrow> k | None \<Rightarrow> replicate 32 0x09);
              shared = rc_dh rc (static_secret cfg) client_pub;
              auth_key = derive_auth_key (rc_cr rc) shared (ch_random hf);
              aad = aad_from_client_hello ch;
              n = min (length (ch_session_id hf)) 32;
              sid = take n (ch_session_id hf) @ replicate (32 - n) 0
          in (case open_session_id (rc_cr rc) auth_key (ch_random hf) sid aad of
                None \<Rightarrow> UnauthedFull
              | Some pt \<Rightarrow>
                  if \<not> (sni_ok \<and> session_ok \<and> keyshare_ok) then UnauthedFull
                  else let p = decode_payload pt; diff = ucast (abs_diff32 now_secs (ap_unix_secs p)) in
                    if max_time_diff cfg < diff then UnauthedFull
                    else AuthedFull (ap_short_id p) (ap_unix_secs p) auth_key))"

definition classify :: "reality_crypto \<Rightarrow> bytes \<Rightarrow> server_auth_config \<Rightarrow> u32 \<Rightarrow> classification" where
  "classify rc ch cfg now_secs =
     (case classify_full rc ch cfg now_secs of
        AuthedFull i t k \<Rightarrow> Authed i t
      | UnauthedFull \<Rightarrow> Unauthed)"

definition server_hello :: hello where
  "server_hello =
     \<lparr>h_version = PROTOCOL_MAJOR, min_supported = 1,
      h_capabilities = CAP_DATAGRAM OR CAP_KEEPALIVE OR CAP_FLOWCONTROL OR CAP_ICMP OR CAP_IDLE_TOLERANCE,
      idle_tolerance = DEFAULT_IDLE_TOLERANCE\<rparr>"

text \<open>How long an undialable destination makes the server absorb bytes, in seconds.\<close>

definition stall_secs :: "bytes \<Rightarrow> u64" where
  "stall_secs seed = 1 + foldl (\<lambda>a b. a * 31 + ucast b) 0 seed mod 8"

record conn_input =
  ci_first :: "tls_record option"
  ci_dest_up :: "string \<Rightarrow> bool"
  ci_dest_writes :: bool
  ci_dest_hello :: "tls_record option"
  ci_now :: u32

datatype 'l serve_outcome =
    SDropped
  | SStalled u64
  | SIoError
  | SRelayed string bytes
  | SMtProxy string bytes
  | SNoServerHello
  | STakeover bytes 'l bytes bytes bytes

definition mt_authenticate :: "crypto \<Rightarrow> server_auth_config \<Rightarrow> bytes \<Rightarrow> u32 \<Rightarrow> bytes option" where
  "mt_authenticate cr cfg chp now_secs =
     Option.bind (cfg_mtproxy cfg) (\<lambda>secret. faketls_authenticate cr chp secret now_secs (max_time_diff cfg))"

text \<open>The closure \<open>fresh\<close>: a replay key can be formed and was not seen.\<close>

definition fresh_digest :: "bytes \<Rightarrow> client_hello_fields \<Rightarrow> u64 \<Rightarrow> replay_guard \<Rightarrow> bool \<times> replay_guard" where
  "fresh_digest digest f now g =
     (case replay_key digest (ch_session_id f) of
        None \<Rightarrow> (False, g)
      | Some k \<Rightarrow> let (seen, g') = check_and_record k now g in (\<not> seen, g'))"

definition serve_unauthed ::
    "bytes option \<Rightarrow> client_hello_fields \<Rightarrow> u64 \<Rightarrow> string \<Rightarrow> bytes \<Rightarrow> replay_guard \<Rightarrow> 'l serve_outcome \<times> replay_guard" where
  "serve_unauthed mtproxy f now dest first_bytes g =
     (case mtproxy of
        None \<Rightarrow> (SRelayed dest first_bytes, g)
      | Some digest \<Rightarrow>
          let (fresh, g') = fresh_digest digest f now g in
          if fresh then (SMtProxy dest digest, g') else (SRelayed dest first_bytes, g'))"

definition serve_authed ::
    "('s, 'l) store_ops \<Rightarrow> 's \<Rightarrow> bytes \<Rightarrow> bytes \<Rightarrow> client_hello_fields \<Rightarrow> u64 \<Rightarrow> bytes \<Rightarrow> tls_record option \<Rightarrow>
     string \<Rightarrow> bytes \<Rightarrow> replay_guard \<Rightarrow> 'l serve_outcome \<times> replay_guard" where
  "serve_authed ops store short_id auth_key f now chp dest_hello dest first_bytes g =
     (let (seen, g') =
            (case replay_key (ch_random f) (ch_session_id f) of
               None \<Rightarrow> (False, g)
             | Some k \<Rightarrow> check_and_record k now g) in
      if seen then (SRelayed dest first_bytes, g')
      else (case so_authorize ops store short_id now of
              None \<Rightarrow> (SRelayed dest first_bytes, g')
            | Some limits \<Rightarrow>
                (case dest_hello of
                   None \<Rightarrow> (SNoServerHello, g')
                 | Some r \<Rightarrow> (STakeover short_id limits chp (rec_payload r) auth_key, g'))))"

definition serve_connection ::
    "reality_crypto \<Rightarrow> server_auth_config \<Rightarrow> ('s, 'l) store_ops \<Rightarrow> 's \<Rightarrow> conn_input \<Rightarrow> replay_guard \<Rightarrow>
     'l serve_outcome \<times> replay_guard" where
  "serve_connection rc cfg ops store ci g =
     (case ci_first ci of
        None \<Rightarrow> (SDropped, g)
      | Some first \<Rightarrow>
          let first_bytes = record_bytes first;
              hf = extract_client_hello_fields (rec_payload first);
              dest = dest_for cfg (Option.bind (result_ok hf) ch_sni) in
          if \<not> ci_dest_up ci dest then (SStalled (stall_secs first_bytes), g)
          else if \<not> ci_dest_writes ci then (SIoError, g)
          else (case hf of
            Inl _ \<Rightarrow> (SRelayed dest first_bytes, g)
          | Inr f \<Rightarrow>
              let mtproxy = mt_authenticate (rc_cr rc) cfg (rec_payload first) (ci_now ci) in
              (case classify_full rc (rec_payload first) cfg (ci_now ci) of
                 UnauthedFull \<Rightarrow> serve_unauthed mtproxy f (ucast (ci_now ci)) dest first_bytes g
               | AuthedFull short_id t auth_key \<Rightarrow>
                   serve_authed ops store short_id auth_key f (ucast (ci_now ci)) (rec_payload first)
                     (ci_dest_hello ci) dest first_bytes g)))"

text \<open>The replay guard of a listener, and a listener's connections one after another.\<close>

definition listener_guard :: "server_auth_config \<Rightarrow> replay_guard" where
  "listener_guard cfg = replay_new (if unat (max_time_diff cfg) * 2 < 2 ^ 64 then max_time_diff cfg * 2 else 0xFFFFFFFFFFFFFFFF)"

definition serve_guard ::
    "reality_crypto \<Rightarrow> server_auth_config \<Rightarrow> ('s, 'l) store_ops \<Rightarrow> 's \<times> conn_input \<Rightarrow> replay_guard \<Rightarrow> replay_guard" where
  "serve_guard rc cfg ops c g = snd (serve_connection rc cfg ops (fst c) (snd c) g)"

section \<open>Lemmas\<close>

lemma unat_ucast32 [simp]: "unat (ucast (w :: u32) :: u64) = unat w"
  using unat_bound [of w] by (simp add: unsigned_ucast_eq take_bit_nat_eq_self)

text \<open>When a ClientHello is classified as authenticated.\<close>

lemma classify_full_authed:
  "classify_full rc ch cfg now = AuthedFull i t key \<longleftrightarrow>
   (\<exists>f s x. extract_client_hello_fields ch = Ok f \<and> ch_sni f = Some s \<and> sni_allowed cfg s \<and>
      length (ch_session_id f) = 32 \<and> key_share_x25519 f = Some x \<and>
      key = derive_auth_key (rc_cr rc) (rc_dh rc (static_secret cfg) x) (ch_random f) \<and>
      (\<exists>pt. open_session_id (rc_cr rc) key (ch_random f) (ch_session_id f) (aad_from_client_hello ch) = Some pt \<and>
         i = ap_short_id (decode_payload pt) \<and> t = ap_unix_secs (decode_payload pt)) \<and>
      unat (abs_diff32 now t) \<le> unat (max_time_diff cfg))"
proof (cases "extract_client_hello_fields ch")
  case (Inr f)
  have "max_time_diff cfg < ucast (abs_diff32 now t) \<longleftrightarrow> \<not> unat (abs_diff32 now t) \<le> unat (max_time_diff cfg)" for t
    by (auto simp: word_less_nat_alt not_le)
  note window = this
  show ?thesis
    by (auto simp: classify_full_def Inr Let_def window split: option.splits if_splits)
qed (simp add: classify_full_def)

text \<open>A connection consults the guard at most once.\<close>

lemma serve_guard_step:
  "serve_guard rc cfg ops c g = g \<or> (\<exists>k. serve_guard rc cfg ops c g = snd (check_and_record k (ucast (ci_now (snd c))) g))"
  by (auto simp: serve_guard_def serve_connection_def serve_unauthed_def serve_authed_def fresh_digest_def Let_def
      split_beta split: option.splits sum.splits classification_full.splits)

lemma serve_guard_run:
  obtains calls where "fold (serve_guard rc cfg ops) cs g = run_checks check_and_record calls g"
    and "length calls \<le> length cs" and "set (map snd calls) \<subseteq> (\<lambda>c. ucast (ci_now (snd c))) ` set cs"
proof -
  have "\<exists>calls. fold (serve_guard rc cfg ops) cs g = run_checks check_and_record calls g \<and>
      length calls \<le> length cs \<and> set (map snd calls) \<subseteq> (\<lambda>c. ucast (ci_now (snd c))) ` set cs"
  proof (induction cs arbitrary: g)
    case (Cons c cs)
    obtain calls where calls: "fold (serve_guard rc cfg ops) cs (serve_guard rc cfg ops c g) =
        run_checks check_and_record calls (serve_guard rc cfg ops c g)"
      "length calls \<le> length cs" "set (map snd calls) \<subseteq> (\<lambda>c. ucast (ci_now (snd c))) ` set cs"
      using Cons.IH by blast
    consider "serve_guard rc cfg ops c g = g"
      | k where "serve_guard rc cfg ops c g = snd (check_and_record k (ucast (ci_now (snd c))) g)"
      using serve_guard_step by blast
    then show ?case
    proof cases
      case 1
      then show ?thesis
        using calls by (intro exI [of _ calls]) auto
    next
      case 2
      then show ?thesis
        using calls by (intro exI [of _ "(k, ucast (ci_now (snd c))) # calls"]) auto
    qed
  qed (simp add: exI [of _ "[]"])
  then show ?thesis
    using that by blast
qed

lemma takeover_cases:
  assumes "fst (serve_connection rc cfg ops st ci g) = STakeover i l ch sh key"
  obtains first f t k where "ci_first ci = Some first" and "ch = rec_payload first"
    and "extract_client_hello_fields ch = Ok f" and "classify_full rc ch cfg (ci_now ci) = AuthedFull i t key"
    and "replay_key (ch_random f) (ch_session_id f) = Some k"
    and "\<not> fst (check_and_record k (ucast (ci_now ci)) g)"
    and "snd (serve_connection rc cfg ops st ci g) = snd (check_and_record k (ucast (ci_now ci)) g)"
    and "so_authorize ops st i (ucast (ci_now ci)) = Some l"
proof -
  obtain first f t where first: "ci_first ci = Some first" "ch = rec_payload first"
    "extract_client_hello_fields ch = Ok f" "classify_full rc ch cfg (ci_now ci) = AuthedFull i t key"
    "so_authorize ops st i (ucast (ci_now ci)) = Some l"
    using assms
    by (auto simp: serve_connection_def serve_unauthed_def serve_authed_def Let_def split_beta
        split: option.splits sum.splits classification_full.splits if_splits)
  have len: "length (ch_session_id f) = 32" "length (ch_random f) = 32"
    using first(3,4) extract_wf by (auto simp: classify_full_authed fields_wf_def)
  then obtain k where k: "replay_key (ch_random f) (ch_session_id f) = Some k"
    by (simp add: replay_key_def)
  then show ?thesis
    using that [OF first(1-4) k] assms first
    by (auto simp: serve_connection_def serve_authed_def Let_def split_beta split: if_splits option.splits)
qed

lemma window_within_ttl:
  assumes "unat (abs_diff32 n1 t) \<le> unat d" and "unat (abs_diff32 n2 t) \<le> unat (d :: u64)"
  shows "unat (ucast n2 :: u64) \<le> unat (ucast n1 :: u64) + unat (if unat d * 2 < 2 ^ 64 then d * 2 else 0xFFFFFFFFFFFFFFFF)"
proof -
  have "unat n2 \<le> unat n1 + 2 * unat d"
    using assms by (auto simp: unat_abs_diff32 word_less_nat_alt split: if_splits)
  moreover have "unat (d * 2) = unat d * 2" if "unat d * 2 < 2 ^ 64"
    using that by (simp add: unat_word_ariths)
  ultimately show ?thesis
    using unat_bound [of n2] by auto
qed

lemma listener_guard_inv:
  "guard_inv (listener_guard cfg)" "max_entries (listener_guard cfg) = 100000"
  "ttl_secs (listener_guard cfg) = (if unat (max_time_diff cfg) * 2 < 2 ^ 64 then max_time_diff cfg * 2 else 0xFFFFFFFFFFFFFFFF)"
  by (simp_all add: listener_guard_def replay_new_inv) (simp_all add: replay_new_def)

lemma serve_guard_inv:
  assumes "guard_inv g" and "max_entries g = m" and "ttl_secs g = d"
  shows "guard_inv (fold (serve_guard rc cfg ops) cs g) \<and> max_entries (fold (serve_guard rc cfg ops) cs g) = m \<and>
    ttl_secs (fold (serve_guard rc cfg ops) cs g) = d"
proof -
  obtain calls where "fold (serve_guard rc cfg ops) cs g = run_checks check_and_record calls g"
    using serve_guard_run by blast
  then show ?thesis
    using guard.run_inv [of g d m calls] assms by simp
qed

lemma authed_serve:
  assumes "primitives_ok rc" and "draws_ok dr" and "client_cfg_ok ccfg"
    and "length (static_secret cfg) = 32" and "server_public ccfg = rc_pub rc (static_secret cfg)"
    and "sni_allowed cfg (ca_sni ccfg)" and "unat (abs_diff32 now_s now_c) \<le> unat (max_time_diff cfg)"
  defines "key \<equiv> derive_auth_key (rc_cr rc) (rc_dh rc (dr_ephem dr) (server_public ccfg)) (dr_random dr)"
  shows "\<exists>ch k. build_authed_client_hello rc yandex ccfg now_c dr = Some (ch, dr_ephem dr, fst (mlkem_generate rc (dr_kem_seed dr))) \<and>
    classify_full rc ch cfg now_s = AuthedFull (ca_short_id ccfg) now_c key \<and>
    (\<forall>ops st ci g limits r.
       ci_first ci = Some \<lparr>content_type = HANDSHAKE, rec_payload = ch\<rparr> \<and> ci_now ci = now_s \<and>
       ci_dest_up ci (dest_for cfg (Some (ca_sni ccfg))) \<and> ci_dest_writes ci \<and> ci_dest_hello ci = Some r \<and>
       so_authorize ops st (ca_short_id ccfg) (ucast now_s) = Some limits \<and>
       \<not> fst (check_and_record k (ucast now_s) g) \<longrightarrow>
       serve_connection rc cfg ops st ci g =
         (STakeover (ca_short_id ccfg) limits ch (rec_payload r) key, snd (check_and_record k (ucast now_s) g)))"
proof -
  let ?p = "\<lparr>ap_version = LESHIY_VERSION, ap_unix_secs = now_c, ap_short_id = ca_short_id ccfg\<rparr>"
  obtain ch sid where ch: "build_authed_client_hello rc yandex ccfg now_c dr =
        Some (ch, dr_ephem dr, fst (mlkem_generate rc (dr_kem_seed dr)))"
    and ext: "extract_client_hello_fields ch =
      Ok \<lparr>ch_random = dr_random dr, ch_session_id = sid, key_share_x25519 = Some (rc_pub rc (dr_ephem dr)),
          key_share_mlkem = Some \<lparr>mk_ek = snd (mlkem_generate rc (dr_kem_seed dr)), mk_x25519 = rc_pub rc (dr_ephem dr)\<rparr>,
          ch_sni = Some (ca_sni ccfg)\<rparr>"
    and sid: "length sid = 32"
    and opened: "open_session_id (rc_cr rc) key (dr_random dr) sid (aad_from_client_hello ch) = Some (encode_payload ?p)"
    using authed_client_hello [OF assms(1-3), of now_c] unfolding key_def by blast
  have dh: "rc_dh rc (static_secret cfg) (rc_pub rc (dr_ephem dr)) = rc_dh rc (dr_ephem dr) (server_public ccfg)"
    using assms(1,2,4,5) by (simp add: primitives_ok_def dh_agrees_def draws_ok_def)
  have "decode_payload (encode_payload ?p) = ?p"
    using assms(3) by (intro decode_encode_payload) (simp_all add: LESHIY_VERSION_def client_cfg_ok_def)
  then have cl: "classify_full rc ch cfg now_s = AuthedFull (ca_short_id ccfg) now_c key"
    using ext sid opened assms(6,7) unfolding classify_full_authed by (auto simp: dh key_def)
  have k: "replay_key (dr_random dr) sid = Some (dr_random dr @ sid)"
    using sid assms(2) by (simp add: replay_key_def draws_ok_def)
  show ?thesis
    using ch cl k ext
    by (intro exI [of _ ch] exI [of _ "dr_random dr @ sid"])
      (auto simp: serve_connection_def serve_authed_def Let_def split_beta result_ok_def)
qed

section \<open>Properties\<close>

text \<open>
  A genuine client gets through: the ClientHello that the client builds with its short id, the
  server's public key and an allowed name is classified as authenticated by the server holding the
  static secret whenever their clocks differ by at most the window, with the client's short id and time
  and with the auth key the client itself derived; and if the store authorizes the user, the ClientHello
  has not been seen and the destination answers, the connection is taken over with exactly these.
\<close>

theorem authed_client_taken_over:
  assumes "primitives_ok rc" and "draws_ok dr" and "client_cfg_ok ccfg"
    and "length (static_secret cfg) = 32" and "server_public ccfg = rc_pub rc (static_secret cfg)"
    and "sni_allowed cfg (ca_sni ccfg)" and "unat (abs_diff32 now_s now_c) \<le> unat (max_time_diff cfg)"
  defines "key \<equiv> derive_auth_key (rc_cr rc) (rc_dh rc (dr_ephem dr) (server_public ccfg)) (dr_random dr)"
  shows "\<exists>ch k. build_authed_client_hello rc yandex ccfg now_c dr = Some (ch, dr_ephem dr, fst (mlkem_generate rc (dr_kem_seed dr))) \<and>
    classify_full rc ch cfg now_s = AuthedFull (ca_short_id ccfg) now_c key \<and>
    (\<forall>ops st ci g limits r.
       ci_first ci = Some \<lparr>content_type = HANDSHAKE, rec_payload = ch\<rparr> \<and> ci_now ci = now_s \<and>
       ci_dest_up ci (dest_for cfg (Some (ca_sni ccfg))) \<and> ci_dest_writes ci \<and> ci_dest_hello ci = Some r \<and>
       so_authorize ops st (ca_short_id ccfg) (ucast now_s) = Some limits \<and>
       \<not> fst (check_and_record k (ucast now_s) g) \<longrightarrow>
       serve_connection rc cfg ops st ci g =
         (STakeover (ca_short_id ccfg) limits ch (rec_payload r) key, snd (check_and_record k (ucast now_s) g)))"
  using authed_serve [OF assms(1-7)] unfolding key_def .

definition sample_cfg :: server_auth_config where
  "sample_cfg = \<lparr>static_secret = replicate 32 0, server_names = [''a.org''], short_ids = [], max_time_diff = 120,
     cfg_dest = ''d:443'', dest_by_sni = [], cfg_mtproxy = None\<rparr>"

lemma sample_cfg_ok:
  "length (static_secret sample_cfg) = 32" "server_public sample_client = rc_pub plain_rc (static_secret sample_cfg)"
  "sni_allowed sample_cfg (ca_sni sample_client)" "unat (abs_diff32 5 5) \<le> unat (max_time_diff sample_cfg)"
  by (simp_all add: sample_cfg_def sample_client_def plain_rc_def sni_allowed_def abs_diff32_def)

theorem authed_client_taken_over_witness:
  "\<exists>ch key. build_authed_client_hello plain_rc yandex sample_client 5 sample_draws = Some (ch, replicate 32 1, []) \<and>
     classify_full plain_rc ch sample_cfg 5 = AuthedFull (replicate 8 1) 5 key"
  using authed_client_taken_over [OF plain_rc_ok sample_client_ok sample_cfg_ok]
  by (auto simp: sample_draws_def mlkem_generate_def) (auto simp: sample_client_def plain_rc_def)



text \<open>
  What it takes not to be relayed. A REALITY credential is a ClientHello for an allowed name whose session id opens under
  the key shared with the server's static key, with a time inside the window and a user the store admits, that the guard
  has not seen; an MTProxy credential is a ClientHello that authenticates under the configured secret and was not seen,
  on a connection that REALITY does not claim.
\<close>

definition reality_opens :: "reality_crypto \<Rightarrow> server_auth_config \<Rightarrow> bytes \<Rightarrow> u32 \<Rightarrow> client_hello_fields \<Rightarrow> bytes \<Rightarrow> bool" where
  "reality_opens rc cfg ch now f pt \<longleftrightarrow>
     extract_client_hello_fields ch = Ok f \<and> length (ch_session_id f) = 32 \<and>
     (\<exists>s x. ch_sni f = Some s \<and> sni_allowed cfg s \<and> key_share_x25519 f = Some x \<and>
        open_session_id (rc_cr rc) (derive_auth_key (rc_cr rc) (rc_dh rc (static_secret cfg) x) (ch_random f))
          (ch_random f) (ch_session_id f) (aad_from_client_hello ch) = Some pt) \<and>
     unat (abs_diff32 now (ap_unix_secs (decode_payload pt))) \<le> unat (max_time_diff cfg)"

definition seen_before :: "bytes \<Rightarrow> client_hello_fields \<Rightarrow> u32 \<Rightarrow> replay_guard \<Rightarrow> bool" where
  "seen_before r f now g \<longleftrightarrow> fst (check_and_record (r @ ch_session_id f) (ucast now) g)"

definition reality_credential ::
    "reality_crypto \<Rightarrow> server_auth_config \<Rightarrow> ('s, 'l) store_ops \<Rightarrow> 's \<Rightarrow> bytes \<Rightarrow> u32 \<Rightarrow> replay_guard \<Rightarrow> bool" where
  "reality_credential rc cfg ops st ch now g \<longleftrightarrow>
     (\<exists>f pt. reality_opens rc cfg ch now f pt \<and> so_authorize ops st (ap_short_id (decode_payload pt)) (ucast now) \<noteq> None \<and>
        \<not> seen_before (ch_random f) f now g)"

definition mtproxy_credential :: "reality_crypto \<Rightarrow> server_auth_config \<Rightarrow> bytes \<Rightarrow> u32 \<Rightarrow> replay_guard \<Rightarrow> bool" where
  "mtproxy_credential rc cfg ch now g \<longleftrightarrow>
     (\<nexists>f pt. reality_opens rc cfg ch now f pt) \<and>
     (\<exists>f secret digest. extract_client_hello_fields ch = Ok f \<and> cfg_mtproxy cfg = Some secret \<and>
        faketls_authenticate (rc_cr rc) ch secret now (max_time_diff cfg) = Some digest \<and>
        length digest = 32 \<and> length (ch_session_id f) = 32 \<and> \<not> seen_before digest f now g)"

text \<open>The site of the server name in a ClientHello; anything else is for the default one.\<close>

definition site_of :: "server_auth_config \<Rightarrow> bytes \<Rightarrow> string" where
  "site_of cfg ch = dest_for cfg (case extract_client_hello_fields ch of Inl _ \<Rightarrow> None | Inr f \<Rightarrow> ch_sni f)"

definition is_relayed :: "'l serve_outcome \<Rightarrow> bool" where
  "is_relayed r \<longleftrightarrow> (\<exists>d b. r = SRelayed d b)"

lemma classify_opens:
  "(\<exists>i t key. classify_full rc ch cfg now = AuthedFull i t key) \<longleftrightarrow> (\<exists>f pt. reality_opens rc cfg ch now f pt)"
  "classify_full rc ch cfg now = AuthedFull i t key \<Longrightarrow>
     \<exists>f pt. reality_opens rc cfg ch now f pt \<and> i = ap_short_id (decode_payload pt) \<and> length (ch_random f) = 32"
  "reality_opens rc cfg ch now f pt \<Longrightarrow> reality_opens rc cfg ch now f' pt' \<Longrightarrow> f' = f \<and> pt' = pt"
proof -
  show "(\<exists>i t key. classify_full rc ch cfg now = AuthedFull i t key) \<longleftrightarrow> (\<exists>f pt. reality_opens rc cfg ch now f pt)"
    unfolding classify_full_authed reality_opens_def by blast
  show "\<exists>f pt. reality_opens rc cfg ch now f pt \<and> i = ap_short_id (decode_payload pt) \<and> length (ch_random f) = 32"
    if "classify_full rc ch cfg now = AuthedFull i t key"
    using that extract_wf unfolding classify_full_authed reality_opens_def fields_wf_def by blast
  show "f' = f \<and> pt' = pt" if "reality_opens rc cfg ch now f pt" "reality_opens rc cfg ch now f' pt'"
    using that unfolding reality_opens_def by fastforce
qed

lemma authed_relayed:
  assumes "extract_client_hello_fields ch = Ok f" and "classify_full rc ch cfg now = AuthedFull i t key"
  shows "is_relayed (fst (serve_authed ops st i key f (ucast now) ch dh dest b g)) \<longleftrightarrow> \<not> reality_credential rc cfg ops st ch now g"
    and "is_relayed (fst (serve_authed ops st i key f (ucast now) ch dh dest b g)) \<Longrightarrow>
      fst (serve_authed ops st i key f (ucast now) ch dh dest b g) = SRelayed dest b"
    and "\<not> mtproxy_credential rc cfg ch now g"
proof -
  obtain f' pt where o: "reality_opens rc cfg ch now f' pt" "i = ap_short_id (decode_payload pt)" "length (ch_random f') = 32"
    using classify_opens(2) [OF assms(2)] by blast
  moreover have "f' = f" using o(1) assms(1) by (simp add: reality_opens_def)
  ultimately have key: "replay_key (ch_random f) (ch_session_id f) = Some (ch_random f @ ch_session_id f)"
    and cred: "reality_credential rc cfg ops st ch now g \<longleftrightarrow> so_authorize ops st i (ucast now) \<noteq> None \<and> \<not> seen_before (ch_random f) f now g"
    using classify_opens(3) [OF o(1)] unfolding reality_credential_def by (auto simp: replay_key_def reality_opens_def)
  show "is_relayed (fst (serve_authed ops st i key f (ucast now) ch dh dest b g)) \<longleftrightarrow> \<not> reality_credential rc cfg ops st ch now g"
    unfolding cred by (auto simp: serve_authed_def key seen_before_def is_relayed_def Let_def split_beta split: option.split)
  show "fst (serve_authed ops st i key f (ucast now) ch dh dest b g) = SRelayed dest b"
    if "is_relayed (fst (serve_authed ops st i key f (ucast now) ch dh dest b g))"
    using that by (auto simp: serve_authed_def key is_relayed_def Let_def split_beta split: option.splits if_splits)
  show "\<not> mtproxy_credential rc cfg ch now g" using o(1) by (auto simp: mtproxy_credential_def)
qed

lemma unauthed_relayed:
  assumes "extract_client_hello_fields ch = Ok f" and "classify_full rc ch cfg now = UnauthedFull"
  shows "is_relayed (fst (serve_unauthed (mt_authenticate (rc_cr rc) cfg ch now) f (ucast now) dest b g)) \<longleftrightarrow> \<not> mtproxy_credential rc cfg ch now g"
    and "is_relayed (fst (serve_unauthed m f (ucast now) dest b g :: 'l serve_outcome \<times> replay_guard)) \<Longrightarrow>
      fst (serve_unauthed m f (ucast now) dest b g) = (SRelayed dest b :: 'l serve_outcome)"
    and "\<not> reality_credential rc cfg ops st ch now g"
proof -
  have o: "\<nexists>f pt. reality_opens rc cfg ch now f pt" using assms(2) classify_opens(1) [of rc ch cfg now] by auto
  then show "\<not> reality_credential rc cfg ops st ch now g" by (auto simp: reality_credential_def)
  have "mtproxy_credential rc cfg ch now g \<longleftrightarrow>
      (\<exists>digest. mt_authenticate (rc_cr rc) cfg ch now = Some digest \<and> fst (fresh_digest digest f (ucast now) g))"
    using o assms(1)
    by (auto simp: mtproxy_credential_def mt_authenticate_def fresh_digest_def replay_key_def seen_before_def bind_eq_Some_conv
        Let_def split_beta)
  then show "is_relayed (fst (serve_unauthed (mt_authenticate (rc_cr rc) cfg ch now) f (ucast now) dest b g)) \<longleftrightarrow> \<not> mtproxy_credential rc cfg ch now g"
    by (auto simp: serve_unauthed_def is_relayed_def Let_def split_beta split: option.split)
  show "fst (serve_unauthed m f (ucast now) dest b g) = (SRelayed dest b :: 'l serve_outcome)"
    if "is_relayed (fst (serve_unauthed m f (ucast now) dest b g :: 'l serve_outcome \<times> replay_guard))"
    using that by (auto simp: serve_unauthed_def is_relayed_def Let_def split_beta split: option.splits if_splits)
qed

text \<open>The first record as the server forwards it: the client's bytes with the version replaced.\<close>

lemma read_record_forwarded:
  assumes "read_record bs = Ok (r, rest)"
  shows "record_bytes r @ rest = bs[1 := 3, 2 := 3]"
proof -
  obtain hdr rest1 where h: "read_exact REC_HEADER_LEN bs = Ok (hdr, rest1)"
    using assms by (cases "read_exact REC_HEADER_LEN bs") (auto simp: read_record_def)
  then have h5: "length hdr = 5" "bs = hdr @ rest1"
    by (auto simp: read_exact_def REC_HEADER_LEN_def split: if_splits)
  then obtain a b c d e where hdr: "hdr = [a, b, c, d, e]"
    by (auto simp: length_Suc_conv numeral_eq_Suc)
  have p: "read_exact (unat (u16_from_be [d, e])) rest1 = Ok (rec_payload r, rest)" "content_type r = a"
    using assms by (auto simp: read_record_def h hdr Let_def try_bind_def split: if_splits sum.splits)
  then have "unat (u16_from_be [d, e]) \<le> length rest1" "rec_payload r = take (unat (u16_from_be [d, e])) rest1"
      "rest = drop (unat (u16_from_be [d, e])) rest1"
    by (auto simp: read_exact_def split: if_splits)
  then have "length (rec_payload r) = unat (u16_from_be [d, e])" "rest1 = rec_payload r @ rest"
    by simp_all
  then show ?thesis
    by (simp add: record_bytes_def record_header_def h5 hdr p(2) u16_to_from_be)
qed



end
