(* ===== verification/RealityHandshake.thy ===== *)
theory RealityHandshake
  imports Auth Tunnel TlsMessages
begin

text \<open>
  The authenticated TLS 1.3 handshake of REALITY: \<open>crates/leshiy-reality/src/handshake.rs\<close> and the drivers
  \<open>establish_server\<close> and \<open>establish_client\<close> of \<open>tunnel.rs\<close>.

  A step either fails with an error of the code or panics (\<open>fault\<close>); that no step of a handshake between
  two ends of this code base panics is part of the theorem. The server's certificate is its DER template
  and the Ed25519 seed; \<open>rcgen\<close> is only called to make the template, so the facts the handshake relies on
  are \<open>cert_ok\<close>.
\<close>

section \<open>Definitions\<close>

datatype fault = Panic | Fail reality_error

definition no_panic :: "'a option \<Rightarrow> fault + 'a" where
  "no_panic v = ok_or v Panic"

definition tls_fail :: "tls_error + 'a \<Rightarrow> fault + 'a" where
  "tls_fail r = map_err (\<lambda>e. Fail (RTls e)) r"

abbreviation malformed :: "string \<Rightarrow> fault" where
  "malformed msg \<equiv> Fail (RMalformed msg)"

subsection \<open>The certificate\<close>

definition ED25519_SPKI_PREFIX :: bytes where
  "ED25519_SPKI_PREFIX = [0x30, 0x2a, 0x30, 0x05, 0x06, 0x03, 0x2b, 0x65, 0x70, 0x03, 0x21, 0x00]"

text \<open>\<open>windows(12).position(..)\<close>.\<close>

fun find_spki :: "bytes \<Rightarrow> nat option" where
  "find_spki [] = None"
| "find_spki (b # bs) =
     (if take 12 (b # bs) = ED25519_SPKI_PREFIX then Some 0 else map_option Suc (find_spki bs))"

definition extract_ed25519_pubkey :: "bytes \<Rightarrow> bytes option" where
  "extract_ed25519_pubkey der =
     Option.bind (find_spki der) (\<lambda>i. if i + 44 \<le> length der then Some (slice (i + 12) (i + 44) der) else None)"

record server_cert =
  der_template :: bytes
  signing_seed :: bytes

text \<open>\<open>generate\<close>, from the PKCS\#8 document, the raw public key and the self-signed DER that rcgen makes.\<close>

definition server_cert_generate :: "reality_crypto \<Rightarrow> bytes \<Rightarrow> bytes \<Rightarrow> bytes \<Rightarrow> server_cert option" where
  "server_cert_generate rc pkcs8 rcgen_pub der =
     (if length pkcs8 < 48 then None
      else let seed = slice 16 48 pkcs8 in
        if rc_ed_public rc seed \<noteq> rcgen_pub then None
        else Some \<lparr>der_template = der, signing_seed = seed\<rparr>)"

definition public_key_bytes :: "reality_crypto \<Rightarrow> server_cert \<Rightarrow> bytes" where
  "public_key_bytes rc cert = rc_ed_public rc (signing_seed cert)"

definition signed_for :: "reality_crypto \<Rightarrow> server_cert \<Rightarrow> bytes \<Rightarrow> bytes option" where
  "signed_for rc cert auth_key =
     (let der = der_template cert;
          mac = rc_hmac512 rc auth_key (public_key_bytes rc cert);
          n = length der in
      if n < 64 \<or> length mac \<noteq> 64 then None else Some (take (n - 64) der @ mac))"

definition sign_transcript :: "reality_crypto \<Rightarrow> server_cert \<Rightarrow> bytes \<Rightarrow> bytes" where
  "sign_transcript rc cert ct = rc_ed_sign rc (signing_seed cert) ct"

definition verify_ed25519 :: "reality_crypto \<Rightarrow> bytes \<Rightarrow> bytes \<Rightarrow> bytes \<Rightarrow> bool" where
  "verify_ed25519 rc pubkey ct sig \<longleftrightarrow> length sig = 64 \<and> rc_ed_verify rc pubkey ct sig"

subsection \<open>The server\<close>

definition CV_CONTEXT :: bytes where
  "CV_CONTEXT = as_bytes ''TLS 1.3, server CertificateVerify'' @ [0]"

definition cv_content :: "bytes \<Rightarrow> bytes" where
  "cv_content th = replicate 64 0x20 @ CV_CONTEXT @ th"

record server_handshake_t =
  sv_suite :: cipher_suite
  sv_client_hs_key :: bytes
  sv_client_hs_iv :: bytes
  sv_client_finished_secret :: bytes
  sv_transcript :: bytes
  sv_session :: tls_session

definition server_key_exchange ::
    "reality_crypto \<Rightarrow> client_hello_fields \<Rightarrow> u16 \<Rightarrow> bytes \<Rightarrow> bytes \<Rightarrow> fault + (bytes \<times> bytes)" where
  "server_key_exchange rc hf grp kem_seed sk =
     (if grp = 0x11ec then
        try_bind (ok_or (key_share_mlkem hf) (malformed ''no mlkem share in client hello'')) (\<lambda>cs.
        try_bind (ok_or (encapsulate rc (mk_ek cs) kem_seed) (malformed ''mlkem encapsulate failed'')) (\<lambda>(ct, ss_mlkem).
        Ok (ct @ rc_pub rc sk, ss_mlkem @ rc_dh rc sk (mk_x25519 cs))))
      else
        try_bind (ok_or (key_share_x25519 hf) (malformed ''no x25519 key_share'')) (\<lambda>client_pub.
        Ok (rc_pub rc sk, rc_dh rc sk client_pub)))"

definition make_session :: "cipher_suite \<Rightarrow> (bytes \<times> bytes) \<times> (bytes \<times> bytes) \<Rightarrow> tls_session" where
  "make_session suite ks =
     \<lparr>ts_suite = suite, ts_client_key = fst (fst ks), ts_client_iv = snd (fst ks),
      ts_server_key = fst (snd ks), ts_server_iv = snd (snd ks)\<rparr>"

definition server_handshake ::
    "reality_crypto \<Rightarrow> bytes \<Rightarrow> bytes \<Rightarrow> bytes \<Rightarrow> server_cert \<Rightarrow> bytes \<Rightarrow> bytes \<Rightarrow> fault + (server_handshake_t \<times> bytes)" where
  "server_handshake rc client_hello dest_server_hello auth_key cert kem_seed sk =
     (let cr = rc_cr rc in
      try_bind (tls_fail (extract_client_hello_fields client_hello)) (\<lambda>hf.
      try_bind (tls_fail (parse_server_hello dest_server_hello)) (\<lambda>sp.
      try_bind (ok_or (suite_from_u16 (sh_suite sp)) (malformed ''bad suite'')) (\<lambda>suite.
      try_bind (server_key_exchange rc hf (key_share_group sp) kem_seed sk) (\<lambda>(server_share, shared).
      try_bind (tls_fail (adapt_server_hello dest_server_hello server_share)) (\<lambda>sh.
      let tr = transcript_update sh (transcript_update client_hello (transcript_new suite)) in
      try_bind (no_panic (handshake_keys cr suite shared (transcript_hash cr tr))) (\<lambda>k.
      let ee = build_encrypted_extensions None; tr = transcript_update ee tr in
      try_bind (no_panic (signed_for rc cert auth_key)) (\<lambda>der.
      let cert_msg = build_certificate der; tr = transcript_update cert_msg tr;
          cv_sig = sign_transcript rc cert (cv_content (transcript_hash cr tr));
          cv_msg = build_certificate_verify 0x0807 cv_sig; tr = transcript_update cv_msg tr in
      try_bind (no_panic (finished_verify_data cr suite (k_server_hs k) (transcript_hash cr tr))) (\<lambda>s_fin_vd.
      let fin_msg = build_finished s_fin_vd; tr = transcript_update fin_msg tr; th_sfin = transcript_hash cr tr in
      try_bind (no_panic (application_keys cr suite (k_hs k) th_sfin)) (\<lambda>ap.
      try_bind (tls_fail (seal_record cr suite (fst (k_server_hs_key k)) (snd (k_server_hs_key k)) 0 0x16
                            (ee @ cert_msg @ cv_msg @ fin_msg))) (\<lambda>enc.
      try_bind (no_panic (encode_record \<lparr>content_type = HANDSHAKE, rec_payload = sh\<rparr>)) (\<lambda>flight.
      Ok (\<lparr>sv_suite = suite, sv_client_hs_key = fst (k_client_hs_key k), sv_client_hs_iv = snd (k_client_hs_key k),
           sv_client_finished_secret = k_client_hs k, sv_transcript = th_sfin, sv_session = make_session suite ap\<rparr>,
          flight @ enc)))))))))))))"

definition server_finish :: "reality_crypto \<Rightarrow> server_handshake_t \<Rightarrow> bytes \<Rightarrow> fault + tls_session" where
  "server_finish rc sv rec =
     (let cr = rc_cr rc in
      try_bind (tls_fail (open_record cr (sv_suite sv) (sv_client_hs_key sv) (sv_client_hs_iv sv) 0 rec)) (\<lambda>(it, msg).
      if it \<noteq> 0x16 then Err (malformed ''expected handshake'')
      else
        try_bind (tls_fail (parse_finished msg)) (\<lambda>vd.
        try_bind (no_panic (finished_verify_data cr (sv_suite sv) (sv_client_finished_secret sv) (sv_transcript sv))) (\<lambda>want.
        if vd \<noteq> want then Err (malformed ''client Finished mismatch'') else Ok (sv_session sv)))))"

subsection \<open>The client\<close>

record client_out =
  co_session :: tls_session
  co_finished :: bytes

definition client_key_exchange :: "reality_crypto \<Rightarrow> server_hello_params \<Rightarrow> bytes \<Rightarrow> bytes \<Rightarrow> fault + bytes" where
  "client_key_exchange rc sp ephem dk =
     (if key_share_group sp = 0x11ec then
        if length (key_share sp) \<noteq> 1120 then Err (malformed ''bad mlkem server share length (expected 1120)'')
        else
          try_bind (ok_or (decapsulate rc dk (slice 0 1088 (key_share sp))) (malformed ''mlkem decapsulate failed'')) (\<lambda>ss.
          Ok (ss @ rc_dh rc ephem (slice 1088 1120 (key_share sp))))
      else if key_share_group sp \<noteq> 0x001d \<or> length (key_share sp) \<noteq> 32
        then Err (malformed ''server key_share not x25519 or mlkem'')
      else Ok (rc_dh rc ephem (key_share sp)))"

definition next_msg :: "bytes \<Rightarrow> nat \<Rightarrow> fault + (bytes \<times> nat)" where
  "next_msg buf off =
     try_bind (tls_fail (parse_hs_msg (drop off buf))) (\<lambda>(t, body).
     let total = 4 + length body in Ok (slice off (off + total) buf, off + total))"

definition identity_ok :: "reality_crypto \<Rightarrow> bytes \<Rightarrow> bytes \<Rightarrow> bytes \<Rightarrow> bool" where
  "identity_ok rc auth_key cert_pub der \<longleftrightarrow>
     64 \<le> length der \<and> rc_hmac512 rc auth_key cert_pub = drop (length der - 64) der"

definition client_handshake ::
    "reality_crypto \<Rightarrow> bytes \<Rightarrow> bytes \<Rightarrow> bytes \<Rightarrow> bytes \<Rightarrow> bytes \<Rightarrow> fault + client_out" where
  "client_handshake rc client_hello server_flight ephem auth_key dk =
     (let cr = rc_cr rc in
      try_bind (tls_fail (decode_record server_flight)) (\<lambda>(sh_rec, consumed).
      if content_type sh_rec \<noteq> HANDSHAKE then Err (malformed ''expected SH record'')
      else let sh = rec_payload sh_rec in
      try_bind (tls_fail (parse_server_hello sh)) (\<lambda>sp.
      try_bind (ok_or (suite_from_u16 (sh_suite sp)) (malformed ''bad suite'')) (\<lambda>suite.
      try_bind (client_key_exchange rc sp ephem dk) (\<lambda>shared.
      let tr = transcript_update sh (transcript_update client_hello (transcript_new suite)) in
      try_bind (no_panic (handshake_keys cr suite shared (transcript_hash cr tr))) (\<lambda>k.
      try_bind (tls_fail (open_record cr suite (fst (k_server_hs_key k)) (snd (k_server_hs_key k)) 0
                            (drop consumed server_flight))) (\<lambda>(it, inner).
      if it \<noteq> 0x16 then Err (malformed ''expected handshake'')
      else
      try_bind (next_msg inner 0) (\<lambda>(ee, off).
      let tr = transcript_update ee tr in
      try_bind (next_msg inner off) (\<lambda>(cert_msg, off).
      try_bind (tls_fail (parse_certificate cert_msg)) (\<lambda>der.
      let tr = transcript_update cert_msg tr in
      try_bind (ok_or (extract_ed25519_pubkey der) (malformed ''no ed25519 pubkey'')) (\<lambda>cert_pub.
      if \<not> identity_ok rc auth_key cert_pub der then Err (malformed ''server identity (HMAC) mismatch'')
      else
      try_bind (next_msg inner off) (\<lambda>(cv_msg, off).
      try_bind (tls_fail (parse_certificate_verify cv_msg)) (\<lambda>(alg, sig).
      if alg \<noteq> 0x0807 \<or> \<not> verify_ed25519 rc cert_pub (cv_content (transcript_hash cr tr)) sig
        then Err (malformed ''CertVerify failed'')
      else let tr = transcript_update cv_msg tr in
      try_bind (next_msg inner off) (\<lambda>(fin_msg, off).
      try_bind (tls_fail (parse_finished fin_msg)) (\<lambda>s_vd.
      try_bind (no_panic (finished_verify_data cr suite (k_server_hs k) (transcript_hash cr tr))) (\<lambda>expected_s.
      if s_vd \<noteq> expected_s then Err (malformed ''server Finished mismatch'')
      else let tr = transcript_update fin_msg tr; th_sfin = transcript_hash cr tr in
      try_bind (no_panic (application_keys cr suite (k_hs k) th_sfin)) (\<lambda>ap.
      try_bind (no_panic (finished_verify_data cr suite (k_client_hs k) th_sfin)) (\<lambda>c_vd.
      try_bind (tls_fail (seal_record cr suite (fst (k_client_hs_key k)) (snd (k_client_hs_key k)) 0 0x16
                            (build_finished c_vd))) (\<lambda>c_fin.
      Ok \<lparr>co_session = make_session suite ap, co_finished = c_fin\<rparr>)))))))))))))))))))"

subsection \<open>The drivers\<close>

text \<open>
  \<open>inp\<close> is what the peer sends; a read past its end fails, by the drivers' deadline when \<open>stalled\<close>. \<open>writes\<close>
  says whether the driver's write succeeds. The result has the session, what was written and the unread
  input.
\<close>

definition read_record_deadlined :: "bool \<Rightarrow> string \<Rightarrow> bytes \<Rightarrow> fault + (tls_record \<times> bytes)" where
  "read_record_deadlined stalled what inp =
     (case read_record inp of
        Inr r \<Rightarrow> Ok r
      | Inl _ \<Rightarrow> Err (malformed (if stalled then what @ '' timed out'' else ''reading '' @ what)))"

definition establish_server ::
    "reality_crypto \<Rightarrow> bool \<Rightarrow> bool \<Rightarrow> bytes \<Rightarrow> bytes \<Rightarrow> bytes \<Rightarrow> server_cert \<Rightarrow> bytes \<Rightarrow> bytes \<Rightarrow> bytes \<Rightarrow>
     fault + (tls_session \<times> bytes \<times> bytes)" where
  "establish_server rc stalled writes client_hello dest_server_hello auth_key cert kem_seed sk inp =
     try_bind (server_handshake rc client_hello dest_server_hello auth_key cert kem_seed sk) (\<lambda>(sv, flight).
     if \<not> writes then Err (Fail RIo) else
     try_bind (read_record_deadlined stalled ''client Finished'' inp) (\<lambda>(fin, rest).
     try_bind (no_panic (encode_record fin)) (\<lambda>b.
     try_bind (server_finish rc sv b) (\<lambda>s. Ok (s, flight, rest)))))"

definition establish_client ::
    "reality_crypto \<Rightarrow> bool \<Rightarrow> bool \<Rightarrow> bytes \<Rightarrow> bytes \<Rightarrow> bytes \<Rightarrow> bytes \<Rightarrow> bytes \<Rightarrow> fault + (tls_session \<times> bytes \<times> bytes)" where
  "establish_client rc stalled writes client_hello ephem auth_key dk inp =
     try_bind (read_record_deadlined stalled ''SH record'' inp) (\<lambda>(sh_rec, inp).
     try_bind (read_record_deadlined stalled ''encrypted flight record'' inp) (\<lambda>(enc_rec, inp).
     try_bind (no_panic (encode_record sh_rec)) (\<lambda>a.
     try_bind (no_panic (encode_record enc_rec)) (\<lambda>b.
     try_bind (client_handshake rc client_hello (a @ b) ephem auth_key dk) (\<lambda>co.
     if \<not> writes then Err (Fail RIo) else Ok (co_session co, co_finished co, inp))))))"

section \<open>Lemmas\<close>

lemma no_panic_Some [simp]: "no_panic (Some x) = Ok x"
  by (simp add: no_panic_def)

lemma tls_fail_Ok [simp]: "tls_fail (Ok x) = Ok x"
  by (simp add: tls_fail_def)

lemma ok_or_eq_Ok: "ok_or v e = Ok x \<longleftrightarrow> v = Some x"
  by (cases v) simp_all

lemma tls_fail_eq_Ok [simp]: "tls_fail r = Ok x \<longleftrightarrow> r = Ok x"
  by (cases r) (simp_all add: tls_fail_def)

lemma no_panic_eq_Ok [simp]: "no_panic v = Ok x \<longleftrightarrow> v = Some x"
  by (cases v) (simp_all add: no_panic_def)

text \<open>Documented behaviour of Ed25519 and HMAC-SHA512: output sizes, and a signature verifies.\<close>

definition signatures_ok :: "reality_crypto \<Rightarrow> bool" where
  "signatures_ok rc \<longleftrightarrow>
     (\<forall>seed m. length (rc_ed_sign rc seed m) = 64 \<and> rc_ed_verify rc (rc_ed_public rc seed) m (rc_ed_sign rc seed m)) \<and>
     (\<forall>k d. length (rc_hmac512 rc k d) = 64)"

text \<open>
  What an rcgen self-signed Ed25519 certificate looks like: the first SPKI prefix is followed by the public
  key, the last 64 bytes are the signature, and it fits one record.
\<close>

definition cert_ok :: "reality_crypto \<Rightarrow> server_cert \<Rightarrow> bool" where
  "cert_ok rc cert \<longleftrightarrow>
     (case find_spki (der_template cert) of
        None \<Rightarrow> False
      | Some i \<Rightarrow> i + 44 + 64 \<le> length (der_template cert) \<and> length (der_template cert) \<le> 16000 \<and>
          slice (i + 12) (i + 44) (der_template cert) = public_key_bytes rc cert)"

subsection \<open>The certificate's identity tag\<close>

lemma find_spki_bound: "find_spki a = Some i \<Longrightarrow> i + 12 \<le> length a"
proof (induction a arbitrary: i)
  case (Cons b bs)
  have "12 \<le> length (b # bs)" if "take 12 (b # bs) = ED25519_SPKI_PREFIX"
    using arg_cong [OF that, of length] by (simp add: ED25519_SPKI_PREFIX_def)
  with Cons show ?case
    by (fastforce split: if_splits)
qed simp

lemma find_spki_front:
  assumes "find_spki (a @ b) = Some i" and "i + 12 \<le> length a"
  shows "find_spki (a @ c) = Some i"
  using assms
proof (induction a arbitrary: i)
  case (Cons x a)
  show ?case
  proof (cases "12 \<le> length (x # a)")
    case True
    then have "take 12 ((x # a) @ b) = take 12 ((x # a) @ c)"
      by simp
    then show ?thesis
      using Cons by (auto split: if_splits)
  next
    case False
    then show ?thesis
      using Cons.prems by simp
  qed
qed simp

lemma signed_certificate:
  assumes "signatures_ok rc" and "cert_ok rc cert"
  obtains der where "signed_for rc cert key = Some der" and "length der \<le> 16000"
    and "extract_ed25519_pubkey der = Some (public_key_bytes rc cert)"
    and "identity_ok rc key (public_key_bytes rc cert) der"
proof -
  let ?t = "der_template cert" and ?mac = "rc_hmac512 rc key (public_key_bytes rc cert)"
  define a where "a = take (length ?t - 64) ?t"
  obtain i where i: "find_spki ?t = Some i" "i + 44 + 64 \<le> length ?t" "length ?t \<le> 16000"
    "slice (i + 12) (i + 44) ?t = public_key_bytes rc cert"
    using assms(2) by (auto simp: cert_ok_def split: option.splits)
  have t: "?t = a @ drop (length ?t - 64) ?t" and len: "length a = length ?t - 64" "i + 44 \<le> length a"
    using i(2) by (simp_all add: a_def)
  have mac: "length ?mac = 64"
    using assms(1) by (simp add: signatures_ok_def)
  have "find_spki (a @ ?mac) = Some i"
    by (rule find_spki_front [of a "drop (length ?t - 64) ?t"]) (use i(1) len in \<open>simp_all flip: t\<close>)
  moreover have "slice (i + 12) (i + 44) (a @ ?mac) = slice (i + 12) (i + 44) (a @ drop (length ?t - 64) ?t)"
    using len(2) by (simp add: slice_def)
  ultimately show ?thesis
    using i len mac t
    by (intro that [of "a @ ?mac"]) (simp_all add: signed_for_def extract_ed25519_pubkey_def identity_ok_def a_def Let_def)
qed

subsection \<open>Key exchange\<close>

definition offers :: "reality_crypto \<Rightarrow> client_hello_fields \<Rightarrow> bytes \<Rightarrow> bytes \<Rightarrow> bool" where
  "offers rc hf ephem seed \<longleftrightarrow> key_share_x25519 hf = Some (rc_pub rc ephem) \<and>
     key_share_mlkem hf = Some \<lparr>mk_ek = snd (mlkem_generate rc seed), mk_x25519 = rc_pub rc ephem\<rparr>"

lemma kem_exchange:
  assumes "kem_agrees rc"
  obtains ct ss where "encapsulate rc (snd (mlkem_generate rc seed)) r = Some (ct, ss)" and "length ct = 1088"
    and "decapsulate rc (fst (mlkem_generate rc seed)) ct = Some ss"
  using assms unfolding kem_agrees_def encapsulate_def decapsulate_def mlkem_generate_def ML_KEM_CT_def
  by (metis prod.collapse)

lemma key_exchange_agrees:
  assumes "primitives_ok rc" and "length ephem = 32" and "length sk = 32" and "offers rc hf ephem seed"
    and "key_share_group sp = 0x001d \<or> key_share_group sp = 0x11ec"
  obtains share shared where "server_key_exchange rc hf (key_share_group sp) r sk = Ok (share, shared)"
    and "client_key_exchange rc (sp\<lparr>key_share := share\<rparr>) ephem (fst (mlkem_generate rc seed)) = Ok shared"
    and "key_share_group sp = 0x001d \<and> length share = 32 \<or> key_share_group sp = 0x11ec \<and> length share = 1120"
proof -
  have dh: "rc_dh rc sk (rc_pub rc ephem) = rc_dh rc ephem (rc_pub rc sk)" "length (rc_pub rc sk) = 32"
    using assms(1-3) unfolding primitives_ok_def dh_agrees_def by blast+
  show ?thesis
  proof (cases "key_share_group sp = 0x11ec")
    case True
    obtain ct ss where k: "encapsulate rc (snd (mlkem_generate rc seed)) r = Some (ct, ss)" "length ct = 1088"
      "decapsulate rc (fst (mlkem_generate rc seed)) ct = Some ss"
      using assms(1) kem_exchange [of rc seed r] unfolding primitives_ok_def by blast
    show ?thesis
      by (rule that [of "ct @ rc_pub rc sk" "ss @ rc_dh rc sk (rc_pub rc ephem)"])
        (use True k dh assms(4) in \<open>simp_all add: server_key_exchange_def client_key_exchange_def offers_def slice_def\<close>)
  next
    case False
    then show ?thesis
      using assms(4,5) dh
      by (intro that [of "rc_pub rc sk" "rc_dh rc sk (rc_pub rc ephem)"])
        (simp_all add: server_key_exchange_def client_key_exchange_def offers_def)
  qed
qed

subsection \<open>Messages of the flight\<close>

definition whole_msg :: "bytes \<Rightarrow> bool" where
  "whole_msg m \<longleftrightarrow> (\<exists>t body. m = hs_msg t body \<and> length body < 2 ^ 24)"

lemma next_msg_at:
  assumes "whole_msg m" and "off = length pre"
  shows "next_msg (pre @ m @ rest) off = Ok (m, off + length m)"
proof -
  obtain t body where m: "m = hs_msg t body" and b: "length body < 2 ^ 24"
    using assms(1) by (auto simp: whole_msg_def)
  show ?thesis
    using assms(2) parse_hs_msg_build [OF b, of t rest] by (simp add: m next_msg_def Let_def slice_def)
qed

lemma open_record_bytes:
  "open_record cr s key iv q (record_bytes \<lparr>content_type = ct, rec_payload = body\<rparr>) =
   open_record_parts cr s key iv q (record_header ct (length body)) body"
  by (simp add: open_record_def record_bytes_def slice_def)

lemma decode_record_front:
  assumes "record_fits r"
  shows "decode_record (record_bytes r @ rest) = Ok (r, 5 + length (rec_payload r))"
    and "drop (5 + length (rec_payload r)) (record_bytes r @ rest) = rest"
  using assms read_record_bytes [OF assms] by (simp_all add: decode_record_read record_bytes_def)

lemma sealed_flight:
  assumes "aead_correct cr" and "key_pair_ok s k" and "length pt + 17 \<le> MAX_RECORD_ON_WIRE"
  obtains body where "seal_record cr s (fst k) (snd k) 0 0x16 pt =
      Ok (record_bytes \<lparr>content_type = APPLICATION_DATA, rec_payload = body\<rparr>)"
    and "record_fits \<lparr>content_type = APPLICATION_DATA, rec_payload = body\<rparr>"
    and "open_record cr s (fst k) (snd k) 0 (record_bytes \<lparr>content_type = APPLICATION_DATA, rec_payload = body\<rparr>) = Ok (0x16, pt)"
proof -
  have "length (fst k) = key_len s" "length (snd k) = 12" "(0x16 :: u8) \<noteq> 0" "length pt + 17 < 2 ^ 16"
    using assms(2,3) by (simp_all add: record_sizes key_pair_ok_def)
  from seal_open [OF assms(1) this, of 0] obtain body where "seal_record cr s (fst k) (snd k) 0 0x16 pt =
      Ok (record_bytes \<lparr>content_type = APPLICATION_DATA, rec_payload = body\<rparr>)" "length body = length pt + 17"
    "open_record_parts cr s (fst k) (snd k) 0 (record_header APPLICATION_DATA (length body)) body = Ok (0x16, pt)"
    by blast
  then show ?thesis
    using that assms(3) by (simp add: open_record_bytes record_fits_def)
qed

subsection \<open>Agreement\<close>

lemma adapted_hello:
  assumes "parse_server_hello dest = Ok sp"
    and "key_share_group sp = 0x001d \<and> length share = 32 \<or> key_share_group sp = 0x11ec \<and> length share = 1120"
  defines "sh \<equiv> build_server_hello (sp\<lparr>key_share := share\<rparr>)"
  shows "adapt_server_hello dest share = Ok sh" and "parse_server_hello sh = Ok (sp\<lparr>key_share := share\<rparr>)"
    and "record_fits \<lparr>content_type = HANDSHAKE, rec_payload = sh\<rparr>"
    and "encode_record \<lparr>content_type = HANDSHAKE, rec_payload = sh\<rparr> =
      Some (record_bytes \<lparr>content_type = HANDSHAKE, rec_payload = sh\<rparr>)"
proof -
  have sid: "length (server_random sp) = 32" "length (session_id_echo sp) < 256" and share: "length share \<le> 1120"
    using parse_server_hello_wf [OF assms(1)] assms(2) by auto
  show "adapt_server_hello dest share = Ok sh"
    using assms by (auto simp: adapt_server_hello_def)
  have "sh_wf (sp\<lparr>key_share := share\<rparr>)"
    using sid share by (simp add: sh_wf_def)
  then show "parse_server_hello sh = Ok (sp\<lparr>key_share := share\<rparr>)"
    using parse_server_hello_build [of _ "[]"] by (simp add: sh_def)
  have "length sh \<le> 2000"
    using sid share by (simp add: sh_def build_server_hello_def)
  then show "record_fits \<lparr>content_type = HANDSHAKE, rec_payload = sh\<rparr>"
    "encode_record \<lparr>content_type = HANDSHAKE, rec_payload = sh\<rparr> =
      Some (record_bytes \<lparr>content_type = HANDSHAKE, rec_payload = sh\<rparr>)"
    by (simp_all add: record_fits_def record_sizes encode_record_def)
qed

lemma flight_parts:
  assumes "length der \<le> 16000" and "length sig = 64" and "length vd \<le> 48"
  shows "whole_msg (build_encrypted_extensions None)" "whole_msg (build_certificate der)"
    "whole_msg (build_certificate_verify 0x0807 sig)" "whole_msg (build_finished vd)"
    "parse_certificate (build_certificate der) = Ok der"
    "parse_certificate_verify (build_certificate_verify 0x0807 sig) = Ok (0x0807, sig)"
    "parse_finished (build_finished vd) = Ok vd"
    "length (build_encrypted_extensions None @ build_certificate der @ build_certificate_verify 0x0807 sig @
       build_finished vd) + 17 \<le> MAX_RECORD_ON_WIRE"
proof -
  show "parse_finished (build_finished vd) = Ok vd"
    by (rule finished_codec.decode_encode) (use assms(3) in simp)
qed (use assms parse_certificate_build [of der "[]"] parse_certificate_verify_build [of sig "0x0807" "[]"] in
    \<open>force simp: whole_msg_def build_encrypted_extensions_def build_certificate_def build_certificate_verify_def
      build_finished_def Let_def record_sizes\<close>)+

lemma next_msgs:
  assumes "whole_msg a" and "whole_msg b" and "whole_msg c" and "whole_msg d"
  shows "next_msg (a @ b @ c @ d) 0 = Ok (a, length a)"
    and "next_msg (a @ b @ c @ d) (length a) = Ok (b, length a + length b)"
    and "next_msg (a @ b @ c @ d) (length a + length b) = Ok (c, length a + length b + length c)"
    and "next_msg (a @ b @ c @ d) (length a + length b + length c) =
      Ok (d, length a + length b + length c + length d)"
  using next_msg_at [OF assms(1), of 0 "[]"] next_msg_at [OF assms(2), of _ a] next_msg_at [OF assms(3), of _ "a @ b"]
    next_msg_at [OF assms(4), of _ "a @ b @ c" "[]"]
  by (simp_all add: add.assoc)


text \<open>
  The values both sides compute from the two hellos: keys, certificate, signature, the two Finished values
  and the application keys.
\<close>

record hs_run =
  hr_suite :: cipher_suite
  hr_keys :: hs_keys
  hr_der :: bytes
  hr_sig :: bytes
  hr_server_vd :: bytes
  hr_transcript :: bytes
  hr_client_vd :: bytes
  hr_app :: "(bytes \<times> bytes) \<times> (bytes \<times> bytes)"

definition run_transcript :: "bytes \<Rightarrow> bytes \<Rightarrow> hs_run \<Rightarrow> transcript" where
  "run_transcript ch sh R =
     transcript_update (build_certificate (hr_der R)) (transcript_update (build_encrypted_extensions None)
       (transcript_update sh (transcript_update ch (transcript_new (hr_suite R)))))"

definition run_flight :: "hs_run \<Rightarrow> bytes" where
  "run_flight R = build_encrypted_extensions None @ build_certificate (hr_der R) @
     build_certificate_verify 0x0807 (hr_sig R) @ build_finished (hr_server_vd R)"

definition run_ok :: "reality_crypto \<Rightarrow> bytes \<Rightarrow> bytes \<Rightarrow> bytes \<Rightarrow> server_cert \<Rightarrow> bytes \<Rightarrow> hs_run \<Rightarrow> bool" where
  "run_ok rc ch sh key cert shared R \<longleftrightarrow>
     (let cr = rc_cr rc; suite = hr_suite R; k = hr_keys R; tr = run_transcript ch sh R;
          tv = transcript_update (build_certificate_verify 0x0807 (hr_sig R)) tr in
      handshake_keys cr suite shared
        (transcript_hash cr (transcript_update sh (transcript_update ch (transcript_new suite)))) = Some k \<and>
      key_pair_ok suite (k_server_hs_key k) \<and> key_pair_ok suite (k_client_hs_key k) \<and>
      signed_for rc cert key = Some (hr_der R) \<and>
      sign_transcript rc cert (cv_content (transcript_hash cr tr)) = hr_sig R \<and>
      finished_verify_data cr suite (k_server_hs k) (transcript_hash cr tv) = Some (hr_server_vd R) \<and>
      transcript_hash cr (transcript_update (build_finished (hr_server_vd R)) tv) = hr_transcript R \<and>
      finished_verify_data cr suite (k_client_hs k) (hr_transcript R) = Some (hr_client_vd R) \<and>
      application_keys cr suite (k_hs k) (hr_transcript R) = Some (hr_app R) \<and>
      key_pair_ok suite (fst (hr_app R)) \<and> key_pair_ok suite (snd (hr_app R)) \<and>
      length (hr_server_vd R) \<le> 48 \<and> length (hr_client_vd R) \<le> 48)"

lemma run_exists:
  assumes "hkdf_sizes (rc_cr rc)" and "signed_for rc cert key = Some der"
  obtains R where "run_ok rc ch sh key cert shared R" and "hr_suite R = suite" and "hr_der R = der"
proof -
  define cr where "cr = rc_cr rc"
  have sizes: "hkdf_sizes cr"
    using assms(1) by (simp add: cr_def)
  define t0 where "t0 = transcript_update sh (transcript_update ch (transcript_new suite))"
  define tr where "tr = transcript_update (build_certificate der) (transcript_update (build_encrypted_extensions None) t0)"
  define sig where "sig = sign_transcript rc cert (cv_content (transcript_hash cr tr))"
  define tv where "tv = transcript_update (build_certificate_verify 0x0807 sig) tr"
  obtain k where k: "handshake_keys cr suite shared (transcript_hash cr t0) = Some k"
    "length (k_hs k) = hash_len suite" "length (k_server_hs k) = hash_len suite" "length (k_client_hs k) = hash_len suite"
    "key_pair_ok suite (k_server_hs_key k)" "key_pair_ok suite (k_client_hs_key k)"
    using handshake_keys_total [OF sizes] by metis
  obtain vd where vd: "finished_verify_data cr suite (k_server_hs k) (transcript_hash cr tv) = Some vd" "length vd = hash_len suite"
    using finished_verify_data_total [OF sizes, of suite "k_server_hs k"] k(3) by (metis order_refl)
  define th where "th = transcript_hash cr (transcript_update (build_finished vd) tv)"
  obtain cvd where cvd: "finished_verify_data cr suite (k_client_hs k) th = Some cvd" "length cvd = hash_len suite"
    using finished_verify_data_total [OF sizes, of suite "k_client_hs k"] k(4) by (metis order_refl)
  obtain ck sk where ap: "application_keys cr suite (k_hs k) th = Some (ck, sk)" "key_pair_ok suite ck" "key_pair_ok suite sk"
    using application_keys_total [OF sizes, of suite "k_hs k"] k(2) by (metis order_refl)
  show ?thesis
    by (rule that [of "\<lparr>hr_suite = suite, hr_keys = k, hr_der = der, hr_sig = sig, hr_server_vd = vd,
        hr_transcript = th, hr_client_vd = cvd, hr_app = (ck, sk)\<rparr>"])
      (use assms(2) k vd cvd ap hash_len_bounds(2) [of suite] in
        \<open>simp_all add: run_ok_def run_transcript_def Let_def sig_def th_def tv_def tr_def t0_def cr_def\<close>)
qed

lemma server_handshake_run:
  assumes "run_ok rc ch sh key cert shared R"
    and "extract_client_hello_fields ch = Ok hf" and "parse_server_hello dest = Ok sp"
    and "suite_from_u16 (sh_suite sp) = Some (hr_suite R)"
    and "server_key_exchange rc hf (key_share_group sp) r sk = Ok (share, shared)"
    and "adapt_server_hello dest share = Ok sh"
    and "encode_record \<lparr>content_type = HANDSHAKE, rec_payload = sh\<rparr> = Some shb"
    and "seal_record (rc_cr rc) (hr_suite R) (fst (k_server_hs_key (hr_keys R))) (snd (k_server_hs_key (hr_keys R)))
      0 0x16 (run_flight R) = Ok enc"
  shows "server_handshake rc ch dest key cert r sk =
    Ok (\<lparr>sv_suite = hr_suite R, sv_client_hs_key = fst (k_client_hs_key (hr_keys R)),
         sv_client_hs_iv = snd (k_client_hs_key (hr_keys R)), sv_client_finished_secret = k_client_hs (hr_keys R),
         sv_transcript = hr_transcript R, sv_session = make_session (hr_suite R) (hr_app R)\<rparr>, shb @ enc)"
  using assms unfolding run_ok_def run_transcript_def run_flight_def server_handshake_def Let_def
  by simp

lemma client_handshake_run:
  assumes "run_ok rc ch sh key cert shared R" and "signatures_ok rc" and "cert_ok rc cert"
    and "parse_server_hello sh = Ok sp" and "suite_from_u16 (sh_suite sp) = Some (hr_suite R)"
    and "client_key_exchange rc sp ephem dk = Ok shared"
    and "record_fits \<lparr>content_type = HANDSHAKE, rec_payload = sh\<rparr>"
    and "open_record (rc_cr rc) (hr_suite R) (fst (k_server_hs_key (hr_keys R))) (snd (k_server_hs_key (hr_keys R))) 0 enc =
      Ok (0x16, run_flight R)"
    and "seal_record (rc_cr rc) (hr_suite R) (fst (k_client_hs_key (hr_keys R))) (snd (k_client_hs_key (hr_keys R)))
      0 0x16 (build_finished (hr_client_vd R)) = Ok cfin"
  shows "client_handshake rc ch (record_bytes \<lparr>content_type = HANDSHAKE, rec_payload = sh\<rparr> @ enc) ephem key dk =
    Ok \<lparr>co_session = make_session (hr_suite R) (hr_app R), co_finished = cfin\<rparr>"
proof -
  let ?pub = "public_key_bytes rc cert" and ?shr = "\<lparr>content_type = HANDSHAKE, rec_payload = sh\<rparr>"
  let ?ct = "cv_content (transcript_hash (rc_cr rc) (run_transcript ch sh R))"
  have signed: "signed_for rc cert key = Some (hr_der R)" and s: "hr_sig R = sign_transcript rc cert ?ct"
    and vd: "length (hr_server_vd R) \<le> 48"
    using assms(1) by (simp_all add: run_ok_def Let_def)
  have der: "length (hr_der R) \<le> 16000" "extract_ed25519_pubkey (hr_der R) = Some ?pub"
    "identity_ok rc key ?pub (hr_der R)"
    using signed_certificate [OF assms(2,3), of key] signed by (metis option.inject)+
  have sig: "length (hr_sig R) = 64" "verify_ed25519 rc ?pub ?ct (hr_sig R)"
    using assms(2) by (simp_all add: s signatures_ok_def sign_transcript_def verify_ed25519_def public_key_bytes_def)
  note parts = flight_parts [OF der(1) sig(1) vd]
  have dec: "decode_record (record_bytes ?shr @ rest) = Ok (?shr, 5 + length sh)"
    "drop (5 + length sh) (record_bytes ?shr @ rest) = rest" for rest
    using decode_record_front [OF assms(7), of rest] by simp_all
  show ?thesis
    using assms(1,4-6,8,9) sig(2) unfolding client_handshake_def run_ok_def run_flight_def run_transcript_def Let_def
    by (simp add: dec next_msgs [OF parts(1-4)] parts(5-7) der(2,3) del: drop_append)
qed

lemma read_deadlined_bytes:
  "record_fits r \<Longrightarrow> read_record_deadlined b what (record_bytes r @ rest) = Ok (r, rest)"
  by (simp add: read_record_deadlined_def read_record_bytes)

lemma encode_record_fits: "record_fits r \<Longrightarrow> encode_record r = Some (record_bytes r)"
  by (simp add: record_fits_def record_sizes encode_record_def)

lemma server_finish_accepts:
  assumes "open_record (rc_cr rc) (sv_suite sv) (sv_client_hs_key sv) (sv_client_hs_iv sv) 0 b = Ok (0x16, build_finished vd)"
    and "finished_verify_data (rc_cr rc) (sv_suite sv) (sv_client_finished_secret sv) (sv_transcript sv) = Some vd"
    and "length vd \<le> 48"
  shows "server_finish rc sv b = Ok (sv_session sv)"
proof -
  have "parse_finished (build_finished vd) = Ok vd"
    by (rule finished_codec.decode_encode) (use assms(3) in simp)
  then show ?thesis
    using assms(1,2) by (simp add: server_finish_def)
qed

definition app_record :: "bytes \<Rightarrow> tls_record" where
  "app_record body = \<lparr>content_type = APPLICATION_DATA, rec_payload = body\<rparr>"

lemma run_sig_length:
  assumes "run_ok rc ch sh key cert shared R" and "signatures_ok rc"
  shows "length (hr_sig R) = 64"
proof -
  have "sign_transcript rc cert (cv_content (transcript_hash (rc_cr rc) (run_transcript ch sh R))) = hr_sig R"
    using assms(1) by (simp add: run_ok_def Let_def)
  then show ?thesis
    using assms(2) unfolding signatures_ok_def sign_transcript_def by metis
qed

text \<open>A ServerHello the borrowed site may answer with: a suite and a group this code supports.\<close>

definition usable_hello :: "server_hello_params \<Rightarrow> bool" where
  "usable_hello sp \<longleftrightarrow> suite_from_u16 (sh_suite sp) \<noteq> None \<and> (key_share_group sp = 0x001d \<or> key_share_group sp = 0x11ec)"

lemma handshake_agrees:
  assumes "primitives_ok rc" and "signatures_ok rc" and "cert_ok rc cert"
    and "extract_client_hello_fields ch = Ok hf" and "offers rc hf ephem seed" and "length ephem = 32" and "length sk = 32"
    and "parse_server_hello dest = Ok sp" and "usable_hello sp"
  obtains s flight fin where "\<And>b rest. establish_server rc b True ch dest key cert r sk (fin @ rest) = Ok (s, flight, rest)"
    and "\<And>b rest. establish_client rc b True ch ephem key (fst (mlkem_generate rc seed)) (flight @ rest) = Ok (s, fin, rest)"
    and "good_session s" and "suite_from_u16 (sh_suite sp) = Some (ts_suite s)"
proof -
  have aead: "aead_correct (rc_cr rc)" and sizes: "hkdf_sizes (rc_cr rc)"
    using assms(1) by (simp_all add: primitives_ok_def)
  obtain share shared where kx: "server_key_exchange rc hf (key_share_group sp) r sk = Ok (share, shared)"
    "client_key_exchange rc (sp\<lparr>key_share := share\<rparr>) ephem (fst (mlkem_generate rc seed)) = Ok shared"
    "key_share_group sp = 0x001d \<and> length share = 32 \<or> key_share_group sp = 0x11ec \<and> length share = 1120"
    using key_exchange_agrees [OF assms(1,6,7,5)] assms(9) unfolding usable_hello_def by metis
  define sh where "sh = build_server_hello (sp\<lparr>key_share := share\<rparr>)"
  note hello = adapted_hello [OF assms(8) kx(3), folded sh_def]
  obtain suite where suite: "suite_from_u16 (sh_suite sp) = Some suite"
    using assms(9) by (auto simp: usable_hello_def)
  obtain der where der: "signed_for rc cert key = Some der" "length der \<le> 16000"
    using signed_certificate [OF assms(2,3)] by metis
  obtain R where R: "run_ok rc ch sh key cert shared R" "hr_suite R = suite" "hr_der R = der"
    using run_exists [OF sizes der(1)] by metis
  then have kp: "key_pair_ok suite (k_server_hs_key (hr_keys R))" "key_pair_ok suite (k_client_hs_key (hr_keys R))"
    and fin: "finished_verify_data (rc_cr rc) suite (k_client_hs (hr_keys R)) (hr_transcript R) = Some (hr_client_vd R)"
    and app: "key_pair_ok suite (fst (hr_app R))" "key_pair_ok suite (snd (hr_app R))"
    and small: "length (hr_server_vd R) \<le> 48" "length (hr_client_vd R) \<le> 48"
    by (auto simp: run_ok_def Let_def)
  note sig = run_sig_length [OF R(1) assms(2)]
  have "length (run_flight R) + 17 \<le> MAX_RECORD_ON_WIRE"
    using flight_parts(8) [OF _ sig small(1), of der] der(2) R(3) by (simp add: run_flight_def)
  from sealed_flight [OF aead kp(1) this] obtain eb where
    enc: "seal_record (rc_cr rc) suite (fst (k_server_hs_key (hr_keys R))) (snd (k_server_hs_key (hr_keys R))) 0 0x16
        (run_flight R) = Ok (record_bytes (app_record eb))" "record_fits (app_record eb)"
      "open_record (rc_cr rc) suite (fst (k_server_hs_key (hr_keys R))) (snd (k_server_hs_key (hr_keys R))) 0
        (record_bytes (app_record eb)) = Ok (0x16, run_flight R)"
    unfolding app_record_def by metis
  have "length (build_finished (hr_client_vd R)) + 17 \<le> MAX_RECORD_ON_WIRE"
    using small(2) by (simp add: build_finished_def record_sizes)
  from sealed_flight [OF aead kp(2) this] obtain fb where
    cf: "seal_record (rc_cr rc) suite (fst (k_client_hs_key (hr_keys R))) (snd (k_client_hs_key (hr_keys R))) 0 0x16
        (build_finished (hr_client_vd R)) = Ok (record_bytes (app_record fb))" "record_fits (app_record fb)"
      "open_record (rc_cr rc) suite (fst (k_client_hs_key (hr_keys R))) (snd (k_client_hs_key (hr_keys R))) 0
        (record_bytes (app_record fb)) = Ok (0x16, build_finished (hr_client_vd R))"
    unfolding app_record_def by metis
  let ?shr = "\<lparr>content_type = HANDSHAKE, rec_payload = sh\<rparr>" and ?s = "make_session suite (hr_app R)"
  have client: "client_handshake rc ch (record_bytes ?shr @ record_bytes (app_record eb)) ephem key (fst (mlkem_generate rc seed)) =
    Ok \<lparr>co_session = ?s, co_finished = record_bytes (app_record fb)\<rparr>"
    using client_handshake_run [OF R(1) assms(2,3) hello(2) _ kx(2) hello(3)] suite enc(3) cf(1) R(2) by simp
  note server = server_handshake_run [OF R(1) assms(4,8) _ kx(1) hello(1,4), unfolded R(2), OF suite enc(1)]
  show ?thesis
  proof (rule that [of "record_bytes (app_record fb)" ?s "record_bytes ?shr @ record_bytes (app_record eb)"])
    show "establish_server rc b True ch dest key cert r sk (record_bytes (app_record fb) @ rest) =
      Ok (?s, record_bytes ?shr @ record_bytes (app_record eb), rest)" for b rest
      using server_finish_accepts [of rc _ "record_bytes (app_record fb)", OF _ _ small(2)] cf(3) fin
      by (simp add: establish_server_def server read_deadlined_bytes encode_record_fits cf(2))
    show "establish_client rc b True ch ephem key (fst (mlkem_generate rc seed))
        ((record_bytes ?shr @ record_bytes (app_record eb)) @ rest) = Ok (?s, record_bytes (app_record fb), rest)" for b rest
      by (simp add: establish_client_def read_deadlined_bytes hello(3) enc(2) encode_record_fits client)
  qed (use app suite in \<open>simp_all add: good_session_def make_session_def key_pair_ok_def\<close>)
qed

text \<open>
  C3. Both ends of the authenticated handshake come to the same session. For every ClientHello that offers the
  client's X25519 key and ML-KEM key, and every ServerHello of the borrowed site with a suite and a group the
  code supports, the two drivers, each fed what the other one wrote, succeed without a panic, leave the input
  that follows untouched and hold the same session, whose keys have the sizes of the negotiated suite.
\<close>

theorem handshake_agreement:
  assumes "primitives_ok rc" and "signatures_ok rc" and "cert_ok rc cert"
    and "extract_client_hello_fields ch = Ok hf" and "offers rc hf ephem seed" and "length ephem = 32" and "length sk = 32"
    and "parse_server_hello dest = Ok sp" and "usable_hello sp"
  shows "\<exists>s flight fin. good_session s \<and> suite_from_u16 (sh_suite sp) = Some (ts_suite s) \<and>
    (\<forall>stalled rest. establish_server rc stalled True ch dest key cert r sk (fin @ rest) = Ok (s, flight, rest) \<and>
       establish_client rc stalled True ch ephem key (fst (mlkem_generate rc seed)) (flight @ rest) = Ok (s, fin, rest))"
  by (rule handshake_agrees [OF assms]) blast


definition sample_cert :: server_cert where
  "sample_cert = \<lparr>der_template = ED25519_SPKI_PREFIX @ replicate 96 0, signing_seed = []\<rparr>"

lemma plain_rc_signatures: "signatures_ok plain_rc" "cert_ok plain_rc sample_cert"
  by (simp_all add: signatures_ok_def plain_rc_def cert_ok_def sample_cert_def ED25519_SPKI_PREFIX_def
      public_key_bytes_def slice_def)

lemma sample_hello_usable: "parse_server_hello (build_server_hello sample_sh) = Ok sample_sh" "usable_hello sample_sh"
  using parse_server_hello_build [of sample_sh "[]"]
  by (simp_all add: sh_wf_def sample_sh_def usable_hello_def suite_from_u16_def)

lemma sample_offer:
  obtains ch hf where "extract_client_hello_fields ch = Ok hf"
    and "offers plain_rc hf (dr_ephem sample_draws) (dr_kem_seed sample_draws)"
  by (rule authed_client_hello [OF plain_rc_ok sample_client_ok]) (simp add: offers_def that)

theorem handshake_agreement_witness:
  "\<exists>ch s flight fin. good_session s \<and>
     establish_server plain_rc False True ch (build_server_hello sample_sh) [] sample_cert [] (replicate 32 4) fin = Ok (s, flight, []) \<and>
     establish_client plain_rc False True ch (replicate 32 1) [] [] flight = Ok (s, fin, [])"
proof -
  obtain ch hf where ch: "extract_client_hello_fields ch = Ok hf"
    "offers plain_rc hf (dr_ephem sample_draws) (dr_kem_seed sample_draws)"
    by (rule sample_offer)
  have len: "length (dr_ephem sample_draws) = 32" "length (replicate 32 (4 :: u8)) = 32"
    by (simp_all add: sample_draws_def)
  have dk: "fst (mlkem_generate plain_rc (dr_kem_seed sample_draws)) = []" "dr_ephem sample_draws = replicate 32 1"
    by (simp_all add: mlkem_generate_def plain_rc_def sample_draws_def)
  show ?thesis
    using handshake_agreement [OF plain_rc_ok plain_rc_signatures ch len sample_hello_usable, of "[]" "[]", unfolded dk]
    by (metis append_Nil2)
qed

lemma transcript_run:
  "transcript_hash cr t = suite_hash cr (tr_suite t) (tr_buf t)"
  "tr_suite (transcript_update m t) = tr_suite t" "tr_buf (transcript_update m t) = tr_buf t @ m"
  "tr_suite (transcript_new s) = s" "tr_buf (transcript_new s) = []"
  by (simp_all add: transcript_hash_def transcript_update_def transcript_new_def)

text \<open>
  C6. What a client has checked when it accepts a session: the certificate carries, in its last 64 bytes, the
  HMAC of its own Ed25519 key under the auth key that only the two sides of the authentication share; that
  key signed the transcript up to the certificate; and the server's Finished value is the one of the key
  schedule over the whole flight, from which the session's keys come.
\<close>

theorem client_checks_server:
  assumes "client_handshake rc ch flight ephem key dk = Ok co"
  defines "cr \<equiv> rc_cr rc"
  shows "\<exists>sh sp suite shared k ee cm cv fin der pub sig vd ap.
    parse_server_hello sh = Ok sp \<and> suite_from_u16 (sh_suite sp) = Some suite \<and>
    client_key_exchange rc sp ephem dk = Ok shared \<and>
    handshake_keys cr suite shared (suite_hash cr suite (ch @ sh)) = Some k \<and>
    parse_certificate cm = Ok der \<and> extract_ed25519_pubkey der = Some pub \<and>
    64 \<le> length der \<and> drop (length der - 64) der = rc_hmac512 rc key pub \<and>
    parse_certificate_verify cv = Ok (0x0807, sig) \<and> length sig = 64 \<and>
    rc_ed_verify rc pub (cv_content (suite_hash cr suite (ch @ sh @ ee @ cm))) sig \<and>
    parse_finished fin = Ok vd \<and>
    finished_verify_data cr suite (k_server_hs k) (suite_hash cr suite (ch @ sh @ ee @ cm @ cv)) = Some vd \<and>
    application_keys cr suite (k_hs k) (suite_hash cr suite (ch @ sh @ ee @ cm @ cv @ fin)) = Some ap \<and>
    co_session co = make_session suite ap"
proof -
  obtain sh sp suite shared k ee cm der pub cv sig fin vd ap cvd where
    c: "parse_server_hello sh = Ok sp" "suite_from_u16 (sh_suite sp) = Some suite"
    "client_key_exchange rc sp ephem dk = Ok shared"
    "handshake_keys cr suite shared (transcript_hash cr (transcript_update sh
       (transcript_update ch (transcript_new suite)))) = Some k"
    "parse_certificate cm = Ok der" "extract_ed25519_pubkey der = Some pub" "identity_ok rc key pub der"
    "parse_certificate_verify cv = Ok (0x0807, sig)"
    "verify_ed25519 rc pub (cv_content (transcript_hash cr (transcript_update cm (transcript_update ee
       (transcript_update sh (transcript_update ch (transcript_new suite))))))) sig"
    "parse_finished fin = Ok vd"
    "finished_verify_data cr suite (k_server_hs k) (transcript_hash cr (transcript_update cv (transcript_update cm
       (transcript_update ee (transcript_update sh (transcript_update ch (transcript_new suite))))))) = Some vd"
    "application_keys cr suite (k_hs k) (transcript_hash cr (transcript_update fin (transcript_update cv
       (transcript_update cm (transcript_update ee (transcript_update sh
       (transcript_update ch (transcript_new suite)))))))) = Some ap"
    "co = \<lparr>co_session = make_session suite ap, co_finished = cvd\<rparr>"
    using assms(1) unfolding client_handshake_def Let_def cr_def [symmetric]
    by (clarsimp simp: try_bind_eq_Inr ok_or_eq_Ok split: if_splits)
  show ?thesis
    by (rule exI [of _ sh], rule exI [of _ sp], rule exI [of _ suite], rule exI [of _ shared], rule exI [of _ k],
        rule exI [of _ ee], rule exI [of _ cm], rule exI [of _ cv], rule exI [of _ fin], rule exI [of _ der],
        rule exI [of _ pub], rule exI [of _ sig], rule exI [of _ vd], rule exI [of _ ap])
      (use c in \<open>simp add: transcript_run identity_ok_def verify_ed25519_def\<close>)
qed


theorem client_checks_server_witness:
  "\<exists>ch flight co der pub. client_handshake plain_rc ch flight (replicate 32 1) [] [] = Ok co \<and>
     extract_ed25519_pubkey der = Some pub \<and> drop (length der - 64) der = rc_hmac512 plain_rc [] pub"
proof -
  obtain ch hf where ch: "extract_client_hello_fields ch = Ok hf"
    "offers plain_rc hf (dr_ephem sample_draws) (dr_kem_seed sample_draws)"
    by (rule sample_offer)
  have len: "length (dr_ephem sample_draws) = 32" "length (replicate 32 (4 :: u8)) = 32"
    by (simp_all add: sample_draws_def)
  have dk: "fst (mlkem_generate plain_rc (dr_kem_seed sample_draws)) = []" "dr_ephem sample_draws = replicate 32 1"
    by (simp_all add: mlkem_generate_def plain_rc_def sample_draws_def)
  obtain s flight fin where "establish_client plain_rc False True ch (replicate 32 1) [] [] (flight @ []) = Ok (s, fin, [])"
    using handshake_agrees [OF plain_rc_ok plain_rc_signatures ch len sample_hello_usable, of "[]" "[]", unfolded dk]
    by metis
  then obtain flight co where c: "client_handshake plain_rc ch flight (replicate 32 1) [] [] = Ok co"
    by (auto simp: establish_client_def try_bind_eq_Inr)
  show ?thesis
    using client_checks_server [OF c] c by blast
qed

end
