(* ===== verification/Relay.thy ===== *)
theory Relay
  imports Users Config Frame
begin

text \<open>
  The relay tasks of the REALITY server, \<open>crates/leshiy-reality/src/server.rs\<close>: \<open>relay_stream\<close> for TCP,
  \<open>relay_datagram\<close> for UDP and \<open>relay_icmp\<close> for ICMP echo.

  A relay selects between an upload future, a download future and a timer. It is a state with one step per
  resolution of an await, and a run is a list of such events in any order: each future is at most at one
  await, so an event for another one changes nothing. Waiting for a token bucket is time between two
  events. The user store is shared with other connections and the admin interface, so an event that
  consults it carries the store and the clock as they are then. A report of usage is recorded in the state.
\<close>

section \<open>Definitions\<close>

subsection \<open>TCP\<close>

definition FLUSH :: u64 where "FLUSH = 64 * 1024"

record relay =
  r_up :: "bytes option"
  r_down :: "bytes option"
  r_acc_up :: u64
  r_acc_down :: u64
  r_reports :: "(u64 \<times> u64) list"
  r_target :: bytes
  r_client :: bytes

datatype 's relay_event =
    UpRecv "bytes option"
  | UpWrite bool 's u64
  | DownRead "bytes option"
  | DownSend "string option" 's u64
  | RevokeTick 's u64

datatype 'r progress = Going 'r | Ended "reality_error + unit" 'r

definition relay_init :: relay where
  "relay_init = \<lparr>r_up = None, r_down = None, r_acc_up = 0, r_acc_down = 0, r_reports = [], r_target = [], r_client = []\<rparr>"

text \<open>After a chunk was written to the target, or sent to the client: count, and flush at \<open>FLUSH\<close>.\<close>

definition up_written :: "bool \<Rightarrow> bytes \<Rightarrow> relay \<Rightarrow> relay progress" where
  "up_written allowed b r =
     (let acc = r_acc_up r + of_nat (length b); r = r\<lparr>r_up := None, r_target := r_target r @ b\<rparr> in
      if FLUSH \<le> acc then
        let r = r\<lparr>r_reports := r_reports r @ [(acc, 0)], r_acc_up := 0\<rparr> in
        if allowed then Going r else Ended (Ok ()) r
      else Going (r\<lparr>r_acc_up := acc\<rparr>))"

definition down_sent :: "bool \<Rightarrow> bytes \<Rightarrow> relay \<Rightarrow> relay progress" where
  "down_sent allowed b r =
     (let acc = r_acc_down r + of_nat (length b); r = r\<lparr>r_down := None, r_client := r_client r @ b\<rparr> in
      if FLUSH \<le> acc then
        let r = r\<lparr>r_reports := r_reports r @ [(0, acc)], r_acc_down := 0\<rparr> in
        if allowed then Going r else Ended (Ok ()) r
      else Going (r\<lparr>r_acc_down := acc\<rparr>))"

fun relay_step :: "('s, 'l) store_ops \<Rightarrow> short_id \<Rightarrow> 's relay_event \<Rightarrow> relay \<Rightarrow> relay progress" where
  "relay_step ops i (UpRecv m) r =
     (case r_up r of
        Some _ \<Rightarrow> Going r
      | None \<Rightarrow> (case m of None \<Rightarrow> Ended (Ok ()) r | Some b \<Rightarrow> Going (r\<lparr>r_up := Some b\<rparr>)))"
| "relay_step ops i (UpWrite ok st now) r =
     (case r_up r of
        None \<Rightarrow> Going r
      | Some b \<Rightarrow> if ok then up_written (so_still_allowed ops st i now) b r else Ended (Err RIo) r)"
| "relay_step ops i (DownRead m) r =
     (case r_down r of
        Some _ \<Rightarrow> Going r
      | None \<Rightarrow>
     (case m of
        None \<Rightarrow> Ended (Err RIo) r
      | Some b \<Rightarrow>
          let b = take MAX_FRAME_PAYLOAD b in
          if b = [] then Ended (Ok ()) r else Going (r\<lparr>r_down := Some b\<rparr>)))"
| "relay_step ops i (DownSend failure st now) r =
     (case r_down r of
        None \<Rightarrow> Going r
      | Some b \<Rightarrow>
     (case failure of
        Some e \<Rightarrow> Ended (Err (RMalformed e)) r
      | None \<Rightarrow> down_sent (so_still_allowed ops st i now) b r))"
| "relay_step ops i (RevokeTick st now) r =
     (if so_still_allowed ops st i now then Going r else Ended (Ok ()) r)"

text \<open>A run that ended made the final report, on every exit; \<open>Going\<close> is a relay still waiting for events.\<close>

fun relay_run :: "('s, 'l) store_ops \<Rightarrow> short_id \<Rightarrow> 's relay_event list \<Rightarrow> relay \<Rightarrow> relay progress" where
  "relay_run ops i [] r = Going r"
| "relay_run ops i (e # es) r =
     (case relay_step ops i e r of
        Going r' \<Rightarrow> relay_run ops i es r'
      | Ended res r' \<Rightarrow> Ended res (r'\<lparr>r_reports := r_reports r' @ [(r_acc_up r', r_acc_down r')]\<rparr>))"

definition relay_stream ::
    "('s, 'l) store_ops \<Rightarrow> short_id \<Rightarrow> string option \<Rightarrow> 's relay_event list \<Rightarrow> relay progress" where
  "relay_stream ops i open_failure es =
     (case open_failure of
        Some e \<Rightarrow> Ended (Err (RMalformed e)) relay_init
      | None \<Rightarrow> relay_run ops i es relay_init)"

section \<open>Lemmas\<close>

fun progress_state :: "'r progress \<Rightarrow> 'r" where
  "progress_state (Going r) = r"
| "progress_state (Ended res r) = r"

text \<open>What has been counted: what was reported and what waits in the accumulators.\<close>

definition counted_up :: "relay \<Rightarrow> u64" where
  "counted_up r = sum_list (map fst (r_reports r)) + r_acc_up r"

definition counted_down :: "relay \<Rightarrow> u64" where
  "counted_down r = sum_list (map snd (r_reports r)) + r_acc_down r"

definition relay_inv :: "relay \<Rightarrow> bool" where
  "relay_inv r \<longleftrightarrow> counted_up r = of_nat (length (r_target r)) \<and> counted_down r = of_nat (length (r_client r)) \<and>
     r_acc_up r < FLUSH \<and> r_acc_down r < FLUSH"

lemma FLUSH_pos [simp]: "0 < FLUSH" "unat FLUSH = 65536"
  by (simp_all add: FLUSH_def word_less_nat_alt)

lemma relay_init_inv: "relay_inv relay_init"
  by (simp add: relay_inv_def relay_init_def counted_up_def counted_down_def)

lemma written_inv:
  assumes "relay_inv r"
  shows "relay_inv (progress_state (up_written a b r))" and "relay_inv (progress_state (down_sent a b r))"
  using assms
  by (auto simp: relay_inv_def up_written_def down_sent_def counted_up_def counted_down_def Let_def not_le algebra_simps)

lemma relay_step_inv: "relay_inv r \<Longrightarrow> relay_inv (progress_state (relay_step ops i e r))"
  using written_inv by (cases e) (auto simp: relay_inv_def counted_up_def counted_down_def Let_def split: option.split)

lemma relay_run_counts:
  assumes "relay_inv r" and "relay_run ops i es r = Ended res r'"
  shows "sum_list (map fst (r_reports r')) = of_nat (length (r_target r'))"
    and "sum_list (map snd (r_reports r')) = of_nat (length (r_client r'))"
proof -
  have "sum_list (map fst (r_reports r')) = of_nat (length (r_target r')) \<and>
      sum_list (map snd (r_reports r')) = of_nat (length (r_client r'))"
    using assms
  proof (induction es arbitrary: r)
    case (Cons e es)
    show ?case
    proof (cases "relay_step ops i e r")
      case (Going r1)
      then show ?thesis
        using Cons relay_step_inv [OF Cons.prems(1), of ops i e] by simp
    next
      case (Ended res1 r1)
      then show ?thesis
        using Cons.prems relay_step_inv [OF Cons.prems(1), of ops i e]
        by (auto simp: relay_inv_def counted_up_def counted_down_def)
    qed
  qed simp
  then show "sum_list (map fst (r_reports r')) = of_nat (length (r_target r'))"
    and "sum_list (map snd (r_reports r')) = of_nat (length (r_client r'))"
    by auto
qed


text \<open>The chunks the upload future took from the stream, and the ones the download future read.\<close>

fun taken :: "('s, 'l) store_ops \<Rightarrow> short_id \<Rightarrow> 's relay_event list \<Rightarrow> relay \<Rightarrow> bytes \<times> bytes" where
  "taken ops i [] r = ([], [])"
| "taken ops i (e # es) r =
     (case relay_step ops i e r of
        Ended res r' \<Rightarrow> ([], [])
      | Going r' \<Rightarrow>
          (case (e, taken ops i es r') of
             (UpRecv (Some b), u, d) \<Rightarrow> (if r_up r = None then b @ u else u, d)
           | (DownRead (Some b), u, d) \<Rightarrow> (u, if r_down r = None then take MAX_FRAME_PAYLOAD b @ d else d)
           | (_, u, d) \<Rightarrow> (u, d)))"

definition in_flight :: "bytes option \<Rightarrow> bytes" where
  "in_flight m = (case m of None \<Rightarrow> [] | Some b \<Rightarrow> b)"

lemma in_flight_simps [simp]: "in_flight None = []" "in_flight (Some b) = b"
  by (simp_all add: in_flight_def)

lemma relay_step_order:
  assumes "relay_step ops i e r = Going r1 \<or> relay_step ops i e r = Ended res r1"
  shows "r_target r1 @ in_flight (r_up r1) = r_target r @ in_flight (r_up r) @
      (case (e, relay_step ops i e r) of (UpRecv (Some b), Going _) \<Rightarrow> if r_up r = None then b else [] | _ \<Rightarrow> [])"
    and "r_client r1 @ in_flight (r_down r1) = r_client r @ in_flight (r_down r) @
      (case (e, relay_step ops i e r) of
         (DownRead (Some b), Going _) \<Rightarrow> if r_down r = None then take MAX_FRAME_PAYLOAD b else [] | _ \<Rightarrow> [])"
  using assms
  by (cases e; auto simp: up_written_def down_sent_def Let_def split: option.splits if_splits)+

lemma relay_run_order:
  "r_target (progress_state (relay_run ops i es r)) @ in_flight (r_up (progress_state (relay_run ops i es r))) =
     r_target r @ in_flight (r_up r) @ fst (taken ops i es r) \<and>
   r_client (progress_state (relay_run ops i es r)) @ in_flight (r_down (progress_state (relay_run ops i es r))) =
     r_client r @ in_flight (r_down r) @ snd (taken ops i es r)"
proof (induction es arbitrary: r)
  case (Cons e es)
  show ?case
  proof (cases "relay_step ops i e r")
    case (Going r1)
    note o = relay_step_order [OF disjI1 [OF Going], unfolded Going]
    show ?thesis
      using Cons [of r1] o Going by (auto split: relay_event.splits option.splits prod.splits)
  next
    case (Ended res r1)
    note o = relay_step_order [OF disjI2 [OF Ended], unfolded Ended]
    show ?thesis
      using o Ended by (auto split: relay_event.splits option.splits)
  qed
qed simp


subsection \<open>After revocation\<close>

text \<open>An event whose view of the store refuses the user.\<close>

fun refused_at :: "('s, 'l) store_ops \<Rightarrow> short_id \<Rightarrow> 's relay_event \<Rightarrow> bool" where
  "refused_at ops i (UpWrite ok st now) \<longleftrightarrow> \<not> so_still_allowed ops st i now"
| "refused_at ops i (DownSend failure st now) \<longleftrightarrow> \<not> so_still_allowed ops st i now"
| "refused_at ops i (RevokeTick st now) \<longleftrightarrow> \<not> so_still_allowed ops st i now"
| "refused_at ops i (UpRecv m) \<longleftrightarrow> True"
| "refused_at ops i (DownRead m) \<longleftrightarrow> True"

fun chunk_within :: "nat \<Rightarrow> 's relay_event \<Rightarrow> bool" where
  "chunk_within m (UpRecv (Some b)) \<longleftrightarrow> length b \<le> m"
| "chunk_within m _ \<longleftrightarrow> True"

definition pending_within :: "nat \<Rightarrow> relay \<Rightarrow> bool" where
  "pending_within m r \<longleftrightarrow> length (in_flight (r_up r)) \<le> m \<and> length (in_flight (r_down r)) \<le> MAX_FRAME_PAYLOAD"

lemma acc_add:
  assumes "a < FLUSH" and "n \<le> 2 ^ 32"
  shows "unat (a + of_nat n) = unat a + n"
proof -
  have "unat a + n < 2 ^ 64"
    using assms by (simp add: word_less_nat_alt)
  then show ?thesis
    by (simp add: unat_word_ariths unat_of_nat take_bit_nat_eq_self)
qed

lemma refused_step:
  assumes "relay_inv r" and "refused_at ops i e" and "chunk_within m e" and "pending_within m r" and "m \<le> 2 ^ 32"
  shows "case relay_step ops i e r of
      Going r' \<Rightarrow> pending_within m r' \<and> length (r_target r') + unat (r_acc_up r) = length (r_target r) + unat (r_acc_up r') \<and>
        length (r_client r') + unat (r_acc_down r) = length (r_client r) + unat (r_acc_down r')
    | Ended res r' \<Rightarrow> length (r_target r') \<le> length (r_target r) + m \<and>
        length (r_client r') \<le> length (r_client r) + MAX_FRAME_PAYLOAD"
proof -
  have acc: "r_acc_up r < FLUSH" "r_acc_down r < FLUSH"
    using assms(1) by (simp_all add: relay_inv_def)
  have up: "unat (r_acc_up r + of_nat (length b)) = unat (r_acc_up r) + length b" if "r_up r = Some b" for b
    using acc_add [OF acc(1), of "length b"] assms(4,5) that by (simp add: pending_within_def)
  have down: "unat (r_acc_down r + of_nat (length b)) = unat (r_acc_down r) + length b" if "r_down r = Some b" for b
    using acc_add [OF acc(2), of "length b"] assms(4) that by (simp add: pending_within_def frame_consts)
  show ?thesis
  proof (cases e)
    case (UpRecv m')
    then show ?thesis
      using assms by (auto simp: pending_within_def split: option.splits)
  qed (use assms(2,4) up down in \<open>auto simp: pending_within_def up_written_def down_sent_def Let_def split: option.splits if_splits\<close>)
qed

lemma refused_run:
  assumes "relay_inv r" and "list_all (refused_at ops i) es" and "list_all (chunk_within m) es"
    and "pending_within m r" and "m \<le> 2 ^ 32"
  shows "length (r_target (progress_state (relay_run ops i es r))) + unat (r_acc_up r) <
      length (r_target r) + unat FLUSH + m + 1 \<and>
    length (r_client (progress_state (relay_run ops i es r))) + unat (r_acc_down r) <
      length (r_client r) + unat FLUSH + MAX_FRAME_PAYLOAD + 1"
  using assms
proof (induction es arbitrary: r)
  case Nil
  then show ?case
    by (simp add: relay_inv_def word_less_nat_alt)
next
  case (Cons e es)
  have step: "case relay_step ops i e r of
      Going r' \<Rightarrow> pending_within m r' \<and> length (r_target r') + unat (r_acc_up r) = length (r_target r) + unat (r_acc_up r') \<and>
        length (r_client r') + unat (r_acc_down r) = length (r_client r) + unat (r_acc_down r')
    | Ended res r' \<Rightarrow> length (r_target r') \<le> length (r_target r) + m \<and>
        length (r_client r') \<le> length (r_client r) + MAX_FRAME_PAYLOAD"
    by (rule refused_step) (use Cons.prems in simp_all)
  show ?case
  proof (cases "relay_step ops i e r")
    case (Going r')
    have "relay_inv r'"
      using relay_step_inv [OF Cons.prems(1), of ops i e] Going by simp
    then show ?thesis
      using Cons.IH [of r'] Cons.prems step Going by simp
  next
    case (Ended res r')
    moreover have "unat (r_acc_up r) < 65536" "unat (r_acc_down r) < 65536"
      using Cons.prems(1) by (simp_all add: relay_inv_def word_less_nat_alt)
    ultimately show ?thesis
      using step by simp
  qed
qed

lemma tick_ends:
  assumes "list_all (refused_at ops i) es" and "list_ex (\<lambda>e. \<exists>st now. e = RevokeTick st now) es"
  shows "\<exists>res r'. relay_run ops i es r = Ended res r'"
  using assms
proof (induction es arbitrary: r)
  case (Cons e es)
  then show ?case
    by (cases "relay_step ops i e r") auto
qed simp

lemma relay_run_inv: "relay_run ops i es r = Going r' \<Longrightarrow> relay_inv r \<Longrightarrow> relay_inv r'"
proof (induction es arbitrary: r)
  case (Cons e es)
  then show ?case
    using relay_step_inv [OF Cons.prems(2), of ops i e] by (cases "relay_step ops i e r") auto
qed simp

lemma relay_run_pending:
  assumes "relay_run ops i es r = Going r'" and "list_all (chunk_within m) es" and "pending_within m r"
  shows "pending_within m r'"
  using assms
proof (induction es arbitrary: r)
  case (Cons e es)
  show ?case
  proof (cases "relay_step ops i e r")
    case (Going r1)
    have "pending_within m r1"
      using Going Cons.prems
      by (cases e) (auto simp: pending_within_def up_written_def down_sent_def Let_def split: option.splits if_splits)
    then show ?thesis
      using Cons Going by simp
  qed (use Cons.prems in simp)
qed simp

section \<open>Properties\<close>

text \<open>
  Usage is exact. Whichever way a TCP relay ends (either peer closing, a failed read, write or send, or
  revocation), its reports make the store's counters for the user grow by exactly the bytes written to the
  target and sent to the client; and these are, in order, what the two directions took in, less at most the
  one chunk in flight.
\<close>

theorem relay_usage_exact:
  assumes "relay_stream mem_store i None es = Ended res r" and "usage s i = Some (u, d)"
  shows "usage (fold (\<lambda>(a, b). add_usage i a b) (r_reports r) s) i =
      Some (u + of_nat (length (r_target r)), d + of_nat (length (r_client r))) \<and>
    r_target r @ in_flight (r_up r) = fst (taken mem_store i es relay_init) \<and>
    r_client r @ in_flight (r_down r) = snd (taken mem_store i es relay_init)"
proof -
  have run: "relay_run mem_store i es relay_init = Ended res r"
    using assms(1) by (simp add: relay_stream_def)
  have "r_target relay_init = []" "r_client relay_init = []" "r_up relay_init = None" "r_down relay_init = None"
    by (simp_all add: relay_init_def)
  then show ?thesis
    using relay_run_order [of mem_store i es relay_init] run mem.used_reports [of i "r_reports r" s i] assms(2)
      relay_run_counts [OF relay_init_inv run] by (simp add: mem_store_def)
qed

theorem relay_usage_exact_witness:
  "\<exists>r. relay_stream mem_store [1] None [UpRecv (Some [7, 8]), UpWrite True empty_users 0, DownRead (Some [9]), UpRecv None] =
       Ended (Ok ()) r \<and>
     usage (fold (\<lambda>(a, b). add_usage [1] a b) (r_reports r) (from_short_ids [[1]])) [1] = Some (2, 0)"
proof -
  let ?es = "[UpRecv (Some [7, 8]), UpWrite True empty_users 0, DownRead (Some [9]), UpRecv None]"
  have "\<not> FLUSH \<le> 2"
    by (simp add: FLUSH_def)
  then obtain r where r: "relay_stream mem_store [1] None ?es = Ended (Ok ()) r" "length (r_target r) = 2" "length (r_client r) = 0"
    by (simp add: relay_stream_def relay_init_def up_written_def Let_def frame_consts)
  have "usage (from_short_ids [[1]]) [1] = Some (0, 0)"
    by (simp add: from_short_ids_def users_new_def unlimited_user_def upsert_def empty_users_def usage_def
        lookup_user_def set_entry_def Let_def)
  from relay_usage_exact [OF r(1) this] r show ?thesis
    by simp
qed

text \<open>
  C20. A revoked user is cut off. From the moment the store refuses the user at every look, a running TCP
  relay moves at most 64 KiB and one chunk more in each direction, however its two directions interleave,
  and it has ended when the revocation timer has fired once.
\<close>

theorem revoked_relay_ends:
  assumes "relay_run ops i before relay_init = Going r" and "list_all (chunk_within m) (before @ es)" and "m \<le> 2 ^ 32"
    and "list_all (refused_at ops i) es"
  shows "length (r_target (progress_state (relay_run ops i es r))) \<le> length (r_target r) + 65536 + m \<and>
    length (r_client (progress_state (relay_run ops i es r))) \<le> length (r_client r) + 65536 + MAX_FRAME_PAYLOAD \<and>
    (list_ex (\<lambda>e. \<exists>st now. e = RevokeTick st now) es \<longrightarrow> (\<exists>res r'. relay_run ops i es r = Ended res r'))"
proof -
  have "pending_within m relay_init"
    by (simp add: pending_within_def relay_init_def)
  then have "pending_within m r"
    using relay_run_pending [OF assms(1)] assms(2) by simp
  then show ?thesis
    using refused_run [OF relay_run_inv [OF assms(1) relay_init_inv] assms(4) _ _ assms(3)] assms(2) tick_ends [OF assms(4)]
    by auto
qed

theorem revoked_relay_ends_witness:
  "\<exists>res r'. relay_run mem_store [1] [UpRecv (Some [7]), RevokeTick empty_users 0] relay_init = Ended res r'"
  using revoked_relay_ends [of mem_store "[1]" "[]" relay_init 5 "[UpRecv (Some [7]), RevokeTick empty_users 0]"]
  by (simp add: mem_store_def still_allowed_def lookup_user_def empty_users_def)

end
