(* ===== verification/Assoc.thy ===== *)
theory Assoc
  imports Relay Icmp
begin

text \<open>
  UDP and ICMP associations of the REALITY server, \<open>relay_datagram\<close>, \<open>relay_icmp\<close> and \<open>datagram_expired\<close> of
  \<open>crates/leshiy-reality/src/server.rs\<close>, as events on a state like the TCP relay.

  Time is in milliseconds. \<open>a_deadline\<close> is the deadline that the current iteration of \<open>datagram_expired\<close>
  sleeps until; \<open>ADeadline t\<close> is that sleep resolving at \<open>t\<close>, which it can do only once the deadline has passed.
\<close>

section \<open>Definitions\<close>

datatype assoc_kind = DgramAssoc | IcmpAssoc bool

record assoc =
  a_activity :: nat
  a_deadline :: nat
  a_last_id :: "u16 option"
  a_up :: "bytes option"
  a_down :: "bytes option"
  a_reports :: "(u64 \<times> u64) list"
  a_sent :: "bytes list"
  a_delivered :: "bytes list"

datatype 's assoc_event =
    AUpRecv "bytes option" nat
  | AUpSend "nat option"
  | ADownRecv "bytes option" nat
  | ADownSend "string option"
  | ADeadline nat
  | ATick 's u64

definition assoc_idle :: "assoc_kind \<Rightarrow> nat" where
  "assoc_idle k = (case k of DgramAssoc \<Rightarrow> 60 * 1000 | IcmpAssoc v6 \<Rightarrow> 30 * 1000)"

definition assoc_init :: "assoc_kind \<Rightarrow> nat \<Rightarrow> assoc" where
  "assoc_init k now = \<lparr>a_activity = now, a_deadline = now + assoc_idle k, a_last_id = None, a_up = None, a_down = None,
     a_reports = [], a_sent = [], a_delivered = []\<rparr>"

text \<open>The upload future has received a message: an ICMP association only takes echo requests.\<close>

definition up_accept :: "assoc_kind \<Rightarrow> bytes \<Rightarrow> nat \<Rightarrow> assoc \<Rightarrow> assoc" where
  "up_accept k b now a =
     (case k of
        DgramAssoc \<Rightarrow> a\<lparr>a_activity := now, a_up := Some b\<rparr>
      | IcmpAssoc v6 \<Rightarrow>
          (case parse_echo_request b v6 of
             None \<Rightarrow> a
           | Some e \<Rightarrow> a\<lparr>a_activity := now, a_last_id := Some (echo_id e), a_up := Some b\<rparr>))"

definition down_message :: "assoc_kind \<Rightarrow> u16 option \<Rightarrow> bytes \<Rightarrow> bytes" where
  "down_message k last_id msg =
     (case k of
        DgramAssoc \<Rightarrow> msg
      | IcmpAssoc v6 \<Rightarrow>
          (case last_id of
             None \<Rightarrow> msg
           | Some id' \<Rightarrow>
               let (ok, msg') = set_id msg id' in
               if ok \<and> \<not> v6 then snd (set_v4_checksum msg') else msg'))"

text \<open>One resolution of a select in \<open>datagram_expired\<close>.\<close>

definition expired_sleep :: "nat \<Rightarrow> nat \<Rightarrow> assoc \<Rightarrow> assoc progress" where
  "expired_sleep idle t a =
     (if t < a_deadline a then Going a
      else if idle \<le> t - a_activity a then Ended (Ok ()) a
      else Going (a\<lparr>a_deadline := a_activity a + idle\<rparr>))"

definition expired_tick :: "nat \<Rightarrow> bool \<Rightarrow> assoc \<Rightarrow> assoc progress" where
  "expired_tick idle allowed a = (if allowed then Going (a\<lparr>a_deadline := a_activity a + idle\<rparr>) else Ended (Ok ()) a)"

fun assoc_step :: "assoc_kind \<Rightarrow> ('s, 'l) store_ops \<Rightarrow> short_id \<Rightarrow> 's assoc_event \<Rightarrow> assoc \<Rightarrow> assoc progress" where
  "assoc_step k ops i (AUpRecv m now) a =
     (case a_up a of
        Some _ \<Rightarrow> Going a
      | None \<Rightarrow> (case m of None \<Rightarrow> Ended (Ok ()) a | Some b \<Rightarrow> Going (up_accept k b now a)))"
| "assoc_step k ops i (AUpSend res) a =
     (case a_up a of
        None \<Rightarrow> Going a
      | Some b \<Rightarrow>
          let a = a\<lparr>a_up := None\<rparr> in
          (case res of
             None \<Rightarrow> Going a
           | Some n \<Rightarrow> Going (a\<lparr>a_sent := a_sent a @ [b], a_reports := a_reports a @ [(of_nat n, 0)]\<rparr>)))"
| "assoc_step k ops i (ADownRecv m now) a =
     (case a_down a of
        Some _ \<Rightarrow> Going a
      | None \<Rightarrow>
     (case m of
        None \<Rightarrow> Ended (Ok ()) a
      | Some b \<Rightarrow> Going (a\<lparr>a_activity := now, a_down := Some (down_message k (a_last_id a) (take 65535 b))\<rparr>)))"
| "assoc_step k ops i (ADownSend failure) a =
     (case a_down a of
        None \<Rightarrow> Going a
      | Some b \<Rightarrow>
     (case failure of
        Some e \<Rightarrow> Ended (Err (RMalformed e)) a
      | None \<Rightarrow> Going (a\<lparr>a_down := None, a_delivered := a_delivered a @ [b],
                        a_reports := a_reports a @ [(0, of_nat (length b))]\<rparr>)))"
| "assoc_step k ops i (ADeadline t) a = expired_sleep (assoc_idle k) t a"
| "assoc_step k ops i (ATick st now) a = expired_tick (assoc_idle k) (so_still_allowed ops st i now) a"

fun assoc_run :: "assoc_kind \<Rightarrow> ('s, 'l) store_ops \<Rightarrow> short_id \<Rightarrow> 's assoc_event list \<Rightarrow> assoc \<Rightarrow> assoc progress" where
  "assoc_run k ops i [] a = Going a"
| "assoc_run k ops i (e # es) a =
     (case assoc_step k ops i e a of
        Going a' \<Rightarrow> assoc_run k ops i es a'
      | Ended res a' \<Rightarrow> Ended res a')"

definition relay_datagram ::
    "('s, 'l) store_ops \<Rightarrow> short_id \<Rightarrow> reality_error option \<Rightarrow> nat \<Rightarrow> 's assoc_event list \<Rightarrow> assoc progress" where
  "relay_datagram ops i open_failure now es =
     (case open_failure of
        Some e \<Rightarrow> Ended (Err e) (assoc_init DgramAssoc now)
      | None \<Rightarrow> assoc_run DgramAssoc ops i es (assoc_init DgramAssoc now))"

definition relay_icmp ::
    "bool \<Rightarrow> ('s, 'l) store_ops \<Rightarrow> short_id \<Rightarrow> reality_error option \<Rightarrow> nat \<Rightarrow> 's assoc_event list \<Rightarrow> assoc progress" where
  "relay_icmp v6 ops i open_failure now es =
     (case open_failure of
        Some e \<Rightarrow> Ended (Err e) (assoc_init (IcmpAssoc v6) now)
      | None \<Rightarrow> assoc_run (IcmpAssoc v6) ops i es (assoc_init (IcmpAssoc v6) now))"

section \<open>Lemmas\<close>

lemma assoc_run_inv:
  assumes "\<And>e a. P a \<Longrightarrow> P (progress_state (assoc_step k ops i e a))" and "P a"
  shows "P (progress_state (assoc_run k ops i es a))"
  using assms(2)
proof (induction es arbitrary: a)
  case (Cons e es)
  then show ?case
    using assms(1) [of a e] by (cases "assoc_step k ops i e a") auto
qed simp

lemma length_down_message: "length (down_message k l msg) = length msg"
  by (auto simp: down_message_def set_id_def set_v4_checksum_def Let_def icmp_offsets write_at_def
      split: assoc_kind.split option.split)

definition delivered_total :: "assoc \<Rightarrow> nat" where
  "delivered_total a = sum_list (map length (a_delivered a))"

definition assoc_inv :: "assoc_kind \<Rightarrow> assoc \<Rightarrow> bool" where
  "assoc_inv k a \<longleftrightarrow> sum_list (map snd (a_reports a)) = of_nat (delivered_total a) \<and>
     (case k of DgramAssoc \<Rightarrow> True
      | IcmpAssoc v6 \<Rightarrow> (\<forall>b\<in>set (a_sent a) \<union> set_option (a_up a). parse_echo_request b v6 \<noteq> None))"

lemma assoc_step_inv: "assoc_inv k a \<Longrightarrow> assoc_inv k (progress_state (assoc_step k ops i e a))"
  by (cases e; cases k)
    (auto simp: assoc_inv_def delivered_total_def up_accept_def expired_sleep_def expired_tick_def Let_def
      split: option.split)

text \<open>Events in the order of the clock, and events that carry no traffic.\<close>

fun event_time :: "'s assoc_event \<Rightarrow> nat option" where
  "event_time (AUpRecv m now) = Some now"
| "event_time (ADownRecv m now) = Some now"
| "event_time _ = None"

fun timely :: "nat \<Rightarrow> 's assoc_event list \<Rightarrow> bool" where
  "timely now [] \<longleftrightarrow> True"
| "timely now (e # es) \<longleftrightarrow> (case event_time e of None \<Rightarrow> timely now es | Some t \<Rightarrow> now \<le> t \<and> timely t es)"

definition quiet :: "'s assoc_event \<Rightarrow> bool" where
  "quiet e \<longleftrightarrow> event_time e = None"

definition clock_inv :: "assoc_kind \<Rightarrow> nat \<Rightarrow> assoc \<Rightarrow> bool" where
  "clock_inv k now a \<longleftrightarrow> a_activity a \<le> now \<and> a_deadline a \<le> a_activity a + assoc_idle k"

lemma clock_step:
  assumes "clock_inv k now a" and "assoc_step k ops i e a = Going a'" and "\<And>t. event_time e = Some t \<Longrightarrow> now \<le> t"
  shows "clock_inv k (case event_time e of None \<Rightarrow> now | Some t \<Rightarrow> t) a'"
  using assms
  by (cases e; cases k)
    (auto simp: clock_inv_def up_accept_def expired_sleep_def expired_tick_def Let_def split: option.splits if_splits)

lemma clock_run:
  assumes "clock_inv k now a" and "timely now es" and "assoc_run k ops i es a = Going a'"
  shows "a_deadline a' \<le> a_activity a' + assoc_idle k"
  using assms
proof (induction es arbitrary: now a)
  case (Cons e es)
  then obtain a1 where a1: "assoc_step k ops i e a = Going a1" "assoc_run k ops i es a1 = Going a'"
    by (auto split: progress.splits)
  have "clock_inv k (case event_time e of None \<Rightarrow> now | Some t \<Rightarrow> t) a1"
    using clock_step [OF Cons.prems(1) a1(1)] Cons.prems(2) by (auto split: option.splits)
  then show ?case
    using Cons.IH [OF _ _ a1(2)] Cons.prems(2) by (auto split: option.splits)
qed (simp add: clock_inv_def)

lemma assoc_idle_pos: "0 < assoc_idle k"
  by (simp add: assoc_idle_def split: assoc_kind.split)

lemma quiet_step:
  assumes "quiet e" and "assoc_step k ops i e a = Going a'" and "a_deadline a \<le> a_activity a + assoc_idle k"
  shows "a_activity a' = a_activity a \<and> a_deadline a' \<le> a_activity a' + assoc_idle k"
  using assms
  by (cases e) (auto simp: quiet_def expired_sleep_def expired_tick_def Let_def split: option.splits if_splits)

lemma quiet_run_ends:
  assumes "list_all quiet es" and "ADeadline t \<in> set es" and "a_activity a + assoc_idle k \<le> t"
    and "a_deadline a \<le> a_activity a + assoc_idle k"
  shows "\<exists>res a'. assoc_run k ops i es a = Ended res a'"
  using assms
proof (induction es arbitrary: a)
  case (Cons e es)
  show ?case
  proof (cases "assoc_step k ops i e a")
    case (Going a1)
    then have "e \<noteq> ADeadline t"
      using Cons.prems(3,4) by (auto simp: expired_sleep_def split: if_splits)
    then show ?thesis
      using Cons.IH [of a1] Cons.prems quiet_step [OF _ Going Cons.prems(4)] Going by auto
  qed simp
qed simp

lemma reply_restored:
  assumes "8 \<le> length msg" and "length msg \<le> 65535"
  shows "checksum (down_message (IcmpAssoc False) (Some id') msg) = 0"
    and "slice 4 6 (down_message (IcmpAssoc False) (Some id') msg) = u16_to_be id'"
    and "drop 6 (down_message (IcmpAssoc v6) (Some id') msg) = drop 6 msg"
    and "take 2 (down_message (IcmpAssoc v6) (Some id') msg) = take 2 msg"
proof -
  obtain a b c d e f g h rest where m: "msg = a # b # c # d # e # f # g # h # rest"
    by (rule header_cases [of msg]) (use assms(1) in \<open>simp add: ICMP_HEADER_LEN_def\<close>)
  obtain x y where xy: "u16_to_be id' = [x, y]"
    using two_list [OF length_uN_to_be(1)] by blast
  let ?m = "a # b # 0 # 0 # x # y # g # h # rest"
  obtain p q where pq: "u16_to_be (checksum ?m) = [p, q]"
    using two_list [OF length_uN_to_be(1)] by blast
  have s: "set_id msg id' = (True, ?m)" "set_v4_checksum ?m = (True, a # b # p # q # x # y # g # h # rest)"
    by (simp_all add: set_id_def set_v4_checksum_def icmp_offsets m xy pq write_at_def)
  have "checksum (snd (set_v4_checksum ?m)) = 0"
    using v4_checksum_verifies [of ?m] assms(2) by (auto simp: m ICMP_HEADER_LEN_def)
  then show "checksum (down_message (IcmpAssoc False) (Some id') msg) = 0"
    "slice 4 6 (down_message (IcmpAssoc False) (Some id') msg) = u16_to_be id'"
    "drop 6 (down_message (IcmpAssoc v6) (Some id') msg) = drop 6 msg"
    "take 2 (down_message (IcmpAssoc v6) (Some id') msg) = take 2 msg"
    using s by (simp_all add: down_message_def slice_def xy m)
qed

section \<open>Properties\<close>

text \<open>
  An ICMP association is a ping and nothing else. Whatever the client puts on it, only echo requests of
  the association's family leave the server; the store is told exactly the bytes delivered back; and a reply
  is delivered with the identifier of the client's last request, an IPv4 one with a correct checksum, and
  otherwise unchanged.
\<close>

theorem icmp_echo_only:
  fixes ops :: "('s, 'l) store_ops" and es i now v6
  defines "a \<equiv> progress_state (relay_icmp v6 ops i None now es)"
  shows "(\<forall>b. b \<in> set (a_sent a) \<longrightarrow> parse_echo_request b v6 \<noteq> None) \<and>
    sum_list (map snd (a_reports a)) = of_nat (sum_list (map length (a_delivered a))) \<and>
    (\<forall>msg id'. 8 \<le> length msg \<and> length msg \<le> 65535 \<longrightarrow>
       slice 4 6 (down_message (IcmpAssoc False) (Some id') msg) = u16_to_be id' \<and>
       checksum (down_message (IcmpAssoc False) (Some id') msg) = 0 \<and>
       take 2 (down_message (IcmpAssoc v6) (Some id') msg) = take 2 msg \<and>
       drop 6 (down_message (IcmpAssoc v6) (Some id') msg) = drop 6 msg)"
proof -
  have "assoc_inv (IcmpAssoc v6) (assoc_init (IcmpAssoc v6) now)"
    by (simp add: assoc_inv_def assoc_init_def delivered_total_def)
  then have "assoc_inv (IcmpAssoc v6) a"
    unfolding a_def relay_icmp_def option.case
    by (rule assoc_run_inv [where P = "assoc_inv (IcmpAssoc v6)", rotated]) (rule assoc_step_inv)
  then show ?thesis
    using reply_restored by (auto simp: assoc_inv_def delivered_total_def)
qed

theorem icmp_echo_only_witness:
  "parse_echo_request [8, 0, 0, 0, 0, 1, 0, 2] False \<noteq> None \<and>
   checksum (down_message (IcmpAssoc False) (Some 7) [0, 0, 0, 0, 0, 1, 0, 2]) = 0"
proof -
  let ?b = "[8, 0, 0, 0, 0, 1, 0, 2] :: bytes"
  have "?b \<in> set (a_sent (progress_state (relay_icmp False mem_store [1] None 0
      [AUpRecv (Some ?b) 5, AUpSend (Some 8)])))"
    by (simp add: relay_icmp_def assoc_init_def up_accept_def parse_echo_request_def V4_ECHO_REQUEST_def icmp_offsets Let_def)
  then show ?thesis
    using icmp_echo_only [of False mem_store "[1]" 0 "[AUpRecv (Some ?b) 5, AUpSend (Some 8)]"] by auto
qed

text \<open>
  C21. An idle association ends. After any run in the order of the clock, once no more traffic arrives, the
  association is over as soon as its sleep resolves at the idle time (60 s for UDP, 30 s for ICMP) after the
  last activity, however many authorization ticks come in between; and a sleep that resolves before that
  does not end it.
\<close>

theorem idle_association_ends:
  assumes "timely start es" and "assoc_run k ops i es (assoc_init k start) = Going a"
  shows "(\<forall>es' t. list_all quiet es' \<and> ADeadline t \<in> set es' \<and> a_activity a + assoc_idle k \<le> t \<longrightarrow>
       (\<exists>res a'. assoc_run k ops i es' a = Ended res a')) \<and>
    (\<forall>t. t < a_activity a + assoc_idle k \<longrightarrow>
       (\<exists>a'. assoc_step k ops i (ADeadline t) a = Going a' \<and> a_activity a' = a_activity a))"
proof -
  have "clock_inv k start (assoc_init k start)"
    by (simp add: clock_inv_def assoc_init_def)
  from clock_run [OF this assms] have d: "a_deadline a \<le> a_activity a + assoc_idle k" .
  show ?thesis
    using quiet_run_ends [OF _ _ _ d] assoc_idle_pos [of k] by (auto simp: expired_sleep_def)
qed

theorem idle_association_ends_witness:
  "\<exists>res a'. assoc_run DgramAssoc mem_store [1] [ADeadline 60000] (assoc_init DgramAssoc 0) = Ended res a'"
proof -
  have "timely 0 ([] :: user_map assoc_event list)"
    by simp
  from idle_association_ends [OF this assoc_run.simps(1), of DgramAssoc mem_store "[1]", THEN conjunct1, rule_format,
      of "[ADeadline 60000]" 60000]
  show ?thesis
    by (simp add: quiet_def assoc_init_def assoc_idle_def)
qed

end
