(* ===== verification/Supervisor.thy ===== *)
theory Supervisor
  imports Prelude "HOL-Library.Multiset"
begin

text \<open>
  The client's connection supervisor: the pure machine of \<open>crates/leshiy-client/src/supervisor.rs\<close> and the shell
  that performs its actions, \<open>crates/leshiy-client/src/runtime.rs\<close>.

  The shell's tasks report over channels with the generation they were started in. A dial task, a back-off
  timer or a tunnel monitor that may still report is a member of a multiset of generations, also after it
  was aborted, because its report may already be in the channel. What the operating system answers (setting
  and clearing the proxy, binding the listener) is an argument. \<open>s_proxy\<close> says whether the system proxy
  points at the client. Durations are in nanoseconds. The generation counter is a \<open>nat\<close>: it grows by one with
  a dial or a disconnect and does not reach \<open>2 ^ 64\<close>.
\<close>

section \<open>Definitions\<close>

subsection \<open>supervisor.rs\<close>

datatype conn_state = Disconnected | Connecting | Connected | Reconnecting | Errored

datatype input =
    InConnect
  | InDisconnect
  | DialSucceeded
  | DialFailed
  | ServiceFailed
  | TunnelDropped
  | BackoffElapsed
  | Connectivity bool

type_synonym duration = nat

definition DURATION_MAX :: duration where
  "DURATION_MAX = (2 ^ 64 - 1) * 1000000000 + 999999999"

datatype action =
    Dial
  | SetProxy
  | ClearProxy
  | StartServing
  | StopServing
  | ScheduleBackoff duration
  | Emit conn_state

definition backoff_delay_of :: "u32 \<Rightarrow> duration \<Rightarrow> duration \<Rightarrow> duration" where
  "backoff_delay_of attempt base mx =
     (let factor = min (2 ^ unat (min attempt 16)) (2 ^ 32 - 1) in min (min (base * factor) DURATION_MAX) mx)"

record machine =
  mc_state :: conn_state
  mc_kill_switch :: bool
  mc_proxy_set :: bool
  mc_attempt :: u32
  mc_base :: duration
  mc_max :: duration
  mc_online :: bool

definition machine_new :: "bool \<Rightarrow> duration \<Rightarrow> duration \<Rightarrow> machine" where
  "machine_new kill_switch base mx =
     \<lparr>mc_state = Disconnected, mc_kill_switch = kill_switch, mc_proxy_set = False, mc_attempt = 0, mc_base = base,
      mc_max = mx, mc_online = True\<rparr>"

text \<open>The actions of adopting a tunnel.\<close>

definition adopt :: "machine \<Rightarrow> machine \<times> action list" where
  "adopt m =
     (if mc_proxy_set m then (m, [StartServing, Emit Connected])
      else (m\<lparr>mc_proxy_set := True\<rparr>, [StartServing, SetProxy, Emit Connected]))"

definition handle :: "input \<Rightarrow> machine \<Rightarrow> machine \<times> action list" where
  "handle inp m =
     (case (mc_state m, inp) of
        (_, ServiceFailed) \<Rightarrow> (m\<lparr>mc_state := Errored, mc_proxy_set := False\<rparr>, [StopServing, Emit Errored])
      | (Errored, InDisconnect) \<Rightarrow>
          (m\<lparr>mc_state := Disconnected, mc_proxy_set := False\<rparr>, [StopServing, ClearProxy, Emit Disconnected])
      | (Disconnected, InConnect) \<Rightarrow> (m\<lparr>mc_state := Connecting, mc_attempt := 0\<rparr>, [Emit Connecting, Dial])
      | (Errored, InConnect) \<Rightarrow> (m\<lparr>mc_state := Connecting, mc_attempt := 0\<rparr>, [Emit Connecting, Dial])
      | (Connecting, DialSucceeded) \<Rightarrow> adopt (m\<lparr>mc_state := Connected\<rparr>)
      | (Connecting, DialFailed) \<Rightarrow> (m\<lparr>mc_state := Errored\<rparr>, [Emit Errored])
      | (Connecting, InDisconnect) \<Rightarrow>
          (m\<lparr>mc_state := Disconnected, mc_proxy_set := False\<rparr>, [ClearProxy, Emit Disconnected])
      | (Connected, TunnelDropped) \<Rightarrow>
          let m = m\<lparr>mc_state := Reconnecting, mc_attempt := 0\<rparr>;
              clear = \<not> mc_kill_switch m \<and> mc_proxy_set m;
              d = backoff_delay_of (mc_attempt m) (mc_base m) (mc_max m)
          in (if clear then m\<lparr>mc_proxy_set := False\<rparr> else m,
              [StopServing] @ (if clear then [ClearProxy] else []) @ [ScheduleBackoff d, Emit Reconnecting])
      | (Connected, InDisconnect) \<Rightarrow>
          (m\<lparr>mc_state := Disconnected, mc_proxy_set := False\<rparr>,
           [StopServing] @ (if mc_proxy_set m then [ClearProxy] else []) @ [Emit Disconnected])
      | (Reconnecting, BackoffElapsed) \<Rightarrow> (m, if mc_online m then [Dial] else [])
      | (Reconnecting, Connectivity o') \<Rightarrow>
          if o' \<and> \<not> mc_online m then (m\<lparr>mc_online := o', mc_attempt := 0\<rparr>, [Dial]) else (m\<lparr>mc_online := o'\<rparr>, [])
      | (Reconnecting, DialSucceeded) \<Rightarrow> adopt (m\<lparr>mc_state := Connected, mc_attempt := 0\<rparr>)
      | (Reconnecting, DialFailed) \<Rightarrow>
          let m = m\<lparr>mc_attempt := sat_add32 (mc_attempt m) 1\<rparr> in
          (m, [ScheduleBackoff (backoff_delay_of (mc_attempt m) (mc_base m) (mc_max m))])
      | (Reconnecting, InDisconnect) \<Rightarrow>
          (m\<lparr>mc_state := Disconnected, mc_proxy_set := False\<rparr>,
           (if mc_proxy_set m then [ClearProxy] else []) @ [Emit Disconnected])
      | (_, Connectivity o') \<Rightarrow> (m\<lparr>mc_online := o'\<rparr>, [])
      | _ \<Rightarrow> (m, []))"

subsection \<open>runtime.rs\<close>

text \<open>What the system answers while one input is processed; \<open>left\<close> is what a failed proxy call leaves behind.\<close>

record sys_env =
  env_set_ok :: bool
  env_clear_ok :: bool
  env_bind_ok :: bool
  env_left :: bool

record sup =
  s_machine :: machine
  s_uri :: string
  s_current :: "nat option"
  s_listener :: "nat option"
  s_monitor :: "nat option"
  s_generation :: nat
  s_dial :: "nat option"
  s_proxy :: bool
  s_published :: conn_state
  s_dialing :: "nat multiset"
  s_timers :: "(nat \<times> duration) multiset"
  s_watching :: "nat multiset"

definition do_dial :: "sup \<Rightarrow> sup" where
  "do_dial s =
     (if s_dial s \<noteq> None then s
      else let g = s_generation s + 1 in
        s\<lparr>s_generation := g, s_dial := Some g, s_dialing := add_mset g (s_dialing s)\<rparr>)"

definition stop_serving :: "sup \<Rightarrow> sup" where
  "stop_serving s = s\<lparr>s_listener := None, s_monitor := None, s_current := None\<rparr>"

definition start_serving :: "sup \<Rightarrow> sup" where
  "start_serving s =
     (let g = s_generation s in
      s\<lparr>s_listener := Some g, s_monitor := Some g, s_watching := add_mset g (add_mset g (s_watching s))\<rparr>)"

text \<open>
  \<open>feed(ServiceFailed)\<close> from within \<open>apply\<close>: its actions only stop serving and publish, so they need no system
  call and the recursion of the two functions ends there.
\<close>

definition service_failed :: "sup \<Rightarrow> sup" where
  "service_failed s = (stop_serving (s\<lparr>s_machine := fst (handle ServiceFailed (s_machine s))\<rparr>))\<lparr>s_published := Errored\<rparr>"

fun apply_actions :: "sys_env \<Rightarrow> action list \<Rightarrow> sup \<Rightarrow> sup" where
  "apply_actions env [] s = s"
| "apply_actions env (Dial # as) s = apply_actions env as (do_dial s)"
| "apply_actions env (SetProxy # as) s =
     (if env_set_ok env then apply_actions env as (s\<lparr>s_proxy := True\<rparr>)
      else service_failed (s\<lparr>s_proxy := (\<not> env_clear_ok env \<and> env_left env)\<rparr>))"
| "apply_actions env (ClearProxy # as) s =
     (if env_clear_ok env then apply_actions env as (s\<lparr>s_proxy := False\<rparr>)
      else service_failed (s\<lparr>s_proxy := env_left env\<rparr>))"
| "apply_actions env (StartServing # as) s =
     (case s_current s of
        None \<Rightarrow> apply_actions env as s
      | Some _ \<Rightarrow> if env_bind_ok env then apply_actions env as (start_serving s) else service_failed s)"
| "apply_actions env (StopServing # as) s = apply_actions env as (stop_serving s)"
| "apply_actions env (ScheduleBackoff d # as) s =
     apply_actions env as (s\<lparr>s_timers := add_mset (s_generation s, d) (s_timers s)\<rparr>)"
| "apply_actions env (Emit st # as) s = apply_actions env as (s\<lparr>s_published := st\<rparr>)"

definition feed :: "sys_env \<Rightarrow> input \<Rightarrow> sup \<Rightarrow> sup" where
  "feed env inp s = (let (m, as) = handle inp (s_machine s) in apply_actions env as (s\<lparr>s_machine := m\<rparr>))"

datatype sup_command = CmdConnect string | CmdDisconnect | CmdConnectivity bool

definition on_command :: "sys_env \<Rightarrow> sup_command \<Rightarrow> sup \<Rightarrow> sup" where
  "on_command env c s =
     (case c of
        CmdConnect uri \<Rightarrow>
          if mc_state (s_machine s) = Disconnected \<or> mc_state (s_machine s) = Errored
          then feed env InConnect (s\<lparr>s_uri := uri\<rparr>) else s
      | CmdDisconnect \<Rightarrow> feed env InDisconnect (s\<lparr>s_generation := s_generation s + 1, s_dial := None\<rparr>)
      | CmdConnectivity online \<Rightarrow> feed env (Connectivity online) s)"

definition on_dial_result :: "sys_env \<Rightarrow> nat option \<Rightarrow> sup \<Rightarrow> sup" where
  "on_dial_result env res s =
     (case res of
        Some tunnel \<Rightarrow>
          let s = feed env DialSucceeded (s\<lparr>s_current := Some tunnel\<rparr>) in
          if mc_state (s_machine s) \<noteq> Connected then s\<lparr>s_current := None\<rparr> else s
      | None \<Rightarrow> feed env DialFailed s)"

text \<open>The select loop: one event, whose generation the code compares with the current one.\<close>

datatype sup_event =
    EvCommand sup_command
  | EvDialed nat "nat option"
  | EvBackoff nat duration
  | EvDropped nat

definition sup_enabled :: "sup_event \<Rightarrow> sup \<Rightarrow> bool" where
  "sup_enabled e s =
     (case e of
        EvCommand c \<Rightarrow> True
      | EvDialed g res \<Rightarrow> g \<in># s_dialing s
      | EvBackoff g d \<Rightarrow> (g, d) \<in># s_timers s
      | EvDropped g \<Rightarrow> g \<in># s_watching s)"

definition sup_step :: "sys_env \<Rightarrow> sup_event \<Rightarrow> sup \<Rightarrow> sup" where
  "sup_step env e s =
     (case e of
        EvCommand c \<Rightarrow> on_command env c s
      | EvDialed g res \<Rightarrow>
          let s = s\<lparr>s_dialing := s_dialing s - {#g#}\<rparr> in
          if g = s_generation s then on_dial_result env res (s\<lparr>s_dial := None\<rparr>) else s
      | EvBackoff g d \<Rightarrow>
          let s = s\<lparr>s_timers := s_timers s - {#(g, d)#}\<rparr> in
          if g = s_generation s then feed env BackoffElapsed s else s
      | EvDropped g \<Rightarrow>
          let s = s\<lparr>s_watching := s_watching s - {#g#}\<rparr> in
          if g = s_generation s then feed env TunnelDropped s else s)"

definition sup_init :: "bool \<Rightarrow> duration \<Rightarrow> duration \<Rightarrow> sup" where
  "sup_init kill_switch base mx =
     \<lparr>s_machine = machine_new kill_switch base mx, s_uri = [], s_current = None, s_listener = None, s_monitor = None,
      s_generation = 0, s_dial = None, s_proxy = False, s_published = Disconnected, s_dialing = {#}, s_timers = {#},
      s_watching = {#}\<rparr>"

inductive sup_reach :: "bool \<Rightarrow> duration \<Rightarrow> duration \<Rightarrow> sup \<Rightarrow> bool" for ks base mx where
  sup_reach_init: "sup_reach ks base mx (sup_init ks base mx)"
| sup_reach_step: "sup_reach ks base mx s \<Longrightarrow> sup_enabled e s \<Longrightarrow> sup_reach ks base mx (sup_step env e s)"

section \<open>Lemmas\<close>

text \<open>What holds between events.\<close>

definition sup_inv :: "sup \<Rightarrow> bool" where
  "sup_inv s \<longleftrightarrow>
     (let m = s_machine s; st = mc_state m in
      s_published s = st \<and>
      (s_listener s \<noteq> None \<longleftrightarrow> st = Connected) \<and> (s_monitor s \<noteq> None \<longleftrightarrow> st = Connected) \<and>
      (s_current s \<noteq> None \<longleftrightarrow> st = Connected) \<and>
      (st = Connected \<longrightarrow> s_proxy s \<and> mc_proxy_set m \<and> s_dial s = None) \<and>
      (st = Disconnected \<longrightarrow> \<not> s_proxy s \<and> \<not> mc_proxy_set m \<and> s_dial s = None) \<and>
      (st = Reconnecting \<longrightarrow> s_proxy s = mc_proxy_set m \<and> mc_proxy_set m = mc_kill_switch m) \<and>
      (st = Connecting \<longrightarrow> s_dial s \<noteq> None \<and> \<not> mc_proxy_set m) \<and>
      (st = Errored \<longrightarrow> s_dial s = None \<and> \<not> mc_proxy_set m) \<and>
      (\<forall>g. s_dial s = Some g \<longrightarrow> g = s_generation s))"

text \<open>What may still report: only the dial in flight has the current generation, and a supervisor that is not
  at rest has something of the current generation to wait for.\<close>

definition tasks_inv :: "sup \<Rightarrow> bool" where
  "tasks_inv s \<longleftrightarrow>
     (let m = s_machine s; st = mc_state m; g = s_generation s in
      (\<forall>h. h \<in># s_dialing s \<longrightarrow> h \<le> g) \<and> (\<forall>h d. (h, d) \<in># s_timers s \<longrightarrow> h \<le> g) \<and> (\<forall>h. h \<in># s_watching s \<longrightarrow> h \<le> g) \<and>
      count (s_dialing s) g = (if s_dial s = None then 0 else 1) \<and>
      (st = Connected \<longrightarrow> g \<in># s_watching s) \<and>
      (st = Reconnecting \<and> s_dial s = None \<and> mc_online m \<longrightarrow> (\<exists>d. (g, d) \<in># s_timers s)))"

lemmas sup_defs = handle_def adopt_def feed_def do_dial_def stop_serving_def start_serving_def service_failed_def Let_def

lemma command_inv:
  assumes "sup_inv s"
  shows "sup_inv (on_command env c s)"
  using assms
  by (cases c; cases "mc_state (s_machine s)")
    (auto simp: sup_inv_def on_command_def sup_defs split: if_splits)

lemma dialed_inv:
  assumes "sup_inv s" and "tasks_inv s" and "g \<in># s_dialing s"
  shows "sup_inv (sup_step env (EvDialed g res) s)"
proof (cases "g = s_generation s")
  case True
  then have "s_dial s \<noteq> None"
    using assms(2,3) unfolding tasks_inv_def Let_def by (metis not_in_iff)
  then show ?thesis
    using assms(1) True
    by (cases res; cases "mc_state (s_machine s)")
      (auto simp: sup_inv_def sup_step_def on_dial_result_def sup_defs split: if_splits)
qed (use assms(1) in \<open>simp add: sup_inv_def sup_step_def Let_def\<close>)

lemma timers_inv:
  assumes "sup_inv s"
  shows "sup_inv (sup_step env (EvBackoff g d) s)" and "sup_inv (sup_step env (EvDropped g) s)"
  using assms
  by (cases "mc_state (s_machine s)"; auto simp: sup_inv_def sup_step_def sup_defs split: if_splits)+


lemma remains: "a \<noteq> b \<Longrightarrow> a \<in># M - {#b#} \<longleftrightarrow> a \<in># M"
  by (simp add: in_diff_count count_greater_zero_iff)

lemma fresh_generation: "tasks_inv s \<Longrightarrow> count (s_dialing s) (Suc (s_generation s)) = 0"
  unfolding tasks_inv_def Let_def by (meson count_eq_zero_iff not_less_eq_eq order_refl)

lemma command_tasks:
  assumes "sup_inv s" and "tasks_inv s"
  shows "tasks_inv (on_command env c s)"
  using assms fresh_generation [OF assms(2)]
  by (cases c; cases "mc_state (s_machine s)")
    (auto simp: sup_inv_def tasks_inv_def on_command_def sup_defs le_Suc_eq split: if_splits)

lemma dialed_tasks:
  assumes "sup_inv s" and "tasks_inv s" and "g \<in># s_dialing s"
  shows "tasks_inv (sup_step env (EvDialed g res) s)"
  using assms fresh_generation [OF assms(2)]
  by (cases res; cases "mc_state (s_machine s)")
    (auto simp: sup_inv_def tasks_inv_def sup_step_def on_dial_result_def sup_defs le_Suc_eq remains
      split: if_splits dest: in_diffD)

lemma backoff_tasks:
  assumes "sup_inv s" and "tasks_inv s"
  shows "tasks_inv (sup_step env (EvBackoff g d) s)"
proof (cases "g = s_generation s")
  case True
  let ?s = "s\<lparr>s_timers := s_timers s - {#(g, d)#}\<rparr>"
  have le: "\<forall>h d'. (h, d') \<in># s_timers ?s \<longrightarrow> h \<le> s_generation s"
    using assms(2) unfolding tasks_inv_def Let_def by simp (meson in_diffD)
  define T where "T = s_timers ?s"
  have step: "sup_step env (EvBackoff g d) s = feed env BackoffElapsed (s\<lparr>s_timers := T\<rparr>)"
    by (simp add: sup_step_def True T_def)
  show ?thesis
    using assms le fresh_generation [OF assms(2)] unfolding step T_def [symmetric]
    by (cases "mc_state (s_machine s)") (auto simp: tasks_inv_def sup_defs le_Suc_eq split: if_splits)
next
  case False
  then have "\<exists>d'. (s_generation s, d') \<in># s_timers s - {#(g, d)#}" if "\<exists>d'. (s_generation s, d') \<in># s_timers s"
    using that by (auto simp: remains)
  then show ?thesis
    using assms(2) False unfolding tasks_inv_def sup_step_def Let_def by simp (meson in_diffD)
qed

lemma dropped_tasks:
  assumes "sup_inv s" and "tasks_inv s"
  shows "tasks_inv (sup_step env (EvDropped g) s)"
  using assms fresh_generation [OF assms(2)]
  by (cases "mc_state (s_machine s)")
    (auto simp: sup_inv_def tasks_inv_def sup_step_def sup_defs le_Suc_eq remains
      split: if_splits dest: in_diffD)


text \<open>The configuration does not change, and no timer waits longer than the configured maximum.\<close>

definition config_inv :: "bool \<Rightarrow> duration \<Rightarrow> sup \<Rightarrow> bool" where
  "config_inv ks mx s \<longleftrightarrow> mc_kill_switch (s_machine s) = ks \<and> mc_max (s_machine s) = mx \<and>
     (\<forall>g d. (g, d) \<in># s_timers s \<longrightarrow> d \<le> mx)"

lemma backoff_within: "backoff_delay_of a b mx \<le> mx"
  by (simp add: backoff_delay_of_def Let_def)

lemma handle_failed [simp]: "fst (handle ServiceFailed m) = m\<lparr>mc_state := Errored, mc_proxy_set := False\<rparr>"
  by (cases "mc_state m") (simp_all add: handle_def)

lemma apply_config:
  assumes "config_inv ks mx s" and "\<And>d. ScheduleBackoff d \<in> set as \<Longrightarrow> d \<le> mx"
  shows "config_inv ks mx (apply_actions env as s)"
  using assms
proof (induction env as s rule: apply_actions.induct)
  case (3 env as s)
  then show ?case
    by (simp add: config_inv_def service_failed_def stop_serving_def)
next
  case (4 env as s)
  then show ?case
    by (simp add: config_inv_def service_failed_def stop_serving_def)
next
  case (5 env as s)
  then show ?case
    by (auto simp: config_inv_def service_failed_def stop_serving_def start_serving_def Let_def split: option.split)
qed (auto simp: config_inv_def do_dial_def stop_serving_def Let_def)

lemma handle_config:
  "mc_kill_switch (fst (handle inp m)) = mc_kill_switch m \<and> mc_max (fst (handle inp m)) = mc_max m \<and>
   (\<forall>d. ScheduleBackoff d \<in> set (snd (handle inp m)) \<longrightarrow> d \<le> mc_max m)"
  by (cases inp; cases "mc_state m"; simp add: handle_def adopt_def Let_def backoff_within)

lemma feed_config:
  assumes "config_inv ks mx s"
  shows "config_inv ks mx (feed env inp s)"
proof -
  obtain m as where h: "handle inp (s_machine s) = (m, as)"
    by fastforce
  have "config_inv ks mx (s\<lparr>s_machine := m\<rparr>)" "\<And>d. ScheduleBackoff d \<in> set as \<Longrightarrow> d \<le> mx"
    using handle_config [of inp "s_machine s"] assms by (auto simp: config_inv_def h)
  then show ?thesis
    using apply_config by (simp add: feed_def h)
qed

lemma step_config:
  assumes "config_inv ks mx s"
  shows "config_inv ks mx (sup_step env e s)"
proof -
  have upd: "config_inv ks mx (s\<lparr>s_dialing := a, s_dial := b, s_current := c\<rparr>)" "config_inv ks mx (s\<lparr>s_dialing := a, s_dial := b\<rparr>)"
    "config_inv ks mx (s\<lparr>s_dialing := a\<rparr>)" "config_inv ks mx (s\<lparr>s_watching := a\<rparr>)" "config_inv ks mx (s\<lparr>s_uri := u\<rparr>)"
    "config_inv ks mx (s\<lparr>s_generation := g, s_dial := b\<rparr>)" "config_inv ks mx (s\<lparr>s_timers := s_timers s - t\<rparr>)" for a b c g t u
    using assms by (auto simp: config_inv_def dest: in_diffD)
  have drop: "config_inv ks mx (s'\<lparr>s_current := c\<rparr>)" if "config_inv ks mx s'" for s' c
    using that by (simp add: config_inv_def)
  show ?thesis
    using assms
    by (auto simp: sup_step_def on_command_def on_dial_result_def Let_def upd drop feed_config
        split: sup_event.split sup_command.split option.split)
qed

lemma reach_inv:
  assumes "sup_reach ks base mx s"
  shows "sup_inv s \<and> tasks_inv s \<and> config_inv ks mx s"
  using assms
proof induction
  case sup_reach_init
  then show ?case
    by (simp add: sup_inv_def tasks_inv_def config_inv_def sup_init_def machine_new_def Let_def)
next
  case (sup_reach_step s e env)
  then show ?case
  proof (cases e)
    case (EvCommand c)
    then have "sup_step env e s = on_command env c s"
      by (simp add: sup_step_def)
    then show ?thesis
      using sup_reach_step.IH command_inv command_tasks step_config by metis
  next
    case (EvDialed g res)
    then show ?thesis
      using sup_reach_step dialed_inv dialed_tasks step_config by (simp add: sup_enabled_def)
  next
    case (EvBackoff g d)
    then show ?thesis
      using sup_reach_step timers_inv backoff_tasks step_config by simp
  next
    case (EvDropped g)
    then show ?thesis
      using sup_reach_step timers_inv dropped_tasks step_config by simp
  qed
qed

section \<open>Properties\<close>


definition good_env :: sys_env where
  "good_env = \<lparr>env_set_ok = True, env_clear_ok = True, env_bind_ok = True, env_left = False\<rparr>"

lemma sample_connected:
  "sup_reach True 1 9 (sup_step good_env (EvDialed 1 (Some 7)) (sup_step good_env (EvCommand (CmdConnect ''u'')) (sup_init True 1 9)))"
  by (intro sup_reach.intros)
    (simp_all add: sup_enabled_def sup_step_def on_command_def feed_def handle_def sup_init_def machine_new_def do_dial_def Let_def)




end
