(* ===== verification/Routes.thy ===== *)
theory Routes
  imports NetGuard
begin

text \<open>
  Split tunnelling: the rule sets of \<open>crates/leshiy-client/src/split_tunnel.rs\<close> and the route planner of
  \<open>crates/leshiy-tun/src/route_plan.rs\<close>.

  The planner only lists routes; which one a packet takes is the kernel's longest-prefix match. That is the
  abstract side here: \<open>decisions\<close> is the list of what the longest matching routes of a table say about an
  address, and the default route that was there before sends everything else out directly.
\<close>

section \<open>Definitions\<close>

subsection \<open>split\_tunnel.rs\<close>

datatype split_mode = Exclude | Include

record cidr =
  c_addr :: ip_addr
  c_prefix :: nat

record rule_set =
  rs_cidrs :: "cidr list"
  rs_domains :: "string list"

record split_tunnel =
  sp_mode :: split_mode
  sp_cidrs :: "cidr list"
  sp_domains :: "string list"

record split_plan =
  pl_base_mode :: split_mode
  pl_include :: rule_set
  pl_exclude :: rule_set

definition rules_none :: rule_set where
  "rules_none = \<lparr>rs_cidrs = [], rs_domains = []\<rparr>"

definition rules_empty :: "rule_set \<Rightarrow> bool" where
  "rules_empty r \<longleftrightarrow> rs_cidrs r = [] \<and> rs_domains r = []"

definition push_new :: "'a \<Rightarrow> 'a list \<Rightarrow> 'a list" where
  "push_new x xs = (if x \<in> set xs then xs else xs @ [x])"

definition extend_rules :: "rule_set \<Rightarrow> rule_set \<Rightarrow> rule_set" where
  "extend_rules other r =
     \<lparr>rs_cidrs = fold push_new (rs_cidrs other) (rs_cidrs r), rs_domains = fold push_new (rs_domains other) (rs_domains r)\<rparr>"

definition plan_empty :: "split_plan \<Rightarrow> bool" where
  "plan_empty p \<longleftrightarrow> rules_empty (pl_include p) \<and> rules_empty (pl_exclude p)"

definition from_manual :: "split_tunnel \<Rightarrow> split_plan" where
  "from_manual manual =
     (let set' = \<lparr>rs_cidrs = sp_cidrs manual, rs_domains = sp_domains manual\<rparr> in
      case sp_mode manual of
        Exclude \<Rightarrow> \<lparr>pl_base_mode = Exclude, pl_include = rules_none, pl_exclude = set'\<rparr>
      | Include \<Rightarrow> \<lparr>pl_base_mode = Include, pl_include = set', pl_exclude = rules_none\<rparr>)"

definition merge_rules :: "split_mode \<Rightarrow> rule_set \<Rightarrow> split_plan \<Rightarrow> split_plan" where
  "merge_rules mode rules p =
     (case mode of
        Include \<Rightarrow> p\<lparr>pl_include := extend_rules rules (pl_include p)\<rparr>
      | Exclude \<Rightarrow> p\<lparr>pl_exclude := extend_rules rules (pl_exclude p)\<rparr>)"

definition effective :: "split_plan \<Rightarrow> rule_set \<times> rule_set" where
  "effective p =
     (if pl_base_mode p = Exclude \<and> rules_empty (pl_exclude p) then (rules_none, rules_none)
      else if pl_base_mode p = Include \<and> rules_empty (pl_include p) then (rules_none, rules_none)
      else (pl_include p, pl_exclude p))"

definition split_empty :: "split_tunnel \<Rightarrow> bool" where
  "split_empty t \<longleftrightarrow> sp_cidrs t = [] \<and> sp_domains t = []"


subsection \<open>route\_plan.rs\<close>

datatype route_plan_error = FamilyMismatch ip_addr ip_addr

record server_exception =
  se_dest :: cidr
  se_gateway :: ip_addr

record route_plan =
  rp_tun_addr :: ip_addr
  rp_tun_addr6 :: "ip_addr option"
  rp_via_tun :: "cidr list"
  rp_server_exception :: server_exception
  rp_bypass :: "server_exception list"
  rp_orig_gateway6 :: "ip_addr option"

fun is_ipv4 :: "ip_addr \<Rightarrow> bool" where
  "is_ipv4 (V4 o4) = True"
| "is_ipv4 (V6 o6) = False"

definition default_halves4 :: "cidr list" where
  "default_halves4 = [\<lparr>c_addr = V4 [0, 0, 0, 0], c_prefix = 1\<rparr>, \<lparr>c_addr = V4 [128, 0, 0, 0], c_prefix = 1\<rparr>]"

definition default_halves6 :: "cidr list" where
  "default_halves6 =
     [\<lparr>c_addr = V6 (replicate 16 0), c_prefix = 1\<rparr>, \<lparr>c_addr = V6 (0x80 # replicate 15 0), c_prefix = 1\<rparr>]"

definition is_default_override :: "cidr \<Rightarrow> bool" where
  "is_default_override c =
     (if c_prefix c \<noteq> 1 then False
      else (case c_addr c of
              V4 a \<Rightarrow> a = [0, 0, 0, 0] \<or> a = [128, 0, 0, 0]
            | V6 a \<Rightarrow> a = replicate 16 0 \<or> a = 0x80 # replicate 15 0))"

definition bypass_gateway :: "ip_addr \<Rightarrow> ip_addr option \<Rightarrow> cidr \<Rightarrow> ip_addr option" where
  "bypass_gateway orig_gateway v6_gateway c =
     (if is_ipv4 (c_addr c) then (if is_ipv4 orig_gateway then Some orig_gateway else None) else v6_gateway)"

definition from_split ::
    "split_mode \<Rightarrow> cidr list \<Rightarrow> cidr list \<Rightarrow> ip_addr \<Rightarrow> ip_addr \<Rightarrow> ip_addr option \<Rightarrow> ip_addr \<Rightarrow> ip_addr option \<Rightarrow>
     route_plan_error + route_plan" where
  "from_split base_mode include_cidrs exclude_cidrs server_ip orig_gateway orig_gateway6 tun_addr tun_addr6 =
     (if is_ipv4 server_ip \<noteq> is_ipv4 orig_gateway then Err (FamilyMismatch server_ip orig_gateway)
      else
        let host_prefix = (if is_ipv4 server_ip then 32 else 128);
            via_tun = (if base_mode = Exclude
                       then default_halves4 @ (if tun_addr6 \<noteq> None then default_halves6 else []) else []);
            v6_gateway = (if is_ipv4 orig_gateway then orig_gateway6 else Some orig_gateway);
            bypass = List.map_filter (\<lambda>c. map_option (\<lambda>gw. \<lparr>se_dest = c, se_gateway = gw\<rparr>)
                       (bypass_gateway orig_gateway v6_gateway c)) exclude_cidrs
        in Ok \<lparr>rp_tun_addr = tun_addr, rp_tun_addr6 = tun_addr6, rp_via_tun = via_tun @ include_cidrs,
              rp_server_exception = \<lparr>se_dest = \<lparr>c_addr = server_ip, c_prefix = host_prefix\<rparr>, se_gateway = orig_gateway\<rparr>,
              rp_bypass = bypass, rp_orig_gateway6 = v6_gateway\<rparr>)"

definition with_split ::
    "split_mode \<Rightarrow> cidr list \<Rightarrow> ip_addr \<Rightarrow> ip_addr \<Rightarrow> ip_addr \<Rightarrow> ip_addr option \<Rightarrow> route_plan_error + route_plan" where
  "with_split mode static_cidrs server_ip orig_gateway tun_addr tun_addr6 =
     (case mode of
        Exclude \<Rightarrow> from_split mode [] static_cidrs server_ip orig_gateway None tun_addr tun_addr6
      | Include \<Rightarrow> from_split mode static_cidrs [] server_ip orig_gateway None tun_addr tun_addr6)"

definition full_tunnel :: "ip_addr \<Rightarrow> ip_addr \<Rightarrow> ip_addr \<Rightarrow> route_plan_error + route_plan" where
  "full_tunnel server_ip orig_gateway tun_addr = with_split Exclude [] server_ip orig_gateway tun_addr None"

section \<open>The kernel's choice\<close>

fun octets :: "ip_addr \<Rightarrow> bytes" where
  "octets (V4 b) = b"
| "octets (V6 b) = b"

fun covers :: "cidr \<Rightarrow> ip_addr \<Rightarrow> bool" where
  "covers c (V4 o4) = (is_ipv4 (c_addr c) \<and> in_block 32 (octets (c_addr c)) (c_prefix c) o4)"
| "covers c (V6 o6) = (\<not> is_ipv4 (c_addr c) \<and> in_block 128 (octets (c_addr c)) (c_prefix c) o6)"

datatype way = Direct | ViaTun

definition route_table :: "route_plan \<Rightarrow> (cidr \<times> way) list" where
  "route_table p = (se_dest (rp_server_exception p), Direct) #
     map (\<lambda>c. (c, Direct)) (map se_dest (rp_bypass p)) @ map (\<lambda>c. (c, ViaTun)) (rp_via_tun p)"

definition decisions :: "(cidr \<times> way) list \<Rightarrow> ip_addr \<Rightarrow> way list" where
  "decisions t a =
     (let ms = filter (\<lambda>e. covers (fst e) a) t in
      if ms = [] then [Direct]
      else map snd (filter (\<lambda>e. list_all (\<lambda>e'. c_prefix (fst e') \<le> c_prefix (fst e)) ms) ms))"

section \<open>Lemmas\<close>

definition longest :: "(cidr \<times> way) list \<Rightarrow> ip_addr \<Rightarrow> cidr \<times> way \<Rightarrow> bool" where
  "longest t a e \<longleftrightarrow> e \<in> set t \<and> covers (fst e) a \<and> (\<forall>e'\<in>set t. covers (fst e') a \<longrightarrow> c_prefix (fst e') \<le> c_prefix (fst e))"

lemma longest_exists:
  assumes "e \<in> set t" and "covers (fst e) a"
  obtains e' where "longest t a e'"
proof -
  let ?m = "Max ((\<lambda>e. c_prefix (fst e)) ` {e \<in> set t. covers (fst e) a})"
  have fin: "finite ((\<lambda>e. c_prefix (fst e)) ` {e \<in> set t. covers (fst e) a})"
    by simp
  have "?m \<in> (\<lambda>e. c_prefix (fst e)) ` {e \<in> set t. covers (fst e) a}"
    by (rule Max_in [OF fin]) (use assms in blast)
  then obtain e' where e': "e' \<in> set t" "covers (fst e') a" "c_prefix (fst e') = ?m"
    by auto
  moreover have "c_prefix (fst e'') \<le> ?m" if "e'' \<in> set t" "covers (fst e'') a" for e''
    by (rule Max_ge [OF fin]) (use that in auto)
  ultimately show ?thesis
    using that unfolding longest_def by metis
qed

lemma set_decisions:
  "set (decisions t a) = (if \<exists>e\<in>set t. covers (fst e) a then {w. \<exists>c. longest t a (c, w)} else {Direct})"
  unfolding decisions_def longest_def Let_def
  by (auto simp: filter_empty_conv list_all_iff image_iff) fastforce+

lemma decisions_nonempty: "set (decisions t a) \<noteq> {}"
proof (cases "\<exists>e\<in>set t. covers (fst e) a")
  case True
  then obtain e where "longest t a e"
    using longest_exists by blast
  then show ?thesis
    using True by (auto simp: set_decisions intro!: exI [of _ "snd e"] exI [of _ "fst e"])
qed (simp add: set_decisions)

lemma decisions_subset: "set (decisions t a) \<subseteq> {w} \<Longrightarrow> set (decisions t a) = {w}"
  using decisions_nonempty [of t a] by (meson subset_singletonD)

lemma decisions_only:
  assumes "e \<in> set t" and "covers (fst e) a" and "\<And>e'. longest t a e' \<Longrightarrow> snd e' = w"
  shows "set (decisions t a) = {w}"
proof -
  have "set (decisions t a) \<subseteq> {w}"
    using assms unfolding set_decisions by (fastforce split: if_splits)
  then show ?thesis
    by (rule decisions_subset)
qed

lemma half_values:
  "be_value [0, 0, 0, 0] div 2 ^ 31 = 0" "be_value [128, 0, 0, 0] div 2 ^ 31 = 1"
  "be_value (replicate 16 0) div 2 ^ 127 = 0" "be_value (0x80 # replicate 15 0) div 2 ^ 127 = 1"
proof -
  have "replicate 16 (0 :: u8) = [0,0,0,0,0,0,0,0,0,0,0,0,0,0,0,0]" "replicate 15 (0 :: u8) = [0,0,0,0,0,0,0,0,0,0,0,0,0,0,0]"
    by (simp_all add: numeral_eq_Suc)
  then show "be_value [0, 0, 0, 0] div 2 ^ 31 = 0" "be_value [128, 0, 0, 0] div 2 ^ 31 = 1"
    "be_value (replicate 16 0) div 2 ^ 127 = 0" "be_value (0x80 # replicate 15 0) div 2 ^ 127 = 1"
    by (simp_all add: be_value_def)
qed

lemma half_cover:
  assumes "ip_wf a" and "is_ipv4 a \<or> dual"
  shows "\<exists>c\<in>set (default_halves4 @ (if dual then default_halves6 else [])). covers c a"
proof (cases a)
  case (V4 o4)
  then have "be_value o4 < 2 ^ 32"
    using assms(1) be_value_less [of o4] by simp
  then have "be_value o4 div 2 ^ 31 = 0 \<or> be_value o4 div 2 ^ 31 = 1"
    by auto
  then show ?thesis
    using half_values(1,2) by (auto simp: V4 default_halves4_def in_block_def)
next
  case (V6 o6)
  then have "be_value o6 < 2 ^ 128"
    using assms(1) be_value_less [of o6] by simp
  then have "be_value o6 div 2 ^ 127 = 0 \<or> be_value o6 div 2 ^ 127 = 1"
    by auto
  then show ?thesis
    using assms(2) half_values(3,4) by (auto simp: V6 default_halves6_def in_block_def)
qed


text \<open>The table of a plan, and the part of it that comes from rules.\<close>

definition server_route :: "ip_addr \<Rightarrow> cidr" where
  "server_route server = \<lparr>c_addr = server, c_prefix = (if is_ipv4 server then 32 else 128)\<rparr>"

text \<open>A block can be reached beside the tunnel when a gateway of its family is known.\<close>

definition gateway_known :: "ip_addr \<Rightarrow> ip_addr option \<Rightarrow> cidr \<Rightarrow> bool" where
  "gateway_known gw gw6 c \<longleftrightarrow> is_ipv4 (c_addr c) = is_ipv4 gw \<or> \<not> is_ipv4 (c_addr c) \<and> gw6 \<noteq> None"

definition rule_table :: "cidr list \<Rightarrow> cidr list \<Rightarrow> ip_addr \<Rightarrow> ip_addr option \<Rightarrow> (cidr \<times> way) list" where
  "rule_table inc exc gw gw6 =
     map (\<lambda>c. (c, Direct)) (filter (gateway_known gw gw6) exc) @
     map (\<lambda>c. (c, ViaTun)) inc"

definition base_table :: "split_mode \<Rightarrow> bool \<Rightarrow> (cidr \<times> way) list" where
  "base_table mode dual =
     (if mode = Exclude then map (\<lambda>c. (c, ViaTun)) (default_halves4 @ (if dual then default_halves6 else [])) else [])"

definition base_way :: "split_mode \<Rightarrow> way" where
  "base_way mode = (case mode of Exclude \<Rightarrow> ViaTun | Include \<Rightarrow> Direct)"

lemma bypass_dests:
  "map se_dest (List.map_filter (\<lambda>c. map_option (\<lambda>gw. \<lparr>se_dest = c, se_gateway = gw\<rparr>) (f c)) cs) = filter (\<lambda>c. f c \<noteq> None) cs"
  by (induction cs) (auto simp: List.map_filter_simps split: option.split)

lemma bypass_known: "bypass_gateway gw (if is_ipv4 gw then gw6 else Some gw) c \<noteq> None \<longleftrightarrow> gateway_known gw gw6 c"
  by (auto simp: bypass_gateway_def gateway_known_def)

lemma from_split_table:
  assumes "from_split mode inc exc server gw gw6 tun tun6 = Ok p"
  shows "set (route_table p) = insert (server_route server, Direct) (set (rule_table inc exc gw gw6) \<union> set (base_table mode (tun6 \<noteq> None)))"
proof -
  let ?b = "bypass_gateway gw (if is_ipv4 gw then gw6 else Some gw)"
  have "rp_via_tun p = (if mode = Exclude then default_halves4 @ (if tun6 \<noteq> None then default_halves6 else []) else []) @ inc"
    "map se_dest (rp_bypass p) = filter (\<lambda>c. ?b c \<noteq> None) exc" "se_dest (rp_server_exception p) = server_route server"
    using assms by (auto simp: from_split_def Let_def bypass_dests server_route_def split: if_splits)
  then have "route_table p = (server_route server, Direct) # map (\<lambda>c. (c, Direct)) (filter (\<lambda>c. ?b c \<noteq> None) exc) @
      base_table mode (tun6 \<noteq> None) @ map (\<lambda>c. (c, ViaTun)) inc"
    by (simp add: route_table_def base_table_def del: map_map)
  then show ?thesis
    unfolding bypass_known by (simp add: rule_table_def Un_ac)
qed

text \<open>The gateway of every route beside the tunnel is the one of its family.\<close>

lemma from_split_gateways:
  assumes "from_split mode inc exc server gw gw6 tun tun6 = Ok p" and "x \<in> set (rp_server_exception p # rp_bypass p)"
  shows "Some (se_gateway x) = (if is_ipv4 (c_addr (se_dest x)) = is_ipv4 gw then Some gw else gw6)"
  using assms
  by (auto simp: from_split_def bypass_gateway_def Let_def List.map_filter_def split: if_splits)

lemma base_prefix: "e \<in> set (base_table mode dual) \<Longrightarrow> c_prefix (fst e) = 1 \<and> snd e = ViaTun"
  by (auto simp: base_table_def default_halves4_def default_halves6_def split: if_splits)

lemma base_covers:
  assumes "ip_wf a" and "is_ipv4 a \<or> dual"
  shows "\<exists>e\<in>set (base_table Exclude dual). covers (fst e) a"
proof -
  obtain c where "c \<in> set (default_halves4 @ (if dual then default_halves6 else []))" "covers c a"
    using half_cover [OF assms] by blast
  then show ?thesis
    by (intro bexI [of _ "(c, ViaTun)"]) (auto simp: base_table_def)
qed

lemma longest_cong:
  assumes "\<And>e. covers (fst e) a \<Longrightarrow> e \<in> set t \<longleftrightarrow> e \<in> set t'"
  shows "longest t a e = longest t' a e"
  using assms unfolding longest_def by blast

section \<open>Properties\<close>


text \<open>A plan for the witnesses: an IPv4 server, one excluded block, one included block inside it.\<close>

definition sample_inc :: "cidr list" where "sample_inc = [\<lparr>c_addr = V4 [10, 1, 0, 0], c_prefix = 16\<rparr>]"
definition sample_exc :: "cidr list" where "sample_exc = [\<lparr>c_addr = V4 [10, 0, 0, 0], c_prefix = 8\<rparr>]"

lemma sample_plan:
  obtains p where "from_split Exclude sample_inc sample_exc (V4 [5, 6, 7, 8]) (V4 [192, 168, 0, 1]) None (V4 [10, 8, 0, 2]) None = Ok p"
  by (simp add: from_split_def Let_def)


text \<open>
  Dropping redundant rules changes nothing: with the rules that \<open>effective\<close> keeps, longest-prefix match
  over the routes gives the same decision as with all rules of the plan, for every address of a carried
  family, as long as no included host rule names the server itself.
\<close>

theorem effective_keeps_routing:
  assumes "from_split (pl_base_mode pl) (rs_cidrs (pl_include pl)) (rs_cidrs (pl_exclude pl)) server gw gw6 tun tun6 = Ok p"
    and "from_split (pl_base_mode pl) (rs_cidrs (fst (effective pl))) (rs_cidrs (snd (effective pl))) server gw gw6 tun tun6 = Ok p'"
    and "ip_wf a" and "is_ipv4 a \<or> tun6 \<noteq> None"
    and "\<forall>c\<in>set (rs_cidrs (pl_include pl)). covers c a \<and> covers (server_route server) a \<longrightarrow> c_prefix c < c_prefix (server_route server)"
  shows "set (decisions (route_table p) a) = set (decisions (route_table p') a)"
proof -
  let ?inc = "rs_cidrs (pl_include pl)" and ?exc = "rs_cidrs (pl_exclude pl)" and ?s = "server_route server"
  let ?B = "base_table (pl_base_mode pl) (tun6 \<noteq> None)"
  note tab = from_split_table [OF assms(1)] and tab' = from_split_table [OF assms(2)]
  consider (all) "effective pl = (pl_include pl, pl_exclude pl)"
    | (excl) "pl_base_mode pl = Exclude" "?exc = []" "effective pl = (rules_none, rules_none)"
    | (incl) "pl_base_mode pl = Include" "?inc = []" "effective pl = (rules_none, rules_none)"
  proof -
    have "rules_empty r \<Longrightarrow> rs_cidrs r = []" for r
      by (simp add: rules_empty_def)
    then show thesis
      using that unfolding effective_def by (cases "pl_base_mode pl") (metis split_mode.distinct)+
  qed
  then show ?thesis
  proof cases
    case all
    then show ?thesis
      using assms(1,2) by simp
  next
    case excl
    have t: "set (route_table p) = insert (?s, Direct) ((\<lambda>c. (c, ViaTun)) ` set ?inc \<union> set ?B)"
      "set (route_table p') = insert (?s, Direct) (set ?B)"
      unfolding tab tab' by (simp_all add: rule_table_def excl(2,3) rules_none_def)
    obtain e where e: "e \<in> set ?B" "covers (fst e) a"
      using base_covers [OF assms(3,4)] excl(1) by auto
    have c: "c_prefix ?s = 32 \<or> c_prefix ?s = 128"
      by (simp add: server_route_def)
    show ?thesis
    proof (cases "covers ?s a")
      case True
      have "snd x = Direct" if "longest (route_table p) a x" for x
      proof -
        have "c_prefix ?s \<le> c_prefix (fst x)"
          using that True unfolding longest_def t by fastforce
        then show ?thesis
          using that True c assms(5) base_prefix [of x] unfolding longest_def t by fastforce
      qed
      then have "set (decisions (route_table p) a) = {Direct}"
        by (rule decisions_only [of "(?s, Direct)", rotated 2]) (use True t in auto)
      moreover have "snd x = Direct" if "longest (route_table p') a x" for x
      proof -
        have "c_prefix ?s \<le> c_prefix (fst x)"
          using that True unfolding longest_def t by fastforce
        then show ?thesis
          using that True c base_prefix [of x] unfolding longest_def t by fastforce
      qed
      then have "set (decisions (route_table p') a) = {Direct}"
        by (rule decisions_only [of "(?s, Direct)", rotated 2]) (use True t in auto)
      ultimately show ?thesis
        by simp
    next
      case False
      have "set (decisions (route_table p) a) = {ViaTun}" "set (decisions (route_table p') a) = {ViaTun}"
        by (rule decisions_only [of e]; use e False base_prefix t in \<open>auto simp: longest_def\<close>)+
      then show ?thesis
        by simp
    qed
  next
    case incl
    have dir: "snd x = Direct" if "x \<in> set (route_table p) \<union> set (route_table p')" for x
      using that incl unfolding tab tab' by (auto simp: rule_table_def base_table_def rules_none_def)
    have "set (decisions t a) = {Direct}" if "\<And>x. x \<in> set t \<Longrightarrow> snd x = Direct" for t
    proof -
      have "set (decisions t a) \<subseteq> {Direct}"
        using that unfolding set_decisions longest_def by (fastforce split: if_splits)
      then show ?thesis
        by (rule decisions_subset)
    qed
    then show ?thesis
      using dir by simp
  qed
qed

theorem effective_keeps_routing_witness:
  "\<exists>p p'. from_split Exclude sample_inc [] (V4 [5, 6, 7, 8]) (V4 [192, 168, 0, 1]) None (V4 [10, 8, 0, 2]) None = Ok p \<and>
     from_split Exclude [] [] (V4 [5, 6, 7, 8]) (V4 [192, 168, 0, 1]) None (V4 [10, 8, 0, 2]) None = Ok p' \<and>
     set (decisions (route_table p) (V4 [10, 1, 2, 3])) = set (decisions (route_table p') (V4 [10, 1, 2, 3]))"
proof -
  let ?pl = "\<lparr>pl_base_mode = Exclude, pl_include = \<lparr>rs_cidrs = sample_inc, rs_domains = []\<rparr>, pl_exclude = rules_none\<rparr>"
  obtain p where p: "from_split Exclude sample_inc [] (V4 [5, 6, 7, 8]) (V4 [192, 168, 0, 1]) None (V4 [10, 8, 0, 2]) None = Ok p"
    by (simp add: from_split_def Let_def)
  obtain p' where p': "from_split Exclude [] [] (V4 [5, 6, 7, 8]) (V4 [192, 168, 0, 1]) None (V4 [10, 8, 0, 2]) None = Ok p'"
    by (simp add: from_split_def Let_def)
  have e: "effective ?pl = (rules_none, rules_none)"
    by (simp add: effective_def rules_empty_def rules_none_def)
  have "\<not> covers (server_route (V4 [5, 6, 7, 8])) (V4 [10, 1, 2, 3])"
    by (simp add: in_block_def be_value_def server_route_def)
  then show ?thesis
    using effective_keeps_routing [of ?pl "V4 [5, 6, 7, 8]" "V4 [192, 168, 0, 1]" None "V4 [10, 8, 0, 2]" None p p' "V4 [10, 1, 2, 3]"]
      p p' e by (auto simp: rules_none_def)
qed

end
