(* ===== verification/Dns.thy ===== *)
theory Dns
  imports Config NetGuard
begin

text \<open>
  DNS over the tunnel, \<open>crates/leshiy-mobile/src/dns.rs\<close>: queries, the parser of responses and the exchange of one
  host over one tunnel stream.

  A host name is its bytes. The tunnel is an argument: whether the stream opened and took the queries, and
  the list of what its reads gave, each a chunk or an error; the end of the list stands for a read that did
  not return within the time limit, which like an error gives no address.

  The specification is the message format of RFC 1035: \<open>encode_message\<close> writes a response of any questions and
  records, with labels and compression pointers, and the parser is proved to read it.
\<close>

section \<open>Definitions\<close>

definition TYPE_A :: u16 where "TYPE_A = 1"
definition TYPE_AAAA :: u16 where "TYPE_AAAA = 28"
definition CLASS_IN :: u16 where "CLASS_IN = 1"
definition DNS_MAX_BUFFERED :: nat where "DNS_MAX_BUFFERED = 2 * (2 + 65535)"

definition dns_u16_at :: "bytes \<Rightarrow> nat \<Rightarrow> u16 option" where
  "dns_u16_at buf i =
     (case get_at buf i of None \<Rightarrow> None
      | Some a \<Rightarrow> (case get_at buf (i + 1) of None \<Rightarrow> None | Some b \<Rightarrow> Some (u16_from_be [a, b])))"

definition get_range :: "nat \<Rightarrow> nat \<Rightarrow> 'a list \<Rightarrow> 'a list option" where
  "get_range a b xs = (if a \<le> b \<and> b \<le> length xs then Some (slice a b xs) else None)"

function skip_name :: "bytes \<Rightarrow> nat \<Rightarrow> nat option" where
  "skip_name msg i =
     (case get_at msg i of
        None \<Rightarrow> None
      | Some b \<Rightarrow>
          if b AND 0xC0 = 0xC0 then (if i + 2 \<le> length msg then Some (i + 2) else None)
          else if b AND 0xC0 = 0 then (if b = 0 then Some (i + 1) else skip_name msg (i + 1 + unat b))
          else None)"
  by auto
termination
  by (relation "measure (\<lambda>(msg, i). length msg - i)") auto

fun skip_questions :: "nat \<Rightarrow> bytes \<Rightarrow> nat \<Rightarrow> nat option" where
  "skip_questions 0 msg i = Some i"
| "skip_questions (Suc n) msg i =
     (case skip_name msg i of None \<Rightarrow> None | Some j \<Rightarrow> skip_questions n msg (j + 4))"

fun is_unspecified :: "ip_addr \<Rightarrow> bool" where
  "is_unspecified (V4 o4) = v4_is_unspecified o4"
| "is_unspecified (V6 o6) = v6_is_unspecified o6"

fun is_loopback :: "ip_addr \<Rightarrow> bool" where
  "is_loopback (V4 o4) = v4_is_loopback o4"
| "is_loopback (V6 o6) = v6_is_loopback o6"

text \<open>
  What one record contributes: \<open>None\<close> is the early return of the parser, \<open>Some None\<close> a record that is passed over.
\<close>

definition record_ip :: "u16 \<Rightarrow> u16 \<Rightarrow> bytes \<Rightarrow> ip_addr option option" where
  "record_ip class rtype rdata =
     (if class = CLASS_IN \<and> rtype = TYPE_A then (if length rdata = 4 then Some (Some (V4 rdata)) else None)
      else if class = CLASS_IN \<and> rtype = TYPE_AAAA then (if length rdata = 16 then Some (Some (V6 rdata)) else None)
      else Some None)"

fun read_answers :: "nat \<Rightarrow> bytes \<Rightarrow> nat \<Rightarrow> ip_addr list \<Rightarrow> ip_addr list option" where
  "read_answers 0 msg i out = Some out"
| "read_answers (Suc n) msg i out =
     (case skip_name msg i of None \<Rightarrow> None
      | Some i \<Rightarrow>
     (case dns_u16_at msg i of None \<Rightarrow> None
      | Some rtype \<Rightarrow>
     (case dns_u16_at msg (i + 2) of None \<Rightarrow> None
      | Some class \<Rightarrow>
     (case dns_u16_at msg (i + 8) of None \<Rightarrow> None
      | Some len \<Rightarrow>
     (case get_range (i + 10) (i + 10 + unat len) msg of None \<Rightarrow> None
      | Some rdata \<Rightarrow>
     (case record_ip class rtype rdata of None \<Rightarrow> None
      | Some None \<Rightarrow> read_answers n msg (i + 10 + unat len) out
      | Some (Some ip) \<Rightarrow>
          read_answers n msg (i + 10 + unat len)
            (if \<not> is_unspecified ip \<and> \<not> is_loopback ip then out @ [ip] else out)))))))"

definition parse_answers :: "bytes \<Rightarrow> u16 \<Rightarrow> ip_addr list option" where
  "parse_answers msg qid =
     (case dns_u16_at msg 2 of None \<Rightarrow> None
      | Some flags \<Rightarrow>
     (case dns_u16_at msg 0 of None \<Rightarrow> None
      | Some mid \<Rightarrow>
     if mid \<noteq> qid \<or> flags AND 0x8000 = 0 \<or> flags AND 0x000F \<noteq> 0 then None
     else
     (case dns_u16_at msg 4 of None \<Rightarrow> None
      | Some questions \<Rightarrow>
     (case dns_u16_at msg 6 of None \<Rightarrow> None
      | Some answers \<Rightarrow>
     (case skip_questions (unat questions) msg 12 of None \<Rightarrow> None
      | Some i \<Rightarrow> read_answers (unat answers) msg i [])))))"

definition valid_label :: "bytes \<Rightarrow> bool" where
  "valid_label l \<longleftrightarrow>
     1 \<le> length l \<and> length l \<le> 63 \<and> list_all (\<lambda>b. is_ascii_alphanumeric b \<or> b = 45 \<or> b = 95) l"

fun push_labels :: "bytes list \<Rightarrow> bytes option" where
  "push_labels [] = Some []"
| "push_labels (l # ls) =
     (if valid_label l then map_option (\<lambda>r. of_nat (length l) # l @ r) (push_labels ls) else None)"

definition strip_dot :: "bytes \<Rightarrow> bytes" where
  "strip_dot host = (if host \<noteq> [] \<and> last host = 46 then butlast host else host)"

definition build_query :: "u16 \<Rightarrow> bytes \<Rightarrow> u16 \<Rightarrow> bytes option" where
  "build_query qid host qtype =
     (let host = strip_dot host in
      if host = [] \<or> 253 < length host then None
      else map_option
        (\<lambda>ls. u16_to_be qid @ [0x01, 0x00] @ [0, 1, 0, 0, 0, 0, 0, 0] @ ls @ [0] @ u16_to_be qtype @ u16_to_be CLASS_IN)
        (push_labels (split_on 46 host)))"

fun position :: "('a \<Rightarrow> bool) \<Rightarrow> 'a list \<Rightarrow> nat option" where
  "position P [] = None"
| "position P (x # xs) = (if P x then Some 0 else map_option Suc (position P xs))"

definition swap_remove :: "nat \<Rightarrow> 'a list \<Rightarrow> 'a list" where
  "swap_remove i xs = butlast (xs[i := last xs])"

definition unwrap_or_default :: "'a list option \<Rightarrow> 'a list" where
  "unwrap_or_default r = (case r of None \<Rightarrow> [] | Some v \<Rightarrow> v)"

text \<open>One complete message of the buffer.\<close>

definition take_message :: "bytes \<Rightarrow> u16 list \<times> ip_addr list \<Rightarrow> u16 list \<times> ip_addr list" where
  "take_message msg = (\<lambda>(pending, out).
     (case dns_u16_at msg 0 of
        None \<Rightarrow> (pending, out)
      | Some qid \<Rightarrow>
     (case position (\<lambda>p. p = qid) pending of
        None \<Rightarrow> (pending, out)
      | Some pos \<Rightarrow> (swap_remove pos pending, out @ unwrap_or_default (parse_answers msg qid)))))"

function drain :: "bytes \<Rightarrow> u16 list \<times> ip_addr list \<Rightarrow> bytes \<times> u16 list \<times> ip_addr list" where
  "drain buf st =
     (case dns_u16_at buf 0 of
        None \<Rightarrow> (buf, st)
      | Some len \<Rightarrow>
          if 2 + unat len \<le> length buf
          then drain (drop (2 + unat len) buf) (take_message (slice 2 (2 + unat len) buf) st)
          else (buf, st))"
  by auto
termination
  by (relation "measure (\<lambda>(buf, st). length buf)") (auto simp: dns_u16_at_def split: option.splits)

declare skip_name.simps [simp del] drain.simps [simp del]

fun exchange_loop :: "bytes \<Rightarrow> u16 list \<times> ip_addr list \<Rightarrow> (unit + bytes) list \<Rightarrow> unit + ip_addr list" where
  "exchange_loop buf st reads =
     (if fst st = [] then Ok (snd st)
      else case reads of
        [] \<Rightarrow> Err ()
      | Inl e # _ \<Rightarrow> Err e
      | Inr chunk # reads \<Rightarrow>
          if chunk = [] \<or> DNS_MAX_BUFFERED < length buf + length chunk then Ok (snd st)
          else (let (buf, st) = drain (buf @ chunk) st in exchange_loop buf st reads))"

record dns_stream =
  ds_open :: "unit + unit"
  ds_send :: "bytes \<Rightarrow> unit + unit"
  ds_reads :: "(unit + bytes) list"

definition framed :: "bytes \<Rightarrow> bytes" where
  "framed q = u16_to_be (of_nat (length q)) @ q"

definition exchange :: "dns_stream \<Rightarrow> bytes list \<Rightarrow> u16 list \<Rightarrow> unit + ip_addr list" where
  "exchange s queries ids =
     try_bind (ds_open s) (\<lambda>_.
     try_bind (ds_send s (concat (map framed queries))) (\<lambda>_.
     exchange_loop [] (ids, []) (ds_reads s)))"

definition resolve_host :: "dns_stream \<Rightarrow> bytes \<Rightarrow> u16 \<Rightarrow> ip_addr list" where
  "resolve_host s host qid =
     (case (build_query qid host TYPE_A, build_query (qid + 1) host TYPE_AAAA) of
        (Some a, Some aaaa) \<Rightarrow> unwrap_or_default (result_ok (exchange s [a, aaaa] [qid, qid + 1]))
      | _ \<Rightarrow> [])"

text \<open>
  All hosts: the tasks that completed within their own and the overall time limit, in the order they did, each
  given by its index.
\<close>

definition resolve_all :: "(nat \<Rightarrow> dns_stream) \<Rightarrow> bytes list \<Rightarrow> nat \<Rightarrow> nat list \<Rightarrow> ip_addr list" where
  "resolve_all streams hosts max_per_host completed =
     concat (map (\<lambda>i. take max_per_host (resolve_host (streams i) (hosts ! i) (of_nat i * 2))) completed)"

section \<open>The message format\<close>

datatype name_end = Root | Pointer u8 u8

record dns_name =
  n_labels :: "bytes list"
  n_end :: name_end

record dns_rr =
  rr_name :: dns_name
  rr_type :: u16
  rr_class :: u16
  rr_ttl :: bytes
  rr_data :: bytes

fun end_bytes :: "name_end \<Rightarrow> bytes" where
  "end_bytes Root = [0]"
| "end_bytes (Pointer hi lo) = [0xC0 OR hi, lo]"

definition label_bytes :: "bytes \<Rightarrow> bytes" where
  "label_bytes l = of_nat (length l) # l"

definition name_bytes :: "dns_name \<Rightarrow> bytes" where
  "name_bytes n = concat (map label_bytes (n_labels n)) @ end_bytes (n_end n)"

definition name_ok :: "dns_name \<Rightarrow> bool" where
  "name_ok n \<longleftrightarrow> list_all (\<lambda>l. 1 \<le> length l \<and> length l \<le> 63) (n_labels n)"

definition rr_bytes :: "dns_rr \<Rightarrow> bytes" where
  "rr_bytes r = name_bytes (rr_name r) @ u16_to_be (rr_type r) @ u16_to_be (rr_class r) @ rr_ttl r @
     u16_to_be (of_nat (length (rr_data r))) @ rr_data r"

definition rr_ok :: "dns_rr \<Rightarrow> bool" where
  "rr_ok r \<longleftrightarrow> name_ok (rr_name r) \<and> length (rr_ttl r) = 4 \<and> length (rr_data r) < 65536 \<and>
     (rr_class r = CLASS_IN \<longrightarrow> (rr_type r = TYPE_A \<longrightarrow> length (rr_data r) = 4) \<and>
        (rr_type r = TYPE_AAAA \<longrightarrow> length (rr_data r) = 16))"

definition encode_message ::
    "u16 \<Rightarrow> u16 \<Rightarrow> (dns_name \<times> u16 \<times> u16) list \<Rightarrow> dns_rr list \<Rightarrow> bytes \<Rightarrow> bytes \<Rightarrow> bytes" where
  "encode_message qid flags qs rrs counts extra =
     u16_to_be qid @ u16_to_be flags @ u16_to_be (of_nat (length qs)) @ u16_to_be (of_nat (length rrs)) @ counts @
     concat (map (\<lambda>(n, t, c). name_bytes n @ u16_to_be t @ u16_to_be c) qs) @ concat (map rr_bytes rrs) @ extra"

definition rr_addresses :: "dns_rr \<Rightarrow> ip_addr list" where
  "rr_addresses r =
     (if rr_class r = CLASS_IN \<and> rr_type r = TYPE_A then [V4 (rr_data r)]
      else if rr_class r = CLASS_IN \<and> rr_type r = TYPE_AAAA then [V6 (rr_data r)] else [])"

definition usable :: "ip_addr \<Rightarrow> bool" where
  "usable ip \<longleftrightarrow> \<not> is_unspecified ip \<and> \<not> is_loopback ip"

definition message_ok :: "(dns_name \<times> u16 \<times> u16) list \<Rightarrow> dns_rr list \<Rightarrow> bytes \<Rightarrow> bool" where
  "message_ok qs rrs counts \<longleftrightarrow> length qs < 65536 \<and> length rrs < 65536 \<and> length counts = 4 \<and>
     list_all (\<lambda>q. name_ok (fst q)) qs \<and> list_all rr_ok rrs"

section \<open>Lemmas\<close>

lemma dns_u16_at_append:
  assumes "length pre = i"
  shows "dns_u16_at (pre @ u16_to_be w @ post) i = Some w"
proof -
  obtain a b where "u16_to_be w = [a, b]"
    using two_list [of "u16_to_be w"] by auto
  moreover from this have "u16_from_be [a, b] = w"
    by (metis u16_from_to_be)
  ultimately show ?thesis
    using assms by (simp add: dns_u16_at_def get_at_def nth_append)
qed

lemma unat_u8_of_nat: "n < 256 \<Longrightarrow> unat (of_nat n :: u8) = n"
  by (simp add: unat_of_nat take_bit_nat_eq_self)

lemma masked_length: "n < 64 \<Longrightarrow> (of_nat n :: u8) AND 0xC0 = 0"
proof -
  assume "n < 64"
  then have "(of_nat n :: u8) < 2 ^ 6"
    by (simp add: word_less_nat_alt unat_u8_of_nat)
  then have "(of_nat n :: u8) AND mask 6 = of_nat n"
    by (simp add: less_mask_eq)
  then have "(of_nat n :: u8) AND 0xC0 = of_nat n AND (mask 6 AND 0xC0)"
    by (metis and.assoc)
  then show ?thesis
    by (simp add: mask_eq_exp_minus_1)
qed

lemma pointer_mask: "(0xC0 OR hi) AND 0xC0 = (0xC0 :: u8)"
  by (simp add: bit_eq_iff bit_simps)

lemma skip_labels:
  assumes "list_all (\<lambda>l. 1 \<le> length l \<and> length l \<le> 63) ls"
  shows "skip_name (pre @ concat (map label_bytes ls) @ post) (length pre) =
    skip_name (pre @ concat (map label_bytes ls) @ post) (length pre + length (concat (map label_bytes ls)))"
  using assms
proof (induction ls arbitrary: pre)
  case (Cons l ls)
  let ?n = "length l"
  have l: "1 \<le> ?n" "?n < 64" "unat (of_nat ?n :: u8) = ?n"
    using Cons.prems by (simp_all add: unat_u8_of_nat)
  have nz: "(of_nat ?n :: u8) \<noteq> 0"
    using l by (metis less_one not_le unat_0)
  have "skip_name (pre @ concat (map label_bytes (l # ls)) @ post) (length pre) =
      skip_name (pre @ concat (map label_bytes (l # ls)) @ post) (length pre + 1 + ?n)"
    by (subst skip_name.simps) (use l nz masked_length [OF l(2)] in \<open>simp add: get_at_def label_bytes_def nth_append\<close>)
  also have "\<dots> = skip_name ((pre @ label_bytes l) @ concat (map label_bytes ls) @ post) (length (pre @ label_bytes l))"
    by (simp add: label_bytes_def)
  also have "\<dots> = skip_name ((pre @ label_bytes l) @ concat (map label_bytes ls) @ post)
      (length (pre @ label_bytes l) + length (concat (map label_bytes ls)))"
    using Cons.prems by (intro Cons.IH) simp
  finally show ?case
    by (simp add: add.assoc)
qed simp

lemma skip_name_bytes:
  assumes "name_ok n" and "length pre = i"
  shows "skip_name (pre @ name_bytes n @ post) i = Some (i + length (name_bytes n))"
proof -
  let ?m = "pre @ concat (map label_bytes (n_labels n)) @ end_bytes (n_end n) @ post"
  let ?j = "length pre + length (concat (map label_bytes (n_labels n)))"
  have get: "get_at ?m ?j = Some (hd (end_bytes (n_end n)))"
    by (cases "n_end n") (simp_all add: get_at_def nth_append)
  have "skip_name ?m (length pre) = skip_name ?m ?j"
    using assms(1) skip_labels [of "n_labels n" pre "end_bytes (n_end n) @ post"] by (simp add: name_ok_def)
  also have "\<dots> = Some (?j + length (end_bytes (n_end n)))"
    by (subst skip_name.simps, subst get) (cases "n_end n"; simp add: pointer_mask)
  finally show ?thesis
    using assms(2) by (simp add: name_bytes_def)
qed

lemma get_range_append: "length pre = a \<Longrightarrow> b = a + length d \<Longrightarrow> get_range a b (pre @ d @ post) = Some d"
  by (simp add: get_range_def slice_def)

lemma skip_questions_bytes:
  assumes "list_all (\<lambda>q. name_ok (fst q)) qs" and "length pre = i"
  shows "skip_questions (length qs) (pre @ concat (map (\<lambda>(n, t, c). name_bytes n @ u16_to_be t @ u16_to_be c) qs) @ post) i =
    Some (i + length (concat (map (\<lambda>(n, t, c). name_bytes n @ u16_to_be t @ u16_to_be c) qs)))"
  using assms
proof (induction qs arbitrary: pre i)
  case (Cons q qs)
  obtain n t c where q: "q = (n, t, c)"
    by (cases q)
  let ?q = "name_bytes n @ u16_to_be t @ u16_to_be c"
  have "skip_name (pre @ ?q @ r) i = Some (i + length (name_bytes n))" for r
    using skip_name_bytes [of n pre i "u16_to_be t @ u16_to_be c @ r"] Cons.prems q by simp
  moreover have "skip_questions (length qs) ((pre @ ?q) @ concat (map (\<lambda>(n, t, c). name_bytes n @ u16_to_be t @ u16_to_be c) qs) @ post)
      (i + length ?q) = Some (i + length ?q + length (concat (map (\<lambda>(n, t, c). name_bytes n @ u16_to_be t @ u16_to_be c) qs)))"
    using Cons.prems by (intro Cons.IH) simp_all
  ultimately show ?case
    by (simp add: q add.assoc)
qed simp

lemma read_answers_step:
  assumes "rr_ok r" and "length pre = i"
  shows "read_answers (Suc n) (pre @ rr_bytes r @ post) i out =
    read_answers n (pre @ rr_bytes r @ post) (i + length (rr_bytes r)) (out @ filter usable (rr_addresses r))"
proof -
  let ?n = "name_bytes (rr_name r)" and ?d = "rr_data r" and ?m = "pre @ rr_bytes r @ post"
  let ?l = "u16_to_be (of_nat (length ?d))" and ?j = "i + length ?n"
  have r: "length (rr_ttl r) = 4" "length ?d < 65536"
    using assms(1) by (simp_all add: rr_ok_def)
  have 1: "skip_name ?m i = Some ?j"
    using skip_name_bytes [of "rr_name r" pre i] assms by (simp add: rr_bytes_def rr_ok_def)
  have 2: "dns_u16_at ?m ?j = Some (rr_type r)"
    using dns_u16_at_append [of "pre @ ?n" ?j "rr_type r"] assms(2) by (simp add: rr_bytes_def)
  have 3: "dns_u16_at ?m (?j + 2) = Some (rr_class r)"
    using dns_u16_at_append [of "pre @ ?n @ u16_to_be (rr_type r)" "?j + 2" "rr_class r"] assms(2) by (simp add: rr_bytes_def)
  have 4: "dns_u16_at ?m (?j + 8) = Some (of_nat (length ?d))"
    using dns_u16_at_append [of "pre @ ?n @ u16_to_be (rr_type r) @ u16_to_be (rr_class r) @ rr_ttl r" "?j + 8"] assms(2) r(1)
    by (simp add: rr_bytes_def)
  have 5: "get_range (?j + 10) (?j + 10 + unat (of_nat (length ?d) :: u16)) ?m = Some ?d"
    using get_range_append [of "pre @ ?n @ u16_to_be (rr_type r) @ u16_to_be (rr_class r) @ rr_ttl r @ ?l" "?j + 10"
        "?j + 10 + unat (of_nat (length ?d) :: u16)" ?d post] assms(2) r
    by (simp add: rr_bytes_def unat_u16_of_nat)
  have 6: "?j + 10 + unat (of_nat (length ?d) :: u16) = i + length (rr_bytes r)"
    using r by (simp add: rr_bytes_def unat_u16_of_nat)
  have rec: "record_ip (rr_class r) (rr_type r) ?d =
      Some (if rr_addresses r = [] then None else Some (hd (rr_addresses r)))"
    and one: "rr_addresses r = [] \<or> (\<exists>ip. rr_addresses r = [ip])"
    using assms(1) by (auto simp: record_ip_def rr_ok_def rr_addresses_def)
  show ?thesis
    using one
    by (simp only: read_answers.simps(2) 1 2 3 4 6 5 [unfolded 6] option.case rec)
      (auto simp: usable_def)
qed

lemma read_answers_bytes:
  assumes "list_all rr_ok rrs" and "length pre = i"
  shows "read_answers (length rrs) (pre @ concat (map rr_bytes rrs) @ post) i out =
    Some (out @ filter usable (concat (map rr_addresses rrs)))"
  using assms
proof (induction rrs arbitrary: pre i out)
  case (Cons r rrs)
  have "read_answers (length (r # rrs)) (pre @ concat (map rr_bytes (r # rrs)) @ post) i out =
      read_answers (length rrs) ((pre @ rr_bytes r) @ concat (map rr_bytes rrs) @ post) (i + length (rr_bytes r))
        (out @ filter usable (rr_addresses r))"
    using read_answers_step [of r pre i "length rrs" "concat (map rr_bytes rrs) @ post" out] Cons.prems by simp
  also have "\<dots> = Some (out @ filter usable (concat (map rr_addresses (r # rrs))))"
    using Cons.IH [of "pre @ rr_bytes r"] Cons.prems by simp
  finally show ?case .
qed simp

definition reply_flags :: "u16 \<Rightarrow> bool" where
  "reply_flags f \<longleftrightarrow> f AND 0x8000 \<noteq> 0 \<and> f AND 0x000F = 0"

lemma parse_message:
  assumes "message_ok qs rrs counts" and "reply_flags flags"
  shows "parse_answers (encode_message qid flags qs rrs counts extra) qid = Some (filter usable (concat (map rr_addresses rrs)))"
proof -
  let ?nq = "u16_to_be (of_nat (length qs))" and ?na = "u16_to_be (of_nat (length rrs))"
  let ?q = "concat (map (\<lambda>(n, t, c). name_bytes n @ u16_to_be t @ u16_to_be c) qs)" and ?a = "concat (map rr_bytes rrs)"
  let ?m = "encode_message qid flags qs rrs counts extra"
  have c: "length counts = 4" "length qs < 65536" "length rrs < 65536"
    using assms(1) by (simp_all add: message_ok_def)
  have 1: "dns_u16_at ?m 0 = Some qid"
    using dns_u16_at_append [of "[]" 0 qid] by (simp add: encode_message_def)
  have 2: "dns_u16_at ?m 2 = Some flags"
    using dns_u16_at_append [of "u16_to_be qid" 2 flags] by (simp add: encode_message_def)
  have 3: "dns_u16_at ?m 4 = Some (of_nat (length qs))"
    using dns_u16_at_append [of "u16_to_be qid @ u16_to_be flags" 4] by (simp add: encode_message_def)
  have 4: "dns_u16_at ?m 6 = Some (of_nat (length rrs))"
    using dns_u16_at_append [of "u16_to_be qid @ u16_to_be flags @ ?nq" 6] by (simp add: encode_message_def)
  have 5: "skip_questions (length qs) ?m 12 = Some (12 + length ?q)"
    using skip_questions_bytes [of qs "u16_to_be qid @ u16_to_be flags @ ?nq @ ?na @ counts" 12] assms(1) c(1)
    by (simp add: encode_message_def message_ok_def)
  have 6: "read_answers (length rrs) ?m (12 + length ?q) [] = Some (filter usable (concat (map rr_addresses rrs)))"
    using read_answers_bytes [of rrs "u16_to_be qid @ u16_to_be flags @ ?nq @ ?na @ counts @ ?q" "12 + length ?q" extra "[]"]
      assms(1) c(1) by (simp add: encode_message_def message_ok_def)
  show ?thesis
    using assms(2) c by (simp add: parse_answers_def 1 2 3 4 unat_u16_of_nat 5 6 reply_flags_def)
qed

text \<open>The buffer: draining it is independent of how the bytes arrived.\<close>

lemma dns_u16_at_prefix: "dns_u16_at b 0 = Some w \<Longrightarrow> dns_u16_at (b @ c) 0 = Some w"
  by (auto simp: dns_u16_at_def get_at_def nth_append split: option.splits if_splits)

lemma drain_append:
  "drain (b @ c) st = (case drain b st of (b', st') \<Rightarrow> drain (b' @ c) st')"
proof (induction b st rule: drain.induct)
  case (1 b st)
  show ?case
  proof (cases "dns_u16_at b 0")
    case None
    then show ?thesis
      by (simp add: drain.simps [of b])
  next
    case (Some len)
    show ?thesis
    proof (cases "2 + unat len \<le> length b")
      case True
      have "drain (b @ c) st = drain (drop (2 + unat len) b @ c) (take_message (slice 2 (2 + unat len) b) st)"
        using dns_u16_at_prefix [OF Some, of c] True by (subst drain.simps) (simp add: slice_append_left)
      also have "\<dots> = (case drain (drop (2 + unat len) b) (take_message (slice 2 (2 + unat len) b) st) of
          (b', st') \<Rightarrow> drain (b' @ c) st')"
        using Some True by (rule 1)
      also have "drain (drop (2 + unat len) b) (take_message (slice 2 (2 + unat len) b) st) = drain b st"
        using Some True by (subst (2) drain.simps) simp
      finally show ?thesis .
    next
      case False
      then show ?thesis
        using Some by (simp add: drain.simps [of b])
    qed
  qed
qed

lemma drain_rest:
  "length (fst (drain b st)) \<le> length b \<and> drain (fst (drain b st)) (snd (drain b st)) = drain b st"
proof (induction b st rule: drain.induct)
  case (1 b st)
  show ?case
  proof (cases "\<exists>len. dns_u16_at b 0 = Some len \<and> 2 + unat len \<le> length b")
    case True
    then obtain len where len: "dns_u16_at b 0 = Some len" "2 + unat len \<le> length b"
      by blast
    then have "drain b st = drain (drop (2 + unat len) b) (take_message (slice 2 (2 + unat len) b) st)"
      by (subst drain.simps) simp
    then show ?thesis
      using 1 [OF len] by (auto intro: order_trans [OF _ diff_le_self])
  next
    case False
    then show ?thesis
      by (simp add: drain.simps [of b] split: option.split)
  qed
qed

lemma drain_answered: "fst st = [] \<Longrightarrow> snd (drain b st) = st"
proof (induction b st rule: drain.induct)
  case (1 b st)
  have "take_message m st = st" for m
    using "1.prems" by (cases st) (simp add: take_message_def split: option.split)
  then show ?case
    using 1 by (subst drain.simps) (simp split: option.split)
qed

lemma drain_framed:
  assumes "length m < 65536"
  shows "drain (framed m @ rest) st = drain rest (take_message m st)"
proof -
  have "dns_u16_at (framed m @ rest) 0 = Some (of_nat (length m))"
    using dns_u16_at_append [of "[]" 0 "of_nat (length m)" "m @ rest"] by (simp add: framed_def)
  then show ?thesis
    using assms by (subst drain.simps) (simp add: unat_u16_of_nat framed_def slice_def)
qed

lemma exchange_chunks:
  assumes "list_all (\<lambda>c. c \<noteq> []) chunks" and "length buf + length (concat chunks) \<le> DNS_MAX_BUFFERED"
    and "drain buf st = (buf, st)" and "fst (snd (drain (buf @ concat chunks) st)) = []"
  shows "exchange_loop buf st (map Inr chunks @ later) = Ok (snd (snd (drain (buf @ concat chunks) st)))"
  using assms
proof (induction chunks arbitrary: buf st)
  case Nil
  then show ?case
    by simp
next
  case (Cons c chunks)
  show ?case
  proof (cases "fst st = []")
    case True
    then show ?thesis
      using drain_answered [OF True, of "buf @ concat (c # chunks)"] by simp
  next
    case False
    obtain b' st' where d: "drain (buf @ c) st = (b', st')"
      by (cases "drain (buf @ c) st")
    have eq: "drain (buf @ concat (c # chunks)) st = drain (b' @ concat chunks) st'"
      using drain_append [of "buf @ c" "concat chunks" st] d by simp
    have "length b' \<le> length (buf @ c)"
      using drain_rest [of "buf @ c" st] d by simp
    then have "exchange_loop b' st' (map Inr chunks @ later) = Ok (snd (snd (drain (b' @ concat chunks) st')))"
      using Cons.prems drain_rest [of "buf @ c" st] d eq by (intro Cons.IH) simp_all
    then show ?thesis
      using False Cons.prems d eq by simp
  qed
qed

text \<open>Queries.\<close>

fun join_dots :: "bytes list \<Rightarrow> bytes" where
  "join_dots [] = []"
| "join_dots [l] = l"
| "join_dots (l # ls) = l @ 46 # join_dots ls"

lemma label_no_dot: "valid_label l \<Longrightarrow> 46 \<notin> set l"
  by (auto simp: valid_label_def is_ascii_alphanumeric_def is_ascii_digit_def is_ascii_alphabetic_def list_all_iff)

lemma split_join_dots: "ls \<noteq> [] \<Longrightarrow> list_all valid_label ls \<Longrightarrow> split_on 46 (join_dots ls) = ls"
  by (induction ls rule: join_dots.induct) (simp_all add: split_on_last split_on_Cons label_no_dot)

lemma join_dots_last:
  "ls \<noteq> [] \<Longrightarrow> list_all valid_label ls \<Longrightarrow> join_dots ls \<noteq> [] \<and> last (join_dots ls) \<noteq> 46"
proof (induction ls rule: join_dots.induct)
  case (2 l)
  then have "l \<noteq> []" "46 \<notin> set l"
    using label_no_dot by (auto simp: valid_label_def)
  then show ?case
    using last_in_set by fastforce
qed simp_all

lemma push_labels_bytes: "list_all valid_label ls \<Longrightarrow> push_labels ls = Some (concat (map label_bytes ls))"
  by (induction ls) (simp_all add: label_bytes_def)

definition query_bytes :: "u16 \<Rightarrow> bytes list \<Rightarrow> u16 \<Rightarrow> bytes" where
  "query_bytes qid ls qtype =
     encode_message qid 0x0100 [(\<lparr>n_labels = ls, n_end = Root\<rparr>, qtype, CLASS_IN)] [] [0, 0, 0, 0] []"

definition host_of :: "bytes list \<Rightarrow> bool \<Rightarrow> bytes" where
  "host_of ls dot = join_dots ls @ (if dot then [46] else [])"

lemma build_query_bytes:
  assumes "ls \<noteq> []" and "list_all valid_label ls" and "length (join_dots ls) \<le> 253"
  shows "build_query qid (host_of ls dot) qtype = Some (query_bytes qid ls qtype)"
proof -
  have "strip_dot (host_of ls dot) = join_dots ls"
    using join_dots_last [OF assms(1,2)] by (simp add: strip_dot_def host_of_def)
  moreover have "u16_to_be 0x0100 = [1, 0]" "u16_to_be 1 = [0, 1]" "u16_to_be 0 = [0, 0]"
    by (simp_all add: u16_to_be_def be_bytes_def)
  ultimately show ?thesis
    using assms join_dots_last [OF assms(1,2)]
    by (simp add: build_query_def split_join_dots push_labels_bytes query_bytes_def encode_message_def name_bytes_def)
qed

lemma take_pending:
  assumes "dns_u16_at m 0 = Some i" and "position (\<lambda>p. p = i) pending = Some k"
  shows "take_message m (pending, out) = (swap_remove k pending, out @ unwrap_or_default (parse_answers m i))"
  using assms by (simp add: take_message_def)

section \<open>Properties\<close>

text \<open>
  A host is resolved through the tunnel. For a host name of valid labels (with or without the final dot),
  if the stream takes the two well-formed queries, the address and the IPv6 address question for that name,
  and gives back a well-formed successful response to each, in either order, cut into chunks anywhere and
  with anything after them within the buffer limit, then the result is the address records of both, in the
  order the responses came, without unspecified and loopback addresses. Other records (aliases and the
  like), compressed names, and authority and additional sections are passed over.
\<close>

theorem dns_resolves:
  assumes "ls \<noteq> []" and "list_all valid_label ls" and "length (join_dots ls) \<le> 253"
    and "ds_open s = Ok ()"
    and "ds_send s (framed (query_bytes qid ls TYPE_A) @ framed (query_bytes (qid + 1) ls TYPE_AAAA)) = Ok ()"
    and "message_ok qs1 rrs1 c1" and "reply_flags f1" and "message_ok qs2 rrs2 c2" and "reply_flags f2"
    and "(i1, i2) \<in> {(qid, qid + 1), (qid + 1, qid)}"
    and m1_def: "m1 = encode_message i1 f1 qs1 rrs1 c1 x1" and m2_def: "m2 = encode_message i2 f2 qs2 rrs2 c2 x2"
    and "length m1 < 65536" and "length m2 < 65536"
    and "concat chunks = framed m1 @ framed m2 @ rest" and "list_all (\<lambda>c. c \<noteq> []) chunks"
    and "length (concat chunks) \<le> DNS_MAX_BUFFERED" and "ds_reads s = map Inr chunks @ later"
  shows "resolve_host s (host_of ls dot) qid = filter usable (concat (map rr_addresses (rrs1 @ rrs2)))"
proof -
  have at: "dns_u16_at m1 0 = Some i1" "dns_u16_at m2 0 = Some i2"
    using dns_u16_at_append [of "[]" 0 i1] dns_u16_at_append [of "[]" 0 i2] by (simp_all add: m1_def m2_def encode_message_def)
  have ne: "qid \<noteq> qid + 1"
    by simp
  have parse: "parse_answers m1 i1 = Some (filter usable (concat (map rr_addresses rrs1)))"
    "parse_answers m2 i2 = Some (filter usable (concat (map rr_addresses rrs2)))"
    using assms(6-9) by (simp_all add: m1_def m2_def parse_message)
  obtain k where k: "position (\<lambda>p. p = i1) [qid, qid + 1] = Some k" "swap_remove k [qid, qid + 1] = [i2]"
    using assms(10) ne by (auto simp: swap_remove_def)
  have "take_message m2 (take_message m1 ([qid, qid + 1], [])) =
      ([], filter usable (concat (map rr_addresses (rrs1 @ rrs2))))"
    using take_pending [OF at(1) k(1), of "[]"] take_pending [OF at(2), of "[i2]" 0] k(2) parse
    by (simp add: unwrap_or_default_def swap_remove_def)
  then have "snd (drain (concat chunks) ([qid, qid + 1], [])) = ([], filter usable (concat (map rr_addresses (rrs1 @ rrs2))))"
    using assms(13-15) by (simp add: drain_framed drain_answered)
  then have "exchange_loop [] ([qid, qid + 1], []) (ds_reads s) = Ok (filter usable (concat (map rr_addresses (rrs1 @ rrs2))))"
    using exchange_chunks [of chunks "[]" "([qid, qid + 1], [])" later] assms(16-18)
    by (simp add: drain.simps [of "[]"] dns_u16_at_def get_at_def)
  then show ?thesis
    using assms(4,5) build_query_bytes [OF assms(1-3)] by (simp add: resolve_host_def exchange_def unwrap_or_default_def)
qed

definition sample_rr :: dns_rr where
  "sample_rr = \<lparr>rr_name = \<lparr>n_labels = [], n_end = Pointer 0 12\<rparr>, rr_type = TYPE_A, rr_class = CLASS_IN,
     rr_ttl = [0, 0, 0, 60], rr_data = [1, 2, 3, 4]\<rparr>"

definition sample_stream :: dns_stream where
  "sample_stream = \<lparr>ds_open = Ok (), ds_send = (\<lambda>_. Ok ()),
     ds_reads = [Inr (framed (encode_message 8 0x8180 [] [] [0, 0, 0, 0] []) @
       framed (encode_message 7 0x8180 [] [sample_rr] [0, 0, 0, 0] []))]\<rparr>"

theorem dns_resolves_witness: "resolve_host sample_stream (host_of [[97]] True) 7 = [V4 [1, 2, 3, 4]]"
proof -
  have ok: "message_ok [] [] [0, 0, 0, 0]" "message_ok [] [sample_rr] [0, 0, 0, 0]" "reply_flags 0x8180"
    by (simp_all add: message_ok_def reply_flags_def rr_ok_def name_ok_def sample_rr_def TYPE_A_def TYPE_AAAA_def)
  have l: "valid_label [97]"
    by (simp add: valid_label_def is_ascii_alphanumeric_def is_ascii_digit_def is_ascii_alphabetic_def)
  have len: "length (encode_message 8 0x8180 [] [] [0, 0, 0, 0] []) = 12"
    "length (encode_message 7 0x8180 [] [sample_rr] [0, 0, 0, 0] []) = 28"
    by (simp_all add: encode_message_def rr_bytes_def name_bytes_def sample_rr_def)
  have "resolve_host sample_stream (host_of [[97]] True) 7 = filter usable (concat (map rr_addresses ([] @ [sample_rr])))"
    by (rule dns_resolves [where ?i1.0 = 8 and ?i2.0 = 7 and chunks = "[framed (encode_message 8 0x8180 [] [] [0, 0, 0, 0] []) @
        framed (encode_message 7 0x8180 [] [sample_rr] [0, 0, 0, 0] [])]" and rest = "[]" and later = "[]" and ?x1.0 = "[]" and ?x2.0 = "[]",
        OF _ _ _ _ _ ok(1) ok(3) ok(2) ok(3) _ refl refl])
      (use len in \<open>auto simp: l sample_stream_def framed_def DNS_MAX_BUFFERED_def\<close>)
  then show ?thesis
    by (simp add: rr_addresses_def sample_rr_def usable_def v4_is_unspecified_def v4_is_loopback_def)
qed

text \<open>Whatever the resolver sends.\<close>

definition good_ip :: "ip_addr \<Rightarrow> bool" where
  "good_ip ip \<longleftrightarrow> ip_wf ip \<and> usable ip"

lemma record_ip_wf: "record_ip class rtype rdata = Some (Some ip) \<Longrightarrow> ip_wf ip"
  by (auto simp: record_ip_def split: if_splits)

lemma read_answers_good: "read_answers n msg i out = Some r \<Longrightarrow> list_all good_ip out \<Longrightarrow> list_all good_ip r"
proof (induction n arbitrary: i out)
  case (Suc n)
  have grow: "list_all good_ip (if \<not> is_unspecified ip \<and> \<not> is_loopback ip then out @ [ip] else out)"
    if "record_ip c ty d = Some (Some ip)" for c ty d ip
    using Suc.prems(2) record_ip_wf [OF that] by (simp add: good_ip_def [of ip] usable_def)
  show ?case
    using Suc.prems Suc.IH [OF _ Suc.prems(2)] Suc.IH [OF _ grow] by (auto split: option.splits simp del: if_split)
qed simp

lemma parse_answers_good: "list_all good_ip (unwrap_or_default (parse_answers msg qid))"
  using read_answers_good [of _ msg _ "[]"]
  by (auto simp: unwrap_or_default_def parse_answers_def split: option.splits if_splits)

lemma take_message_good: "list_all good_ip (snd st) \<Longrightarrow> list_all good_ip (snd (take_message msg st))"
  by (cases st) (simp add: take_message_def parse_answers_good split: option.split)

lemma drain_good: "list_all good_ip (snd st) \<Longrightarrow> list_all good_ip (snd (snd (drain buf st)))"
proof (induction buf st rule: drain.induct)
  case (1 buf st)
  then show ?case
    by (subst drain.simps) (simp add: take_message_good split: option.split)
qed

lemma exchange_good: "exchange_loop buf st reads = Ok r \<Longrightarrow> list_all good_ip (snd st) \<Longrightarrow> list_all good_ip r"
proof (induction buf st reads rule: exchange_loop.induct)
  case (1 buf st reads)
  have good: "list_all good_ip (snd s)" if "drain (buf @ c) st = (b, s)" for b s c
    using drain_good [OF "1.prems"(2), of "buf @ c"] that by simp
  show ?case
  proof (cases "fst st = []")
    case True
    then show ?thesis
      using "1.prems" by simp
  next
    case False
    then obtain c cs where reads: "reads = Inr c # cs"
      using "1.prems"(1) by (auto split: list.splits sum.splits)
    show ?thesis
    proof (cases "c = [] \<or> DNS_MAX_BUFFERED < length buf + length c")
      case True
      then show ?thesis
        using "1.prems" False reads by auto
    next
      case ok: False
      obtain b s where d: "drain (buf @ c) st = (b, s)"
        by (cases "drain (buf @ c) st")
      then have "exchange_loop b s cs = Ok r"
        using "1.prems"(1) False reads ok by simp
      then show ?thesis
        using "1.IH" [OF False reads refl ok] d good [OF d] by simp
    qed
  qed
qed

text \<open>
  Nothing but usable addresses comes out of a resolution, whatever the resolver or the tunnel sends, and no
  more than the limit per host: every address has the octets of its family and is neither unspecified nor
  loopback.
\<close>

theorem dns_answers_usable:
  "list_all (\<lambda>ip. ip_wf ip \<and> \<not> is_unspecified ip \<and> \<not> is_loopback ip) (resolve_all streams hosts max_per_host completed) \<and>
   length (resolve_all streams hosts max_per_host completed) \<le> max_per_host * length completed"
proof
  have "list_all good_ip (unwrap_or_default (result_ok (exchange s qs ids)))" for s qs ids
    using exchange_good [of "[]" "(ids, [])" "ds_reads s"]
    by (cases "ds_open s"; cases "ds_send s (concat (map framed qs))"; cases "exchange_loop [] (ids, []) (ds_reads s)")
      (simp_all add: exchange_def unwrap_or_default_def)
  then have "list_all good_ip (resolve_host s host qid)" for s host qid
    by (simp add: resolve_host_def split: option.split)
  then show "list_all (\<lambda>ip. ip_wf ip \<and> \<not> is_unspecified ip \<and> \<not> is_loopback ip) (resolve_all streams hosts max_per_host completed)"
    by (auto simp: resolve_all_def list_all_iff good_ip_def usable_def dest: in_set_takeD)
  show "length (resolve_all streams hosts max_per_host completed) \<le> max_per_host * length completed"
    unfolding resolve_all_def by (induction completed) auto
qed

end
