(* ===== verification/Vault.thy ===== *)
theory Vault
  imports Prelude
begin

text \<open>
  The encrypted server vault, \<open>crates/leshiy-provision/src/vault.rs\<close>: its blob format, the operations on its
  records, and how several processes share its file.

  Argon2, XChaCha20-Poly1305 and serde are the fields of \<open>vault_crypto\<close>; the random salt and nonce are
  arguments. The messages of \<open>Error::Vault\<close> are constructors. The file system is a map from paths to contents
  and a map from lock files to the handle that holds them. A handle is one \<open>Vault\<close> value of some process. The
  code's rename is atomic, so a save is three steps, between which other handles run: taking the lock,
  comparing the file with the snapshot, replacing the file. Writing the temporary file, which nobody else
  reads, belongs to the last one. A crash ends a handle at any point and releases its locks.
\<close>

section \<open>Definitions\<close>

subsection \<open>Records\<close>

datatype ssh_secret = NoSecret | Password string | PrivateKey string "string option"

record quic_info =
  q_addr :: string
  q_sni :: string
  q_cert_sha256 :: "string option"

record client_config =
  cl_short_id :: string
  cl_label :: string
  cl_uri :: string

record server_record =
  sr_id :: string
  sr_label :: string
  sr_host :: string
  sr_port :: u16
  sr_ssh_user :: string
  sr_ssh_secret :: ssh_secret
  sr_host_key_fp :: string
  sr_public_host :: string
  sr_image_ref :: string
  sr_container :: string
  sr_reality_public_b64 :: string
  sr_quic :: "quic_info option"
  sr_clients :: "client_config list"
  sr_created_at :: u64
  sr_role :: string
  sr_connector_uri :: "string option"
  sr_downstream :: "string option"
  sr_sudo :: bool

definition redacted_for_sharing :: "server_record \<Rightarrow> server_record" where
  "redacted_for_sharing r = r\<lparr>sr_ssh_secret := NoSecret\<rparr>"

subsection \<open>The blob\<close>

datatype vault_error =
    EncodeFailed string
  | ArgonFailed string
  | EncryptFailed
  | NotAVault
  | UnsupportedVersion u8
  | DecryptFailed
  | DecodeFailed string
  | VaultBusy
  | DifferentPath
  | ChangedConcurrently
  | NoServer string
  | VaultIo

record vault_crypto =
  vc_argon2 :: "string \<Rightarrow> bytes \<Rightarrow> string + bytes"
  vc_encrypt :: "bytes \<Rightarrow> bytes \<Rightarrow> bytes \<Rightarrow> bytes option"
  vc_decrypt :: "bytes \<Rightarrow> bytes \<Rightarrow> bytes \<Rightarrow> bytes option"
  vc_to_vec :: "server_record list \<Rightarrow> string + bytes"
  vc_from_slice :: "bytes \<Rightarrow> string + server_record list"

definition VAULT_MAGIC :: bytes where "VAULT_MAGIC = as_bytes ''LVAULT1'' @ [10]"
definition SALT_LEN :: nat where "SALT_LEN = 16"
definition NONCE_LEN :: nat where "NONCE_LEN = 24"

definition vault_derive_key :: "vault_crypto \<Rightarrow> string \<Rightarrow> bytes \<Rightarrow> vault_error + bytes" where
  "vault_derive_key vc passphrase salt = map_err ArgonFailed (vc_argon2 vc passphrase salt)"

definition vault_seal :: "vault_crypto \<Rightarrow> bytes \<Rightarrow> bytes \<Rightarrow> server_record list \<Rightarrow> string \<Rightarrow> vault_error + bytes" where
  "vault_seal vc salt xnonce records passphrase =
     try_bind (map_err EncodeFailed (vc_to_vec vc records)) (\<lambda>plaintext.
     try_bind (vault_derive_key vc passphrase salt) (\<lambda>key.
     try_bind (ok_or (vc_encrypt vc key xnonce plaintext) EncryptFailed) (\<lambda>ct.
     Ok (VAULT_MAGIC @ [1] @ salt @ xnonce @ ct))))"

definition vault_open :: "vault_crypto \<Rightarrow> bytes \<Rightarrow> string \<Rightarrow> vault_error + server_record list" where
  "vault_open vc blob passphrase =
     (let m = length VAULT_MAGIC; header = m + 1 + SALT_LEN + NONCE_LEN in
      if length blob < header \<or> slice 0 m blob \<noteq> VAULT_MAGIC then Err NotAVault
      else let version = blob ! m in
      if version \<noteq> 1 then Err (UnsupportedVersion version)
      else let salt = slice (m + 1) (m + 1 + SALT_LEN) blob;
               xnonce = slice (m + 1 + SALT_LEN) header blob;
               ct = drop header blob in
      try_bind (vault_derive_key vc passphrase salt) (\<lambda>key.
      try_bind (ok_or (vc_decrypt vc key xnonce ct) DecryptFailed) (\<lambda>pt.
      map_err DecodeFailed (vc_from_slice vc pt))))"

subsection \<open>Operations on the records\<close>

record vault =
  v_records :: "server_record list"
  v_snapshot :: "bytes option"
  v_transaction :: "string option"

definition vault_new :: vault where
  "vault_new = \<lparr>v_records = [], v_snapshot = None, v_transaction = None\<rparr>"

fun find_index :: "('a \<Rightarrow> bool) \<Rightarrow> 'a list \<Rightarrow> nat option" where
  "find_index P [] = None"
| "find_index P (x # xs) = (if P x then Some 0 else map_option Suc (find_index P xs))"

definition vault_index :: "vault \<Rightarrow> string \<Rightarrow> nat option" where
  "vault_index v key =
     (case find_index (\<lambda>r. sr_id r = key) (v_records v) of
        Some i \<Rightarrow> Some i
      | None \<Rightarrow>
          (case find_index (\<lambda>r. sr_label r = key) (v_records v) of
             None \<Rightarrow> None
           | Some i \<Rightarrow> if find_index (\<lambda>r. sr_label r = key) (drop (i + 1) (v_records v)) = None then Some i else None))"

definition vault_upsert :: "server_record \<Rightarrow> vault \<Rightarrow> vault" where
  "vault_upsert rec v =
     (case find_index (\<lambda>r. sr_id r = sr_id rec) (v_records v) of
        Some i \<Rightarrow> v\<lparr>v_records := (v_records v)[i := rec]\<rparr>
      | None \<Rightarrow> v\<lparr>v_records := v_records v @ [rec]\<rparr>)"

definition vault_get :: "vault \<Rightarrow> string \<Rightarrow> server_record option" where
  "vault_get v key = map_option (\<lambda>i. v_records v ! i) (vault_index v key)"

text \<open>\<open>get_mut\<close> lends the record to the caller, who may change it; here the change is an argument.\<close>

definition vault_get_mut :: "string \<Rightarrow> (server_record \<Rightarrow> server_record) \<Rightarrow> vault \<Rightarrow> vault" where
  "vault_get_mut key f v =
     (case vault_index v key of None \<Rightarrow> v | Some i \<Rightarrow> v\<lparr>v_records := (v_records v)[i := f (v_records v ! i)]\<rparr>)"

definition remove_at :: "nat \<Rightarrow> 'a list \<Rightarrow> 'a list" where
  "remove_at i xs = take i xs @ drop (Suc i) xs"

definition vault_remove :: "string \<Rightarrow> vault \<Rightarrow> vault \<times> bool" where
  "vault_remove key v =
     (case vault_index v key of
        None \<Rightarrow> (v, False)
      | Some i \<Rightarrow> (v\<lparr>v_records := remove_at i (v_records v)\<rparr>, True))"

definition vault_remove_id :: "string \<Rightarrow> vault \<Rightarrow> vault \<times> bool" where
  "vault_remove_id key v =
     (let rs = filter (\<lambda>r. sr_id r \<noteq> key) (v_records v) in
      (v\<lparr>v_records := rs\<rparr>, length rs \<noteq> length (v_records v)))"

definition export_one ::
    "vault_crypto \<Rightarrow> bytes \<Rightarrow> bytes \<Rightarrow> vault \<Rightarrow> string \<Rightarrow> bool \<Rightarrow> string \<Rightarrow> vault_error + bytes" where
  "export_one vc salt xnonce v key connection_only passphrase =
     try_bind (ok_or (vault_get v key) (NoServer key)) (\<lambda>rec.
     vault_seal vc salt xnonce [if connection_only then redacted_for_sharing rec else rec] passphrase)"

definition export_all :: "vault_crypto \<Rightarrow> bytes \<Rightarrow> bytes \<Rightarrow> vault \<Rightarrow> string \<Rightarrow> vault_error + bytes" where
  "export_all vc salt xnonce v passphrase = vault_seal vc salt xnonce (v_records v) passphrase"

record import_summary =
  is_added :: nat
  is_replaced :: nat

fun import_loop :: "server_record list \<Rightarrow> vault \<times> import_summary \<Rightarrow> vault \<times> import_summary" where
  "import_loop [] st = st"
| "import_loop (rec # recs) (v, s) =
     import_loop recs
       (vault_upsert rec v,
        if list_ex (\<lambda>r. sr_id r = sr_id rec) (v_records v)
        then s\<lparr>is_replaced := is_replaced s + 1\<rparr> else s\<lparr>is_added := is_added s + 1\<rparr>)"

definition import_records :: "server_record list \<Rightarrow> vault \<Rightarrow> vault \<times> import_summary" where
  "import_records recs v = import_loop recs (v, \<lparr>is_added = 0, is_replaced = 0\<rparr>)"

subsection \<open>The file\<close>

definition vault_load :: "vault_crypto \<Rightarrow> (string \<Rightarrow> bytes option) \<Rightarrow> bool \<Rightarrow> string \<Rightarrow> string \<Rightarrow> vault_error + vault" where
  "vault_load vc files io path passphrase =
     (if \<not> io then Err VaultIo
      else case files path of
        Some b \<Rightarrow> try_bind (vault_open vc b passphrase) (\<lambda>rs. Ok \<lparr>v_records = rs, v_snapshot = Some b, v_transaction = None\<rparr>)
      | None \<Rightarrow> Ok vault_new)"

datatype save_phase =
    Idle
  | Holding string string bytes
  | Compared string string bytes

record vault_handle =
  hd_vault :: "vault option"
  hd_phase :: save_phase

record vault_world =
  w_files :: "string \<Rightarrow> bytes option"
  w_locks :: "string \<Rightarrow> nat option"
  w_handles :: "nat \<Rightarrow> vault_handle"

definition vault_lock :: "nat \<Rightarrow> bool \<Rightarrow> string \<Rightarrow> vault_world \<Rightarrow> vault_error + vault_world" where
  "vault_lock p io path w =
     (if \<not> io then Err VaultIo
      else case w_locks w path of
        Some _ \<Rightarrow> Err VaultBusy
      | None \<Rightarrow> Ok (w\<lparr>w_locks := (w_locks w)(path \<mapsto> p)\<rparr>))"

definition unlock :: "nat \<Rightarrow> string \<Rightarrow> vault_world \<Rightarrow> vault_world" where
  "unlock p path w = (if w_locks w path = Some p then w\<lparr>w_locks := (w_locks w)(path := None)\<rparr> else w)"

definition set_handle :: "nat \<Rightarrow> vault_handle \<Rightarrow> vault_world \<Rightarrow> vault_world" where
  "set_handle p h w = w\<lparr>w_handles := (w_handles w)(p := h)\<rparr>"

definition do_load :: "vault_crypto \<Rightarrow> nat \<Rightarrow> bool \<Rightarrow> string \<Rightarrow> string \<Rightarrow> vault_world \<Rightarrow> vault_world" where
  "do_load vc p io path passphrase w =
     (case vault_load vc (w_files w) io path passphrase of
        Inl _ \<Rightarrow> w
      | Inr v \<Rightarrow> set_handle p \<lparr>hd_vault = Some v, hd_phase = Idle\<rparr> w)"

definition load_locked :: "vault_crypto \<Rightarrow> nat \<Rightarrow> bool \<Rightarrow> bool \<Rightarrow> string \<Rightarrow> string \<Rightarrow> vault_world \<Rightarrow> vault_world" where
  "load_locked vc p io io' path passphrase w =
     (case vault_lock p io path w of
        Inl _ \<Rightarrow> w
      | Inr w' \<Rightarrow>
          (case vault_load vc (w_files w') io' path passphrase of
             Inl _ \<Rightarrow> unlock p path w'
           | Inr v \<Rightarrow> set_handle p \<lparr>hd_vault = Some (v\<lparr>v_transaction := Some path\<rparr>), hd_phase = Idle\<rparr> w'))"

definition end_save :: "nat \<Rightarrow> string \<Rightarrow> vault \<Rightarrow> vault_world \<Rightarrow> vault_world" where
  "end_save p path v w =
     (if v_transaction v = None then unlock p path else (\<lambda>w. w)) (set_handle p \<lparr>hd_vault = Some v, hd_phase = Idle\<rparr> w)"

definition save_begin :: "vault_crypto \<Rightarrow> nat \<Rightarrow> bytes \<Rightarrow> bytes \<Rightarrow> bool \<Rightarrow> string \<Rightarrow> string \<Rightarrow> vault \<Rightarrow> vault_world \<Rightarrow> vault_world" where
  "save_begin vc p salt xnonce io path passphrase v w =
     (case vault_seal vc salt xnonce (v_records v) passphrase of
        Inl _ \<Rightarrow> w
      | Inr blob \<Rightarrow>
          if \<not> io then w
          else case v_transaction v of
            Some locked_path \<Rightarrow>
              if locked_path \<noteq> path then w
              else set_handle p \<lparr>hd_vault = Some v, hd_phase = Holding path passphrase blob\<rparr> w
          | None \<Rightarrow>
              (case vault_lock p io path w of
                 Inl _ \<Rightarrow> w
               | Inr w' \<Rightarrow> set_handle p \<lparr>hd_vault = Some v, hd_phase = Holding path passphrase blob\<rparr> w'))"

definition save_compare :: "nat \<Rightarrow> bool \<Rightarrow> string \<Rightarrow> string \<Rightarrow> bytes \<Rightarrow> vault \<Rightarrow> vault_world \<Rightarrow> vault_world" where
  "save_compare p io path passphrase blob v w =
     (if \<not> io \<or> w_files w path \<noteq> v_snapshot v then end_save p path v w
      else set_handle p \<lparr>hd_vault = Some v, hd_phase = Compared path passphrase blob\<rparr> w)"

definition save_replace :: "nat \<Rightarrow> bool \<Rightarrow> string \<Rightarrow> bytes \<Rightarrow> vault \<Rightarrow> vault_world \<Rightarrow> vault_world" where
  "save_replace p renamed path blob v w =
     (if renamed
      then end_save p path (v\<lparr>v_snapshot := Some blob\<rparr>) (w\<lparr>w_files := (w_files w)(path \<mapsto> blob)\<rparr>)
      else end_save p path v w)"

definition release_all :: "nat \<Rightarrow> vault_world \<Rightarrow> vault_world" where
  "release_all p w = w\<lparr>w_locks := (\<lambda>path. if w_locks w path = Some p then None else w_locks w path)\<rparr>"

inductive vault_step :: "vault_crypto \<Rightarrow> vault_world \<Rightarrow> vault_world \<Rightarrow> bool" for vc where
  load: "hd_vault (w_handles w p) = None \<Longrightarrow> vault_step vc w (do_load vc p io path pass w)"
| load_locked: "hd_vault (w_handles w p) = None \<Longrightarrow> vault_step vc w (load_locked vc p io io' path pass w)"
| change: "w_handles w p = \<lparr>hd_vault = Some v, hd_phase = Idle\<rparr> \<Longrightarrow>
    vault_step vc w (set_handle p \<lparr>hd_vault = Some (v\<lparr>v_records := rs\<rparr>), hd_phase = Idle\<rparr> w)"
| save_begin: "w_handles w p = \<lparr>hd_vault = Some v, hd_phase = Idle\<rparr> \<Longrightarrow> length salt = SALT_LEN \<Longrightarrow> length xnonce = NONCE_LEN \<Longrightarrow>
    vault_step vc w (save_begin vc p salt xnonce io path pass v w)"
| save_compare: "w_handles w p = \<lparr>hd_vault = Some v, hd_phase = Holding path pass blob\<rparr> \<Longrightarrow>
    vault_step vc w (save_compare p io path pass blob v w)"
| save_replace: "w_handles w p = \<lparr>hd_vault = Some v, hd_phase = Compared path pass blob\<rparr> \<Longrightarrow>
    vault_step vc w (save_replace p renamed path blob v w)"
| crash: "vault_step vc w (release_all p (set_handle p \<lparr>hd_vault = None, hd_phase = Idle\<rparr> w))"

definition world_start :: "(string \<Rightarrow> bytes option) \<Rightarrow> vault_world" where
  "world_start files = \<lparr>w_files = files, w_locks = (\<lambda>_. None), w_handles = (\<lambda>_. \<lparr>hd_vault = None, hd_phase = Idle\<rparr>)\<rparr>"

inductive vault_reach :: "vault_crypto \<Rightarrow> vault_world \<Rightarrow> bool" for vc where
  start: "vault_reach vc (world_start files)"
| step: "vault_reach vc w \<Longrightarrow> vault_step vc w w' \<Longrightarrow> vault_reach vc w'"

inductive_cases vault_stepE: "vault_step vc w w'"

section \<open>Lemmas\<close>

definition vault_crypto_ok :: "vault_crypto \<Rightarrow> bool" where
  "vault_crypto_ok vc \<longleftrightarrow>
     (\<forall>k n pt ct. vc_encrypt vc k n pt = Some ct \<longrightarrow> vc_decrypt vc k n ct = Some pt) \<and>
     (\<forall>rs j. vc_to_vec vc rs = Ok j \<longrightarrow> vc_from_slice vc j = Ok rs)"

lemma vault_seal_open:
  assumes "vault_crypto_ok vc" and "length salt = SALT_LEN" and "length xnonce = NONCE_LEN"
    and "vault_seal vc salt xnonce rs pass = Ok blob"
  shows "vault_open vc blob pass = Ok rs"
proof -
  obtain pt key ct where s: "vc_to_vec vc rs = Ok pt" "vault_derive_key vc pass salt = Ok key"
    "vc_encrypt vc key xnonce pt = Some ct" "blob = VAULT_MAGIC @ [1] @ salt @ xnonce @ ct"
    using assms(4) by (auto simp: vault_seal_def try_bind_eq_Inr ok_or_def map_err_def split: option.splits sum.splits)
  let ?m = "length VAULT_MAGIC"
  have sl: "slice 0 ?m blob = VAULT_MAGIC" "blob ! ?m = 1" "slice (?m + 1) (?m + 1 + SALT_LEN) blob = salt"
    "slice (?m + 1 + SALT_LEN) (?m + 1 + SALT_LEN + NONCE_LEN) blob = xnonce" "drop (?m + 1 + SALT_LEN + NONCE_LEN) blob = ct"
    using assms(2,3) by (simp_all add: s(4) slice_def nth_append)
  have len: "\<not> length blob < ?m + 1 + SALT_LEN + NONCE_LEN"
    using assms(2,3) by (simp add: s(4))
  have "vc_decrypt vc key xnonce ct = Some pt" "vc_from_slice vc pt = Ok rs"
    using assms(1) s by (auto simp: vault_crypto_ok_def)
  then show ?thesis
    using len unfolding vault_open_def Let_def sl by (simp add: s(2))
qed

text \<open>What every handle keeps.\<close>

definition holds_lock :: "vault_world \<Rightarrow> nat \<Rightarrow> string \<Rightarrow> bool" where
  "holds_lock w p path \<longleftrightarrow> w_locks w path = Some p"

definition handle_inv :: "vault_crypto \<Rightarrow> vault_world \<Rightarrow> nat \<Rightarrow> bool" where
  "handle_inv vc w p \<longleftrightarrow>
     (case hd_vault (w_handles w p) of
        None \<Rightarrow> hd_phase (w_handles w p) = Idle
      | Some v \<Rightarrow>
          (\<forall>path. v_transaction v = Some path \<longrightarrow> holds_lock w p path) \<and>
          (case hd_phase (w_handles w p) of
             Idle \<Rightarrow> True
           | Holding path pass blob \<Rightarrow>
               holds_lock w p path \<and> v_transaction v \<in> {None, Some path} \<and> vault_open vc blob pass = Ok (v_records v)
           | Compared path pass blob \<Rightarrow>
               holds_lock w p path \<and> v_transaction v \<in> {None, Some path} \<and> vault_open vc blob pass = Ok (v_records v) \<and>
               w_files w path = v_snapshot v))"

lemma handle_inv_frame:
  assumes "handle_inv vc w q" and "w_handles w' q = w_handles w q"
    and "\<And>path. holds_lock w q path \<Longrightarrow> holds_lock w' q path \<and> w_files w' path = w_files w path"
  shows "handle_inv vc w' q"
  using assms unfolding handle_inv_def by (auto split: option.splits save_phase.splits)

lemmas world_ops = do_load_def load_locked_def save_begin_def save_compare_def save_replace_def end_save_def unlock_def
  vault_lock_def set_handle_def release_all_def holds_lock_def

lemma begin_inv:
  assumes "vault_crypto_ok vc" and "handle_inv vc w p" and "w_handles w p = \<lparr>hd_vault = Some v, hd_phase = Idle\<rparr>"
    and "length salt = SALT_LEN" and "length xnonce = NONCE_LEN"
  shows "handle_inv vc (save_begin vc p salt xnonce io path pass v w) p"
proof (cases "vault_seal vc salt xnonce (v_records v) pass")
  case (Inl e)
  then show ?thesis
    using assms(2) by (simp add: save_begin_def)
next
  case (Inr blob)
  have "vault_open vc blob pass = Ok (v_records v)"
    using vault_seal_open [OF assms(1,4,5) Inr] .
  then show ?thesis
    using assms(2,3) Inr by (auto simp: handle_inv_def world_ops split: option.splits)
qed

text \<open>A step is one handle's: what the others hold stays, and the handle's own invariant holds afterwards.\<close>

lemma step_acts:
  assumes "vault_crypto_ok vc" and "vault_step vc w w'" and inv: "\<And>p. handle_inv vc w p"
  obtains p where "\<And>q. q \<noteq> p \<Longrightarrow> w_handles w' q = w_handles w q"
    "\<And>q path. q \<noteq> p \<Longrightarrow> holds_lock w q path \<Longrightarrow> holds_lock w' q path \<and> w_files w' path = w_files w path"
    "handle_inv vc w' p"
  using assms(2)
proof cases
  case (load p io path pass)
  show ?thesis
    by (rule that [of p]) (use load inv [of p] in \<open>auto simp: handle_inv_def vault_load_def vault_new_def world_ops try_bind_def
      split: sum.splits option.splits if_splits\<close>)
next
  case (load_locked p io io' path pass)
  show ?thesis
    by (rule that [of p]) (use load_locked inv [of p] in \<open>auto simp: handle_inv_def world_ops split: sum.splits option.splits if_splits\<close>)
next
  case (change p v rs)
  show ?thesis
    by (rule that [of p]) (use change inv [of p] in \<open>auto simp: handle_inv_def world_ops\<close>)
next
  case (save_begin p v salt xnonce io path pass)
  show ?thesis
  proof (rule that [of p])
    show "handle_inv vc w' p"
      unfolding save_begin(1) by (rule begin_inv) (use assms(1) inv save_begin in simp_all)
  qed (use save_begin in \<open>auto simp: world_ops split: sum.splits option.splits if_splits\<close>)
next
  case (save_compare p v path pass blob io)
  show ?thesis
    by (rule that [of p]) (use save_compare inv [of p] in \<open>auto simp: handle_inv_def world_ops split: if_splits\<close>)
next
  case (save_replace p v path pass blob renamed)
  have "holds_lock w p path"
    using inv [of p] save_replace(2) by (simp add: handle_inv_def)
  then show ?thesis
    by (intro that [of p]) (use save_replace inv [of p] in \<open>auto simp: handle_inv_def world_ops split: if_splits\<close>)
next
  case (crash p)
  show ?thesis
    by (rule that [of p]) (use crash in \<open>auto simp: handle_inv_def world_ops\<close>)
qed

lemma reach_handles:
  assumes "vault_crypto_ok vc" and "vault_reach vc w"
  shows "handle_inv vc w p"
  using assms(2)
proof (induction arbitrary: p)
  case (start files)
  then show ?case
    by (simp add: handle_inv_def world_start_def)
next
  case (step w w')
  obtain r where r: "\<And>q. q \<noteq> r \<Longrightarrow> w_handles w' q = w_handles w q"
    "\<And>q path. q \<noteq> r \<Longrightarrow> holds_lock w q path \<Longrightarrow> holds_lock w' q path \<and> w_files w' path = w_files w path" "handle_inv vc w' r"
    by (rule step_acts [OF assms(1) step.hyps(2) step.IH], rule that)
  then show ?case
    using handle_inv_frame [OF step.IH] by (cases "p = r") auto
qed

section \<open>Properties\<close>

text \<open>
  No update of the vault file is lost. However many processes load, change and save it in whatever
  interleaving, crashes included, whenever the file's content changes, one handle made the change that had
  loaded or written exactly the content it replaces; the new content decrypts under the handle's passphrase to
  its records and becomes its snapshot; and no other handle holds a transaction on that path.
\<close>

theorem vault_no_lost_update:
  assumes "vault_crypto_ok vc" and "vault_reach vc w" and "vault_step vc w w'" and "w_files w' path \<noteq> w_files w path"
  shows "\<exists>p v pass blob. hd_vault (w_handles w p) = Some v \<and> w_files w path = v_snapshot v \<and>
    w_files w' path = Some blob \<and> vault_open vc blob pass = Ok (v_records v) \<and>
    hd_vault (w_handles w' p) = Some (v\<lparr>v_snapshot := Some blob\<rparr>) \<and>
    (\<forall>q u. hd_vault (w_handles w q) = Some u \<and> v_transaction u = Some path \<longrightarrow> q = p)"
  using assms(3)
proof cases
  case (save_replace p v path' pass blob renamed)
  then have r: "renamed" "path' = path"
    using assms(4) by (auto simp: world_ops split: if_splits)
  have inv: "handle_inv vc w q" for q
    using reach_handles [OF assms(1,2)] .
  have p: "holds_lock w p path" "vault_open vc blob pass = Ok (v_records v)" "w_files w path = v_snapshot v"
    using inv [of p] save_replace(2) r(2) by (simp_all add: handle_inv_def)
  have "q = p" if "hd_vault (w_handles w q) = Some u" "v_transaction u = Some path" for q u
    using inv [of q] that p(1) by (simp add: handle_inv_def holds_lock_def)
  moreover have "w_files w' path = Some blob" "hd_vault (w_handles w' p) = Some (v\<lparr>v_snapshot := Some blob\<rparr>)"
    using save_replace(1) r by (simp_all add: world_ops)
  ultimately show ?thesis
    using save_replace(2) p(2,3) by (metis vault_handle.select_convs(1))
qed (use assms(4) in \<open>auto simp: world_ops split: sum.splits option.splits if_splits\<close>)

text \<open>An instance of the parameters, for vaults of at most one record that differs from a base record in its id.\<close>

definition base_record :: "string \<Rightarrow> server_record" where
  "base_record i = \<lparr>sr_id = i, sr_label = ''l'', sr_host = [], sr_port = 22, sr_ssh_user = [], sr_ssh_secret = NoSecret,
     sr_host_key_fp = [], sr_public_host = [], sr_image_ref = [], sr_container = [], sr_reality_public_b64 = [],
     sr_quic = None, sr_clients = [], sr_created_at = 0, sr_role = [], sr_connector_uri = None, sr_downstream = None,
     sr_sudo = False\<rparr>"

definition plain_vc :: vault_crypto where
  "plain_vc = \<lparr>vc_argon2 = (\<lambda>p s. Ok s), vc_encrypt = (\<lambda>k n pt. Some pt), vc_decrypt = (\<lambda>k n ct. Some ct),
     vc_to_vec = (\<lambda>rs. case rs of [] \<Rightarrow> Ok []
       | [r] \<Rightarrow> if r = base_record (sr_id r) then Ok (1 # as_bytes (sr_id r)) else Err ''unsupported''
       | _ \<Rightarrow> Err ''unsupported''),
     vc_from_slice = (\<lambda>j. case j of [] \<Rightarrow> Ok [] | b # bs \<Rightarrow> Ok [base_record (of_bytes bs)])\<rparr>"

lemma plain_vc_ok: "vault_crypto_ok plain_vc"
  by (auto simp: vault_crypto_ok_def plain_vc_def split: list.splits if_splits)

definition sample_blob :: bytes where
  "sample_blob = VAULT_MAGIC @ [1] @ replicate 16 0 @ replicate 24 0 @ 1 # as_bytes ''a''"

lemma sample_seal: "vault_seal plain_vc (replicate 16 0) (replicate 24 0) [base_record ''a''] ''p'' = Ok sample_blob"
  by (simp add: vault_seal_def vault_derive_key_def plain_vc_def sample_blob_def base_record_def)

text \<open>A handle that created a vault with one record, at the point of replacing the file.\<close>

definition sample_vault :: "server_record list \<Rightarrow> vault" where
  "sample_vault rs = \<lparr>v_records = rs, v_snapshot = None, v_transaction = None\<rparr>"

definition sample_world :: "nat option \<Rightarrow> server_record list \<Rightarrow> save_phase \<Rightarrow> vault_world" where
  "sample_world l rs ph = \<lparr>w_files = (\<lambda>_. None), w_locks = (\<lambda>_. None)(''v'' := l),
     w_handles = (\<lambda>_. \<lparr>hd_vault = None, hd_phase = Idle\<rparr>)(0 := \<lparr>hd_vault = Some (sample_vault rs), hd_phase = ph\<rparr>)\<rparr>"

lemma sample_handle: "w_handles (sample_world l rs ph) 0 = \<lparr>hd_vault = Some (sample_vault rs), hd_phase = ph\<rparr>"
  by (simp add: sample_world_def)

lemma sample_load: "vault_reach plain_vc (sample_world None [] Idle)"
proof -
  have "vault_reach plain_vc (do_load plain_vc 0 True ''v'' ''p'' (world_start (\<lambda>_. None)))"
    by (rule vault_reach.step [OF vault_reach.start vault_step.load]) (simp add: world_start_def)
  moreover have "do_load plain_vc 0 True ''v'' ''p'' (world_start (\<lambda>_. None)) = sample_world None [] Idle"
    by (simp add: do_load_def vault_load_def world_start_def vault_new_def set_handle_def sample_world_def sample_vault_def
        fun_upd_idem)
  ultimately show ?thesis
    by simp
qed

lemma sample_change: "vault_reach plain_vc (sample_world None [base_record i] Idle)"
proof -
  have "set_handle 0 \<lparr>hd_vault = Some (sample_vault []\<lparr>v_records := [base_record i]\<rparr>), hd_phase = Idle\<rparr> (sample_world None [] Idle) =
      sample_world None [base_record i] Idle"
    by (simp add: set_handle_def sample_world_def sample_vault_def)
  then show ?thesis
    using vault_reach.step [OF sample_load vault_step.change [where rs = "[base_record i]", OF sample_handle]] by simp
qed

lemma sample_begin: "vault_reach plain_vc (sample_world (Some 0) [base_record ''a''] (Holding ''v'' ''p'' sample_blob))"
proof -
  have "save_begin plain_vc 0 (replicate 16 0) (replicate 24 0) True ''v'' ''p'' (sample_vault [base_record ''a''])
      (sample_world None [base_record ''a''] Idle) = sample_world (Some 0) [base_record ''a''] (Holding ''v'' ''p'' sample_blob)"
    by (simp add: save_begin_def sample_vault_def sample_seal vault_lock_def set_handle_def sample_world_def)
  then show ?thesis
    using vault_reach.step [OF sample_change [of "''a''"] vault_step.save_begin [where salt = "replicate 16 0" and xnonce = "replicate 24 0" and
          io = True and path = "''v''" and pass = "''p''", OF sample_handle]] by (simp add: SALT_LEN_def NONCE_LEN_def)
qed

lemma sample_reach: "vault_reach plain_vc (sample_world (Some 0) [base_record ''a''] (Compared ''v'' ''p'' sample_blob))"
proof -
  have "save_compare 0 True ''v'' ''p'' sample_blob (sample_vault [base_record ''a''])
      (sample_world (Some 0) [base_record ''a''] (Holding ''v'' ''p'' sample_blob)) =
      sample_world (Some 0) [base_record ''a''] (Compared ''v'' ''p'' sample_blob)"
    by (simp add: save_compare_def set_handle_def sample_world_def sample_vault_def)
  then show ?thesis
    using vault_reach.step [OF sample_begin vault_step.save_compare [where io = True, OF sample_handle]] by simp
qed

theorem vault_no_lost_update_witness:
  "\<exists>w w'. vault_reach plain_vc w \<and> vault_step plain_vc w w' \<and> w_files w' ''v'' \<noteq> w_files w ''v'' \<and>
     (\<exists>p v. hd_vault (w_handles w p) = Some v \<and> w_files w ''v'' = v_snapshot v)"
proof -
  let ?w = "sample_world (Some 0) [base_record ''a''] (Compared ''v'' ''p'' sample_blob)"
  let ?v = "sample_vault [base_record ''a'']"
  let ?w' = "save_replace 0 True ''v'' sample_blob ?v ?w"
  have step: "vault_step plain_vc ?w ?w'"
    by (rule vault_step.save_replace) (rule sample_handle)
  have diff: "w_files ?w' ''v'' \<noteq> w_files ?w ''v''"
    by (simp add: world_ops sample_world_def sample_vault_def)
  show ?thesis
    using vault_no_lost_update [OF plain_vc_ok sample_reach step diff] sample_reach step diff by metis
qed

text \<open>
  Save and load are inverse: a vault that is saved where it was loaded, or to a path without a file, is
  read back with its records under the passphrase, in every later state of the file until it changes again.
\<close>

theorem vault_save_load:
  assumes "vault_crypto_ok vc" and "length salt = SALT_LEN" and "length xnonce = NONCE_LEN"
    and "vault_seal vc salt xnonce (v_records v) pass = Ok blob"
    and "w_handles w p = \<lparr>hd_vault = Some v, hd_phase = Idle\<rparr>" and "v_transaction v = None" and "w_locks w path = None"
    and "w_files w path = v_snapshot v"
  defines "w1 \<equiv> save_begin vc p salt xnonce True path pass v w"
  defines "w2 \<equiv> save_compare p True path pass blob v w1"
  defines "w3 \<equiv> save_replace p True path blob v w2"
  shows "vault_load vc (w_files w3) True path pass =
      Ok \<lparr>v_records = v_records v, v_snapshot = Some blob, v_transaction = None\<rparr> \<and>
    w_locks w3 = w_locks w \<and> (\<forall>q. q \<noteq> path \<longrightarrow> w_files w3 q = w_files w q)"
proof -
  have "w_files w3 = (w_files w)(path \<mapsto> blob)" "w_locks w3 = (w_locks w)(path := None)"
    using assms(4-8) by (simp_all add: w1_def w2_def w3_def world_ops)
  moreover have "(w_locks w)(path := None) = w_locks w"
    using assms(7) by (simp add: fun_upd_idem)
  ultimately show ?thesis
    using vault_seal_open [OF assms(1-4)] by (simp add: vault_load_def)
qed

theorem vault_save_load_witness:
  "\<exists>w :: vault_world. vault_load plain_vc (w_files w) True ''v'' ''p'' =
     Ok \<lparr>v_records = [base_record ''a''], v_snapshot = Some sample_blob, v_transaction = None\<rparr>"
proof -
  define v where "v = sample_vault [base_record ''a'']"
  define w where "w = sample_world None [base_record ''a''] Idle"
  define salt xnonce :: bytes where "salt = replicate 16 0" and "xnonce = replicate 24 0"
  have v: "v_records v = [base_record ''a'']" "v_transaction v = None" "w_locks w ''v'' = None" "w_files w ''v'' = v_snapshot v"
    "w_handles w 0 = \<lparr>hd_vault = Some v, hd_phase = Idle\<rparr>"
    by (simp_all add: v_def w_def sample_vault_def sample_world_def)
  have l: "length salt = SALT_LEN" "length xnonce = NONCE_LEN"
    by (simp_all add: salt_def xnonce_def SALT_LEN_def NONCE_LEN_def)
  have seal: "vault_seal plain_vc salt xnonce (v_records v) ''p'' = Ok sample_blob"
    unfolding v salt_def xnonce_def by (rule sample_seal)
  show ?thesis
    using vault_save_load [OF plain_vc_ok l seal v(5) v(2-4)] unfolding v(1) by blast
qed

text \<open>The records.\<close>

definition ids_distinct :: "vault \<Rightarrow> bool" where
  "ids_distinct v \<longleftrightarrow> distinct (map sr_id (v_records v))"

lemma find_index_None: "find_index P xs = None \<longleftrightarrow> (\<forall>x\<in>set xs. \<not> P x)"
  by (induction xs) auto

lemma find_index_Some: "find_index P xs = Some i \<longleftrightarrow> i < length xs \<and> P (xs ! i) \<and> (\<forall>j<i. \<not> P (xs ! j))"
proof (induction xs arbitrary: i)
  case (Cons x xs)
  then show ?case
    by (cases i) (auto simp: less_Suc_eq_0_disj)
qed simp

lemma get_iff:
  assumes "ids_distinct v"
  shows "vault_get v key = Some r \<longleftrightarrow> r \<in> set (v_records v) \<and>
    (sr_id r = key \<or> (\<forall>r'\<in>set (v_records v). sr_id r' \<noteq> key) \<and> sr_label r = key \<and>
      length (filter (\<lambda>r. sr_label r = key) (v_records v)) = 1)"
proof (cases "find_index (\<lambda>r. sr_id r = key) (v_records v)")
  case None
  then have no: "\<forall>r'\<in>set (v_records v). sr_id r' \<noteq> key"
    by (simp add: find_index_None)
  show ?thesis
  proof (cases "find_index (\<lambda>r. sr_label r = key) (v_records v)")
    case None': None
    then have "\<forall>r'\<in>set (v_records v). sr_label r' \<noteq> key"
      by (simp add: find_index_None)
    moreover have "vault_get v key = None"
      using None None' by (simp add: vault_get_def vault_index_def)
    ultimately show ?thesis
      using no by auto
  next
    case (Some i)
    let ?rs = "v_records v"
    have i: "i < length ?rs" "sr_label (?rs ! i) = key" "\<forall>j<i. sr_label (?rs ! j) \<noteq> key"
      using Some by (simp_all add: find_index_Some)
    have "filter (\<lambda>r. sr_label r = key) (take i ?rs) = []"
      using i by (auto simp: filter_empty_conv in_set_conv_nth)
    then have f: "filter (\<lambda>r. sr_label r = key) ?rs = ?rs ! i # filter (\<lambda>r. sr_label r = key) (drop (i + 1) ?rs)"
      using i(2) by (subst id_take_nth_drop [OF i(1)]) simp
    have tail: "find_index (\<lambda>r. sr_label r = key) (drop (i + 1) ?rs) = None \<longleftrightarrow>
        filter (\<lambda>r. sr_label r = key) (drop (i + 1) ?rs) = []"
      by (simp add: find_index_None filter_empty_conv)
    have only: "r = ?rs ! i" if "r \<in> set ?rs" "sr_label r = key" "length (filter (\<lambda>r. sr_label r = key) ?rs) = 1"
    proof -
      have "r \<in> set (filter (\<lambda>r. sr_label r = key) ?rs)"
        using that by simp
      moreover have "filter (\<lambda>r. sr_label r = key) ?rs = [?rs ! i]"
        using that(3) by (simp add: f)
      ultimately show ?thesis
        by (metis empty_iff empty_set set_ConsD)
    qed
    have get: "vault_get v key = (if filter (\<lambda>r. sr_label r = key) (drop (i + 1) ?rs) = [] then Some (?rs ! i) else None)"
      using None Some tail by (simp add: vault_get_def vault_index_def)
    have one: "length (filter (\<lambda>r. sr_label r = key) ?rs) = 1 \<longleftrightarrow> filter (\<lambda>r. sr_label r = key) (drop (i + 1) ?rs) = []"
      by (simp add: f)
    show ?thesis
    proof
      assume "vault_get v key = Some r"
      then show "r \<in> set ?rs \<and> (sr_id r = key \<or> (\<forall>r'\<in>set ?rs. sr_id r' \<noteq> key) \<and> sr_label r = key \<and>
          length (filter (\<lambda>r. sr_label r = key) ?rs) = 1)"
        using no i(2) nth_mem [OF i(1)] one unfolding get by (metis option.distinct(1) option.inject)
    next
      assume "r \<in> set ?rs \<and> (sr_id r = key \<or> (\<forall>r'\<in>set ?rs. sr_id r' \<noteq> key) \<and> sr_label r = key \<and>
          length (filter (\<lambda>r. sr_label r = key) ?rs) = 1)"
      then show "vault_get v key = Some r"
        using no only one unfolding get by metis
    qed
  qed
next
  case (Some i)
  then have i: "i < length (v_records v)" "sr_id (v_records v ! i) = key"
    by (simp_all add: find_index_Some)
  have "r = v_records v ! i" if "r \<in> set (v_records v)" "sr_id r = key"
    using assms that i unfolding ids_distinct_def by (metis (no_types, lifting) distinct_map inj_on_eq_iff nth_mem)
  then show ?thesis
    using Some i nth_mem [OF i(1)] by (auto simp: vault_get_def vault_index_def)
qed

lemma upsert_records:
  assumes "ids_distinct v"
  shows "ids_distinct (vault_upsert r v)"
    and "set (v_records (vault_upsert r v)) = insert r {r' \<in> set (v_records v). sr_id r' \<noteq> sr_id r}"
proof -
  have "ids_distinct (vault_upsert r v) \<and> set (v_records (vault_upsert r v)) = insert r {r' \<in> set (v_records v). sr_id r' \<noteq> sr_id r}"
  proof (cases "find_index (\<lambda>r'. sr_id r' = sr_id r) (v_records v)")
    case None
    then have "v_records (vault_upsert r v) = v_records v @ [r]"
      by (simp add: vault_upsert_def)
    then show ?thesis
      using assms None by (auto simp: ids_distinct_def find_index_None)
  next
    case (Some i)
    let ?rs = "v_records v"
    have i: "i < length ?rs" "sr_id (?rs ! i) = sr_id r"
      using Some by (simp_all add: find_index_Some)
    have d: "distinct (map sr_id ?rs)"
      using assms by (simp add: ids_distinct_def)
    have same: "map sr_id (?rs[i := r]) = map sr_id ?rs"
      using i by (simp add: map_update flip: i(2)) (metis length_map list_update_id nth_map)
    have "set (?rs[i := r]) = insert r (set ?rs - {?rs ! i})"
      using d i(1) by (metis distinct_map set_update_distinct)
    moreover have "set ?rs - {?rs ! i} = {r' \<in> set ?rs. sr_id r' \<noteq> sr_id r}"
      using d i by (auto simp: distinct_map inj_on_def)
    ultimately show ?thesis
      using Some same d by (simp add: vault_upsert_def ids_distinct_def)
  qed
  then show "ids_distinct (vault_upsert r v)"
    and "set (v_records (vault_upsert r v)) = insert r {r' \<in> set (v_records v). sr_id r' \<noteq> sr_id r}"
    by simp_all
qed

lemma get_id: "ids_distinct v \<Longrightarrow> r \<in> set (v_records v) \<Longrightarrow> vault_get v (sr_id r) = Some r"
  by (simp add: get_iff)

lemma remove_at_distinct:
  assumes "distinct (map f xs)" and "i < length xs"
  shows "distinct (map f (remove_at i xs))" and "remove_at i xs = filter (\<lambda>x. f x \<noteq> f (xs ! i)) xs"
proof -
  have split: "xs = take i xs @ xs ! i # drop (Suc i) xs"
    using assms(2) by (rule id_take_nth_drop)
  have d: "distinct (map f (take i xs @ xs ! i # drop (Suc i) xs))"
    using assms(1) split by simp
  have "filter (\<lambda>x. f x \<noteq> f (xs ! i)) (take i xs @ xs ! i # drop (Suc i) xs) = remove_at i xs"
  proof -
    have "filter (\<lambda>x. f x \<noteq> f (xs ! i)) (take i xs) = take i xs"
      "filter (\<lambda>x. f x \<noteq> f (xs ! i)) (drop (Suc i) xs) = drop (Suc i) xs"
      by (rule filter_True, use d in \<open>auto simp: image_iff\<close>)+
    then show ?thesis
      by (simp add: remove_at_def)
  qed
  then show eq: "remove_at i xs = filter (\<lambda>x. f x \<noteq> f (xs ! i)) xs"
    using split by metis
  show "distinct (map f (remove_at i xs))"
    unfolding eq using assms(1) by (simp add: distinct_map_filter)
qed

lemma vault_index_less: "vault_index v key = Some i \<Longrightarrow> i < length (v_records v)"
  by (auto simp: vault_index_def find_index_Some split: option.splits if_splits)

lemma import_records_loop:
  assumes "ids_distinct v" and "import_loop recs (v, s) = (v', s')"
  shows "ids_distinct v' \<and> is_added s' + is_replaced s' = is_added s + is_replaced s + length recs \<and>
    length (v_records v') + is_added s = length (v_records v) + is_added s' \<and>
    (\<forall>key. (\<forall>r\<in>set recs. sr_id r \<noteq> key) \<longrightarrow> (\<forall>r. sr_id r = key \<longrightarrow> r \<in> set (v_records v') \<longleftrightarrow> r \<in> set (v_records v))) \<and>
    (\<forall>pre r post. recs = pre @ r # post \<longrightarrow> (\<forall>r'\<in>set post. sr_id r' \<noteq> sr_id r) \<longrightarrow> r \<in> set (v_records v'))"
  using assms
proof (induction recs arbitrary: v s)
  case (Cons rec recs)
  let ?v = "vault_upsert rec v" and ?old = "list_ex (\<lambda>r. sr_id r = sr_id rec) (v_records v)"
  let ?s = "if ?old then s\<lparr>is_replaced := is_replaced s + 1\<rparr> else s\<lparr>is_added := is_added s + 1\<rparr>"
  note up = upsert_records [OF Cons.prems(1), of rec]
  have len: "length (v_records ?v) = length (v_records v) + (if ?old then 0 else 1)"
    by (auto simp: vault_upsert_def list_ex_iff find_index_None find_index_Some split: option.split)
  have "import_loop recs (?v, ?s) = (v', s')"
    using Cons.prems(2) by simp
  note ih = Cons.IH [OF up(1) this]
  have last: "r \<in> set (v_records v')" if "rec # recs = pre @ r # post" "\<forall>r'\<in>set post. sr_id r' \<noteq> sr_id r" for pre r post
  proof (cases pre)
    case Nil
    then have "r = rec" "post = recs"
      using that(1) by simp_all
    then show ?thesis
      using ih that(2) up(2) by blast
  next
    case (Cons x pre')
    then show ?thesis
      using ih that by simp
  qed
  show ?case
    using ih len last up(2) by (auto split: if_splits)
qed simp

text \<open>
  The vault's records. Ids stay distinct under every operation. A lookup by key returns the record with that
  id, or else the only record with that label: an ambiguous label names nothing. An insert is found by its id
  and leaves the other records alone; a removal removes exactly the record the lookup returns. An import
  counts every record once, grows the vault by the records it added, lets the last record of an id win and
  keeps the records whose id it does not mention.
\<close>

theorem vault_records:
  assumes "ids_distinct v"
  shows "ids_distinct (vault_upsert r v) \<and> ids_distinct (fst (vault_remove key v)) \<and> ids_distinct (fst (import_records recs v)) \<and>
    (vault_get v key = Some r' \<longleftrightarrow> r' \<in> set (v_records v) \<and>
      (sr_id r' = key \<or> (\<forall>x\<in>set (v_records v). sr_id x \<noteq> key) \<and> sr_label r' = key \<and>
        length (filter (\<lambda>x. sr_label x = key) (v_records v)) = 1)) \<and>
    vault_get (vault_upsert r v) (sr_id r) = Some r \<and>
    (r' \<in> set (v_records v) \<and> sr_id r' \<noteq> sr_id r \<longrightarrow> vault_get (vault_upsert r v) (sr_id r') = Some r') \<and>
    (case vault_get v key of
       None \<Rightarrow> vault_remove key v = (v, False)
     | Some x \<Rightarrow> vault_remove key v = (v\<lparr>v_records := filter (\<lambda>y. sr_id y \<noteq> sr_id x) (v_records v)\<rparr>, True)) \<and>
    (case import_records recs v of (v', s) \<Rightarrow>
       is_added s + is_replaced s = length recs \<and> length (v_records v') = length (v_records v) + is_added s \<and>
       (\<forall>pre x post. recs = pre @ x # post \<longrightarrow> (\<forall>y\<in>set post. sr_id y \<noteq> sr_id x) \<longrightarrow> vault_get v' (sr_id x) = Some x) \<and>
       (\<forall>x\<in>set (v_records v). (\<forall>y\<in>set recs. sr_id y \<noteq> sr_id x) \<longrightarrow> vault_get v' (sr_id x) = Some x))"
proof -
  have up: "ids_distinct (vault_upsert r v)" "vault_get (vault_upsert r v) (sr_id r) = Some r"
    "r' \<in> set (v_records v) \<and> sr_id r' \<noteq> sr_id r \<longrightarrow> vault_get (vault_upsert r v) (sr_id r') = Some r'"
    using upsert_records [OF assms, of r] by (auto intro: get_id)
  have rem: "ids_distinct (fst (vault_remove key v))" "case vault_get v key of None \<Rightarrow> vault_remove key v = (v, False)
     | Some x \<Rightarrow> vault_remove key v = (v\<lparr>v_records := filter (\<lambda>y. sr_id y \<noteq> sr_id x) (v_records v)\<rparr>, True)"
    using assms remove_at_distinct [of sr_id "v_records v"] vault_index_less [of v key]
    by (auto simp: vault_remove_def vault_get_def ids_distinct_def split: option.split)
  obtain v' s where im: "import_records recs v = (v', s)"
    by (cases "import_records recs v")
  note loop = import_records_loop [OF assms im [unfolded import_records_def]]
  have "vault_get v' (sr_id x) = Some x" if "recs = pre @ x # post" "\<forall>y\<in>set post. sr_id y \<noteq> sr_id x" for pre x post
    using loop that by (intro get_id) blast+
  moreover have "vault_get v' (sr_id x) = Some x" if "x \<in> set (v_records v)" "\<forall>y\<in>set recs. sr_id y \<noteq> sr_id x" for x
    using loop that by (intro get_id) blast+
  ultimately show ?thesis
    using up rem get_iff [OF assms] loop im by simp
qed

theorem vault_records_witness:
  "vault_get (vault_upsert (base_record ''b'') (sample_vault [base_record ''a''])) ''b'' = Some (base_record ''b'') \<and>
   vault_get (vault_upsert (base_record ''b'') (sample_vault [base_record ''a''])) ''a'' = Some (base_record ''a'')"
proof -
  have "ids_distinct (sample_vault [base_record ''a''])" "base_record ''a'' \<in> set (v_records (sample_vault [base_record ''a'']))"
    "sr_id (base_record ''a'') = ''a''" "sr_id (base_record ''b'') = ''b''"
    by (simp_all add: ids_distinct_def sample_vault_def base_record_def)
  then show ?thesis
    using vault_records [of "sample_vault [base_record ''a'']" "base_record ''b''" _ _ "base_record ''a''"] by simp
qed

end
