(* ===== verification/Reconnect.thy ===== *)
theory Reconnect
  imports Supervisor
begin

text \<open>
  The reconnecting tunnel, \<open>crates/leshiy-client/src/reconnect.rs\<close>: the background task that dials again, and the
  \<open>open\<close> calls that hold while it does.

  The two meet in a watch channel: a value, a version that grows with every value, and whether the sender is
  gone. An \<open>open\<close> call is a future; it is given as what one poll of it does, with the time and what the inner
  call on the tunnel has to say as arguments, in the order the code's biased \<open>select\<close> looks at them. \<open>open\<close>,
  \<open>open_datagram\<close> and \<open>open_icmp\<close> are the same loop over different inner calls. Tunnels are numbered. The background
  task is one step per await that resolves; \<open>tokio::time::timeout_at\<close> polls its future before its timer.
\<close>

section \<open>Definitions\<close>

record reconnect_params =
  rp_base :: duration
  rp_max :: duration
  rp_hold :: duration

definition default_params :: reconnect_params where
  "default_params = \<lparr>rp_base = 500 * 1000000, rp_max = 30 * 1000000000, rp_hold = 5 * 1000000000\<rparr>"

record watch =
  wt_value :: "nat option"
  wt_version :: nat
  wt_sender_gone :: bool
  wt_receivers_gone :: bool

text \<open>\<open>watch::Sender::send\<close> fails exactly when no receiver is left, and then changes nothing.\<close>

definition watch_send :: "nat option \<Rightarrow> watch \<Rightarrow> watch option" where
  "watch_send v w =
     (if wt_receivers_gone w then None else Some (w\<lparr>wt_value := v, wt_version := wt_version w + 1\<rparr>))"

datatype dial_phase =
    Live nat
  | Dialing u32
  | BackingOff u32 duration
  | Stopped

datatype dial_event = TunnelClosed | Kicked | DialOk nat | DialErr | Slept

definition spawn_with_kick :: "nat \<Rightarrow> dial_phase \<times> watch" where
  "spawn_with_kick seed =
     (Live seed, \<lparr>wt_value = Some seed, wt_version = 0, wt_sender_gone = False, wt_receivers_gone = False\<rparr>)"

definition supervise_step :: "reconnect_params \<Rightarrow> dial_event \<Rightarrow> dial_phase \<times> watch \<Rightarrow> dial_phase \<times> watch" where
  "supervise_step ps e = (\<lambda>(ph, w).
     (case (ph, e) of
        (Live t, TunnelClosed) \<Rightarrow>
          (case watch_send None w of None \<Rightarrow> (Stopped, w\<lparr>wt_sender_gone := True\<rparr>) | Some w \<Rightarrow> (Dialing 0, w))
      | (Live t, Kicked) \<Rightarrow>
          (case watch_send None w of None \<Rightarrow> (Stopped, w\<lparr>wt_sender_gone := True\<rparr>) | Some w \<Rightarrow> (Dialing 0, w))
      | (Dialing attempt, DialOk t) \<Rightarrow>
          (case watch_send (Some t) w of None \<Rightarrow> (Stopped, w\<lparr>wt_sender_gone := True\<rparr>) | Some w \<Rightarrow> (Live t, w))
      | (Dialing attempt, DialErr) \<Rightarrow>
          (BackingOff (sat_add32 attempt 1) (backoff_delay_of attempt (rp_base ps) (rp_max ps)), w)
      | (BackingOff attempt d, Slept) \<Rightarrow> (Dialing attempt, w)
      | _ \<Rightarrow> (ph, w)))"

text \<open>One \<open>open\<close> call; \<open>OpenDone (Ok t)\<close> is a stream of tunnel \<open>t\<close>.\<close>

datatype open_state =
    LoopHead
  | Trying nat nat
  | Holding nat
  | OpenDone "unit + nat"

definition loop_head :: "nat \<Rightarrow> nat \<Rightarrow> watch \<Rightarrow> open_state" where
  "loop_head deadline now w =
     (if deadline \<le> now then OpenDone (Err ())
      else case wt_value w of
        Some t \<Rightarrow> Trying t (wt_version w)
      | None \<Rightarrow> Holding (wt_version w))"

definition poll_hold :: "nat \<Rightarrow> nat \<Rightarrow> watch \<Rightarrow> nat \<Rightarrow> open_state" where
  "poll_hold deadline now w seen =
     (if wt_version w \<noteq> seen then loop_head deadline now w
      else if wt_sender_gone w then OpenDone (Err ())
      else if deadline \<le> now then OpenDone (Err ())
      else Holding seen)"

text \<open>\<open>inner\<close> is what the inner call says when it is polled: nothing yet, an error, or a stream.\<close>

definition open_poll :: "nat \<Rightarrow> nat \<Rightarrow> (unit + unit) option \<Rightarrow> watch \<Rightarrow> open_state \<Rightarrow> open_state" where
  "open_poll deadline now inner w st =
     (case st of
        LoopHead \<Rightarrow> loop_head deadline now w
      | Trying t seen \<Rightarrow>
          if deadline \<le> now then OpenDone (Err ())
          else if wt_version w \<noteq> seen then loop_head deadline now w
          else if wt_sender_gone w then OpenDone (Err ())
          else (case inner of
                  None \<Rightarrow> Trying t seen
                | Some (Inr _) \<Rightarrow> OpenDone (Ok t)
                | Some (Inl _) \<Rightarrow> poll_hold deadline now w seen)
      | Holding seen \<Rightarrow> poll_hold deadline now w seen
      | OpenDone r \<Rightarrow> OpenDone r)"

text \<open>
  The wrapper and one caller together: what happens is a step of the task, its end with the runtime, or a poll
  of the call.
\<close>

datatype rc_event =
    Background dial_event
  | TaskAborted
  | Poll nat "(unit + unit) option"

record rc_world =
  rw_phase :: dial_phase
  rw_watch :: watch
  rw_open :: open_state
  rw_now :: nat

definition rc_step :: "reconnect_params \<Rightarrow> nat \<Rightarrow> rc_event \<Rightarrow> rc_world \<Rightarrow> rc_world" where
  "rc_step ps deadline e s =
     (case e of
        Background d \<Rightarrow>
          let (ph, w) = supervise_step ps d (rw_phase s, rw_watch s) in s\<lparr>rw_phase := ph, rw_watch := w\<rparr>
      | TaskAborted \<Rightarrow> s\<lparr>rw_phase := Stopped, rw_watch := (rw_watch s)\<lparr>wt_sender_gone := True\<rparr>\<rparr>
      | Poll now inner \<Rightarrow>
          let now = max now (rw_now s) in
          s\<lparr>rw_open := open_poll deadline now inner (rw_watch s) (rw_open s), rw_now := now\<rparr>)"

definition rc_start :: "nat \<Rightarrow> nat \<Rightarrow> rc_world" where
  "rc_start seed now =
     (let (ph, w) = spawn_with_kick seed in \<lparr>rw_phase = ph, rw_watch = w, rw_open = LoopHead, rw_now = now\<rparr>)"

definition rc_run :: "reconnect_params \<Rightarrow> nat \<Rightarrow> rc_event list \<Rightarrow> rc_world \<Rightarrow> rc_world" where
  "rc_run ps deadline es s = fold (rc_step ps deadline) es s"

section \<open>Lemmas\<close>

text \<open>The channel holds the live tunnel, and nothing while the task dials.\<close>

definition task_inv :: "reconnect_params \<Rightarrow> dial_phase \<Rightarrow> watch \<Rightarrow> bool" where
  "task_inv ps ph w \<longleftrightarrow>
     (case ph of
        Live t \<Rightarrow> wt_value w = Some t
      | Dialing _ \<Rightarrow> wt_value w = None
      | BackingOff _ d \<Rightarrow> wt_value w = None \<and> d \<le> rp_max ps
      | Stopped \<Rightarrow> wt_sender_gone w) \<and>
     (wt_sender_gone w \<longleftrightarrow> ph = Stopped)"

definition call_inv :: "watch \<Rightarrow> open_state \<Rightarrow> bool" where
  "call_inv w st \<longleftrightarrow>
     (case st of
        Trying t seen \<Rightarrow> seen \<le> wt_version w \<and> (wt_version w = seen \<longrightarrow> wt_value w = Some t)
      | Holding seen \<Rightarrow> seen \<le> wt_version w
      | _ \<Rightarrow> True)"

definition rc_inv :: "reconnect_params \<Rightarrow> rc_world \<Rightarrow> bool" where
  "rc_inv ps s \<longleftrightarrow> task_inv ps (rw_phase s) (rw_watch s) \<and> call_inv (rw_watch s) (rw_open s)"

lemma supervise_inv:
  assumes "task_inv ps ph w" and "call_inv w st"
  shows "task_inv ps (fst (supervise_step ps d (ph, w))) (snd (supervise_step ps d (ph, w))) \<and>
    call_inv (snd (supervise_step ps d (ph, w))) st"
  using assms backoff_within
  by (cases ph; cases d; cases st) (auto simp: task_inv_def call_inv_def supervise_step_def watch_send_def)

lemma head_inv: "call_inv w (loop_head deadline now w)"
  by (simp add: call_inv_def loop_head_def split: option.split)

lemma hold_inv: "seen \<le> wt_version w \<Longrightarrow> call_inv w (poll_hold deadline now w seen)"
  using head_inv by (simp add: poll_hold_def) (simp add: call_inv_def)

lemma poll_inv:
  assumes "call_inv w st"
  shows "call_inv w (open_poll deadline now inner w st)"
  using assms head_inv hold_inv
  by (cases st) (auto simp: open_poll_def call_inv_def [of w "Trying _ _"] call_inv_def [of w "Holding _"]
    call_inv_def [of w "OpenDone _"] split: option.split sum.split)

lemma rc_step_inv:
  assumes "rc_inv ps s"
  shows "rc_inv ps (rc_step ps deadline e s)"
proof (cases e)
  case (Background d)
  then show ?thesis
    using assms supervise_inv [of ps "rw_phase s" "rw_watch s" "rw_open s" d]
    by (cases "supervise_step ps d (rw_phase s, rw_watch s)") (simp add: rc_inv_def rc_step_def)
next
  case TaskAborted
  then show ?thesis
    using assms by (auto simp: rc_inv_def rc_step_def task_inv_def call_inv_def split: open_state.splits)
next
  case (Poll now inner)
  then show ?thesis
    using assms poll_inv by (simp add: rc_inv_def rc_step_def Let_def)
qed

lemma rc_run_inv: "rc_inv ps (rc_run ps deadline es (rc_start seed now))"
proof (induction es rule: rev_induct)
  case Nil
  show ?case
    by (simp add: rc_run_def rc_inv_def task_inv_def call_inv_def rc_start_def spawn_with_kick_def)
next
  case (snoc e es)
  then show ?case
    using rc_step_inv by (simp add: rc_run_def)
qed

section \<open>Properties\<close>

text \<open>
  A call on the reconnecting tunnel, whatever the tunnels, the dials and the scheduler do. It only ever
  returns a stream of the tunnel that is live at that moment, and only before its deadline: never one of a
  replaced tunnel, and never while the task dials, when the channel holds no tunnel and calls hold. A poll at
  or after the deadline ends it. As soon as a new tunnel is live, a held call tries it, and two polls before
  the deadline at which the new tunnel accepts give its stream. The delays between dials stay within the
  configured maximum.
\<close>

theorem reconnect_open:
  assumes "s = rc_run ps deadline es (rc_start seed start)"
  shows "((\<forall>r. rw_open s \<noteq> OpenDone r) \<and> rw_open (rc_step ps deadline (Poll now inner) s) = OpenDone (Ok t) \<longrightarrow>
      rw_phase s = Live t \<and> inner = Some (Ok ()) \<and> max now (rw_now s) < deadline) \<and>
    (deadline \<le> now \<longrightarrow> (\<exists>r. rw_open (rc_step ps deadline (Poll now inner) s) = OpenDone r)) \<and>
    (rw_phase s = Dialing a \<or> rw_phase s = BackingOff a d \<longrightarrow> wt_value (rw_watch s) = None) \<and>
    (rw_phase s = BackingOff a d \<longrightarrow> d \<le> rp_max ps) \<and>
    (rw_phase s = Live t \<and> max now (rw_now s) < deadline \<and> rw_open s \<noteq> Holding (wt_version (rw_watch s)) \<and>
      (\<forall>r. rw_open s \<noteq> OpenDone r) \<longrightarrow>
      rw_open (rc_run ps deadline [Poll now (Some (Ok ())), Poll now (Some (Ok ()))] s) = OpenDone (Ok t))"
proof -
  let ?w = "rw_watch s" and ?n = "max now (rw_now s)"
  have inv: "task_inv ps (rw_phase s) ?w" "call_inv ?w (rw_open s)"
    using rc_run_inv [of ps deadline es seed start] assms by (simp_all add: rc_inv_def)
  have poll: "rw_open (rc_step ps deadline (Poll now inner) s) = open_poll deadline ?n inner ?w (rw_open s)" for inner
    by (simp add: rc_step_def Let_def)
  have live: "rw_phase s = Live t'" if "wt_value ?w = Some t'" "\<not> wt_sender_gone ?w" for t'
    using inv(1) that by (auto simp: task_inv_def split: dial_phase.splits)
  have 1: "rw_phase s = Live t \<and> inner = Some (Ok ()) \<and> ?n < deadline"
    if "\<forall>r. rw_open s \<noteq> OpenDone r" "open_poll deadline ?n inner ?w (rw_open s) = OpenDone (Ok t)"
    using that inv(2) live
    by (auto simp: open_poll_def loop_head_def poll_hold_def call_inv_def split: open_state.splits option.splits if_splits sum.splits)
  have 2: "\<exists>r. open_poll deadline n inner ?w (rw_open s) = OpenDone r" if "deadline \<le> n" for n
    using that by (auto simp: open_poll_def loop_head_def poll_hold_def split: open_state.split option.split sum.split)
  have 3: "open_poll deadline ?n (Some (Ok ())) ?w (open_poll deadline ?n (Some (Ok ())) ?w (rw_open s)) = OpenDone (Ok t)"
    if "rw_phase s = Live t" "?n < deadline" "rw_open s \<noteq> Holding (wt_version ?w)" "\<forall>r. rw_open s \<noteq> OpenDone r"
  proof -
    have w: "wt_value ?w = Some t" "\<not> wt_sender_gone ?w"
      using inv(1) that(1) by (auto simp: task_inv_def)
    show ?thesis
      using that(2-4) w inv(2) by (cases "rw_open s") (auto simp: open_poll_def loop_head_def poll_hold_def call_inv_def)
  qed
  have two: "rw_open (rc_run ps deadline [Poll now (Some (Ok ())), Poll now (Some (Ok ()))] s) =
      open_poll deadline ?n (Some (Ok ())) ?w (open_poll deadline ?n (Some (Ok ())) ?w (rw_open s))"
    by (simp add: rc_run_def rc_step_def Let_def)
  show ?thesis
    unfolding poll two using 1 2 3 inv(1) by (auto simp: task_inv_def)
qed

theorem reconnect_open_witness:
  "rw_open (rc_run default_params 100 [Poll 5 (Some (Ok ())), Poll 5 (Some (Ok ()))]
     (rc_run default_params 100 [Poll 0 None, Background TunnelClosed, Poll 1 None, Background (DialOk 9)] (rc_start 4 0))) =
   OpenDone (Ok 9)"
proof -
  let ?s = "rc_run default_params 100 [Poll 0 None, Background TunnelClosed, Poll 1 None, Background (DialOk 9)] (rc_start 4 0)"
  have "rw_phase ?s = Live 9 \<and> max 5 (rw_now ?s) < 100 \<and> rw_open ?s \<noteq> Holding (wt_version (rw_watch ?s)) \<and>
      (\<forall>r. rw_open ?s \<noteq> OpenDone r)"
    by (simp add: rc_run_def rc_start_def rc_step_def spawn_with_kick_def supervise_step_def watch_send_def open_poll_def
        loop_head_def poll_hold_def Let_def)
  then show ?thesis
    using reconnect_open [of ?s default_params 100] by blast
qed

end
