(* ===== verification/IpText.thy ===== *)
theory IpText
  imports Config NetGuard
begin

text \<open>
  Addresses as text: the parser and the formatter of \<open>std::net\<close> that the program's address handling rests on,
  and the \<open>host:port\<close> helpers of \<open>crates/leshiy-reality/src/addr.rs\<close>.

  A parser takes the text that is left and gives a value with the text after it; where it fails the caller
  goes on with the text it had, which is \<open>read_atomically\<close>. The main fact is that reading what was written gives
  the address back, for every IPv4 and IPv6 address, with the longest run of zeros compressed and the
  IPv4-mapped form.
\<close>

section \<open>Definitions\<close>

subsection \<open>The parser of std::net\<close>

definition to_digit :: "nat \<Rightarrow> char \<Rightarrow> nat option" where
  "to_digit radix c =
     (let n = of_char c in
      if 48 \<le> n \<and> n \<le> 57 then Some (n - 48)
      else if radix = 16 \<and> 97 \<le> n \<and> n \<le> 102 then Some (n - 87)
      else if radix = 16 \<and> 65 \<le> n \<and> n \<le> 70 then Some (n - 55)
      else None)"

fun read_digits :: "nat \<Rightarrow> nat \<Rightarrow> nat \<Rightarrow> nat \<Rightarrow> string \<Rightarrow> (nat \<times> nat \<times> string) option" where
  "read_digits radix max_digits digits v [] = Some (v, digits, [])"
| "read_digits radix max_digits digits v (c # s) =
     (case to_digit radix c of
        None \<Rightarrow> Some (v, digits, c # s)
      | Some d \<Rightarrow> if max_digits < digits + 1 then None else read_digits radix max_digits (digits + 1) (v * radix + d) s)"

definition read_number :: "nat \<Rightarrow> nat \<Rightarrow> bool \<Rightarrow> nat \<Rightarrow> string \<Rightarrow> (nat \<times> string) option" where
  "read_number radix max_digits allow_zero_prefix bound s =
     (case read_digits radix max_digits 0 0 s of
        None \<Rightarrow> None
      | Some (v, digits, rest) \<Rightarrow>
          if digits = 0 then None
          else if \<not> allow_zero_prefix \<and> take 1 s = ''0'' \<and> 1 < digits then None
          else if v < bound then Some (v, rest) else None)"

definition read_given_char :: "char \<Rightarrow> string \<Rightarrow> string option" where
  "read_given_char c s = (case s of [] \<Rightarrow> None | d # r \<Rightarrow> if d = c then Some r else None)"

definition read_separator :: "char \<Rightarrow> nat \<Rightarrow> (string \<Rightarrow> ('a \<times> string) option) \<Rightarrow> string \<Rightarrow> ('a \<times> string) option" where
  "read_separator sep index inner s =
     (if 0 < index then Option.bind (read_given_char sep s) inner else inner s)"

definition read_octet :: "nat \<Rightarrow> string \<Rightarrow> (nat \<times> string) option" where
  "read_octet i = read_separator CHR ''.'' i (read_number 10 3 False 256)"

definition read_ipv4_addr :: "string \<Rightarrow> (bytes \<times> string) option" where
  "read_ipv4_addr s =
     Option.bind (read_octet 0 s) (\<lambda>(a, s). Option.bind (read_octet 1 s) (\<lambda>(b, s).
     Option.bind (read_octet 2 s) (\<lambda>(c, s). Option.bind (read_octet 3 s) (\<lambda>(d, s).
     Some ([of_nat a, of_nat b, of_nat c, of_nat d], s)))))"

text \<open>Groups read so far, whether an IPv4 address ended them, and the text left.\<close>

function read_groups :: "nat \<Rightarrow> nat \<Rightarrow> u16 list \<Rightarrow> string \<Rightarrow> u16 list \<times> bool \<times> string" where
  "read_groups limit i groups s =
     (if limit \<le> i then (groups, False, s)
      else case (if i < limit - 1 then read_separator CHR '':'' i read_ipv4_addr s else None) of
        Some (v4, s) \<Rightarrow> (groups @ [u16_from_be (take 2 v4), u16_from_be (drop 2 v4)], True, s)
      | None \<Rightarrow>
          (case read_separator CHR '':'' i (read_number 16 4 True 65536) s of
             None \<Rightarrow> (groups, False, s)
           | Some (g, s) \<Rightarrow> read_groups limit (i + 1) (groups @ [of_nat g]) s))"
  by auto
termination
  by (relation "measure (\<lambda>(limit, i, _). limit - i)") auto

declare read_groups.simps [simp del]

definition read_ipv6_addr :: "string \<Rightarrow> (u16 list \<times> string) option" where
  "read_ipv6_addr s =
     (let (head, head_ipv4, s) = read_groups 8 0 [] s in
      if length head = 8 then Some (head, s)
      else if head_ipv4 then None
      else Option.bind (read_given_char CHR '':'' s) (\<lambda>s. Option.bind (read_given_char CHR '':'' s) (\<lambda>s.
        let (tail, _, s) = read_groups (8 - (length head + 1)) 0 [] s in
        Some (head @ replicate (8 - length tail - length head) 0 @ tail, s))))"

definition seg_bytes :: "u16 list \<Rightarrow> bytes" where
  "seg_bytes gs = concat (map u16_to_be gs)"

definition all_read :: "('a \<times> string) option \<Rightarrow> 'a option" where
  "all_read r = (case r of Some (v, []) \<Rightarrow> Some v | _ \<Rightarrow> None)"

definition parse_ipv6 :: "string \<Rightarrow> bytes option" where
  "parse_ipv6 s = map_option seg_bytes (all_read (read_ipv6_addr s))"

definition parse_ipv4 :: "string \<Rightarrow> bytes option" where
  "parse_ipv4 s = (if 15 < length s then None else all_read (read_ipv4_addr s))"

definition read_ip_addr :: "string \<Rightarrow> (ip_addr \<times> string) option" where
  "read_ip_addr s =
     (case read_ipv4_addr s of
        Some (v4, s) \<Rightarrow> Some (V4 v4, s)
      | None \<Rightarrow> map_option (\<lambda>(gs, s). (V6 (seg_bytes gs), s)) (read_ipv6_addr s))"

definition parse_ip :: "string \<Rightarrow> ip_addr option" where
  "parse_ip s = all_read (read_ip_addr s)"

subsection \<open>The formatter\<close>

fun show_radix :: "nat \<Rightarrow> nat \<Rightarrow> string" where
  "show_radix r n =
     (let d = (\<lambda>k. char_of (if k < 10 then 48 + k else 87 + k)) in
      if n < r \<or> r < 2 then [d n] else show_radix r (n div r) @ [d (n mod r)])"

declare show_radix.simps [simp del]

definition show_ipv4 :: "bytes \<Rightarrow> string" where
  "show_ipv4 b = show_nat (unat (b ! 0)) @ ''.'' @ show_nat (unat (b ! 1)) @ ''.'' @ show_nat (unat (b ! 2)) @ ''.'' @
     show_nat (unat (b ! 3))"

fun segments :: "bytes \<Rightarrow> u16 list" where
  "segments (a # b # bs) = u16_from_be [a, b] # segments bs"
| "segments _ = []"

text \<open>The longest run of zero segments as start and length, the first one of several.\<close>

fun longest_zeros :: "nat \<Rightarrow> nat \<times> nat \<Rightarrow> nat \<times> nat \<Rightarrow> u16 list \<Rightarrow> nat \<times> nat" where
  "longest_zeros i current best [] = best"
| "longest_zeros i current best (g # gs) =
     (if g = 0
      then let current = (if snd current = 0 then i else fst current, snd current + 1) in
           longest_zeros (i + 1) current (if snd best < snd current then current else best) gs
      else longest_zeros (i + 1) (0, 0) best gs)"

fun fmt_subslice :: "u16 list \<Rightarrow> string" where
  "fmt_subslice [] = []"
| "fmt_subslice [g] = show_radix 16 (unat g)"
| "fmt_subslice (g # gs) = show_radix 16 (unat g) @ '':'' @ fmt_subslice gs"

definition show_ipv6 :: "bytes \<Rightarrow> string" where
  "show_ipv6 b =
     (case to_ipv4_mapped b of
        Some v4 \<Rightarrow> ''::ffff:'' @ show_ipv4 v4
      | None \<Rightarrow>
          let gs = segments b; (start, len) = longest_zeros 0 (0, 0) (0, 0) gs in
          if 1 < len then fmt_subslice (take start gs) @ ''::'' @ fmt_subslice (drop (start + len) gs)
          else fmt_subslice gs)"

fun show_ip :: "ip_addr \<Rightarrow> string" where
  "show_ip (V4 b) = show_ipv4 b"
| "show_ip (V6 b) = show_ipv6 b"

subsection \<open>addr.rs\<close>

definition join_host_port :: "string \<Rightarrow> u16 \<Rightarrow> string" where
  "join_host_port host port =
     (if parse_ipv6 host \<noteq> None then ''['' @ host @ '']:'' @ show_nat (unat port)
      else host @ '':'' @ show_nat (unat port))"

definition split_host_port :: "string \<Rightarrow> string \<times> string option" where
  "split_host_port s =
     (let plain =
        (if parse_ipv6 s \<noteq> None then (s, None)
         else (case rsplit_once CHR '':'' s of
                 Some (h, p) \<Rightarrow> if p \<noteq> [] \<and> list_all is_digit p then (h, Some p) else (s, None)
               | None \<Rightarrow> (s, None)))
      in case s of
           c # rest \<Rightarrow>
             if c = CHR ''['' then
               (case split_once CHR '']'' rest of
                  Some (host, after) \<Rightarrow>
                    (host, (case after of d # p \<Rightarrow> if d = CHR '':'' \<and> p \<noteq> [] then Some p else None | [] \<Rightarrow> None))
                | None \<Rightarrow> plain)
             else plain
         | [] \<Rightarrow> plain)"

text \<open>\<open>SocketAddr::from_str\<close>.\<close>

definition read_port :: "string \<Rightarrow> (u16 \<times> string) option" where
  "read_port s =
     Option.bind (read_given_char CHR '':'' s) (\<lambda>s.
     map_option (\<lambda>(p, s). (of_nat p, s)) (read_number 10 (length s) True 65536 s))"

definition read_scope_id :: "string \<Rightarrow> (u32 \<times> string) option" where
  "read_scope_id s =
     Option.bind (read_given_char CHR ''%'' s) (\<lambda>s.
     map_option (\<lambda>(p, s). (of_nat p, s)) (read_number 10 (length s) True (2 ^ 32) s))"

definition read_socket_addr_v6 :: "string \<Rightarrow> ((ip_addr \<times> u16) \<times> string) option" where
  "read_socket_addr_v6 s =
     Option.bind (read_given_char CHR ''['' s) (\<lambda>s.
     Option.bind (read_ipv6_addr s) (\<lambda>(ip, s).
     let s = (case read_scope_id s of None \<Rightarrow> s | Some (_, s) \<Rightarrow> s) in
     Option.bind (read_given_char CHR '']'' s) (\<lambda>s.
     Option.bind (read_port s) (\<lambda>(p, s). Some ((V6 (seg_bytes ip), p), s)))))"

definition read_socket_addr :: "string \<Rightarrow> ((ip_addr \<times> u16) \<times> string) option" where
  "read_socket_addr s =
     (case Option.bind (read_ipv4_addr s) (\<lambda>(ip, s). Option.bind (read_port s) (\<lambda>(p, s). Some ((V4 ip, p), s))) of
        Some r \<Rightarrow> Some r
      | None \<Rightarrow> read_socket_addr_v6 s)"

definition parse_socket_addr :: "string \<Rightarrow> (ip_addr \<times> u16) option" where
  "parse_socket_addr s = all_read (read_socket_addr s)"

definition ensure_port :: "string \<Rightarrow> u16 \<Rightarrow> string" where
  "ensure_port hostport default_port =
     (if parse_socket_addr hostport \<noteq> None then hostport
      else if parse_ipv6 hostport \<noteq> None then ''['' @ hostport @ '']:'' @ show_nat (unat default_port)
      else if hostport \<noteq> [] \<and> hd hostport = CHR ''['' \<and> last hostport = CHR '']''
      then hostport @ '':'' @ show_nat (unat default_port)
      else (case rsplit_once CHR '':'' hostport of
              Some (_, p) \<Rightarrow>
                if parse_u16 p \<noteq> None then hostport else hostport @ '':'' @ show_nat (unat default_port)
            | None \<Rightarrow> hostport @ '':'' @ show_nat (unat default_port)))"

section \<open>Lemmas\<close>

lemma to_digit_digit: "k < 10 \<Longrightarrow> to_digit r (char_of (48 + k)) = Some k"
  by (simp add: to_digit_def Let_def)

lemma to_digit_hex: "k < 16 \<Longrightarrow> \<not> k < 10 \<Longrightarrow> to_digit 16 (char_of (87 + k)) = Some k"
  by (simp add: to_digit_def Let_def)

lemma to_digit_sep [simp]: "to_digit r CHR '':'' = None" "to_digit r CHR ''.'' = None" "to_digit r CHR '']'' = None"
  "to_digit r CHR ''['' = None"
  by (simp_all add: to_digit_def Let_def)

lemma show_nat_radix: "show_nat n = show_radix 10 n"
proof (induction n rule: less_induct)
  case (less n)
  show ?case
  proof (cases "n < 10")
    case True
    then show ?thesis
      by (simp add: show_nat.simps [of n] show_radix.simps [of 10 n])
  next
    case False
    then show ?thesis
      using less [of "n div 10"] by (simp add: show_nat.simps [of n] show_radix.simps [of 10 n])
  qed
qed

lemma read_digits_show:
  assumes "r = 10 \<or> r = 16"
  shows "read_digits r mx digits v (show_radix r n @ rest) =
    (if digits + length (show_radix r n) \<le> mx
     then read_digits r mx (digits + length (show_radix r n)) (v * r ^ length (show_radix r n) + n) rest else None)"
proof (induction n arbitrary: rest rule: less_induct)
  case (less n)
  have dig: "to_digit r (char_of (if k < 10 then 48 + k else 87 + k)) = Some k" if "k < r" for k
    using that assms to_digit_digit [of k] to_digit_hex [of k] by auto
  show ?case
  proof (cases "n < r")
    case True
    then show ?thesis
      using dig [OF True] by (simp add: show_radix.simps [of r n])
  next
    case False
    have r: "1 < r" "n mod r < r" "n div r < n"
      using assms False by auto
    have eq: "show_radix r n = show_radix r (n div r) @ [char_of (if n mod r < 10 then 48 + n mod r else 87 + n mod r)]"
      using False r(1) by (simp add: show_radix.simps [of r n])
    have "(v * r ^ length (show_radix r (n div r)) + n div r) * r + n mod r = v * r ^ Suc (length (show_radix r (n div r))) + n"
      by (simp add: algebra_simps)
    then show ?thesis
      unfolding eq using less [OF r(3)] dig [OF r(2)] by simp
  qed
qed

lemma show_radix_length: "2 \<le> r \<Longrightarrow> n < r ^ Suc k \<Longrightarrow> length (show_radix r n) \<le> Suc k"
proof (induction k arbitrary: n)
  case 0
  then show ?case
    by (simp add: show_radix.simps [of r n])
next
  case (Suc k)
  then have "n div r < r ^ Suc k"
    by (simp add: less_mult_imp_div_less mult.commute)
  then show ?case
    using Suc by (simp add: show_radix.simps [of r n])
qed

lemma show_radix_nonempty: "0 < length (show_radix r n)"
  by (simp add: show_radix.simps [of r n] Let_def)

lemma show_radix_chars:
  assumes "r = 10 \<or> r = 16" and "c \<in> set (show_radix r n)"
  shows "to_digit r c \<noteq> None"
  using assms(2)
proof (induction n rule: less_induct)
  case (less n)
  have dig: "to_digit r (char_of (if k < 10 then 48 + k else 87 + k)) = Some k" if "k < r" for k
    using that assms(1) to_digit_digit [of k] to_digit_hex [of k] by auto
  show ?case
  proof (cases "n < r")
    case True
    then show ?thesis
      using less.prems dig [OF True] by (auto simp: show_radix.simps [of r n])
  next
    case False
    then have d: "n div r < n" "n mod r < r"
      using assms(1) by auto
    have "c \<in> set (show_radix r (n div r)) \<or> c = char_of (if n mod r < 10 then 48 + n mod r else 87 + n mod r)"
      using less.prems False assms(1) by (auto simp: show_radix.simps [of r n])
    then show ?thesis
      using less.IH [OF d(1)] dig [OF d(2)] by (metis option.distinct(1))
  qed
qed

lemma show_no_sep: "c \<in> {CHR '':'', CHR ''.'', CHR '']'', CHR ''[''} \<Longrightarrow> r = 10 \<or> r = 16 \<Longrightarrow> c \<notin> set (show_radix r n)"
  using show_radix_chars [of r c n] by auto

lemma show_radix_hd: "0 < n \<Longrightarrow> hd (show_radix 10 n) \<noteq> CHR ''0''"
proof (induction n rule: less_induct)
  case (less n)
  show ?case
  proof (cases "n < 10")
    case True
    have "(of_char (char_of (48 + n)) :: nat) \<noteq> of_char CHR ''0''"
      using True less.prems by simp
    then have "char_of (48 + n) \<noteq> CHR ''0''"
      by metis
    then show ?thesis
      using True by (simp add: show_radix.simps [of 10 n])
  next
    case False
    then have "hd (show_radix 10 n) = hd (show_radix 10 (n div 10))"
      using show_radix_nonempty [of 10 "n div 10"] by (simp add: show_radix.simps [of 10 n])
    moreover have "hd (show_radix 10 (n div 10)) \<noteq> CHR ''0''"
      using less.IH [of "n div 10"] False by simp
    ultimately show ?thesis
      by simp
  qed
qed

lemma leading_zero: "take 1 (show_radix 10 n @ rest) = ''0'' \<Longrightarrow> length (show_radix 10 n) = 1"
  using show_radix_hd [of n] show_radix_nonempty [of 10 n]
  by (cases "n = 0"; cases "show_radix 10 n") (simp_all add: show_radix.simps [of 10 0])

definition stops :: "nat \<Rightarrow> string \<Rightarrow> bool" where
  "stops r rest \<longleftrightarrow> (case rest of [] \<Rightarrow> True | c # _ \<Rightarrow> to_digit r c = None)"

lemma read_digits_stops: "stops r rest \<Longrightarrow> read_digits r mx k v rest = Some (v, k, rest)"
  by (cases rest) (simp_all add: stops_def)

lemma read_octet_show:
  assumes "n < 256" and "stops 10 rest"
  shows "read_number 10 3 False 256 (show_nat n @ rest) = Some (n, rest)"
proof -
  have l: "length (show_radix 10 n) \<le> 3" "0 < length (show_radix 10 n)"
    using show_radix_length [of 10 n 2] show_radix_nonempty assms(1) by auto
  have "take 1 (show_radix 10 n @ rest) = ''0'' \<longrightarrow> \<not> 1 < length (show_radix 10 n)"
    using leading_zero [of n rest] by auto
  then show ?thesis
    using assms l read_digits_show [of 10 3 0 0 n rest] by (auto simp: read_number_def show_nat_radix read_digits_stops)
qed

lemma read_group_show:
  assumes "n < 65536" and "stops 16 rest"
  shows "read_number 16 4 True 65536 (show_radix 16 n @ rest) = Some (n, rest)"
proof -
  have "length (show_radix 16 n) \<le> 4" "0 < length (show_radix 16 n)"
    using show_radix_length [of 16 n 3] show_radix_nonempty assms(1) by auto
  then show ?thesis
    using assms read_digits_show [of 16 4 0 0 n rest] by (auto simp: read_number_def read_digits_stops)
qed

lemma read_ipv4_show:
  assumes "length b = 4" and "stops 10 rest"
  shows "read_ipv4_addr (show_ipv4 b @ rest) = Some (b, rest)"
proof -
  obtain b0 b1 b2 b3 where b: "b = [b0, b1, b2, b3]"
    using assms(1) by (auto simp: length_Suc_conv numeral_eq_Suc)
  have u: "unat (x :: u8) < 256" for x
    using unat_bound [of x] by simp
  have dot: "stops 10 (CHR ''.'' # s)" for s
    by (simp add: stops_def)
  show ?thesis
    using assms(2) by (simp add: b read_ipv4_addr_def show_ipv4_def read_octet_def read_separator_def read_given_char_def
        read_octet_show u dot)
qed

lemma read_digits_suffix: "read_digits r mx k v s = Some (v', k', rest) \<Longrightarrow> set rest \<subseteq> set s"
  by (induction r mx k v s rule: read_digits.induct) (auto split: option.splits if_splits)

lemma read_number_suffix: "read_number r mx z b s = Some (v, rest) \<Longrightarrow> set rest \<subseteq> set s"
  by (auto simp: read_number_def dest!: read_digits_suffix split: option.splits if_splits)

lemma read_ipv4_no_dot:
  assumes "CHR ''.'' \<notin> set s"
  shows "read_ipv4_addr s = None"
proof (cases "read_octet 0 s")
  case (Some ar)
  obtain a rest where ar: "ar = (a, rest)"
    by (cases ar)
  then have "CHR ''.'' \<notin> set rest"
    using assms Some read_number_suffix [of 10 3 False 256 s a rest] by (auto simp: read_octet_def read_separator_def)
  then have "read_octet 1 rest = None"
    by (auto simp: read_octet_def read_separator_def read_given_char_def split: list.split)
  then show ?thesis
    using Some ar by (simp add: read_ipv4_addr_def)
qed (simp add: read_ipv4_addr_def)

lemma read_ipv4_colon: "read_ipv4_addr (CHR '':'' # s) = None"
  by (simp add: read_ipv4_addr_def read_octet_def read_separator_def read_number_def)

text \<open>Groups.\<close>

definition text_end :: "string \<Rightarrow> bool" where
  "text_end rest \<longleftrightarrow> CHR ''.'' \<notin> set rest \<and> (rest = [] \<or> hd rest = CHR '']'')"

definition group_end :: "string \<Rightarrow> bool" where
  "group_end rest \<longleftrightarrow> CHR ''.'' \<notin> set rest \<and> (text_end rest \<or> (\<exists>r. rest = ''::'' @ r))"

definition colon_before :: "nat \<Rightarrow> u16 list \<Rightarrow> string" where
  "colon_before i gs = (if 0 < i \<and> gs \<noteq> [] then '':'' else [])"

lemma fmt_cons: "fmt_subslice (g # gs) = show_radix 16 (unat g) @ colon_before 1 gs @ fmt_subslice gs"
  by (cases gs) (simp_all add: colon_before_def)

lemma fmt_no_dot: "CHR ''.'' \<notin> set (fmt_subslice gs)"
  by (induction gs) (auto simp: fmt_cons colon_before_def show_no_sep)

lemma separator_step:
  "gs \<noteq> [] \<Longrightarrow> read_separator CHR '':'' i f (colon_before i gs @ s) = f s"
  by (simp add: read_separator_def colon_before_def read_given_char_def)

lemma separator_end:
  assumes "group_end rest" and "\<And>s. CHR ''.'' \<notin> set s \<Longrightarrow> s = [] \<or> hd s \<in> {CHR '':'', CHR '']''} \<Longrightarrow> f s = None"
  shows "read_separator CHR '':'' i f rest = None"
  using assms by (auto simp: read_separator_def read_given_char_def group_end_def text_end_def split: list.split)

lemma read_number_end: "s = [] \<or> hd s \<in> {CHR '':'', CHR '']''} \<Longrightarrow> read_number 16 4 True 65536 s = None"
  by (cases s) (auto simp: read_number_def)

lemma read_groups_fmt:
  assumes "group_end rest" and "i + length gs \<le> limit"
  shows "read_groups limit i acc (colon_before i gs @ fmt_subslice gs @ rest) = (acc @ gs, False, rest)"
  using assms(2)
proof (induction gs arbitrary: i acc)
  case Nil
  have "read_separator CHR '':'' i read_ipv4_addr rest = None"
    by (rule separator_end [OF assms(1)]) (rule read_ipv4_no_dot)
  moreover have "read_separator CHR '':'' i (read_number 16 4 True 65536) rest = None"
    by (rule separator_end [OF assms(1)]) (rule read_number_end)
  ultimately show ?case
    by (simp add: read_groups.simps [of limit i] colon_before_def)
next
  case (Cons g gs)
  let ?tail = "colon_before (Suc i) gs @ fmt_subslice gs @ rest"
  have str: "colon_before i (g # gs) @ fmt_subslice (g # gs) @ rest = colon_before i (g # gs) @ show_radix 16 (unat g) @ ?tail"
    by (simp add: fmt_cons colon_before_def)
  have dot: "CHR ''.'' \<notin> set (show_radix 16 (unat g) @ ?tail)"
    using assms(1) fmt_no_dot [of gs] by (auto simp: group_end_def colon_before_def show_no_sep)
  have "stops 16 ?tail"
    using assms(1) by (auto simp: stops_def group_end_def text_end_def colon_before_def split: list.split)
  then have num: "read_number 16 4 True 65536 (show_radix 16 (unat g) @ ?tail) = Some (unat g, ?tail)"
    using unat_bound [of g] by (intro read_group_show) simp_all
  have "read_groups limit i acc (colon_before i (g # gs) @ show_radix 16 (unat g) @ ?tail) =
      read_groups limit (Suc i) (acc @ [g]) ?tail"
    using Cons.prems by (simp add: read_groups.simps [of limit i] separator_step read_ipv4_no_dot [OF dot] num)
  then show ?case
    unfolding str using Cons.IH [of "Suc i" "acc @ [g]"] Cons.prems by simp
qed

lemma read_ipv6_full:
  assumes "length gs = 8" and "text_end rest"
  shows "read_ipv6_addr (fmt_subslice gs @ rest) = Some (gs, rest)"
  using read_groups_fmt [of rest 0 gs 8 "[]"] assms by (simp add: read_ipv6_addr_def group_end_def text_end_def colon_before_def)

lemma read_ipv6_gap:
  assumes "length pre + length post < 8" and "text_end rest"
  shows "read_ipv6_addr (fmt_subslice pre @ ''::'' @ fmt_subslice post @ rest) =
    Some (pre @ replicate (8 - length post - length pre) 0 @ post, rest)"
proof -
  have "group_end (''::'' @ fmt_subslice post @ rest)"
    using fmt_no_dot assms(2) by (simp add: group_end_def text_end_def)
  then have "read_groups 8 0 [] (fmt_subslice pre @ ''::'' @ fmt_subslice post @ rest) = (pre, False, ''::'' @ fmt_subslice post @ rest)"
    using read_groups_fmt [of "''::'' @ fmt_subslice post @ rest" 0 pre 8 "[]"] assms(1) by (simp add: colon_before_def)
  moreover have "read_groups (8 - (length pre + 1)) 0 [] (fmt_subslice post @ rest) = (post, False, rest)"
    using read_groups_fmt [of rest 0 post "8 - (length pre + 1)" "[]"] assms
    by (simp add: group_end_def text_end_def colon_before_def)
  ultimately show ?thesis
    using assms(1) by (simp add: read_ipv6_addr_def read_given_char_def)
qed

lemma hex_f: "char_of (102 :: nat) = CHR ''f''"
  by code_simp

lemma read_ipv6_mapped:
  assumes "length b = 4" and "text_end rest"
  shows "read_ipv6_addr (''::ffff:'' @ show_ipv4 b @ rest) =
    Some (replicate 5 0 @ [0xffff, u16_from_be (take 2 b), u16_from_be (drop 2 b)], rest)"
proof -
  have hex: "show_radix 16 65535 = ''ffff''"
    by (simp add: show_radix.simps hex_f)
  have head: "read_groups 8 0 [] (''::ffff:'' @ show_ipv4 b @ rest) = ([], False, ''::ffff:'' @ show_ipv4 b @ rest)"
    by (simp add: read_groups.simps [of 8 0] read_separator_def read_ipv4_colon read_number_end)
  have f: "read_ipv4_addr (CHR ''f'' # s) = None" for s
    by (simp add: read_ipv4_addr_def read_octet_def read_separator_def read_number_def to_digit_def)
  have ffff: "read_number 16 4 True 65536 (''ffff:'' @ show_ipv4 b @ rest) = Some (65535, CHR '':'' # show_ipv4 b @ rest)"
    using read_group_show [of 65535 "CHR '':'' # show_ipv4 b @ rest"] by (simp add: hex stops_def)
  have v4: "read_ipv4_addr (show_ipv4 b @ rest) = Some (b, rest)"
    using assms by (intro read_ipv4_show) (auto simp: stops_def text_end_def split: list.split)
  have "read_groups 7 (Suc 0) [0xffff] (CHR '':'' # show_ipv4 b @ rest) = ([0xffff, u16_from_be (take 2 b), u16_from_be (drop 2 b)], True, rest)"
    by (simp add: read_groups.simps [of 7 "Suc 0"] read_separator_def read_given_char_def v4)
  then have "read_groups 7 0 [] (''ffff:'' @ show_ipv4 b @ rest) = ([0xffff, u16_from_be (take 2 b), u16_from_be (drop 2 b)], True, rest)"
    using ffff by (simp add: read_groups.simps [of 7 0] read_separator_def f)
  then show ?thesis
    using head by (simp add: read_ipv6_addr_def read_given_char_def)
qed

text \<open>The run of zeros that is left out.\<close>

lemma longest_zeros_run:
  assumes "fst cur + snd cur \<le> i" and "snd cur \<noteq> 0 \<longrightarrow> fst cur + snd cur = i"
    and "\<forall>j. fst cur \<le> j \<and> j < fst cur + snd cur \<longrightarrow> (pre @ gs) ! j = 0"
    and "fst best + snd best \<le> i" and "\<forall>j. fst best \<le> j \<and> j < fst best + snd best \<longrightarrow> (pre @ gs) ! j = 0"
    and "length pre = i" and "longest_zeros i cur best gs = (s, l)"
  shows "s + l \<le> length (pre @ gs) \<and> (\<forall>j. s \<le> j \<and> j < s + l \<longrightarrow> (pre @ gs) ! j = 0)"
  using assms
proof (induction gs arbitrary: i cur best pre)
  case Nil
  then show ?case
    by auto
next
  case (Cons g gs)
  show ?case
  proof (cases "g = 0")
    case True
    let ?c = "(if snd cur = 0 then i else fst cur, snd cur + 1)" and ?b = "if snd best < snd cur + 1 then (if snd cur = 0 then i else fst cur, snd cur + 1) else best"
    have g: "((pre @ [g]) @ gs) ! i = 0"
      using True Cons.prems(6) by (simp add: nth_append)
    have zero: "((pre @ [g]) @ gs) ! j = 0" if "fst ?c \<le> j \<and> j < fst ?c + snd ?c" for j
      using that Cons.prems(2,3) g by (cases "j = i") (auto split: if_splits)
    have "s + l \<le> length ((pre @ [g]) @ gs) \<and> (\<forall>j. s \<le> j \<and> j < s + l \<longrightarrow> ((pre @ [g]) @ gs) ! j = 0)"
      by (rule Cons.IH [of ?c "i + 1" "pre @ [g]" ?b]) (use Cons.prems True zero in \<open>auto simp: Let_def split: if_splits\<close>)
    then show ?thesis
      by simp
  next
    case False
    have "s + l \<le> length ((pre @ [g]) @ gs) \<and> (\<forall>j. s \<le> j \<and> j < s + l \<longrightarrow> ((pre @ [g]) @ gs) ! j = 0)"
      by (rule Cons.IH [of "(0, 0)" "i + 1" "pre @ [g]" best]) (use Cons.prems False in auto)
    then show ?thesis
      by simp
  qed
qed

lemma segments_bytes: "even (length b) \<Longrightarrow> seg_bytes (segments b) = b"
  by (induction b rule: segments.induct) (auto simp: seg_bytes_def u16_to_from_be)

lemma length_segments: "length (segments b) = length b div 2"
  by (induction b rule: segments.induct) auto

lemma ipv6_roundtrip:
  assumes "length b = 16" and "text_end rest"
  shows "read_ipv6_addr (show_ipv6 b @ rest) = Some (segments b, rest)"
proof (cases "to_ipv4_mapped b")
  case (Some v4)
  have split: "b = take 12 b @ drop 12 b" "take 12 b = replicate 10 0 @ [0xff, 0xff]" "v4 = drop 12 b"
    using Some assms(1) by (auto simp: to_ipv4_mapped_def slice_def split: if_splits)
  have l: "length v4 = 4"
    using split(3) assms(1) by simp
  then obtain a c d e where v4: "v4 = [a, c, d, e]"
    by (auto simp: length_Suc_conv numeral_eq_Suc)
  have b: "b = replicate 10 0 @ [0xff, 0xff] @ v4"
    using split by (metis append.assoc)
  have "segments b = replicate 5 0 @ [0xffff, u16_from_be (take 2 v4), u16_from_be (drop 2 v4)]"
  proof -
    have z: "replicate 10 (0 :: u8) = [0, 0, 0, 0, 0, 0, 0, 0, 0, 0]" "replicate 5 (0 :: u16) = [0, 0, 0, 0, 0]"
      by (simp_all add: numeral_eq_Suc)
    have u: "u16_from_be [0, 0] = 0" "u16_from_be [0xff, 0xff] = 0xffff"
      by (simp_all add: u16_from_be_def be_value_def)
    show ?thesis
      using b by (simp add: v4 z u)
  qed
  then show ?thesis
    using read_ipv6_mapped [OF l assms(2)] Some by (simp add: show_ipv6_def)
next
  case None
  let ?gs = "segments b"
  have len: "length ?gs = 8"
    using assms(1) by (simp add: length_segments)
  obtain s l where z: "longest_zeros 0 (0, 0) (0, 0) ?gs = (s, l)"
    by (cases "longest_zeros 0 (0, 0) (0, 0) ?gs")
  have run: "s + l \<le> 8" "\<forall>j. s \<le> j \<and> j < s + l \<longrightarrow> ?gs ! j = 0"
    using longest_zeros_run [of "(0, 0)" 0 "[]" ?gs "(0, 0)" s l] z len by auto
  show ?thesis
  proof (cases "1 < l")
    case True
    have "?gs = take s ?gs @ replicate l 0 @ drop (s + l) ?gs"
    proof (rule nth_equalityI)
      show "length ?gs = length (take s ?gs @ replicate l 0 @ drop (s + l) ?gs)"
        using run(1) len by simp
      fix j assume "j < length ?gs"
      then show "?gs ! j = (take s ?gs @ replicate l 0 @ drop (s + l) ?gs) ! j"
        using run len by (simp add: nth_append)
    qed
    moreover have "8 - length (drop (s + l) ?gs) - length (take s ?gs) = l"
      using run(1) len by simp
    ultimately show ?thesis
      using read_ipv6_gap [of "take s ?gs" "drop (s + l) ?gs", OF _ assms(2)] run(1) len True None by (simp add: show_ipv6_def z Let_def)
  next
    case False
    then show ?thesis
      using read_ipv6_full [OF len assms(2)] None by (simp add: show_ipv6_def z)
  qed
qed

lemma show_ipv6_shape:
  assumes "length b = 16"
  shows "read_ipv4_addr (show_ipv6 b) = None"
proof (cases "to_ipv4_mapped b")
  case (Some v4)
  then show ?thesis
    by (simp add: show_ipv6_def read_ipv4_colon)
next
  case None
  then have "CHR ''.'' \<notin> set (show_ipv6 b)"
    using fmt_no_dot by (auto simp: show_ipv6_def Let_def split: prod.split)
  then show ?thesis
    by (rule read_ipv4_no_dot)
qed

lemma parse_show_ip:
  assumes "ip_wf a"
  shows "parse_ip (show_ip a) = Some a"
proof (cases a)
  case (V4 b)
  then show ?thesis
    using read_ipv4_show [of b "[]"] assms by (simp add: parse_ip_def read_ip_addr_def stops_def all_read_def)
next
  case (V6 b)
  then show ?thesis
    using ipv6_roundtrip [of b "[]"] show_ipv6_shape [of b] segments_bytes [of b] assms
    by (simp add: parse_ip_def read_ip_addr_def all_read_def text_end_def)
qed

text \<open>An IPv6 address has at least two colons.\<close>

definition colons :: "string \<Rightarrow> nat" where
  "colons s = length (filter (\<lambda>c. c = CHR '':'') s)"

lemma colons_simps [simp]: "colons [] = 0" "colons (c # s) = (if c = CHR '':'' then 1 else 0) + colons s"
  "colons (s @ s') = colons s + colons s'"
  by (simp_all add: colons_def)

lemma read_digits_colons: "read_digits r mx k v s = Some (v', k', rest) \<Longrightarrow> colons rest = colons s"
  by (induction r mx k v s rule: read_digits.induct) (auto split: option.splits if_splits)

lemma read_number_colons: "read_number r mx z b s = Some (v, rest) \<Longrightarrow> colons rest = colons s"
  by (auto simp: read_number_def dest!: read_digits_colons split: option.splits if_splits)

lemma read_octet_colons: "read_octet i s = Some (v, rest) \<Longrightarrow> colons rest = colons s"
  by (auto simp: read_octet_def read_separator_def read_given_char_def bind_eq_Some_conv dest!: read_number_colons
    split: if_splits list.splits)

lemma read_ipv4_colons: "read_ipv4_addr s = Some (v, rest) \<Longrightarrow> colons rest = colons s"
  by (auto simp: read_ipv4_addr_def bind_eq_Some_conv dest!: read_octet_colons)

lemma separator_colons:
  assumes "read_separator CHR '':'' i f s = Some (v, rest)" and "\<And>s v rest. f s = Some (v, rest) \<Longrightarrow> colons rest = colons s"
  shows "colons s = colons rest + (if 0 < i then 1 else 0)"
  using assms by (auto simp: read_separator_def read_given_char_def bind_eq_Some_conv split: if_splits list.splits)

lemma read_groups_colons:
  "read_groups limit i acc s = (gs, f, rest) \<Longrightarrow>
   colons rest \<le> colons s \<and> colons rest + length gs \<le> colons s + length acc + (if i = 0 then 2 else 1)"
proof (induction limit i acc s rule: read_groups.induct)
  case (1 limit i acc s)
  let ?v4 = "if i < limit - 1 then read_separator CHR '':'' i read_ipv4_addr s else None"
  show ?case
  proof (cases "limit \<le> i")
    case True
    then show ?thesis
      using "1.prems" by (simp add: read_groups.simps [of limit i])
  next
    case False
    show ?thesis
    proof (cases ?v4)
      case (Some vr)
      obtain v r where vr: "vr = (v, r)"
        by (cases vr)
      have "colons s = colons r + (if 0 < i then 1 else 0)"
        using Some vr separator_colons [of i read_ipv4_addr s v r] read_ipv4_colons by (auto split: if_splits)
      then show ?thesis
        using "1.prems" False Some vr by (auto simp: read_groups.simps [of limit i])
    next
      case None
      show ?thesis
      proof (cases "read_separator CHR '':'' i (read_number 16 4 True 65536) s")
        case None': None
        then show ?thesis
          using "1.prems" False None by (simp add: read_groups.simps [of limit i])
      next
        case (Some gr)
        obtain g r where gr: "gr = (g, r)"
          by (cases gr)
        have c: "colons s = colons r + (if 0 < i then 1 else 0)"
          using Some gr separator_colons [of i "read_number 16 4 True 65536" s g r] read_number_colons by auto
        have "read_groups limit (i + 1) (acc @ [of_nat g]) r = (gs, f, rest)"
          using "1.prems" False None Some gr by (simp add: read_groups.simps [of limit i])
        then have "colons rest \<le> colons r \<and> colons rest + length gs \<le> colons r + length (acc @ [of_nat g :: u16]) + 1"
          using "1.IH" [OF False None Some [unfolded gr]] by simp
        then show ?thesis
          using c by simp
      qed
    qed
  qed
qed

lemma few_colons_no_ipv6:
  assumes "colons s < 2"
  shows "parse_ipv6 s = None"
proof -
  obtain gs f r where g: "read_groups 8 0 [] s = (gs, f, r)"
    by (cases "read_groups 8 0 [] s")
  have c: "colons r \<le> colons s" "colons r + length gs \<le> colons s + 2"
    using read_groups_colons [OF g] by simp_all
  have "length gs \<noteq> 8"
    using c assms by simp
  moreover have "Option.bind (read_given_char CHR '':'' r) (read_given_char CHR '':'') = None"
    using c(1) assms by (auto simp: read_given_char_def split: list.split)
  ultimately have "read_ipv6_addr s = None"
    using g by (auto simp: read_ipv6_addr_def bind_eq_None_conv split: option.splits bind_splits)
  then show ?thesis
    by (simp add: parse_ipv6_def all_read_def)
qed

lemma parse_ipv6_show: "length b = 16 \<Longrightarrow> parse_ipv6 (show_ipv6 b) = Some b"
  using ipv6_roundtrip [of b "[]"] segments_bytes [of b] by (simp add: parse_ipv6_def all_read_def text_end_def)

text \<open>Text that starts with an IPv4 address is no IPv6 address.\<close>

lemma ipv4_start_no_ipv6:
  assumes "read_ipv4_addr s = Some (v, r)"
  shows "read_ipv6_addr s = None"
  using assms by (simp add: read_ipv6_addr_def read_groups.simps [of 8 0] read_separator_def)

lemma show_radix_digits: "list_all is_digit (show_radix 10 n)"
proof -
  have "is_digit c" if "c \<in> set (show_radix 10 n)" for c
    using show_radix_chars [of 10 c n] that by (auto simp: to_digit_def is_digit_def Let_def split: if_splits)
  then show ?thesis
    by (simp add: list_all_iff)
qed

lemma dec_value_show: "dec_value (show_radix 10 n) = n"
proof (induction n rule: less_induct)
  case (less n)
  show ?case
  proof (cases "n < 10")
    case True
    then show ?thesis
      by (simp add: show_radix.simps [of 10 n] dec_value_def)
  next
    case False
    then show ?thesis
      using less.IH [of "n div 10"] by (simp add: show_radix.simps [of 10 n] dec_value_def)
  qed
qed

lemma parse_u16_show: "parse_u16 (show_nat (unat p)) = Some p"
proof -
  have plus: "\<not> is_digit CHR ''+''"
    by (simp add: is_digit_def)
  have ne: "show_radix 10 (unat p) \<noteq> []"
    using show_radix_nonempty [of 10 "unat p"] by auto
  have "(case show_radix 10 (unat p) of [] \<Rightarrow> [] | c # r \<Rightarrow> if c = CHR ''+'' then r else show_radix 10 (unat p)) = show_radix 10 (unat p)"
    using plus show_radix_digits [of "unat p"] by (auto split: list.split)
  then show ?thesis
    using ne show_radix_digits [of "unat p"] dec_value_show [of "unat p"] unat_bound [of p]
    by (cases "show_radix 10 (unat p)") (auto simp: parse_u16_def show_nat_radix)
qed

lemma read_port_show: "stops 10 rest \<Longrightarrow> read_port (CHR '':'' # show_nat (unat p) @ rest) = Some (p, rest)"
  using read_digits_show [of 10 "length (show_radix 10 (unat p) @ rest)" 0 0 "unat p" rest] unat_bound [of p]
    show_radix_nonempty [of 10 "unat p"]
  by (auto simp: read_port_def read_given_char_def read_number_def show_nat_radix read_digits_stops)

lemma show_ipv6_no_bracket: "CHR '']'' \<notin> set (show_ipv6 b)" "CHR ''['' \<notin> set (show_ipv6 b)" "CHR ''%'' \<notin> set (show_ipv6 b)"
proof -
  have pct: "to_digit r CHR ''%'' = None" for r
    by (simp add: to_digit_def Let_def)
  have radix: "c \<notin> set (show_radix r n)" if "c = CHR '']'' \<or> c = CHR ''['' \<or> c = CHR ''%''" "r = 10 \<or> r = 16" for c r n
    using show_radix_chars [OF that(2), of c n] that(1) pct by auto
  have fmt: "c \<notin> set (fmt_subslice gs)" if "c = CHR '']'' \<or> c = CHR ''['' \<or> c = CHR ''%''" for c gs
    using that by (induction gs) (auto simp: fmt_cons colon_before_def radix)
  have "c \<notin> set (show_ipv6 b)" if "c = CHR '']'' \<or> c = CHR ''['' \<or> c = CHR ''%''" for c
    using that fmt radix by (auto simp: show_ipv6_def show_ipv4_def show_nat_radix Let_def split: option.split prod.split)
  then show "CHR '']'' \<notin> set (show_ipv6 b)" "CHR ''['' \<notin> set (show_ipv6 b)" "CHR ''%'' \<notin> set (show_ipv6 b)"
    by simp_all
qed

lemma split_bracketed: "CHR '']'' \<notin> set host \<Longrightarrow> p \<noteq> [] \<Longrightarrow> split_host_port (''['' @ host @ '']:'' @ p) = (host, Some p)"
  using split_once_append [of "CHR '']''" host "CHR '':'' # p"] by (simp add: split_host_port_def Let_def)

lemma rsplit_port:
  assumes "CHR '':'' \<notin> set p"
  shows "rsplit_once CHR '':'' (h @ '':'' @ p) = Some (h, p)"
  using split_once_append [of "CHR '':''" "rev p" "rev h"] assms by (simp add: rsplit_once_def)

lemma port_text: "CHR '':'' \<notin> set (show_nat n)" "show_nat n \<noteq> []" "list_all is_digit (show_nat n)"
  using show_no_sep [of "CHR '':''" 10 n] show_radix_nonempty [of 10 n] show_radix_digits [of n] by (auto simp: show_nat_radix)

lemma split_plain:
  assumes "take 1 h \<noteq> ''[''" and "parse_ipv6 (h @ '':'' @ show_nat n) = None"
  shows "split_host_port (h @ '':'' @ show_nat n) = (h, Some (show_nat n))"
proof -
  have "(h @ '':'' @ show_nat n) = c # s \<Longrightarrow> c \<noteq> CHR ''[''" for c s
    using assms(1) by (cases h) auto
  then show ?thesis
    using assms(2) rsplit_port [OF port_text(1), of h n] port_text(2,3) [of n]
    by (simp add: split_host_port_def Let_def split: list.split)
qed

text \<open>What the program joins with a port: the text of an address, or a host name.\<close>

definition host_name :: "string \<Rightarrow> bool" where
  "host_name h \<longleftrightarrow> CHR '':'' \<notin> set h \<and> take 1 h \<noteq> ''[''"

lemma name_colons: "CHR '':'' \<notin> set h \<Longrightarrow> colons h = 0"
  by (induction h) auto

lemma name_no_ipv6:
  assumes "CHR '':'' \<notin> set h"
  shows "parse_ipv6 h = None" "parse_ipv6 (h @ '':'' @ show_nat n) = None"
  using name_colons [OF assms] name_colons [OF port_text(1), of n] by (auto intro!: few_colons_no_ipv6)

lemma show_ipv4_name: "host_name (show_ipv4 b)"
proof -
  obtain c s where c: "show_radix 10 (unat (b ! 0)) = c # s"
    using show_radix_nonempty [of 10 "unat (b ! 0)"] by (cases "show_radix 10 (unat (b ! 0))") auto
  have "c \<noteq> CHR ''[''"
    using show_no_sep [of "CHR ''[''" 10 "unat (b ! 0)"] c by auto
  then show ?thesis
    using c show_no_sep [of "CHR '':''" 10 "unat (b ! 0)"] by (auto simp: host_name_def show_ipv4_def show_nat_radix show_no_sep)
qed

lemma join_name: "host_name h \<Longrightarrow> join_host_port h port = h @ '':'' @ show_nat (unat port)"
  by (simp add: join_host_port_def host_name_def name_no_ipv6)

lemma join_ipv6: "length b = 16 \<Longrightarrow> join_host_port (show_ipv6 b) port = ''['' @ show_ipv6 b @ '']:'' @ show_nat (unat port)"
  by (simp add: join_host_port_def parse_ipv6_show)

lemma socket_v4_show:
  assumes "length b = 4"
  shows "parse_socket_addr (show_ipv4 b @ '':'' @ show_nat (unat port)) = Some (V4 b, port)"
  using read_ipv4_show [OF assms, of "'':'' @ show_nat (unat port)"] read_port_show [of "[]" port]
  by (simp add: parse_socket_addr_def read_socket_addr_def all_read_def stops_def)

lemma socket_v6_show:
  assumes "length b = 16"
  shows "parse_socket_addr (''['' @ show_ipv6 b @ '']:'' @ show_nat (unat port)) = Some (V6 b, port)"
proof -
  have "text_end ('']:'' @ show_nat (unat port))"
    using show_no_sep [of "CHR ''.''" 10 "unat port"] by (simp add: text_end_def show_nat_radix)
  then have "read_ipv6_addr (show_ipv6 b @ '']:'' @ show_nat (unat port)) = Some (segments b, '']:'' @ show_nat (unat port))"
    by (rule ipv6_roundtrip [OF assms])
  moreover have "read_ipv4_addr (CHR ''['' # s) = None" for s
    by (simp add: read_ipv4_addr_def read_octet_def read_separator_def read_number_def)
  ultimately show ?thesis
    using assms segments_bytes [of b] read_port_show [of "[]" port]
    by (simp add: parse_socket_addr_def read_socket_addr_def read_socket_addr_v6_def read_given_char_def read_scope_id_def
        all_read_def stops_def)
qed

lemma name_no_socket: "host_name h \<Longrightarrow> parse_socket_addr h = None"
proof -
  assume h: "host_name h"
  have "Option.bind (read_ipv4_addr h) (\<lambda>(ip, s). Option.bind (read_port s) (\<lambda>(p, s). Some ((V4 ip, p), s))) = None"
  proof (cases "read_ipv4_addr h")
    case (Some vs)
    obtain v r where vs: "vs = (v, r)"
      by (cases vs)
    have "colons r = 0"
      using read_ipv4_colons [of h v r] name_colons [of h] h Some vs by (simp add: host_name_def)
    then have "read_port r = None"
      by (cases r) (auto simp: read_port_def read_given_char_def split: if_splits)
    then show ?thesis
      by (simp add: Some vs)
  qed simp
  moreover have "read_socket_addr_v6 h = None"
    using h by (auto simp: host_name_def read_socket_addr_v6_def read_given_char_def split: list.split)
  ultimately show ?thesis
    by (simp add: parse_socket_addr_def read_socket_addr_def all_read_def)
qed

lemma ensure_name:
  assumes "host_name h"
  shows "ensure_port h d = join_host_port h d" and "ensure_port (join_host_port h p) d = join_host_port h p"
proof -
  have h: "CHR '':'' \<notin> set h" "take 1 h \<noteq> ''[''"
    using assms by (simp_all add: host_name_def)
  have hd: "\<not> (s \<noteq> [] \<and> hd s = CHR ''['')" if "s = h \<or> s = h @ '':'' @ show_nat n" for s n
    using that h(2) by (cases h) auto
  have "rsplit_once CHR '':'' h = None"
    using h(1) by (induction h rule: rev_induct) (auto simp: rsplit_once_def)
  then show "ensure_port h d = join_host_port h d"
    using name_no_socket [OF assms] name_no_ipv6(1) [OF h(1)] hd [of h] by (auto simp: ensure_port_def join_name [OF assms])
  show "ensure_port (join_host_port h p) d = join_host_port h p"
    using name_no_ipv6(2) [OF h(1)] hd [of "h @ '':'' @ show_nat (unat p)" "unat p"] rsplit_port [OF port_text(1), of h "unat p"]
      parse_u16_show [of p] by (auto simp: ensure_port_def join_name [OF assms])
qed

lemma ensure_ipv6:
  assumes "length b = 16"
  shows "ensure_port (show_ipv6 b) d = join_host_port (show_ipv6 b) d"
    and "ensure_port (join_host_port (show_ipv6 b) p) d = join_host_port (show_ipv6 b) p"
proof -
  have "read_given_char CHR ''['' (show_ipv6 b) = None"
    using show_ipv6_no_bracket(2) [of b] by (auto simp: read_given_char_def split: list.split)
  then have "parse_socket_addr (show_ipv6 b) = None"
    using show_ipv6_shape [OF assms] by (simp add: parse_socket_addr_def read_socket_addr_def read_socket_addr_v6_def all_read_def)
  then show "ensure_port (show_ipv6 b) d = join_host_port (show_ipv6 b) d"
    by (simp add: ensure_port_def parse_ipv6_show [OF assms] join_ipv6 [OF assms])
  show "ensure_port (join_host_port (show_ipv6 b) p) d = join_host_port (show_ipv6 b) p"
    unfolding join_ipv6 [OF assms] by (simp only: ensure_port_def socket_v6_show [OF assms]) simp
qed

lemma split_joined:
  assumes "(\<exists>a. ip_wf a \<and> host = show_ip a) \<or> host_name host"
  shows "split_host_port (join_host_port host port) = (host, Some (show_nat (unat port)))"
proof -
  consider b where "length b = 16" "host = show_ipv6 b" | "host_name host"
    using assms show_ipv4_name by (metis ip_wf.elims(2) show_ip.simps)
  then show ?thesis
  proof cases
    case 1
    then show ?thesis
      using split_bracketed [OF show_ipv6_no_bracket(1), of "show_nat (unat port)" b] port_text(2) by (simp add: join_ipv6)
  next
    case 2
    then show ?thesis
      using name_no_ipv6(2) split_plain [of host "unat port"] by (simp add: join_name host_name_def)
  qed
qed

section \<open>Properties\<close>

text \<open>
  Addresses and ports as text. For every IPv4 and IPv6 address the text the program writes is read back as
  that address, and a socket address written with it is read back with its port. Joining a host, the text of an
  address or a host name, with a port and splitting the result gives both back, although an IPv6 address has
  colons of its own; and \<open>ensure_port\<close> adds the default port exactly when there is none.
\<close>

theorem address_text_roundtrip:
  assumes "(\<exists>a. ip_wf a \<and> host = show_ip a) \<or> host_name host"
  shows "(ip_wf a \<longrightarrow> parse_ip (show_ip a) = Some a \<and> parse_socket_addr (join_host_port (show_ip a) port) = Some (a, port)) \<and>
    split_host_port (join_host_port host port) = (host, Some (show_nat (unat port))) \<and>
    ensure_port (join_host_port host port) default_port = join_host_port host port \<and>
    ensure_port host default_port = join_host_port host default_port"
proof -
  have addr: "parse_socket_addr (join_host_port (show_ip a) port) = Some (a, port)" if "ip_wf a"
    using that by (cases a) (simp_all add: join_name show_ipv4_name join_ipv6 socket_v4_show [simplified] socket_v6_show [simplified])
  consider b where "length b = 16" "host = show_ipv6 b" | "host_name host"
    using assms show_ipv4_name by (metis ip_wf.elims(2) show_ip.simps)
  then have "ensure_port (join_host_port host port) default_port = join_host_port host port \<and>
      ensure_port host default_port = join_host_port host default_port"
    by cases (use ensure_ipv6 ensure_name in simp_all)
  then show ?thesis
    using addr parse_show_ip [of a] split_joined [OF assms] by blast
qed

theorem address_text_roundtrip_witness:
  "split_host_port (join_host_port (show_ip (V6 (replicate 15 0 @ [1]))) 443) =
     (show_ip (V6 (replicate 15 0 @ [1])), Some (show_nat (unat (443 :: u16))))"
proof -
  have "ip_wf (V6 (replicate 15 0 @ [1]))"
    by simp
  then have "\<exists>a. ip_wf a \<and> show_ip (V6 (replicate 15 0 @ [1])) = show_ip a"
    by blast
  note * = address_text_roundtrip [OF disjI1, OF this, of undefined 443 80]
  show ?thesis
    by (rule conjunct1 [OF conjunct2 [OF *]])
qed

end
