(* ===== verification/TunLinux.thy ===== *)
theory TunLinux
  imports Routes IpText
begin

text \<open>
  The full-tunnel session on Linux: \<open>crates/leshiy-tun/src/engine.rs\<close> (configuration and lifecycle),
  \<open>resolver.rs\<close> (domain rules) and \<open>sys/linux.rs\<close> (device, routes, DNS, IPv6).

  The program acts on the host by writing files, running \<open>ip -batch\<close> and calling the routing interface; what it
  does is kept as a list of actions in order, and what the host answers is an argument. A call that is cut off
  because its task is aborted has been issued but has no answer. Lines of a batch are data with their text beside
  them. Nothing is assumed of the kernel: the properties are about what it was asked to do.
\<close>

section \<open>Definitions\<close>

subsection \<open>engine.rs: configuration\<close>

record tun_config =
  tc_tun_name :: string
  tc_mtu :: u16
  tc_tun_addr :: ip_addr
  tc_tun_addr6 :: "ip_addr option"
  tc_server_ip :: ip_addr
  tc_orig_gateway :: ip_addr
  tc_orig_gateway6 :: "ip_addr option"
  tc_dns :: "ip_addr list"
  tc_split :: split_plan

definition default_tun_addr6 :: ip_addr where
  "default_tun_addr6 = V6 ([0xfd, 0, 0, 0x71] @ replicate 11 0 @ [2])"

definition default_tun_config :: tun_config where
  "default_tun_config =
     \<lparr>tc_tun_name = ''leshiy0'', tc_mtu = 1400, tc_tun_addr = V4 [10, 71, 0, 2], tc_tun_addr6 = None,
      tc_server_ip = V4 [0, 0, 0, 0], tc_orig_gateway = V4 [0, 0, 0, 0], tc_orig_gateway6 = None,
      tc_dns = [V4 [1, 1, 1, 1]],
      tc_split = \<lparr>pl_base_mode = Exclude, pl_include = rules_none, pl_exclude = rules_none\<rparr>\<rparr>"

definition with_ipv6 :: "tun_config \<Rightarrow> tun_config" where
  "with_ipv6 cfg = cfg\<lparr>tc_tun_addr6 := Some default_tun_addr6\<rparr>"

definition force_dns :: "tun_config \<Rightarrow> bool" where
  "force_dns cfg \<longleftrightarrow> pl_base_mode (tc_split cfg) = Exclude"

definition ipv6_killswitch :: "tun_config \<Rightarrow> bool" where
  "ipv6_killswitch cfg \<longleftrightarrow> tc_tun_addr6 cfg = None \<and> pl_base_mode (tc_split cfg) = Exclude"

subsection \<open>linux.rs: the batch\<close>

definition show_cidr :: "cidr \<Rightarrow> string" where
  "show_cidr c = show_ip (c_addr c) @ ''/'' @ show_nat (c_prefix c)"

datatype rule_kind = Suppress | TunRule

datatype ip_line =
    RouteAddVia cidr ip_addr
  | RouteAddDev cidr string
  | RouteDel cidr
  | DefaultAdd bool string
  | RuleAdd bool rule_kind
  | RuleDel bool rule_kind

fun rule_text :: "rule_kind \<Rightarrow> string" where
  "rule_text Suppress = ''priority 32764 table main suppress_prefixlength 0''"
| "rule_text TunRule = ''priority 32765 table 51821''"

definition family_flag :: "bool \<Rightarrow> string" where
  "family_flag fam6 = (if fam6 then ''-6 '' else '''')"

fun line_text :: "ip_line \<Rightarrow> string" where
  "line_text (RouteAddVia c gw) = ''route add '' @ show_cidr c @ '' via '' @ show_ip gw"
| "line_text (RouteAddDev c dev) = ''route add '' @ show_cidr c @ '' dev '' @ dev"
| "line_text (RouteDel c) = ''route del '' @ show_cidr c"
| "line_text (DefaultAdd fam6 dev) =
     family_flag fam6 @ ''route add '' @ (if fam6 then ''::/0'' else ''default'') @ '' dev '' @ dev @ '' table 51821''"
| "line_text (RuleAdd fam6 k) = family_flag fam6 @ ''rule add '' @ rule_text k"
| "line_text (RuleDel fam6 k) = family_flag fam6 @ ''rule del '' @ rule_text k"

record route_batch =
  rb_preclean :: "ip_line list"
  rb_install :: "ip_line list"
  rb_teardown_rules :: "ip_line list"
  rb_bypass :: "cidr list"

definition carried :: "bool \<Rightarrow> cidr \<Rightarrow> bool" where
  "carried carry_v6 c \<longleftrightarrow> is_ipv4 (c_addr c) \<or> carry_v6"

definition emit_policy :: "string \<Rightarrow> bool \<Rightarrow> route_batch \<Rightarrow> route_batch" where
  "emit_policy tun_name fam6 b =
     (let dels = [RuleDel fam6 Suppress, RuleDel fam6 TunRule] in
      b\<lparr>rb_preclean := rb_preclean b @ dels,
        rb_install := rb_install b @ [DefaultAdd fam6 tun_name, RuleAdd fam6 Suppress, RuleAdd fam6 TunRule],
        rb_teardown_rules := rb_teardown_rules b @ dels\<rparr>)"

text \<open>The part of \<open>build_route_batch\<close> in the main table, and which families have a default override.\<close>

definition main_batch :: "route_plan \<Rightarrow> string \<Rightarrow> bool \<Rightarrow> route_batch" where
  "main_batch plan tun_name carry_v6 =
     (let exc = rp_server_exception plan;
          excs = (if carried carry_v6 (se_dest exc) then [exc] else []);
          specific = filter (\<lambda>c. \<not> is_default_override c \<and> carried carry_v6 c) (rp_via_tun plan);
          bypass = filter (\<lambda>b. carried carry_v6 (se_dest b)) (rp_bypass plan);
          via = (\<lambda>e. RouteAddVia (se_dest e) (se_gateway e))
      in \<lparr>rb_preclean = [], rb_install = map via excs @ map (\<lambda>c. RouteAddDev c tun_name) specific @ map via bypass,
          rb_teardown_rules = [], rb_bypass = map se_dest (excs @ bypass)\<rparr>)"

definition v4_override :: "route_plan \<Rightarrow> bool" where
  "v4_override plan \<longleftrightarrow> list_ex (\<lambda>c. is_default_override c \<and> is_ipv4 (c_addr c)) (rp_via_tun plan)"

definition v6_override :: "route_plan \<Rightarrow> bool \<Rightarrow> bool" where
  "v6_override plan carry_v6 \<longleftrightarrow> list_ex (\<lambda>c. is_default_override c \<and> \<not> is_ipv4 (c_addr c) \<and> carry_v6) (rp_via_tun plan)"

definition build_route_batch :: "route_plan \<Rightarrow> string \<Rightarrow> bool \<Rightarrow> route_batch" where
  "build_route_batch plan tun_name carry_v6 =
     (let b = main_batch plan tun_name carry_v6;
          b = (if v4_override plan then emit_policy tun_name False b else b)
      in if v6_override plan carry_v6 then emit_policy tun_name True b else b)"

subsection \<open>linux.rs: the session\<close>

text \<open>Creating the device and the calls of the routing interface carry the answer; a call without one was cut off.\<close>

datatype os_action =
    CreateTun string u16 bool
  | AddAddr6 string ip_addr
  | Batch "ip_line list"
  | NetAdd cidr ip_addr "bool option"
  | NetDel cidr ip_addr "bool option"
  | NetAddDev cidr u32 "bool option"
  | NetDelDev cidr u32 "bool option"
  | WriteFile string string
  | DropDevice

definition RESOLV :: string where "RESOLV = ''/etc/resolv.conf''"
definition IPV6_ALL :: string where "IPV6_ALL = ''/proc/sys/net/ipv6/conf/all/disable_ipv6''"
definition IPV6_DEFAULT :: string where "IPV6_DEFAULT = ''/proc/sys/net/ipv6/conf/default/disable_ipv6''"

text \<open>What the host answers during \<open>start\<close>.\<close>

record linux_host =
  lh_create :: bool
  lh_addr6 :: bool
  lh_ifindex :: "u32 option"
  lh_handle :: bool
  lh_batch :: bool
  lh_resolv :: "string option"
  lh_resolv_write :: bool
  lh_all :: "string option"
  lh_default :: "string option"
  lh_all_write :: bool
  lh_default_write :: bool

record linux_teardown =
  lt_resolv_backup :: "string option"
  lt_ipv6_all_backup :: "string option"
  lt_ipv6_default_backup :: "string option"
  lt_policy_rules :: "ip_line list"

record linux_controller =
  lc_gateway :: ip_addr
  lc_gateway6 :: "ip_addr option"
  lc_ifindex :: u32
  lc_carry_v6 :: bool

record tun_session =
  tn_guard :: linux_teardown
  tn_controller :: linux_controller
  tn_installed :: "cidr list"

definition ip_batch :: "ip_line list \<Rightarrow> os_action list" where
  "ip_batch script = (if script = [] then [] else [Batch script])"

definition restore_file :: "string \<Rightarrow> string option \<Rightarrow> os_action list" where
  "restore_file path backup = (case backup of None \<Rightarrow> [] | Some s \<Rightarrow> [WriteFile path s])"

text \<open>The guard's \<open>Drop\<close>, with what the shared list of bypass routes holds then.\<close>

definition teardown_drop :: "linux_teardown \<Rightarrow> cidr list \<Rightarrow> os_action list" where
  "teardown_drop g installed =
     ip_batch (map RouteDel installed @ lt_policy_rules g) @ restore_file RESOLV (lt_resolv_backup g) @
     restore_file IPV6_ALL (map_option str_trim (lt_ipv6_all_backup g)) @
     restore_file IPV6_DEFAULT (map_option str_trim (lt_ipv6_default_backup g))"

definition dns_body :: "ip_addr list \<Rightarrow> string" where
  "dns_body dns = concat (map (\<lambda>ip. ''nameserver '' @ show_ip ip @ [CHR 0x0A]) dns)"

text \<open>Steps 3 and 4 of \<open>start\<close>: what was done, the guard, and whether to go on.\<close>

definition start_dns :: "linux_host \<Rightarrow> ip_addr list \<Rightarrow> bool \<Rightarrow> linux_teardown \<Rightarrow> os_action list \<times> linux_teardown \<times> bool" where
  "start_dns h dns force g =
     (if force \<and> dns \<noteq> [] then
        (case lh_resolv h of
           None \<Rightarrow> ([], g, False)
         | Some old \<Rightarrow> ([WriteFile RESOLV (dns_body dns)], g\<lparr>lt_resolv_backup := Some old\<rparr>, lh_resolv_write h))
      else ([], g, True))"

definition start_ipv6 :: "linux_host \<Rightarrow> bool \<Rightarrow> linux_teardown \<Rightarrow> os_action list \<times> linux_teardown \<times> bool" where
  "start_ipv6 h apply_killswitch g =
     (if \<not> apply_killswitch then ([], g, True)
      else (case lh_all h of
              None \<Rightarrow> ([], g, False)
            | Some a \<Rightarrow>
                let g = g\<lparr>lt_ipv6_all_backup := Some a\<rparr> in
                (case lh_default h of
                   None \<Rightarrow> ([], g, False)
                 | Some d \<Rightarrow>
                     let g = g\<lparr>lt_ipv6_default_backup := Some d\<rparr> in
                     if \<not> lh_all_write h then ([WriteFile IPV6_ALL ''1''], g, False)
                     else ([WriteFile IPV6_ALL ''1'', WriteFile IPV6_DEFAULT ''1''], g, lh_default_write h))))"

text \<open>The rest of \<open>start\<close>, once the guard exists: an error drops the guard, then the device.\<close>

definition start_guarded ::
    "linux_host \<Rightarrow> string \<Rightarrow> route_plan \<Rightarrow> ip_addr list \<Rightarrow> bool \<Rightarrow> bool \<Rightarrow> bool \<Rightarrow> u32 \<Rightarrow> os_action list \<times> tun_session option" where
  "start_guarded h tun_name plan dns force killswitch carry_v6 ifindex =
     (let b = build_route_batch plan tun_name carry_v6;
          g = \<lparr>lt_resolv_backup = None, lt_ipv6_all_backup = None, lt_ipv6_default_backup = None,
               lt_policy_rules = rb_teardown_rules b\<rparr>;
          fail = (\<lambda>g. teardown_drop g (rb_bypass b) @ [DropDevice]);
          acts = ip_batch (rb_preclean b) @ ip_batch (rb_install b)
      in if rb_install b \<noteq> [] \<and> \<not> lh_batch h then (acts @ fail g, None)
         else
           let (acts3, g, ok3) = start_dns h dns force g; acts = acts @ acts3 in
           if \<not> ok3 then (acts @ fail g, None)
           else
             let (acts4, g, ok4) = start_ipv6 h (killswitch \<or> (rp_tun_addr6 plan \<noteq> None \<and> \<not> carry_v6)) g; acts = acts @ acts4 in
             if \<not> ok4 then (acts @ fail g, None)
             else (acts, Some \<lparr>tn_guard = g, tn_controller = \<lparr>lc_gateway = se_gateway (rp_server_exception plan),
                     lc_gateway6 = rp_orig_gateway6 plan, lc_ifindex = ifindex, lc_carry_v6 = carry_v6\<rparr>,
                     tn_installed = rb_bypass b\<rparr>))"

definition linux_start ::
    "linux_host \<Rightarrow> string \<Rightarrow> u16 \<Rightarrow> route_plan \<Rightarrow> ip_addr list \<Rightarrow> bool \<Rightarrow> bool \<Rightarrow> os_action list \<times> tun_session option" where
  "linux_start h tun_name mtu plan dns force killswitch =
     (if \<not> is_ipv4 (rp_tun_addr plan) then ([], None)
      else
        let acts = [CreateTun tun_name mtu (lh_create h)] in
        if \<not> lh_create h then (acts, None)
        else
          let (acts1, carry_v6) =
                (case rp_tun_addr6 plan of
                   Some (V6 v6) \<Rightarrow> ([AddAddr6 tun_name (V6 v6)], lh_addr6 h)
                 | _ \<Rightarrow> ([], False));
              acts = acts @ acts1 in
          (case lh_ifindex h of
             None \<Rightarrow> (acts @ [DropDevice], None)
           | Some ifindex \<Rightarrow>
               if \<not> lh_handle h then (acts @ [DropDevice], None)
               else let (acts2, r) = start_guarded h tun_name plan dns force killswitch carry_v6 ifindex in (acts @ acts2, r)))"

subsection \<open>linux.rs: the route controller\<close>

text \<open>
  What the resolver task shares with the session: the list of bypass routes, what has been done, and the answers
  still to come. Where no answer is left, the task is aborted in that call.
\<close>

record route_net =
  nt_installed :: "cidr list"
  nt_done :: "os_action list"
  nt_answers :: "bool list"

definition net_call :: "(bool option \<Rightarrow> os_action) \<Rightarrow> route_net \<Rightarrow> bool option \<times> route_net" where
  "net_call act s =
     (case nt_answers s of
        [] \<Rightarrow> (None, s\<lparr>nt_done := nt_done s @ [act None]\<rparr>)
      | ok # rest \<Rightarrow> (Some ok, s\<lparr>nt_done := nt_done s @ [act (Some ok)], nt_answers := rest\<rparr>))"

definition controller_gateway :: "linux_controller \<Rightarrow> cidr \<Rightarrow> ip_addr option" where
  "controller_gateway k c =
     (if is_ipv4 (c_addr c) then (if is_ipv4 (lc_gateway k) then Some (lc_gateway k) else None)
      else if lc_carry_v6 k then lc_gateway6 k else None)"

definition add_bypass :: "linux_controller \<Rightarrow> cidr \<Rightarrow> route_net \<Rightarrow> bool option \<times> route_net" where
  "add_bypass k c s =
     (case controller_gateway k c of
        None \<Rightarrow> (Some True, s)
      | Some gw \<Rightarrow> net_call (NetAdd c gw) (s\<lparr>nt_installed := nt_installed s @ [c]\<rparr>))"

definition remove_bypass :: "linux_controller \<Rightarrow> cidr \<Rightarrow> route_net \<Rightarrow> bool option \<times> route_net" where
  "remove_bypass k c s =
     (case controller_gateway k c of
        None \<Rightarrow> (Some True, s)
      | Some gw \<Rightarrow>
          (case net_call (NetDel c gw) s of
             (Some True, s) \<Rightarrow> (Some True, s\<lparr>nt_installed := filter (\<lambda>x. x \<noteq> c) (nt_installed s)\<rparr>)
           | r \<Rightarrow> r))"

definition add_via_tun :: "linux_controller \<Rightarrow> cidr \<Rightarrow> route_net \<Rightarrow> bool option \<times> route_net" where
  "add_via_tun k c s =
     (if \<not> is_ipv4 (c_addr c) \<and> \<not> lc_carry_v6 k then (Some True, s) else net_call (NetAddDev c (lc_ifindex k)) s)"

definition remove_via_tun :: "linux_controller \<Rightarrow> cidr \<Rightarrow> route_net \<Rightarrow> bool option \<times> route_net" where
  "remove_via_tun k c s =
     (if \<not> is_ipv4 (c_addr c) \<and> \<not> lc_carry_v6 k then (Some True, s) else net_call (NetDelDev c (lc_ifindex k)) s)"

subsection \<open>resolver.rs\<close>

text \<open>A \<open>BTreeSet<Cidr>\<close> is its elements in the order of \<open>Cidr\<close>: IPv4 first, then by address, then by prefix.\<close>

definition cidr_rank :: "cidr \<Rightarrow> nat" where
  "cidr_rank c = ((if is_ipv4 (c_addr c) then 0 else 2 ^ 128) + be_value (octets (c_addr c))) * 256 + c_prefix c"

definition btree_insert :: "cidr \<Rightarrow> cidr list \<Rightarrow> cidr list" where
  "btree_insert c s = (if c \<in> set s then s else insort_key cidr_rank c s)"

definition btree_remove :: "cidr \<Rightarrow> cidr list \<Rightarrow> cidr list" where
  "btree_remove c s = filter (\<lambda>x. x \<noteq> c) s"

record cidr_diff =
  cd_added :: "cidr list"
  cd_removed :: "cidr list"

definition cidrs_diff :: "cidr list \<Rightarrow> cidr list \<Rightarrow> cidr_diff" where
  "cidrs_diff old new = \<lparr>cd_added = filter (\<lambda>c. c \<notin> set old) new, cd_removed = filter (\<lambda>c. c \<notin> set new) old\<rparr>"

text \<open>
  The two loops of \<open>apply_resolution\<close> are one: make each change, and remember it when it succeeded. The first
  component says whether the task lives on.
\<close>

fun apply_changes ::
    "(cidr \<Rightarrow> 's \<Rightarrow> bool option \<times> 's) \<Rightarrow> (cidr \<Rightarrow> cidr list \<Rightarrow> cidr list) \<Rightarrow> cidr list \<Rightarrow> cidr list \<Rightarrow> 's \<Rightarrow> bool \<times> cidr list \<times> 's" where
  "apply_changes call note_ok [] current s = (True, current, s)"
| "apply_changes call note_ok (c # cs) current s =
     (case call c s of
        (None, s) \<Rightarrow> (False, current, s)
      | (Some ok, s) \<Rightarrow> apply_changes call note_ok cs (if ok then note_ok c current else current) s)"

record 's route_controller =
  rc_add_bypass :: "cidr \<Rightarrow> 's \<Rightarrow> bool option \<times> 's"
  rc_remove_bypass :: "cidr \<Rightarrow> 's \<Rightarrow> bool option \<times> 's"
  rc_add_via_tun :: "cidr \<Rightarrow> 's \<Rightarrow> bool option \<times> 's"
  rc_remove_via_tun :: "cidr \<Rightarrow> 's \<Rightarrow> bool option \<times> 's"

definition linux_control :: "linux_controller \<Rightarrow> route_net route_controller" where
  "linux_control k =
     \<lparr>rc_add_bypass = add_bypass k, rc_remove_bypass = remove_bypass k,
      rc_add_via_tun = add_via_tun k, rc_remove_via_tun = remove_via_tun k\<rparr>"

definition apply_resolution ::
    "'s route_controller \<Rightarrow> split_mode \<Rightarrow> cidr list \<Rightarrow> cidr list \<Rightarrow> 's \<Rightarrow> bool \<times> cidr list \<times> 's" where
  "apply_resolution ctrl mode resolved current s =
     (let d = cidrs_diff current resolved;
          add = (case mode of Exclude \<Rightarrow> rc_add_bypass ctrl | Include \<Rightarrow> rc_add_via_tun ctrl);
          rem = (case mode of Exclude \<Rightarrow> rc_remove_bypass ctrl | Include \<Rightarrow> rc_remove_via_tun ctrl)
      in case apply_changes add btree_insert (cd_added d) current s of
           (False, current, s) \<Rightarrow> (False, current, s)
         | (True, current, s) \<Rightarrow> apply_changes rem btree_remove (cd_removed d) current s)"

definition MAX_DOMAINS :: nat where "MAX_DOMAINS = 50000"

definition resolve_one :: "(string \<Rightarrow> ip_addr list option) \<Rightarrow> string \<Rightarrow> cidr list" where
  "resolve_one lookup domain =
     (case lookup domain of
        None \<Rightarrow> []
      | Some ips \<Rightarrow> map (\<lambda>a. \<lparr>c_addr = a, c_prefix = (if is_ipv4 a then 32 else 128)\<rparr>) ips)"

text \<open>The lookups finish in any order; a set does not see it.\<close>

definition resolve_domains :: "(string \<Rightarrow> ip_addr list option) \<Rightarrow> string list \<Rightarrow> cidr list" where
  "resolve_domains lookup domains = fold btree_insert (concat (map (resolve_one lookup) (take MAX_DOMAINS domains))) []"

text \<open>\<open>run_resolver\<close> until it is aborted: the lookups of one round after the other; when they end, it is asleep.\<close>

fun run_resolver ::
    "'s route_controller \<Rightarrow> string list \<Rightarrow> string list \<Rightarrow> (string \<Rightarrow> ip_addr list option) list \<Rightarrow> cidr list \<Rightarrow> cidr list \<Rightarrow> 's \<Rightarrow> 's" where
  "run_resolver ctrl inc exc [] inc_state exc_state s = s"
| "run_resolver ctrl inc exc (lookup # rounds) inc_state exc_state s =
     (case (if inc = [] then (True, inc_state, s)
            else apply_resolution ctrl Include (resolve_domains lookup inc) inc_state s) of
        (False, _, s) \<Rightarrow> s
      | (True, inc_state, s) \<Rightarrow>
          (case (if exc = [] then (True, exc_state, s)
                 else apply_resolution ctrl Exclude (resolve_domains lookup exc) exc_state s) of
             (False, _, s) \<Rightarrow> s
           | (True, exc_state, s) \<Rightarrow> run_resolver ctrl inc exc rounds inc_state exc_state s))"

subsection \<open>engine.rs: lifecycle\<close>

text \<open>
  \<open>run_with_reattach\<close> on Linux, from start to return: what was done, and whether the session came up. The packet
  pump is represented by its end, which drops the stack and the device; before it the resolver has been at work,
  and it is stopped and awaited before the guard is dropped.
\<close>

definition engine_plan :: "bool \<Rightarrow> tun_config \<Rightarrow> route_plan_error + route_plan" where
  "engine_plan carries_v6 cfg =
     (let cfg = (if carries_v6 then cfg else cfg\<lparr>tc_tun_addr6 := None\<rparr>);
          (eff_include, eff_exclude) = effective (tc_split cfg)
      in from_split (pl_base_mode (tc_split cfg)) (rs_cidrs eff_include) (rs_cidrs eff_exclude) (tc_server_ip cfg)
           (tc_orig_gateway cfg) (tc_orig_gateway6 cfg) (tc_tun_addr cfg) (tc_tun_addr6 cfg))"

definition engine_start :: "linux_host \<Rightarrow> tun_config \<Rightarrow> os_action list \<times> tun_session option" where
  "engine_start h cfg =
     (case engine_plan True cfg of
        Inl _ \<Rightarrow> ([], None)
      | Inr plan \<Rightarrow> linux_start h (tc_tun_name cfg) (tc_mtu cfg) plan (tc_dns cfg) (force_dns cfg) (ipv6_killswitch cfg))"

definition engine_resolver ::
    "tun_config \<Rightarrow> (string \<Rightarrow> ip_addr list option) list \<Rightarrow> linux_controller \<Rightarrow> route_net \<Rightarrow> route_net" where
  "engine_resolver cfg rounds k s =
     (let (eff_include, eff_exclude) = effective (tc_split cfg) in
      if rs_domains eff_include \<noteq> [] \<or> rs_domains eff_exclude \<noteq> []
      then run_resolver (linux_control k) (rs_domains eff_include) (rs_domains eff_exclude) rounds [] [] s else s)"

definition engine_run ::
    "linux_host \<Rightarrow> tun_config \<Rightarrow> (string \<Rightarrow> ip_addr list option) list \<Rightarrow> bool list \<Rightarrow> os_action list \<times> bool" where
  "engine_run h cfg rounds answers =
     (case engine_start h cfg of
        (acts, None) \<Rightarrow> (acts, False)
      | (acts, Some ses) \<Rightarrow>
          let s = engine_resolver cfg rounds (tn_controller ses)
                    \<lparr>nt_installed = tn_installed ses, nt_done = acts, nt_answers = answers\<rparr>
          in (nt_done s @ [DropDevice] @ teardown_drop (tn_guard ses) (nt_installed s), True))"

section \<open>Lemmas\<close>

text \<open>
  The ledger of a list of actions: routes through the original gateway and policy rules that were asked for and
  not asked to be deleted since, and the last content written to each file.
\<close>

record ledger =
  lg_routes :: "cidr set"
  lg_rules :: "(bool \<times> rule_kind) set"
  lg_files :: "string \<Rightarrow> string option"
  lg_device :: bool

definition ledger_empty :: ledger where
  "ledger_empty = \<lparr>lg_routes = {}, lg_rules = {}, lg_files = (\<lambda>_. None), lg_device = False\<rparr>"

fun ledger_line :: "ip_line \<Rightarrow> ledger \<Rightarrow> ledger" where
  "ledger_line (RouteAddVia c gw) l = l\<lparr>lg_routes := insert c (lg_routes l)\<rparr>"
| "ledger_line (RouteDel c) l = l\<lparr>lg_routes := lg_routes l - {c}\<rparr>"
| "ledger_line (RuleAdd fam k) l = l\<lparr>lg_rules := insert (fam, k) (lg_rules l)\<rparr>"
| "ledger_line (RuleDel fam k) l = l\<lparr>lg_rules := lg_rules l - {(fam, k)}\<rparr>"
| "ledger_line (RouteAddDev c dev) l = l"
| "ledger_line (DefaultAdd fam dev) l = l"

fun ledger_step :: "os_action \<Rightarrow> ledger \<Rightarrow> ledger" where
  "ledger_step (Batch ls) l = fold ledger_line ls l"
| "ledger_step (NetAdd c gw r) l = l\<lparr>lg_routes := insert c (lg_routes l)\<rparr>"
| "ledger_step (NetDel c gw r) l = (if r = Some True then l\<lparr>lg_routes := lg_routes l - {c}\<rparr> else l)"
| "ledger_step (WriteFile p s) l = l\<lparr>lg_files := (lg_files l)(p \<mapsto> s)\<rparr>"
| "ledger_step (CreateTun n m r) l = l\<lparr>lg_device := r\<rparr>"
| "ledger_step DropDevice l = l\<lparr>lg_device := False\<rparr>"
| "ledger_step (AddAddr6 n a) l = l"
| "ledger_step (NetAddDev c i r) l = l"
| "ledger_step (NetDelDev c i r) l = l"

definition ledger_of :: "os_action list \<Rightarrow> ledger" where
  "ledger_of acts = fold ledger_step acts ledger_empty"

lemma ledger_of_append: "ledger_of (xs @ ys) = fold ledger_step ys (ledger_of xs)"
  by (simp add: ledger_of_def)

definition paths :: "string set" where
  "paths = {RESOLV, IPV6_ALL, IPV6_DEFAULT}"

lemma paths_distinct [simp]: "RESOLV \<noteq> IPV6_ALL" "RESOLV \<noteq> IPV6_DEFAULT" "IPV6_ALL \<noteq> IPV6_DEFAULT"
  "IPV6_ALL \<noteq> RESOLV" "IPV6_DEFAULT \<noteq> RESOLV" "IPV6_DEFAULT \<noteq> IPV6_ALL"
  by (simp_all add: RESOLV_def IPV6_ALL_def IPV6_DEFAULT_def)

text \<open>What the guard answers for: the routes it knows, its rules, and the files it has a backup of.\<close>

definition owned :: "cidr set \<Rightarrow> (bool \<times> rule_kind) set \<Rightarrow> ledger \<Rightarrow> bool" where
  "owned R Q l \<longleftrightarrow> lg_routes l \<subseteq> R \<and> lg_rules l \<subseteq> Q"

definition backup_ok :: "string option \<Rightarrow> string option \<Rightarrow> string option \<Rightarrow> bool" where
  "backup_ok backup original written \<longleftrightarrow> (if backup = None then written = None else backup = original)"

definition backed :: "linux_host \<Rightarrow> linux_teardown \<Rightarrow> ledger \<Rightarrow> bool" where
  "backed h g l \<longleftrightarrow>
     backup_ok (lt_resolv_backup g) (lh_resolv h) (lg_files l RESOLV) \<and>
     backup_ok (lt_ipv6_all_backup g) (lh_all h) (lg_files l IPV6_ALL) \<and>
     backup_ok (lt_ipv6_default_backup g) (lh_default h) (lg_files l IPV6_DEFAULT) \<and>
     (\<forall>p. p \<notin> paths \<longrightarrow> lg_files l p = None)"

definition restored :: "linux_host \<Rightarrow> ledger \<Rightarrow> bool" where
  "restored h l \<longleftrightarrow>
     lg_routes l = {} \<and> lg_rules l = {} \<and> \<not> lg_device l \<and>
     lg_files l RESOLV \<in> {None, lh_resolv h} \<and>
     lg_files l IPV6_ALL \<in> {None, map_option str_trim (lh_all h)} \<and>
     lg_files l IPV6_DEFAULT \<in> {None, map_option str_trim (lh_default h)} \<and>
     (\<forall>p. p \<notin> paths \<longrightarrow> lg_files l p = None)"

fun adds :: "ip_line \<Rightarrow> bool" where
  "adds (RouteAddVia c gw) = True"
| "adds (RuleAdd f k) = True"
| "adds _ = False"

fun line_owned :: "cidr set \<Rightarrow> (bool \<times> rule_kind) set \<Rightarrow> ip_line \<Rightarrow> bool" where
  "line_owned R Q (RouteAddVia c gw) = (c \<in> R)"
| "line_owned R Q (RuleAdd f k) = ((f, k) \<in> Q)"
| "line_owned R Q _ = True"

lemma lines_keep: "lg_files (fold ledger_line ls l) = lg_files l \<and> lg_device (fold ledger_line ls l) = lg_device l"
proof (induction ls arbitrary: l)
  case (Cons x ls)
  show ?case
    using Cons [of "ledger_line x l"] by (cases x) simp_all
qed simp

lemmas lines_files [simp] = conjunct1 [OF lines_keep] conjunct2 [OF lines_keep]

lemma lines_owned: "\<forall>x\<in>set ls. line_owned R Q x \<Longrightarrow> owned R Q l \<Longrightarrow> owned R Q (fold ledger_line ls l)"
proof (induction ls arbitrary: l)
  case (Cons x ls)
  have "owned R Q (ledger_line x l)"
    using Cons.prems by (cases x) (auto simp: owned_def)
  then show ?case
    using Cons by simp
qed simp

lemma lines_delete:
  assumes "\<forall>x\<in>set ls. \<not> adds x"
  shows "lg_routes (fold ledger_line ls l) = lg_routes l - {c. RouteDel c \<in> set ls} \<and>
    lg_rules (fold ledger_line ls l) = lg_rules l - {(f, k). RuleDel f k \<in> set ls}"
  using assms
proof (induction ls arbitrary: l)
  case (Cons x ls)
  note IH = Cons.IH [of "ledger_line x l"]
  show ?case
    using Cons.prems IH by (cases x) auto
qed simp

text \<open>The guard's \<open>Drop\<close> leaves nothing behind of what it owns.\<close>

definition rules_of :: "ip_line list \<Rightarrow> (bool \<times> rule_kind) set" where
  "rules_of ls = {(f, k). RuleDel f k \<in> set ls}"

lemma batch_ledger [simp]: "fold ledger_step (ip_batch ls) l = fold ledger_line ls l"
  by (simp add: ip_batch_def)

lemma restore_ledger [simp]:
  "fold ledger_step (restore_file p b) l = (case b of None \<Rightarrow> l | Some s \<Rightarrow> l\<lparr>lg_files := (lg_files l)(p \<mapsto> s)\<rparr>)"
  by (simp add: restore_file_def split: option.split)

lemma teardown_restores:
  assumes "owned (set installed) (rules_of (lt_policy_rules g)) l" and "backed h g l"
    and "\<forall>x\<in>set (lt_policy_rules g). \<not> adds x"
  shows "restored h ((fold ledger_step (teardown_drop g installed) l)\<lparr>lg_device := False\<rparr>)"
proof -
  let ?ls = "map RouteDel installed @ lt_policy_rules g"
  let ?l = "fold ledger_line ?ls l"
  have na: "\<forall>x\<in>set ?ls. \<not> adds x"
    using assms(3) by auto
  have "lg_routes ?l = {}" "lg_rules ?l = {}"
    using lines_delete [OF na, of l] assms(1) by (auto simp: owned_def rules_of_def)
  moreover have "lg_files ?l = lg_files l"
    by (rule lines_files)
  moreover have t: "fold ledger_step (teardown_drop g installed) l =
      ?l\<lparr>lg_files := (\<lambda>p. if p = IPV6_DEFAULT \<and> lt_ipv6_default_backup g \<noteq> None then map_option str_trim (lt_ipv6_default_backup g)
          else if p = IPV6_ALL \<and> lt_ipv6_all_backup g \<noteq> None then map_option str_trim (lt_ipv6_all_backup g)
          else if p = RESOLV \<and> lt_resolv_backup g \<noteq> None then lt_resolv_backup g else lg_files ?l p)\<rparr>"
    by (cases "lt_resolv_backup g"; cases "lt_ipv6_all_backup g"; cases "lt_ipv6_default_backup g")
      (simp_all add: teardown_drop_def fun_upd_def fun_eq_iff cong: if_cong)
  moreover have "lg_files (fold ledger_step (teardown_drop g installed) l) RESOLV \<in> {None, lh_resolv h}"
    using assms(2) unfolding t by (cases "lt_resolv_backup g") (auto simp: backed_def backup_ok_def)
  moreover have "lg_files (fold ledger_step (teardown_drop g installed) l) IPV6_ALL \<in> {None, map_option str_trim (lh_all h)}"
    using assms(2) unfolding t by (cases "lt_ipv6_all_backup g") (auto simp: backed_def backup_ok_def)
  moreover have "lg_files (fold ledger_step (teardown_drop g installed) l) IPV6_DEFAULT \<in> {None, map_option str_trim (lh_default h)}"
    using assms(2) unfolding t by (cases "lt_ipv6_default_backup g") (auto simp: backed_def backup_ok_def)
  moreover have "lg_files (fold ledger_step (teardown_drop g installed) l) p = None" if "p \<notin> paths" for p
    using assms(2) that unfolding t by (simp add: backed_def paths_def)
  ultimately show ?thesis
    unfolding restored_def by simp
qed

text \<open>The batch of a plan asks only for what it tracks.\<close>

lemma emit_policy_fields [simp]:
  "rb_bypass (emit_policy n f b) = rb_bypass b"
  "set (rb_install (emit_policy n f b)) = set (rb_install b) \<union> {DefaultAdd f n, RuleAdd f Suppress, RuleAdd f TunRule}"
  "set (rb_teardown_rules (emit_policy n f b)) = set (rb_teardown_rules b) \<union> {RuleDel f Suppress, RuleDel f TunRule}"
  "set (rb_preclean (emit_policy n f b)) = set (rb_preclean b) \<union> {RuleDel f Suppress, RuleDel f TunRule}"
  by (auto simp: emit_policy_def Let_def)

definition batch_ok :: "route_batch \<Rightarrow> bool" where
  "batch_ok b \<longleftrightarrow>
     (\<forall>x\<in>set (rb_preclean b) \<union> set (rb_install b). line_owned (set (rb_bypass b)) (rules_of (rb_teardown_rules b)) x) \<and>
     (\<forall>x\<in>set (rb_teardown_rules b). \<not> adds x)"

lemma line_owned_mono: "line_owned R Q x \<Longrightarrow> Q \<subseteq> Q' \<Longrightarrow> line_owned R Q' x"
  by (cases x) auto

lemma emit_policy_ok:
  assumes "batch_ok b"
  shows "batch_ok (emit_policy n f b)"
proof -
  have "rules_of (rb_teardown_rules b) \<subseteq> rules_of (rb_teardown_rules (emit_policy n f b))"
    by (auto simp: rules_of_def)
  moreover have "(f, Suppress) \<in> rules_of (rb_teardown_rules (emit_policy n f b))"
    "(f, TunRule) \<in> rules_of (rb_teardown_rules (emit_policy n f b))"
    by (simp_all add: rules_of_def)
  ultimately show ?thesis
    using assms line_owned_mono unfolding batch_ok_def by fastforce
qed

lemma main_batch_ok: "batch_ok (main_batch plan n v6)"
  unfolding batch_ok_def main_batch_def Let_def by auto

lemma build_route_batch_ok: "batch_ok (build_route_batch plan n v6)"
  by (simp add: build_route_batch_def Let_def main_batch_ok emit_policy_ok)

lemma start_dns_backed:
  assumes "start_dns h dns force g = (acts, g', ok)" and "backed h g l" and "lt_resolv_backup g = None"
  shows "backed h g' (fold ledger_step acts l) \<and> lg_routes (fold ledger_step acts l) = lg_routes l \<and>
    lg_rules (fold ledger_step acts l) = lg_rules l \<and> lt_policy_rules g' = lt_policy_rules g \<and>
    lt_ipv6_all_backup g' = lt_ipv6_all_backup g \<and> lt_ipv6_default_backup g' = lt_ipv6_default_backup g"
  using assms by (auto simp: start_dns_def backed_def paths_def backup_ok_def split: if_splits option.splits)

lemma start_ipv6_backed:
  assumes "start_ipv6 h kill g = (acts, g', ok)" and "backed h g l"
    and "lt_ipv6_all_backup g = None" "lt_ipv6_default_backup g = None"
  shows "backed h g' (fold ledger_step acts l) \<and> lg_routes (fold ledger_step acts l) = lg_routes l \<and>
    lg_rules (fold ledger_step acts l) = lg_rules l \<and> lt_policy_rules g' = lt_policy_rules g"
  using assms
  by (cases kill; cases "lh_all h"; cases "lh_default h"; cases "lh_all_write h")
    (auto simp: start_ipv6_def backed_def paths_def backup_ok_def)

text \<open>A session that is up: the guard answers for everything asked so far.\<close>

definition answers_for :: "linux_host \<Rightarrow> linux_teardown \<Rightarrow> cidr list \<Rightarrow> ledger \<Rightarrow> bool" where
  "answers_for h g installed l \<longleftrightarrow>
     owned (set installed) (rules_of (lt_policy_rules g)) l \<and> backed h g l \<and> (\<forall>x\<in>set (lt_policy_rules g). \<not> adds x)"

definition untouched :: "ledger \<Rightarrow> bool" where
  "untouched l \<longleftrightarrow> lg_routes l = {} \<and> lg_rules l = {} \<and> lg_files l = (\<lambda>_. None)"

lemma ledger_drop: "ledger_step DropDevice l = l\<lparr>lg_device := False\<rparr>"
  by simp

lemma backed_device [simp]: "backed h g (l\<lparr>lg_device := d\<rparr>) = backed h g l"
  by (simp add: backed_def)

lemma restored_drop:
  assumes "answers_for h g installed l"
  shows "restored h (fold ledger_step (teardown_drop g installed @ [DropDevice]) l)"
    and "restored h (fold ledger_step (DropDevice # teardown_drop g installed) l)"
proof -
  show "restored h (fold ledger_step (teardown_drop g installed @ [DropDevice]) l)"
    using teardown_restores assms by (simp add: answers_for_def)
  have "answers_for h g installed (l\<lparr>lg_device := False\<rparr>)"
    using assms by (simp add: answers_for_def owned_def)
  moreover have "lg_device (fold ledger_step (teardown_drop g installed) l') = lg_device l'" for l'
    by (cases "lt_resolv_backup g"; cases "lt_ipv6_all_backup g"; cases "lt_ipv6_default_backup g") (simp_all add: teardown_drop_def)
  ultimately show "restored h (fold ledger_step (DropDevice # teardown_drop g installed) l)"
    using teardown_restores [of installed g "l\<lparr>lg_device := False\<rparr>" h] by (simp add: answers_for_def restored_def)
qed

lemma start_guarded_answers:
  assumes "start_guarded h n plan dns force kill v6 idx = (acts, r)" and "untouched l"
  shows "case r of None \<Rightarrow> restored h (fold ledger_step acts l)
    | Some ses \<Rightarrow> answers_for h (tn_guard ses) (tn_installed ses) (fold ledger_step acts l)"
proof -
  let ?b = "build_route_batch plan n v6"
  let ?g = "\<lparr>lt_resolv_backup = None, lt_ipv6_all_backup = None, lt_ipv6_default_backup = None, lt_policy_rules = rb_teardown_rules ?b\<rparr>"
  let ?acts = "ip_batch (rb_preclean ?b) @ ip_batch (rb_install ?b)"
  let ?l = "fold ledger_step ?acts l"
  have own: "owned (set (rb_bypass ?b)) (rules_of (rb_teardown_rules ?b)) ?l" and na: "\<forall>x\<in>set (rb_teardown_rules ?b). \<not> adds x"
  proof -
    have ok: "\<forall>x\<in>set (rb_preclean ?b @ rb_install ?b). line_owned (set (rb_bypass ?b)) (rules_of (rb_teardown_rules ?b)) x"
      using build_route_batch_ok [of plan n v6] by (simp add: batch_ok_def)
    have "owned (set (rb_bypass ?b)) (rules_of (rb_teardown_rules ?b)) l"
      using assms(2) by (simp add: untouched_def owned_def)
    from lines_owned [OF ok this] show "owned (set (rb_bypass ?b)) (rules_of (rb_teardown_rules ?b)) ?l"
      by simp
    show "\<forall>x\<in>set (rb_teardown_rules ?b). \<not> adds x"
      using build_route_batch_ok [of plan n v6] by (simp add: batch_ok_def)
  qed
  have bk: "backed h ?g ?l"
    using assms(2) by (simp add: backed_def untouched_def backup_ok_def)
  obtain a3 g3 ok3 where d: "start_dns h dns force ?g = (a3, g3, ok3)"
    by (cases "start_dns h dns force ?g")
  note D = start_dns_backed [OF d bk]
  obtain a4 g4 ok4 where v: "start_ipv6 h (kill \<or> (rp_tun_addr6 plan \<noteq> None \<and> \<not> v6)) g3 = (a4, g4, ok4)"
    by (cases "start_ipv6 h (kill \<or> (rp_tun_addr6 plan \<noteq> None \<and> \<not> v6)) g3")
  have D': "backed h g3 (fold ledger_step a3 ?l)" "lt_ipv6_all_backup g3 = None" "lt_ipv6_default_backup g3 = None"
    using D by simp_all
  note V = start_ipv6_backed [OF v D']
  have "answers_for h ?g (rb_bypass ?b) ?l" "answers_for h g3 (rb_bypass ?b) (fold ledger_step a3 ?l)"
    "answers_for h g4 (rb_bypass ?b) (fold ledger_step a4 (fold ledger_step a3 ?l))"
    using own na bk D V by (simp_all add: answers_for_def owned_def)
  note A = this this [THEN restored_drop(1)]
  show ?thesis
    using assms(1) d v A by (auto simp: start_guarded_def Let_def split: if_splits)
qed

lemma linux_start_answers:
  assumes "linux_start h n mtu plan dns force kill = (acts, r)"
  shows "case r of None \<Rightarrow> restored h (ledger_of acts)
    | Some ses \<Rightarrow> answers_for h (tn_guard ses) (tn_installed ses) (ledger_of acts)"
proof (cases "is_ipv4 (rp_tun_addr plan) \<and> lh_create h")
  case False
  then show ?thesis
    using assms by (auto simp: linux_start_def ledger_of_def restored_def ledger_empty_def split: if_splits)
next
  case True
  obtain as v6 where c: "(case rp_tun_addr6 plan of Some (V6 v6) \<Rightarrow> ([AddAddr6 n (V6 v6)], lh_addr6 h) | _ \<Rightarrow> ([], False)) = (as, v6)"
    by fastforce
  have as: "fold ledger_step as l = l" for l
    using c by (auto split: option.splits ip_addr.splits)
  show ?thesis
  proof (cases "lh_ifindex h \<noteq> None \<and> lh_handle h")
    case False
    then have "acts = [CreateTun n mtu True] @ as @ [DropDevice]" "r = None"
      using assms True c by (auto simp: linux_start_def Let_def split: option.splits)
    then show ?thesis
      by (simp add: ledger_of_def as restored_def ledger_empty_def)
  next
    case up: True
    obtain idx acts2 r2 where i: "lh_ifindex h = Some idx"
      and g: "start_guarded h n plan dns force kill v6 idx = (acts2, r2)"
      using up by (cases "lh_ifindex h"; cases "start_guarded h n plan dns force kill v6 (the (lh_ifindex h))") auto
    have "untouched (ledger_of ([CreateTun n mtu True] @ as))"
      by (simp add: ledger_of_def as untouched_def ledger_empty_def)
    note * = start_guarded_answers [OF g this]
    have "acts = ([CreateTun n mtu True] @ as) @ acts2" "r = r2"
      using assms True up c i g by (auto simp: linux_start_def Let_def)
    then show ?thesis
      using * by (simp only: ledger_of_append)
  qed
qed

text \<open>What the resolver relies on: a controller that keeps the session in order at every call, also one cut off.\<close>

lemma apply_changes_keeps:
  assumes "\<And>c s. keeps s \<Longrightarrow> keeps (snd (call c s))" and "keeps s"
  shows "keeps (snd (snd (apply_changes call note_ok cs current s)))"
  using assms(2)
proof (induction cs arbitrary: current s)
  case (Cons c cs)
  obtain r s' where "call c s = (r, s')"
    by (cases "call c s")
  moreover from this have "keeps s'"
    using assms(1) [OF Cons.prems, of c] by simp
  ultimately show ?case
    using Cons.IH by (simp split: option.split)
qed simp

locale route_keeper =
  fixes ctrl :: "'s route_controller" and keeps :: "'s \<Rightarrow> bool"
  assumes add_bypass_keeps: "keeps s \<Longrightarrow> keeps (snd (rc_add_bypass ctrl c s))"
    and remove_bypass_keeps: "keeps s \<Longrightarrow> keeps (snd (rc_remove_bypass ctrl c s))"
    and add_via_tun_keeps: "keeps s \<Longrightarrow> keeps (snd (rc_add_via_tun ctrl c s))"
    and remove_via_tun_keeps: "keeps s \<Longrightarrow> keeps (snd (rc_remove_via_tun ctrl c s))"
begin

lemma apply_resolution_keeps:
  assumes "keeps s"
  shows "keeps (snd (snd (apply_resolution ctrl mode resolved current s)))"
proof -
  let ?d = "cidrs_diff current resolved"
  let ?add = "case mode of Exclude \<Rightarrow> rc_add_bypass ctrl | Include \<Rightarrow> rc_add_via_tun ctrl"
  let ?rem = "case mode of Exclude \<Rightarrow> rc_remove_bypass ctrl | Include \<Rightarrow> rc_remove_via_tun ctrl"
  have ops: "\<And>c s. keeps s \<Longrightarrow> keeps (snd (?add c s))" "\<And>c s. keeps s \<Longrightarrow> keeps (snd (?rem c s))"
    by (cases mode; simp add: add_bypass_keeps add_via_tun_keeps remove_bypass_keeps remove_via_tun_keeps)+
  obtain b cur s' where a: "apply_changes ?add btree_insert (cd_added ?d) current s = (b, cur, s')"
    by (cases "apply_changes ?add btree_insert (cd_added ?d) current s")
  have s': "keeps s'"
  proof -
    have "keeps (snd (snd (apply_changes ?add btree_insert (cd_added ?d) current s)))"
      by (rule apply_changes_keeps [OF ops(1) assms])
    then show ?thesis
      by (simp only: a snd_conv)
  qed
  have "keeps (snd (snd (apply_changes ?rem btree_remove (cd_removed ?d) cur s')))"
    by (rule apply_changes_keeps [OF ops(2) s'])
  then show ?thesis
    using s' unfolding apply_resolution_def Let_def a by (cases b) simp_all
qed

lemma run_resolver_keeps: "keeps s \<Longrightarrow> keeps (run_resolver ctrl inc exc rounds inc_state exc_state s)"
proof (induction rounds arbitrary: inc_state exc_state s)
  case (Cons lookup rounds)
  obtain b1 i s1 where a1: "(if inc = [] then (True, inc_state, s)
      else apply_resolution ctrl Include (resolve_domains lookup inc) inc_state s) = (b1, i, s1)"
    by (rule prod_cases3)
  have s1: "keeps s1"
    using apply_resolution_keeps [OF Cons.prems, of Include "resolve_domains lookup inc" inc_state] a1 Cons.prems by (auto split: if_splits)
  obtain b2 e s2 where a2: "(if exc = [] then (True, exc_state, s1)
      else apply_resolution ctrl Exclude (resolve_domains lookup exc) exc_state s1) = (b2, e, s2)"
    by (rule prod_cases3)
  have "keeps s2"
    using apply_resolution_keeps [OF s1, of Exclude "resolve_domains lookup exc" exc_state] a2 s1 by (auto split: if_splits)
  then show ?case
    using Cons.IH [of s2 i e] s1 unfolding run_resolver.simps a1 prod.case by (cases b1; cases b2) (simp_all only: a2 prod.case bool.case)
qed simp

end

lemma answers_for_step:
  assumes "answers_for h g installed l"
  shows "answers_for h g (installed @ [c]) (ledger_step (NetAdd c gw r) l)"
    and "answers_for h g (filter (\<lambda>x. x \<noteq> c) installed) (ledger_step (NetDel c gw (Some True)) l)"
    and "r \<noteq> Some True \<Longrightarrow> answers_for h g installed (ledger_step (NetDel c gw r) l)"
  using assms by (auto simp: answers_for_def owned_def backed_def)

interpretation linux_keeper: route_keeper "linux_control k" "\<lambda>s :: route_net. answers_for h g (nt_installed s) (ledger_of (nt_done s))"
proof
  fix s :: route_net and c assume ok: "answers_for h g (nt_installed s) (ledger_of (nt_done s))"
  show "answers_for h g (nt_installed (snd (rc_add_bypass (linux_control k) c s))) (ledger_of (nt_done (snd (rc_add_bypass (linux_control k) c s))))"
    using ok answers_for_step(1) [OF ok]
    by (auto simp: linux_control_def add_bypass_def net_call_def ledger_of_append split: option.split list.split)
  show "answers_for h g (nt_installed (snd (rc_remove_bypass (linux_control k) c s))) (ledger_of (nt_done (snd (rc_remove_bypass (linux_control k) c s))))"
  proof (cases "controller_gateway k c")
    case (Some gw)
    then show ?thesis
      using answers_for_step(2) [OF ok, of c gw] answers_for_step(3) [OF ok, of _ c gw]
      by (cases "nt_answers s") (auto simp: linux_control_def remove_bypass_def net_call_def ledger_of_append split: bool.split)
  qed (simp add: linux_control_def remove_bypass_def ok)
  show "answers_for h g (nt_installed (snd (rc_add_via_tun (linux_control k) c s))) (ledger_of (nt_done (snd (rc_add_via_tun (linux_control k) c s))))"
    "answers_for h g (nt_installed (snd (rc_remove_via_tun (linux_control k) c s))) (ledger_of (nt_done (snd (rc_remove_via_tun (linux_control k) c s))))"
    using ok by (auto simp: linux_control_def add_via_tun_def remove_via_tun_def net_call_def ledger_of_append split: list.split)
qed

lemma engine_resolver_keeps:
  assumes "answers_for h g (nt_installed s) (ledger_of (nt_done s))"
  shows "answers_for h g (nt_installed (engine_resolver cfg rounds k s)) (ledger_of (nt_done (engine_resolver cfg rounds k s)))"
proof (cases "effective (tc_split cfg)")
  case (Pair inc exc)
  show ?thesis
    using linux_keeper.run_resolver_keeps [OF assms, of k "rs_domains inc" "rs_domains exc" rounds "[]" "[]"] assms
    by (simp add: engine_resolver_def Pair)
qed

text \<open>The lines of all batches, and the policy of a family: its default in the private table with both rules.\<close>

fun batch_lines :: "os_action list \<Rightarrow> ip_line list" where
  "batch_lines [] = []"
| "batch_lines (Batch ls # acts) = ls @ batch_lines acts"
| "batch_lines (_ # acts) = batch_lines acts"

definition policy :: "ip_line list \<Rightarrow> bool \<Rightarrow> bool" where
  "policy ls fam6 \<longleftrightarrow>
     list_ex (\<lambda>x. case x of DefaultAdd f n \<Rightarrow> f = fam6 | _ \<Rightarrow> False) ls \<and> RuleAdd fam6 Suppress \<in> set ls \<and> RuleAdd fam6 TunRule \<in> set ls"

lemma batch_lines_append [simp]: "batch_lines (xs @ ys) = batch_lines xs @ batch_lines ys"
  by (induction xs rule: batch_lines.induct) simp_all

lemma batch_lines_ip_batch [simp]: "batch_lines (ip_batch ls) = ls"
  by (simp add: ip_batch_def)

lemma main_batch_lines: "x \<in> set (rb_install (main_batch p n v6)) \<Longrightarrow> (\<exists>c gw. x = RouteAddVia c gw) \<or> (\<exists>c. x = RouteAddDev c n)"
  by (auto simp: main_batch_def Let_def)

lemma batch_policy:
  "policy (rb_install (build_route_batch p n v6)) fam6 \<longleftrightarrow> (if fam6 then v6_override p v6 else v4_override p)"
proof -
  have "RuleAdd f k \<notin> set (rb_install (main_batch p n v6))" "DefaultAdd f m \<notin> set (rb_install (main_batch p n v6))" for f k m
    using main_batch_lines by blast+
  then show ?thesis
    by (auto simp: policy_def list_ex_iff build_route_batch_def Let_def split: ip_line.splits)
qed

lemma half_overrides: "c \<in> set (default_halves4 @ default_halves6) \<Longrightarrow> is_default_override c"
  by (auto simp: default_halves4_def default_halves6_def is_default_override_def)

lemma plan_overrides:
  assumes "from_split Exclude inc exc server gw gw6 tun tun6 = Ok p"
  shows "v4_override p" and "tun6 \<noteq> None \<Longrightarrow> v6_override p True"
proof -
  have via: "set (rp_via_tun p) \<supseteq> set (default_halves4 @ (if tun6 \<noteq> None then default_halves6 else []))"
    using assms by (auto simp: from_split_def Let_def split: if_splits)
  have "\<lparr>c_addr = V4 [0, 0, 0, 0], c_prefix = 1\<rparr> \<in> set (rp_via_tun p)"
    using via by (auto simp: default_halves4_def)
  then show "v4_override p"
    unfolding v4_override_def list_ex_iff by (rule bexI [rotated]) (simp add: is_default_override_def)
  assume "tun6 \<noteq> None"
  then have "\<lparr>c_addr = V6 (replicate 16 0), c_prefix = 1\<rparr> \<in> set (rp_via_tun p)"
    using via by (auto simp: default_halves6_def)
  then show "v6_override p True"
    unfolding v6_override_def list_ex_iff by (rule bexI [rotated]) (simp add: is_default_override_def)
qed

lemma start_up:
  assumes "linux_start h n mtu plan dns force kill = (acts, Some ses)"
  obtains v6 a3 a4 g3 g4 where "batch_lines acts = rb_preclean (build_route_batch plan n v6) @ rb_install (build_route_batch plan n v6)"
    and "v6 \<longrightarrow> rp_tun_addr6 plan \<noteq> None" and "lc_carry_v6 (tn_controller ses) = v6"
    and "start_dns h dns force g3 = (a3, g4, True)"
    and "start_ipv6 h (kill \<or> (rp_tun_addr6 plan \<noteq> None \<and> \<not> v6)) g4 = (a4, tn_guard ses, True)"
    and "\<exists>pre. acts = pre @ a3 @ a4 \<and> lg_files (ledger_of pre) = (\<lambda>_. None)"
proof -
  obtain as v6 where c: "(case rp_tun_addr6 plan of Some (V6 v6) \<Rightarrow> ([AddAddr6 n (V6 v6)], lh_addr6 h) | _ \<Rightarrow> ([], False)) = (as, v6)"
    by fastforce
  have as: "fold ledger_step as l = l" "batch_lines as = []" "v6 \<longrightarrow> rp_tun_addr6 plan \<noteq> None" for l
    using c by (auto split: option.splits ip_addr.splits)
  obtain idx acts2 where g: "start_guarded h n plan dns force kill v6 idx = (acts2, Some ses)" "acts = [CreateTun n mtu True] @ as @ acts2"
    using assms c by (auto simp: linux_start_def Let_def split: if_splits option.splits prod.splits)
  let ?b = "build_route_batch plan n v6"
  let ?g = "\<lparr>lt_resolv_backup = None, lt_ipv6_all_backup = None, lt_ipv6_default_backup = None, lt_policy_rules = rb_teardown_rules ?b\<rparr>"
  let ?acts = "ip_batch (rb_preclean ?b) @ ip_batch (rb_install ?b)"
  obtain a3 g3 ok3 where d: "start_dns h dns force ?g = (a3, g3, ok3)"
    by (cases "start_dns h dns force ?g")
  obtain a4 g4 ok4 where v: "start_ipv6 h (kill \<or> (rp_tun_addr6 plan \<noteq> None \<and> \<not> v6)) g3 = (a4, g4, ok4)"
    by (cases "start_ipv6 h (kill \<or> (rp_tun_addr6 plan \<noteq> None \<and> \<not> v6)) g3")
  have e: "acts2 = ?acts @ a3 @ a4" "ok3" "ok4" "tn_guard ses = g4" "lc_carry_v6 (tn_controller ses) = v6"
    using g(1) d v by (auto simp: start_guarded_def Let_def split: if_splits)
  have pre: "acts = ([CreateTun n mtu True] @ as @ ?acts) @ a3 @ a4"
    "lg_files (ledger_of ([CreateTun n mtu True] @ as @ ?acts)) = (\<lambda>_. None)"
    using g(2) e(1) by (simp_all add: ledger_of_def as ledger_empty_def)
  have "batch_lines a3 = []" "batch_lines a4 = []"
    using d v by (auto simp: start_dns_def start_ipv6_def Let_def split: if_splits option.splits)
  then have lines: "batch_lines acts = rb_preclean ?b @ rb_install ?b"
    unfolding g(2) e(1) by (simp add: as(2))
  show ?thesis
    by (rule that [OF lines as(3) e(5)]) (use d v e pre in auto)
qed


text \<open>
  Which way the kernel takes with these lines: the main table holds the specific routes; where a family has its
  policy, the main table is asked first without its default routes, and the private table's default is next.
\<close>

fun main_entry :: "ip_line \<Rightarrow> (cidr \<times> way) option" where
  "main_entry (RouteAddVia c gw) = Some (c, Direct)"
| "main_entry (RouteAddDev c dev) = Some (c, ViaTun)"
| "main_entry _ = None"

definition main_table :: "ip_line list \<Rightarrow> (cidr \<times> way) list" where
  "main_table ls = List.map_filter main_entry ls"

definition linux_decisions :: "ip_line list \<Rightarrow> ip_addr \<Rightarrow> way list" where
  "linux_decisions ls a =
     (let specific = filter (\<lambda>e. 0 < c_prefix (fst e)) (main_table ls) in
      if policy ls (\<not> is_ipv4 a)
      then (if list_ex (\<lambda>e. covers (fst e) a) specific then decisions specific a else [ViaTun])
      else decisions (main_table ls) a)"

lemma main_table_append [simp]: "main_table (xs @ ys) = main_table xs @ main_table ys"
  by (simp add: main_table_def List.map_filter_def)

lemma main_table_simps [simp]: "main_table [] = []" "main_table (x # xs) = (case main_entry x of None \<Rightarrow> main_table xs | Some e \<Rightarrow> e # main_table xs)"
  by (simp_all add: main_table_def List.map_filter_simps cong: option.case_cong)

lemma main_table_policy [simp]: "main_table (rb_install (emit_policy n f b)) = main_table (rb_install b)"
  by (simp add: emit_policy_def Let_def)

lemma main_table_via: "main_table (map (\<lambda>e. RouteAddVia (se_dest e) (se_gateway e)) es) = map (\<lambda>e. (se_dest e, Direct)) es"
  by (induction es) simp_all

lemma main_table_dev: "main_table (map (\<lambda>c. RouteAddDev c n) cs) = map (\<lambda>c. (c, ViaTun)) cs"
  by (induction cs) simp_all

lemma main_table_batch:
  "set (main_table (rb_install (build_route_batch p n v6))) =
     {e \<in> set (route_table p). carried v6 (fst e) \<and> \<not> (snd e = ViaTun \<and> is_default_override (fst e))}"
proof -
  have "main_table (rb_install (build_route_batch p n v6)) = main_table (rb_install (main_batch p n v6))"
    by (simp add: build_route_batch_def Let_def)
  then show ?thesis
    by (auto simp: main_batch_def Let_def main_table_via main_table_dev route_table_def image_iff)
qed

lemma covers_carried: "covers c a \<Longrightarrow> is_ipv4 (c_addr c) = is_ipv4 a"
  by (cases a) simp_all

lemma decisions_cong:
  assumes "\<And>e. covers (fst e) a \<Longrightarrow> e \<in> set t \<longleftrightarrow> e \<in> set t'"
  shows "set (decisions t a) = set (decisions t' a)"
proof -
  have "longest t a e = longest t' a e" for e
    by (rule longest_cong) (rule assms)
  moreover have "(\<exists>e\<in>set t. covers (fst e) a) \<longleftrightarrow> (\<exists>e\<in>set t'. covers (fst e) a)"
    using assms by blast
  ultimately show ?thesis
    unfolding set_decisions by simp
qed

lemma decisions_drop_shorter:
  assumes "set t' \<subseteq> set t" and "e0 \<in> set t'" "covers (fst e0) a"
    and "\<And>e. e \<in> set t \<Longrightarrow> covers (fst e) a \<Longrightarrow> e \<notin> set t' \<Longrightarrow> c_prefix (fst e) < c_prefix (fst e0)"
  shows "set (decisions t a) = set (decisions t' a)"
proof -
  have "longest t a e = longest t' a e" for e
  proof
    assume l: "longest t a e"
    then have "e \<in> set t'"
      using assms unfolding longest_def by (meson leD subsetD)
    then show "longest t' a e"
      using l assms(1) unfolding longest_def by blast
  next
    assume l: "longest t' a e"
    then have ge: "c_prefix (fst e0) \<le> c_prefix (fst e)"
      using assms(2,3) unfolding longest_def by blast
    have "c_prefix (fst x) \<le> c_prefix (fst e)" if "x \<in> set t" "covers (fst x) a" for x
      using l assms(4) [OF that] ge that unfolding longest_def by (cases "x \<in> set t'") auto
    then show "longest t a e"
      using l assms(1) unfolding longest_def by blast
  qed
  then show ?thesis
    using assms(1-3) unfolding set_decisions by auto
qed

text \<open>The main table of a plan made from rules of at least /2: the server and the rules, without the halves.\<close>

lemma override_prefix: "is_default_override c \<Longrightarrow> c_prefix c = 1"
  by (simp add: is_default_override_def split: if_splits)

lemma plan_main_table:
  assumes "from_split mode inc exc server gw gw6 tun tun6 = Ok p" and "list_all (\<lambda>c. 2 \<le> c_prefix c) (inc @ exc)"
    and "M = main_table (rb_install (build_route_batch p n v6))"
  shows "set M = {e \<in> insert (server_route server, Direct) (set (rule_table inc exc gw gw6)). carried v6 (fst e)}"
    and "\<And>e. e \<in> set M \<Longrightarrow> 2 \<le> c_prefix (fst e)"
    and "filter (\<lambda>e. 0 < c_prefix (fst e)) M = M"
proof -
  note tab = from_split_table [OF assms(1)]
  have rule: "2 \<le> c_prefix (fst e)" if "e \<in> insert (server_route server, Direct) (set (rule_table inc exc gw gw6))" for e
    using that assms(2) by (auto simp: rule_table_def list_all_iff server_route_def)
  have half: "is_default_override (fst e)" if "e \<in> set (base_table mode (tun6 \<noteq> None))" for e
    using that half_overrides by (auto simp: base_table_def split: if_splits)
  show M: "set M = {e \<in> insert (server_route server, Direct) (set (rule_table inc exc gw gw6)). carried v6 (fst e)}"
    unfolding assms(3) main_table_batch tab
    using rule override_prefix half base_prefix [of _ mode "tun6 \<noteq> None"] by fastforce
  show two: "\<And>e. e \<in> set M \<Longrightarrow> 2 \<le> c_prefix (fst e)"
    using rule M by blast
  then show "filter (\<lambda>e. 0 < c_prefix (fst e)) M = M"
    by (intro filter_True) fastforce
qed

lemma covers_in_main:
  assumes "from_split mode inc exc server gw gw6 tun tun6 = Ok p" and "list_all (\<lambda>c. 2 \<le> c_prefix c) (inc @ exc)"
    and "M = main_table (rb_install (build_route_batch p n v6))" and "is_ipv4 a \<or> v6"
  shows "set M \<subseteq> set (route_table p)"
    and "e \<in> set (route_table p) \<Longrightarrow> covers (fst e) a \<Longrightarrow> e \<notin> set M \<Longrightarrow> e \<in> set (base_table mode (tun6 \<noteq> None))"
proof -
  note M = plan_main_table(1) [OF assms(1-3)] and tab = from_split_table [OF assms(1)]
  show "set M \<subseteq> set (route_table p)"
    unfolding M tab by blast
  assume "e \<in> set (route_table p)" "covers (fst e) a" "e \<notin> set M"
  moreover from this have "carried v6 (fst e)"
    using covers_carried [of "fst e" a] assms(4) by (auto simp: carried_def)
  ultimately show "e \<in> set (base_table mode (tun6 \<noteq> None))"
    unfolding M tab by blast
qed

lemma tables_include:
  assumes "from_split Include inc exc server gw gw6 tun tun6 = Ok p" and "list_all (\<lambda>c. 2 \<le> c_prefix c) (inc @ exc)"
    and "is_ipv4 a \<or> v6"
  shows "set (linux_decisions (rb_install (build_route_batch p n v6)) a) = set (decisions (route_table p) a)"
proof -
  let ?M = "main_table (rb_install (build_route_batch p n v6))"
  have "e \<in> set ?M \<longleftrightarrow> e \<in> set (route_table p)" if "covers (fst e) a" for e
    using that covers_in_main(1) [OF assms(1,2) refl assms(3), of n] covers_in_main(2) [OF assms(1,2) refl assms(3), of e n]
    unfolding base_table_def by auto
  then have "set (decisions ?M a) = set (decisions (route_table p) a)"
    by (rule decisions_cong)
  moreover have via: "rp_via_tun p = inc"
    using assms(1) by (auto simp: from_split_def Let_def split: if_splits)
  have "\<not> is_default_override c" if "c \<in> set inc" for c
  proof
    assume "is_default_override c"
    then have "c_prefix c = 1"
      by (rule override_prefix)
    moreover have "2 \<le> c_prefix c"
      using assms(2) that by (simp add: list_all_iff)
    ultimately show False
      by simp
  qed
  then have "\<not> policy (rb_install (build_route_batch p n v6)) f" for f
    using via by (auto simp: batch_policy v4_override_def v6_override_def list_ex_iff)
  ultimately show ?thesis
    by (simp add: linux_decisions_def)
qed

lemma tables_exclude:
  assumes "from_split Exclude inc exc server gw gw6 tun tun6 = Ok p" and "list_all (\<lambda>c. 2 \<le> c_prefix c) (inc @ exc)"
    and "ip_wf a" and "is_ipv4 a \<or> v6" and "v6 \<longrightarrow> tun6 \<noteq> None"
  shows "set (linux_decisions (rb_install (build_route_batch p n v6)) a) = set (decisions (route_table p) a)"
proof -
  let ?ls = "rb_install (build_route_batch p n v6)"
  let ?M = "main_table ?ls" and ?B = "base_table Exclude (tun6 \<noteq> None)"
  note inM = covers_in_main [OF assms(1,2) refl assms(4), where n = n]
  note two = plan_main_table(2) [OF assms(1,2) refl] and nz = plan_main_table(3) [OF assms(1,2) refl, of n v6]
  have pol: "policy ?ls (\<not> is_ipv4 a)"
    using plan_overrides [OF assms(1)] assms(4,5) by (auto simp: batch_policy)
  show ?thesis
  proof (cases "\<exists>e\<in>set ?M. covers (fst e) a")
    case True
    then obtain e0 where e0: "e0 \<in> set ?M" "covers (fst e0) a"
      by blast
    have "c_prefix (fst e) < c_prefix (fst e0)" if "e \<in> set (route_table p)" "covers (fst e) a" "e \<notin> set ?M" for e
      using base_prefix [OF inM(2) [OF that]] two [OF e0(1)] by simp
    then have same: "set (decisions (route_table p) a) = set (decisions ?M a)"
      by (rule decisions_drop_shorter [OF inM(1) e0])
    have ex: "list_ex (\<lambda>e. covers (fst e) a) ?M"
      using True by (simp add: list_ex_iff)
    have "linux_decisions ?ls a = decisions ?M a"
      by (simp only: linux_decisions_def Let_def nz pol ex if_True)
    then show ?thesis
      by (simp only: same)
  next
    case False
    obtain h where h: "h \<in> set ?B" "covers (fst h) a"
      using base_covers [OF assms(3), of "tun6 \<noteq> None"] assms(4,5) by blast
    have "snd e = ViaTun" if "longest (route_table p) a e" for e
      using that inM(2) [of e] False base_prefix [of e Exclude "tun6 \<noteq> None"] unfolding longest_def by blast
    moreover have "h \<in> set (route_table p)"
      using h(1) from_split_table [OF assms(1)] by blast
    ultimately have "set (decisions (route_table p) a) = {ViaTun}"
      using decisions_only h(2) by blast
    moreover have "\<not> list_ex (\<lambda>e. covers (fst e) a) ?M"
      using False by (simp add: list_ex_iff)
    then have "linux_decisions ?ls a = [ViaTun]"
      by (simp only: linux_decisions_def Let_def nz pol if_True if_False)
    ultimately show ?thesis
      by simp
  qed
qed

section \<open>The kernel's tables\<close>

text \<open>
  What the batches do to the host's routing: the main table, the default of the private table of each family, and the
  policy rules. A line that the kernel refuses changes nothing and the rest of the batch goes on, as \<open>ip -force\<close> does.
\<close>

datatype hop = Via ip_addr | Dev string

record kernel =
  k_main :: "(cidr \<times> hop) list"
  k_private :: "bool \<Rightarrow> string option"
  k_rules :: "(bool \<times> rule_kind) set"

fun kernel_line :: "(ip_line \<Rightarrow> bool) \<Rightarrow> ip_line \<Rightarrow> kernel \<Rightarrow> kernel" where
  "kernel_line works (RouteAddVia c gw) k = (if works (RouteAddVia c gw) then k\<lparr>k_main := (c, Via gw) # k_main k\<rparr> else k)"
| "kernel_line works (RouteAddDev c dev) k = (if works (RouteAddDev c dev) then k\<lparr>k_main := (c, Dev dev) # k_main k\<rparr> else k)"
| "kernel_line works (RouteDel c) k = (if works (RouteDel c) then k\<lparr>k_main := filter (\<lambda>e. fst e \<noteq> c) (k_main k)\<rparr> else k)"
| "kernel_line works (DefaultAdd f dev) k = (if works (DefaultAdd f dev) then k\<lparr>k_private := (k_private k)(f := Some dev)\<rparr> else k)"
| "kernel_line works (RuleAdd f r) k = (if works (RuleAdd f r) then k\<lparr>k_rules := insert (f, r) (k_rules k)\<rparr> else k)"
| "kernel_line works (RuleDel f r) k = (if works (RuleDel f r) then k\<lparr>k_rules := k_rules k - {(f, r)}\<rparr> else k)"

definition kernel_after :: "(ip_line \<Rightarrow> bool) \<Rightarrow> os_action list \<Rightarrow> kernel \<Rightarrow> kernel" where
  "kernel_after works acts k = fold (kernel_line works) (batch_lines acts) k"

text \<open>
  Where a packet goes: the rule of priority 32764 takes the longest match of the main table unless it is a default, the
  rule of priority 32765 the private table, and the rule every host has at 32766 the main table.
\<close>

definition best_matches :: "(cidr \<times> hop) list \<Rightarrow> ip_addr \<Rightarrow> (cidr \<times> hop) list" where
  "best_matches t a =
     (let ms = filter (\<lambda>e. covers (fst e) a) t in
      filter (\<lambda>e. list_all (\<lambda>e'. c_prefix (fst e') \<le> c_prefix (fst e)) ms) ms)"

definition kernel_hops :: "kernel \<Rightarrow> ip_addr \<Rightarrow> hop list" where
  "kernel_hops k a =
     (let f = (\<not> is_ipv4 a); best = best_matches (k_main k) a; specific = filter (\<lambda>e. 0 < c_prefix (fst e)) best in
      if (f, Suppress) \<in> k_rules k \<and> specific \<noteq> [] then map snd specific
      else if (f, TunRule) \<in> k_rules k \<and> k_private k f \<noteq> None then [Dev (the (k_private k f))]
      else map snd best)"

definition accepts_policy :: "(ip_line \<Rightarrow> bool) \<Rightarrow> string \<Rightarrow> bool \<Rightarrow> bool" where
  "accepts_policy works dev f \<longleftrightarrow> works (DefaultAdd f dev) \<and> works (RuleAdd f Suppress) \<and> works (RuleAdd f TunRule)"

definition has_specific :: "kernel \<Rightarrow> ip_addr \<Rightarrow> bool" where
  "has_specific k a \<longleftrightarrow> list_ex (\<lambda>e. covers (fst e) a \<and> 0 < c_prefix (fst e)) (k_main k)"

definition into_device :: "kernel \<Rightarrow> string \<Rightarrow> bool \<Rightarrow> bool" where
  "into_device k dev f \<longleftrightarrow> (\<forall>a. is_ipv4 a \<noteq> f \<and> \<not> has_specific k a \<longrightarrow> kernel_hops k a = [Dev dev])"

lemma kernel_rules_grow:
  assumes "\<forall>f r. RuleDel f r \<notin> set ls"
  shows "k_rules k \<subseteq> k_rules (fold (kernel_line works) ls k)"
  using assms
proof (induction ls arbitrary: k)
  case (Cons l ls)
  have "k_rules k \<subseteq> k_rules (kernel_line works l k)" using Cons.prems by (cases l) auto
  then show ?case using Cons.IH [of "kernel_line works l k"] Cons.prems by (auto intro: order_trans)
qed simp

lemma kernel_rule_added:
  assumes "\<forall>f r. RuleDel f r \<notin> set ls" and "RuleAdd f r \<in> set ls" and "works (RuleAdd f r)"
  shows "(f, r) \<in> k_rules (fold (kernel_line works) ls k)"
proof -
  obtain xs ys where ls: "ls = xs @ RuleAdd f r # ys" using assms(2) by (meson split_list)
  have "(f, r) \<in> k_rules (kernel_line works (RuleAdd f r) (fold (kernel_line works) xs k))" using assms(3) by simp
  then show ?thesis
    using kernel_rules_grow [of ys "kernel_line works (RuleAdd f r) (fold (kernel_line works) xs k)" works] assms(1)
    by (simp add: ls subset_iff)
qed

lemma kernel_default_kept:
  assumes "\<forall>d. DefaultAdd f d \<in> set ls \<longrightarrow> d = dev" and "k_private k f = Some dev"
  shows "k_private (fold (kernel_line works) ls k) f = Some dev"
  using assms
proof (induction ls arbitrary: k)
  case (Cons l ls)
  have "k_private (kernel_line works l k) f = Some dev" using Cons.prems by (cases l) auto
  then show ?case using Cons by simp
qed simp

lemma kernel_default_added:
  assumes "\<forall>d. DefaultAdd f d \<in> set ls \<longrightarrow> d = dev" and "DefaultAdd f dev \<in> set ls" and "works (DefaultAdd f dev)"
  shows "k_private (fold (kernel_line works) ls k) f = Some dev"
proof -
  obtain xs ys where ls: "ls = xs @ DefaultAdd f dev # ys" using assms(2) by (meson split_list)
  have "k_private (kernel_line works (DefaultAdd f dev) (fold (kernel_line works) xs k)) f = Some dev" using assms(3) by simp
  moreover have "\<forall>d. DefaultAdd f d \<in> set ys \<longrightarrow> d = dev" using assms(1) by (simp add: ls)
  ultimately show ?thesis using kernel_default_kept [of f ys dev] by (simp add: ls)
qed

text \<open>Where the entries of the main table come from.\<close>

fun entry_line :: "cidr \<times> hop \<Rightarrow> ip_line" where
  "entry_line (c, Via g) = RouteAddVia c g"
| "entry_line (c, Dev d) = RouteAddDev c d"

lemma kernel_main_from:
  "e \<in> set (k_main (fold (kernel_line works) ls k)) \<Longrightarrow> e \<in> set (k_main k) \<or> entry_line e \<in> set ls"
proof (induction ls arbitrary: k)
  case (Cons l ls)
  then have "e \<in> set (k_main (kernel_line works l k)) \<or> entry_line e \<in> set ls" by simp
  moreover have "e \<in> set (k_main (kernel_line works l k)) \<Longrightarrow> e \<in> set (k_main k) \<or> entry_line e = l"
    by (cases l) (auto split: if_splits)
  ultimately show ?case by auto
qed simp

lemma policy_into_device:
  assumes "(f, Suppress) \<in> k_rules k" and "(f, TunRule) \<in> k_rules k" and "k_private k f = Some dev"
  shows "into_device k dev f"
  unfolding into_device_def
proof (intro allI impI)
  fix a assume a: "is_ipv4 a \<noteq> f \<and> \<not> has_specific k a"
  then have "filter (\<lambda>e. 0 < c_prefix (fst e)) (best_matches (k_main k) a) = []"
    by (auto simp: has_specific_def list_ex_iff best_matches_def filter_empty_conv Let_def)
  moreover have "(\<not> is_ipv4 a) = f" using a by auto
  ultimately show "kernel_hops k a = [Dev dev]" using assms by (simp add: kernel_hops_def)
qed

lemma install_lines:
  shows "RuleDel f r \<notin> set (rb_install (build_route_batch p n v6))"
    and "DefaultAdd f d \<in> set (rb_install (build_route_batch p n v6)) \<Longrightarrow> d = n"
    and "RouteAddDev c d \<in> set (rb_install (build_route_batch p n v6)) \<Longrightarrow> c \<in> set (rp_via_tun p)"
    and "RouteAddVia c gw \<in> set (rb_install (build_route_batch p n v6)) \<Longrightarrow>
      \<exists>e\<in>set (rp_server_exception p # rp_bypass p). c = se_dest e \<and> gw = se_gateway e"
  by (auto simp: build_route_batch_def main_batch_def emit_policy_def Let_def split: if_splits)

lemma install_into_device:
  assumes "accepts_policy works n f" and "if f then v6_override p v6 else v4_override p"
  shows "into_device (fold (kernel_line works) (rb_install (build_route_batch p n v6)) k) n f"
proof (rule policy_into_device)
  let ?ls = "rb_install (build_route_batch p n v6)"
  have pol: "policy ?ls f" using assms(2) by (simp add: batch_policy)
  then obtain x where x: "x \<in> set ?ls" "case x of DefaultAdd f' d \<Rightarrow> f' = f | _ \<Rightarrow> False"
    by (auto simp: policy_def list_ex_iff)
  then obtain d where "DefaultAdd f d \<in> set ?ls" by (cases x rule: ip_line.exhaust) auto
  then have d: "DefaultAdd f n \<in> set ?ls" using install_lines(2) by blast
  show "(f, Suppress) \<in> k_rules (fold (kernel_line works) ?ls k)" "(f, TunRule) \<in> k_rules (fold (kernel_line works) ?ls k)"
    using kernel_rule_added [of ?ls f _ works k] pol install_lines(1) [of _ _ p n v6] assms(1)
    by (auto simp: policy_def accepts_policy_def)
  show "k_private (fold (kernel_line works) ?ls k) f = Some n"
    using kernel_default_added [of f ?ls n works k] d install_lines(2) [of f _ p n v6] assms(1) by (auto simp: accepts_policy_def)
qed

text \<open>The tables as they are right after the session's own batch, on a host that only had default routes.\<close>

definition default_routes :: "ip_addr list \<Rightarrow> (cidr \<times> hop) list" where
  "default_routes gws = map (\<lambda>g. (\<lparr>c_addr = (if is_ipv4 g then V4 [0, 0, 0, 0] else V6 (replicate 16 0)), c_prefix = 0\<rparr>, Via g)) gws"

definition plain_host :: "ip_addr list \<Rightarrow> kernel" where
  "plain_host gws = \<lparr>k_main = default_routes gws, k_private = (\<lambda>f. None), k_rules = {}\<rparr>"

fun hop_way :: "hop \<Rightarrow> way" where
  "hop_way (Via g) = Direct"
| "hop_way (Dev d) = ViaTun"

definition as_ways :: "(cidr \<times> hop) list \<Rightarrow> (cidr \<times> way) list" where
  "as_ways t = map (map_prod id hop_way) t"

lemma kernel_installed:
  fixes k :: kernel
  assumes "\<forall>c. RouteDel c \<notin> set ls" and "\<forall>f r. RuleDel f r \<notin> set ls"
  defines "k' \<equiv> fold (kernel_line (\<lambda>l. True)) ls k"
  shows "set (as_ways (k_main k')) = set (main_table ls) \<union> set (as_ways (k_main k))"
    and "k_rules k' = {(f, r). RuleAdd f r \<in> set ls} \<union> k_rules k"
    and "k_private k' f = None \<longleftrightarrow> k_private k f = None \<and> (\<forall>d. DefaultAdd f d \<notin> set ls)"
proof -
  have "set (as_ways (k_main k')) = set (main_table ls) \<union> set (as_ways (k_main k)) \<and>
      k_rules k' = {(f, r). RuleAdd f r \<in> set ls} \<union> k_rules k \<and>
      (k_private k' f = None \<longleftrightarrow> k_private k f = None \<and> (\<forall>d. DefaultAdd f d \<notin> set ls))"
    using assms(1,2) unfolding k'_def
  proof (induction ls arbitrary: k)
    case (Cons l ls)
    let ?k = "kernel_line (\<lambda>l. True) l k"
    have "set (as_ways (k_main ?k)) = set (main_table [l]) \<union> set (as_ways (k_main k))"
      "k_rules ?k = {(f, r). RuleAdd f r = l} \<union> k_rules k"
      "k_private ?k f = None \<longleftrightarrow> k_private k f = None \<and> (\<forall>d. DefaultAdd f d \<noteq> l)"
      using Cons.prems by (cases l; auto simp: as_ways_def)+
    moreover have "main_table (l # ls) = main_table [l] @ main_table ls" by (simp split: option.split)
    ultimately show ?case using Cons.IH [of ?k] Cons.prems by (auto simp del: main_table_simps)
  qed simp
  then show "set (as_ways (k_main k')) = set (main_table ls) \<union> set (as_ways (k_main k))"
    and "k_rules k' = {(f, r). RuleAdd f r \<in> set ls} \<union> k_rules k"
    and "k_private k' f = None \<longleftrightarrow> k_private k f = None \<and> (\<forall>d. DefaultAdd f d \<notin> set ls)"
    by blast+
qed


lemma ways_best:
  assumes "e \<in> set t" and "covers (fst e) a"
  shows "decisions (as_ways t) a = map (hop_way \<circ> snd) (best_matches t a)"
proof -
  have "filter (\<lambda>e. covers (fst e) a) (as_ways t) = as_ways (filter (\<lambda>e. covers (fst e) a) t)"
    by (simp add: as_ways_def filter_map comp_def)
  moreover have "filter (\<lambda>e. covers (fst e) a) t \<noteq> []" using assms by (auto simp: filter_empty_conv)
  ultimately show ?thesis
    by (simp add: decisions_def best_matches_def Let_def as_ways_def filter_map comp_def list.pred_map)
qed

lemma default_covers: "ip_wf a \<Longrightarrow> e \<in> set (default_routes gws) \<Longrightarrow> covers (fst e) a \<longleftrightarrow> is_ipv4 (c_addr (fst e)) = is_ipv4 a"
  using be_value_less [of "octets a"] be_value_less [of "[0, 0, 0, 0]"] be_value_less [of "replicate 16 0"]
  by (cases a) (auto simp: default_routes_def in_block_def)

lemma batch_rules:
  "RuleAdd f r \<in> set (rb_install (build_route_batch p n v6)) \<longleftrightarrow> policy (rb_install (build_route_batch p n v6)) f"
  "RouteDel c \<notin> set (rb_install (build_route_batch p n v6))"
  "(\<exists>d. DefaultAdd f d \<in> set (rb_install (build_route_batch p n v6))) \<longleftrightarrow> policy (rb_install (build_route_batch p n v6)) f"
  unfolding batch_policy
  by (cases r; cases f; auto simp: build_route_batch_def main_batch_def emit_policy_def Let_def)
    (cases f; auto simp: build_route_batch_def main_batch_def emit_policy_def Let_def)+

lemma as_ways_mem: "(c, w) \<in> set (as_ways t) \<longleftrightarrow> (\<exists>h. (c, h) \<in> set t \<and> w = hop_way h)"
  by (force simp: as_ways_def)

lemma kernel_linux:
  fixes p :: route_plan and n :: string and v6 :: bool
  assumes "ip_wf a" and "g \<in> set gws" and "is_ipv4 g = is_ipv4 a"
  defines "ls \<equiv> rb_install (build_route_batch p n v6)"
  assumes "\<And>e. e \<in> set (main_table ls) \<Longrightarrow> 0 < c_prefix (fst e)"
  shows "set (map hop_way (kernel_hops (fold (kernel_line (\<lambda>l. True)) ls (plain_host gws)) a)) = set (linux_decisions ls a)"
proof -
  define k' where "k' = fold (kernel_line (\<lambda>l. True)) ls (plain_host gws)"
  let ?M = "main_table ls" and ?f = "\<not> is_ipv4 a"
  have no: "\<forall>c. RouteDel c \<notin> set ls" "\<forall>f r. RuleDel f r \<notin> set ls"
    unfolding ls_def using batch_rules(2) install_lines(1) by blast+
  note inst = kernel_installed [OF no, of "plain_host gws", folded k'_def]
  have rules: "(?f, r) \<in> k_rules k' \<longleftrightarrow> policy ls ?f" for r
    unfolding inst(2) using batch_rules(1) [of ?f r p n v6] by (simp add: plain_host_def ls_def)
  have priv: "k_private k' ?f \<noteq> None \<longleftrightarrow> policy ls ?f"
    using inst(3) [of ?f] batch_rules(3) [of ?f p n v6] by (simp add: plain_host_def ls_def)
  have main: "set (as_ways (k_main k')) = set ?M \<union> set (as_ways (default_routes gws))"
    using inst(1) by (simp add: plain_host_def)
  have dflt: "c_prefix (fst e) = 0 \<and> snd e = Direct" if "e \<in> set (as_ways (default_routes gws))" for e
    using that by (auto simp: as_ways_def default_routes_def)
  define D where "D = \<lparr>c_addr = (if is_ipv4 g then V4 [0, 0, 0, 0] else V6 (replicate 16 0)), c_prefix = 0\<rparr>"
  have D: "(D, Via g) \<in> set (default_routes gws)" using assms(2) by (simp add: D_def default_routes_def)
  then have cov: "covers D a" using default_covers [OF assms(1) D] assms(3) by (simp add: D_def)
  have def_in: "(D, Direct) \<in> set (as_ways (k_main k'))" unfolding main using D by (auto simp: as_ways_mem)
  then obtain h where "(D, h) \<in> set (k_main k')" by (auto simp: as_ways_mem)
  from ways_best [OF this] cov
  have best: "map hop_way (map snd (best_matches (k_main k') a)) = decisions (as_ways (k_main k')) a" by simp
  show ?thesis
  proof (cases "\<exists>e\<in>set ?M. covers (fst e) a")
    case True
    then obtain e0 where e0: "e0 \<in> set ?M" "covers (fst e0) a" by blast
    have same: "set (decisions (as_ways (k_main k')) a) = set (decisions ?M a)"
      by (rule decisions_drop_shorter [OF _ e0]) (use main dflt assms(5) [OF e0(1)] in auto)
    have "0 < c_prefix (fst e)" if "e \<in> set (best_matches (k_main k') a)" for e
    proof -
      have "(fst e0, snd e0) \<in> set (as_ways (k_main k'))" using e0(1) main by simp
      then obtain h where "(fst e0, h) \<in> set (k_main k')" unfolding as_ways_mem by blast
      then have "c_prefix (fst e0) \<le> c_prefix (fst e)"
        using that e0(2) by (auto simp: best_matches_def list_all_iff Let_def)
      then show ?thesis using assms(5) [OF e0(1)] by simp
    qed
    then have spec: "filter (\<lambda>e. 0 < c_prefix (fst e)) (best_matches (k_main k') a) = best_matches (k_main k') a"
      by simp
    have "best_matches (k_main k') a \<noteq> []"
      using best decisions_nonempty [of "as_ways (k_main k')" a] by (metis empty_set map_is_Nil_conv)
    then have "map hop_way (kernel_hops k' a) = decisions (as_ways (k_main k')) a"
      unfolding kernel_hops_def Let_def spec rules priv using best by simp
    moreover have "filter (\<lambda>e. 0 < c_prefix (fst e)) ?M = ?M" "list_ex (\<lambda>e. covers (fst e) a) ?M"
      using assms(5) True by (simp_all add: list_ex_iff filter_id_conv)
    then have "linux_decisions ls a = decisions ?M a"
      by (simp add: linux_decisions_def Let_def)
    ultimately show ?thesis using same unfolding k'_def by simp
  next
    case False
    have zero: "c_prefix (fst e) = 0" if "e \<in> set (best_matches (k_main k') a)" for e
    proof -
      have e: "(fst e, snd e) \<in> set (k_main k')" "covers (fst e) a"
        using that by (simp_all add: best_matches_def Let_def)
      then have "(fst e, hop_way (snd e)) \<in> set (as_ways (k_main k'))" unfolding as_ways_mem by blast
      then show ?thesis using main dflt [of "(fst e, hop_way (snd e))"] False e(2) by auto
    qed
    then have spec: "filter (\<lambda>e. 0 < c_prefix (fst e)) (best_matches (k_main k') a) = []"
      by (simp add: filter_empty_conv)
    have "snd e = Direct" if "longest (as_ways (k_main k')) a e" for e
      using that main dflt [of e] False unfolding longest_def by auto
    then have dir: "set (decisions (as_ways (k_main k')) a) = {Direct}"
      using decisions_only [OF def_in, of a] cov by simp
    have "set (map hop_way (kernel_hops k' a)) = (if policy ls ?f then {ViaTun} else {Direct})"
    proof (cases "policy ls ?f")
      case True
      then show ?thesis unfolding kernel_hops_def Let_def spec rules priv by simp
    next
      case False
      then have "map hop_way (kernel_hops k' a) = map hop_way (map snd (best_matches (k_main k') a))"
        unfolding kernel_hops_def Let_def spec rules priv by simp
      then show ?thesis using False dir unfolding best by simp
    qed
    moreover have "\<not> list_ex (\<lambda>e. covers (fst e) a) (filter (\<lambda>e. 0 < c_prefix (fst e)) ?M)" "set (decisions ?M a) = {Direct}"
      using False by (auto simp: list_ex_iff set_decisions)
    then have "set (linux_decisions ls a) = (if policy ls ?f then {ViaTun} else {Direct})"
      by (simp add: linux_decisions_def Let_def)
    ultimately show ?thesis unfolding k'_def by simp
  qed
qed

section \<open>Properties\<close>

text \<open>
  C25. A full-tunnel session on Linux leaves the host as it found it. Whatever the host answers, wherever the
  start fails, and wherever the resolver task is cut off: after the run every route through the original gateway
  that was asked for has been asked to be deleted since, and so has every policy rule; the device is gone; and
  \<open>resolv.conf\<close> and the two IPv6 switches, when they were written at all, were last written with what was read
  from them before.
\<close>

theorem tun_session_restores: "restored h (ledger_of (fst (engine_run h cfg rounds answers)))"
proof (cases "engine_plan True cfg")
  case (Inl e)
  then show ?thesis
    by (simp add: engine_run_def engine_start_def ledger_of_def restored_def ledger_empty_def)
next
  case (Inr plan)
  obtain acts r where s: "linux_start h (tc_tun_name cfg) (tc_mtu cfg) plan (tc_dns cfg) (force_dns cfg) (ipv6_killswitch cfg) = (acts, r)"
    by (cases "linux_start h (tc_tun_name cfg) (tc_mtu cfg) plan (tc_dns cfg) (force_dns cfg) (ipv6_killswitch cfg)")
  note ok = linux_start_answers [OF s]
  show ?thesis
  proof (cases r)
    case None
    then show ?thesis
      using ok s Inr by (simp add: engine_run_def engine_start_def)
  next
    case (Some ses)
    let ?up = "\<lparr>nt_installed = tn_installed ses, nt_done = acts, nt_answers = answers\<rparr>"
    let ?s = "engine_resolver cfg rounds (tn_controller ses) ?up"
    have "answers_for h (tn_guard ses) (nt_installed ?up) (ledger_of (nt_done ?up))"
      using ok Some by simp
    from restored_drop(2) [OF engine_resolver_keeps [OF this]] show ?thesis
      using s Inr Some by (simp add: engine_run_def engine_start_def Let_def ledger_of_append)
  qed
qed


definition sample_host :: linux_host where
  "sample_host =
     \<lparr>lh_create = True, lh_addr6 = True, lh_ifindex = Some 7, lh_handle = True, lh_batch = True,
      lh_resolv = Some ''nameserver 9.9.9.9'', lh_resolv_write = True, lh_all = Some ''0'', lh_default = Some ''0'',
      lh_all_write = True, lh_default_write = True\<rparr>"

definition sample_config :: tun_config where
  "sample_config = default_tun_config\<lparr>tc_server_ip := V4 [5, 6, 7, 8], tc_orig_gateway := V4 [192, 168, 0, 1]\<rparr>"

lemma start_dns_ok: "lh_resolv h \<noteq> None \<Longrightarrow> lh_resolv_write h \<Longrightarrow> \<exists>a g'. start_dns h dns force g = (a, g', True)"
  by (auto simp: start_dns_def)

lemma start_ipv6_ok:
  "lh_all h \<noteq> None \<Longrightarrow> lh_default h \<noteq> None \<Longrightarrow> lh_all_write h \<Longrightarrow> lh_default_write h \<Longrightarrow> \<exists>a g'. start_ipv6 h kill g = (a, g', True)"
  by (auto simp: start_ipv6_def Let_def)

lemma good_host_starts:
  assumes "is_ipv4 (rp_tun_addr plan)" and "h = sample_host"
  obtains acts ses where "linux_start h n mtu plan dns force kill = (acts, Some ses)"
proof -
  obtain as v6 where c: "(case rp_tun_addr6 plan of Some (V6 v6) \<Rightarrow> ([AddAddr6 n (V6 v6)], lh_addr6 h) | _ \<Rightarrow> ([], False)) = (as, v6)"
    by fastforce
  let ?b = "build_route_batch plan n v6"
  let ?g = "\<lparr>lt_resolv_backup = None, lt_ipv6_all_backup = None, lt_ipv6_default_backup = None, lt_policy_rules = rb_teardown_rules ?b\<rparr>"
  obtain a3 g3 where d: "start_dns h dns force ?g = (a3, g3, True)"
    using start_dns_ok [of h dns force ?g] assms(2) by (auto simp: sample_host_def)
  obtain a4 g4 where v: "start_ipv6 h (kill \<or> (rp_tun_addr6 plan \<noteq> None \<and> \<not> v6)) g3 = (a4, g4, True)"
    using start_ipv6_ok [of h "kill \<or> (rp_tun_addr6 plan \<noteq> None \<and> \<not> v6)" g3] assms(2) by (auto simp: sample_host_def)
  have h: "lh_create h" "lh_ifindex h = Some 7" "lh_handle h" "lh_batch h"
    using assms(2) by (simp_all add: sample_host_def)
  obtain acts2 ses where "start_guarded h n plan dns force kill v6 7 = (acts2, Some ses)"
    using d v h by (simp add: start_guarded_def Let_def)
  then have "linux_start h n mtu plan dns force kill = ([CreateTun n mtu True] @ as @ acts2, Some ses)"
    using assms(1) c h by (simp add: linux_start_def Let_def)
  then show ?thesis
    by (rule that)
qed

lemma sample_starts:
  obtains acts ses where "engine_start sample_host sample_config = (acts, Some ses)"
proof -
  obtain plan where p: "engine_plan True sample_config = Ok plan" "is_ipv4 (rp_tun_addr plan)"
    by (simp add: engine_plan_def sample_config_def default_tun_config_def effective_def rules_empty_def rules_none_def from_split_def Let_def)
  then show ?thesis
    by (rule_tac good_host_starts [OF p(2) refl]) (rule that, simp add: engine_start_def)
qed

definition bare_kernel :: kernel where
  "bare_kernel = \<lparr>k_main = [(\<lparr>c_addr = V4 [0, 0, 0, 0], c_prefix = 0\<rparr>, Via (V4 [192, 168, 0, 1]))], k_private = (\<lambda>f. None), k_rules = {}\<rparr>"


text \<open>
  The condition on the kernel is needed: the backend takes a batch for done when lines of it failed. When the kernel refuses
  policy rules, the session comes up and every packet leaves through the host's own default route.
\<close>

lemma refused_rules_leak:
  "\<exists>acts ses. engine_start sample_host sample_config = (acts, Some ses) \<and>
     kernel_hops (kernel_after (\<lambda>l. case l of RuleAdd f r \<Rightarrow> False | _ \<Rightarrow> True) acts bare_kernel) (V4 [1, 1, 1, 1]) = [Via (V4 [192, 168, 0, 1])]"
  by (simp add: engine_start_def engine_plan_def sample_config_def default_tun_config_def effective_def rules_empty_def rules_none_def
      from_split_def Let_def linux_start_def sample_host_def start_guarded_def start_dns_def start_ipv6_def force_dns_def ipv6_killswitch_def
      build_route_batch_def main_batch_def carried_def v4_override_def v6_override_def is_default_override_def default_halves4_def
      emit_policy_def ip_batch_def kernel_after_def bare_kernel_def kernel_hops_def best_matches_def in_block_def be_value_def)

text \<open>
  The guard deletes what it did not add. A route through a gateway that the host had before and that is also an excluded block is
  refused by the kernel as a duplicate, yet tracked; the teardown deletes the host's own.
\<close>

lemma teardown_deletes_own_route:
  assumes "(c, Via g) \<in> set (k_main k)" and "c \<in> set (rb_bypass b)" and "\<forall>l. works l = (\<nexists>gw. l = RouteAddVia c gw)"
  shows "(c, Via g) \<notin> set (k_main (kernel_after works (ip_batch (rb_install b) @
    teardown_drop \<lparr>lt_resolv_backup = None, lt_ipv6_all_backup = None, lt_ipv6_default_backup = None, lt_policy_rules = []\<rparr> (rb_bypass b)) k))"
proof -
  have gone: "\<forall>e\<in>set (k_main (fold (kernel_line works) (map RouteDel cs) k0)). fst e \<noteq> c" if "c \<in> set cs \<or> (\<forall>e\<in>set (k_main k0). fst e \<noteq> c)" for cs k0
    using that
  proof (induction cs arbitrary: k0)
    case (Cons d cs)
    have "works (RouteDel d)" using assms(3) by simp
    then have "c \<in> set cs \<or> (\<forall>e\<in>set (k_main (kernel_line works (RouteDel d) k0)). fst e \<noteq> c)" using Cons.prems by auto
    from Cons.IH [OF this] show ?case by (simp only: list.map fold_Cons comp_apply)
  qed simp
  show ?thesis
    using gone [of "rb_bypass b" "fold (kernel_line works) (rb_install b) k"] assms(2)
    by (auto simp: kernel_after_def teardown_drop_def restore_file_def)
qed




text \<open>
  Below /2 the translation is not exact: a single included half of the address space is taken for the default
  override, and the whole family goes into the tunnel.
\<close>

lemma included_half_tunnels_all:
  "\<exists>p. from_split Include [\<lparr>c_addr = V4 [0, 0, 0, 0], c_prefix = 1\<rparr>] [] (V4 [5, 6, 7, 8]) (V4 [192, 168, 0, 1]) None (V4 [10, 71, 0, 2]) None = Ok p \<and>
     decisions (route_table p) (V4 [200, 1, 1, 1]) = [Direct] \<and>
     linux_decisions (rb_install (build_route_batch p ''leshiy0'' False)) (V4 [200, 1, 1, 1]) = [ViaTun]"
  by (simp add: from_split_def Let_def decisions_def route_table_def in_block_def be_value_def linux_decisions_def policy_def
      build_route_batch_def main_batch_def carried_def v4_override_def v6_override_def is_default_override_def emit_policy_def)

text \<open>
  A server that is reached over IPv6: in a session that does not carry IPv6, its host route is not installed and
  the switches turn IPv6 off, on which the tunnel itself runs.
\<close>

lemma v6_server_cut_off:
  "\<exists>acts ses. engine_start sample_host
       (default_tun_config\<lparr>tc_server_ip := default_tun_addr6, tc_orig_gateway := V6 (replicate 16 0)\<rparr>) = (acts, Some ses) \<and>
     (\<forall>c gw. RouteAddVia c gw \<notin> set (batch_lines acts)) \<and>
     lg_files (ledger_of acts) IPV6_ALL = Some ''1'' \<and> lg_files (ledger_of acts) IPV6_DEFAULT = Some ''1''"
  by (simp add: engine_start_def engine_plan_def default_tun_config_def default_tun_addr6_def effective_def rules_empty_def rules_none_def
      from_split_def Let_def linux_start_def sample_host_def start_guarded_def start_dns_def start_ipv6_def force_dns_def ipv6_killswitch_def
      build_route_batch_def main_batch_def carried_def v4_override_def v6_override_def is_default_override_def default_halves4_def
      emit_policy_def ip_batch_def ledger_of_def ledger_empty_def)

end
