(* ===== verification/TunFlows.thy ===== *)
theory TunFlows
  imports TunLinux Assoc
begin

text \<open>
  The flows of the full tunnel, the rest of \<open>crates/leshiy-tun/src/engine.rs\<close>: the accept loop with its cap, the
  TCP and UDP relays, and ICMP echo; with the byte counters of \<open>crates/leshiy-client/src/stats.rs\<close>.

  What the IP stack, the tunnel and the device answer are the events of a relay.
\<close>

section \<open>Definitions\<close>

subsection \<open>stats.rs\<close>

record byte_counters =
  bc_up :: u64
  bc_down :: u64

definition counters_new :: byte_counters where
  "counters_new = \<lparr>bc_up = 0, bc_down = 0\<rparr>"

definition add_up :: "nat \<Rightarrow> byte_counters \<Rightarrow> byte_counters" where
  "add_up n c = c\<lparr>bc_up := bc_up c + of_nat n\<rparr>"

definition add_down :: "nat \<Rightarrow> byte_counters \<Rightarrow> byte_counters" where
  "add_down n c = c\<lparr>bc_down := bc_down c + of_nat n\<rparr>"

subsection \<open>Accepting flows\<close>

definition MAX_CONCURRENT_FLOWS :: nat where "MAX_CONCURRENT_FLOWS = 4096"

datatype flow_kind = TcpFlow | UdpFlow | UnknownTransport | UnknownNetwork

text \<open>The tasks that hold a permit, and what \<open>pump\<close> selects over.\<close>

datatype pump_event = Cancelled | Reattach bool | Accepted flow_kind | AcceptError | FlowEnded nat

record pump_state =
  pm_flows :: "(nat \<times> flow_kind) list"
  pm_next :: nat
  pm_stopped :: "bool option"

definition pump_init :: pump_state where
  "pump_init = \<lparr>pm_flows = [], pm_next = 0, pm_stopped = None\<rparr>"

definition accept_flow :: "flow_kind \<Rightarrow> pump_state \<Rightarrow> pump_state" where
  "accept_flow k s =
     (if k = UnknownNetwork then s
      else if MAX_CONCURRENT_FLOWS \<le> length (pm_flows s) then s
      else s\<lparr>pm_flows := (pm_next s, k) # pm_flows s, pm_next := pm_next s + 1\<rparr>)"

text \<open>Flows are tasks of their own: they outlive a stack that is replaced, and keep their permits.\<close>

definition pump_step :: "pump_event \<Rightarrow> pump_state \<Rightarrow> pump_state" where
  "pump_step e s =
     (case e of
        FlowEnded i \<Rightarrow> s\<lparr>pm_flows := filter (\<lambda>f. fst f \<noteq> i) (pm_flows s)\<rparr>
      | _ \<Rightarrow>
          if pm_stopped s \<noteq> None then s
          else (case e of
                  Cancelled \<Rightarrow> s\<lparr>pm_stopped := Some True\<rparr>
                | AcceptError \<Rightarrow> s\<lparr>pm_stopped := Some False\<rparr>
                | Reattach ok \<Rightarrow> if ok then s else s\<lparr>pm_stopped := Some False\<rparr>
                | Accepted k \<Rightarrow> accept_flow k s
                | FlowEnded i \<Rightarrow> s))"

subsection \<open>TCP and UDP\<close>

definition target_of :: "ip_addr \<times> u16 \<Rightarrow> string" where
  "target_of dst = (case dst of
     (V4 a, p) \<Rightarrow> show_ipv4 a @ '':'' @ show_nat (unat p)
   | (V6 a, p) \<Rightarrow> ''['' @ show_ipv6 a @ '']:'' @ show_nat (unat p))"

definition UDP_IDLE :: nat where "UDP_IDLE = 30 * 1000"

record flow_relay =
  fr_read :: "bytes list"
  fr_sent :: "bytes list"
  fr_sending :: "bytes option"
  fr_got :: "bytes list"
  fr_written :: "bytes list"
  fr_writing :: "bytes option"
  fr_counters :: byte_counters
  fr_result :: "bool option"

definition flow_init :: "byte_counters \<Rightarrow> flow_relay" where
  "flow_init c = \<lparr>fr_read = [], fr_sent = [], fr_sending = None, fr_got = [], fr_written = [], fr_writing = None,
     fr_counters = c, fr_result = None\<rparr>"

text \<open>A read gives an error, or bytes, where no bytes are the end; a receive that fails ends like one without bytes.\<close>

datatype flow_event = DevRead "bytes option" | SendDone bool | TunRecv "bytes option" | WriteDone bool | Slept

definition read_chunk :: "bytes \<Rightarrow> flow_relay \<Rightarrow> flow_relay" where
  "read_chunk b s = s\<lparr>fr_counters := add_up (length b) (fr_counters s), fr_read := fr_read s @ [b], fr_sending := Some b\<rparr>"

definition got_chunk :: "bytes \<Rightarrow> flow_relay \<Rightarrow> flow_relay" where
  "got_chunk b s = s\<lparr>fr_counters := add_down (length b) (fr_counters s), fr_got := fr_got s @ [b], fr_writing := Some b\<rparr>"

definition send_done :: "bytes \<Rightarrow> bool \<Rightarrow> flow_relay \<Rightarrow> flow_relay" where
  "send_done b ok s = (if ok then s\<lparr>fr_sending := None, fr_sent := fr_sent s @ [b]\<rparr> else s\<lparr>fr_result := Some False\<rparr>)"

definition write_done :: "bytes \<Rightarrow> bool \<Rightarrow> flow_relay \<Rightarrow> flow_relay" where
  "write_done b ok s = (if ok then s\<lparr>fr_writing := None, fr_written := fr_written s @ [b]\<rparr> else s\<lparr>fr_result := Some False\<rparr>)"

text \<open>\<open>relay_tcp\<close>: the upload and the download are two futures, each with at most one chunk in its hands.\<close>

definition relay_tcp :: "flow_event \<Rightarrow> flow_relay \<Rightarrow> flow_relay" where
  "relay_tcp e s =
     (if fr_result s \<noteq> None then s
      else (case e of
              DevRead r \<Rightarrow>
                if fr_sending s \<noteq> None then s
                else (case r of
                        None \<Rightarrow> s\<lparr>fr_result := Some False\<rparr>
                      | Some b \<Rightarrow> if b = [] then s\<lparr>fr_result := Some True\<rparr> else read_chunk b s)
            | SendDone ok \<Rightarrow> (case fr_sending s of None \<Rightarrow> s | Some b \<Rightarrow> send_done b ok s)
            | TunRecv r \<Rightarrow>
                if fr_writing s \<noteq> None then s
                else (case r of
                        Some b \<Rightarrow> if b = [] then s\<lparr>fr_result := Some True\<rparr> else got_chunk b s
                      | None \<Rightarrow> s\<lparr>fr_result := Some True\<rparr>)
            | WriteDone ok \<Rightarrow> (case fr_writing s of None \<Rightarrow> s | Some b \<Rightarrow> write_done b ok s)
            | Slept \<Rightarrow> s))"

text \<open>\<open>pump_udp\<close>: one loop, so that while a datagram is handed on nothing else is read; the timer starts anew in each turn.\<close>

definition pump_udp :: "flow_event \<Rightarrow> flow_relay \<Rightarrow> flow_relay" where
  "pump_udp e s =
     (if fr_result s \<noteq> None then s
      else (case (fr_sending s, fr_writing s) of
              (Some b, _) \<Rightarrow> (case e of SendDone ok \<Rightarrow> send_done b ok s | _ \<Rightarrow> s)
            | (None, Some b) \<Rightarrow> (case e of WriteDone ok \<Rightarrow> write_done b ok s | _ \<Rightarrow> s)
            | (None, None) \<Rightarrow>
                (case e of
                   TunRecv (Some b) \<Rightarrow> if b = [] then s\<lparr>fr_result := Some True\<rparr> else got_chunk b s
                 | TunRecv None \<Rightarrow> s\<lparr>fr_result := Some True\<rparr>
                 | DevRead (Some b) \<Rightarrow> if b = [] then s\<lparr>fr_result := Some True\<rparr> else read_chunk b s
                 | DevRead None \<Rightarrow> s\<lparr>fr_result := Some False\<rparr>
                 | Slept \<Rightarrow> s\<lparr>fr_result := Some True\<rparr>
                 | _ \<Rightarrow> s)))"

subsection \<open>ICMP echo\<close>

definition IPPROTO_ICMPV4 :: u8 where "IPPROTO_ICMPV4 = 1"

text \<open>
  The result is the error, or what is written to the device. What the tunnel answers to the open, the send and
  the receive are arguments; no answer to the receive is its timeout.
\<close>

definition relay_icmp_echo ::
    "(string \<Rightarrow> string + unit) \<Rightarrow> (string + unit) \<Rightarrow> (string + bytes) option \<Rightarrow> ip_addr \<Rightarrow> ip_addr \<Rightarrow> u8 \<Rightarrow> bytes \<Rightarrow>
     byte_counters \<Rightarrow> (string + bytes) \<times> byte_counters" where
  "relay_icmp_echo open_icmp sent received src dst proto req counters =
     (let v6 = \<not> is_ipv4 dst; want = (if v6 then IPPROTO_ICMPV6 else IPPROTO_ICMPV4) in
      if proto \<noteq> want then (Err ''not ICMP'', counters)
      else if parse_echo_request req v6 = None then (Err ''not an echo request'', counters)
      else (case open_icmp (show_ip dst) of
        Inl e \<Rightarrow> (Err (''open: '' @ e), counters)
      | Inr _ \<Rightarrow>
          let counters = add_up (length req) counters in
          (case sent of
             Inl e \<Rightarrow> (Err (''send: '' @ e), counters)
           | Inr _ \<Rightarrow>
               (case received of
                  None \<Rightarrow> (Err ''echo reply timed out'', counters)
                | Some (Inl e) \<Rightarrow> (Err (''recv: '' @ e), counters)
                | Some (Inr reply) \<Rightarrow>
                    let counters = add_down (length reply) counters in
                    if \<not> is_echo_reply reply v6 then (Err ''peer returned a non-echo-reply'', counters)
                    else (case (dst, src) of
                            (V6 s, V6 d) \<Rightarrow>
                              (case set_v6_checksum reply s d of
                                 (True, reply) \<Rightarrow> (Ok reply, counters)
                               | (False, _) \<Rightarrow> (Err ''reply too short to checksum'', counters))
                          | _ \<Rightarrow> (Ok reply, counters))))))"

section \<open>Lemmas\<close>

lemma pump_capped:
  assumes "length (pm_flows s) \<le> MAX_CONCURRENT_FLOWS"
  shows "length (pm_flows (pump_step e s)) \<le> MAX_CONCURRENT_FLOWS"
proof -
  have "length (filter P (pm_flows s)) \<le> MAX_CONCURRENT_FLOWS" for P
    using length_filter_le [of P "pm_flows s"] assms by linarith
  then show ?thesis
    using assms by (simp add: pump_step_def accept_flow_def split: pump_event.split)
qed

text \<open>What a relay has handed on is what it has taken, in order, but for the chunk in its hands; the counters agree.\<close>

definition relay_ok :: "byte_counters \<Rightarrow> flow_relay \<Rightarrow> bool" where
  "relay_ok c s \<longleftrightarrow>
     fr_read s = fr_sent s @ (case fr_sending s of None \<Rightarrow> [] | Some b \<Rightarrow> [b]) \<and>
     fr_got s = fr_written s @ (case fr_writing s of None \<Rightarrow> [] | Some b \<Rightarrow> [b]) \<and>
     bc_up (fr_counters s) = bc_up c + of_nat (length (concat (fr_read s))) \<and>
     bc_down (fr_counters s) = bc_down c + of_nat (length (concat (fr_got s)))"

lemmas relay_step_defs = read_chunk_def got_chunk_def send_done_def write_done_def add_up_def add_down_def

lemma relay_tcp_ok: "relay_ok c s \<Longrightarrow> relay_ok c (relay_tcp e s)"
  unfolding relay_tcp_def relay_ok_def relay_step_defs
  by (cases e; cases "fr_sending s"; cases "fr_writing s") (auto simp: algebra_simps split: option.splits)

lemma pump_udp_ok: "relay_ok c s \<Longrightarrow> relay_ok c (pump_udp e s)"
  unfolding pump_udp_def relay_ok_def relay_step_defs
  by (cases e; cases "fr_sending s"; cases "fr_writing s") (auto simp: algebra_simps split: option.splits)

lemma flow_run_ok: "(\<And>e s. relay_ok c s \<Longrightarrow> relay_ok c (f e s)) \<Longrightarrow> relay_ok c (fold f es (flow_init c))"
proof (induction es rule: rev_induct)
  case Nil
  show ?case
    by (simp add: relay_ok_def flow_init_def)
qed simp

text \<open>An echo reply keeps its type when the server restores the identifier, and when the client completes the checksum.\<close>

lemma echo_reply_header:
  assumes "is_echo_reply msg v6" and "take 2 msg' = take 2 msg" and "length msg' = length msg"
  shows "is_echo_reply msg' v6"
proof -
  have "msg' ! 0 = msg ! 0"
    using assms(2) nth_take [of 0 2 msg'] nth_take [of 0 2 msg] by simp
  then show ?thesis
    using assms(1,3) by (simp add: is_echo_reply_def Let_def OFF_TYPE_def)
qed

lemma down_message_shape:
  assumes "8 \<le> length msg"
  shows "length (down_message (IcmpAssoc v6) (Some i) msg) = length msg"
    and "slice 4 6 (down_message (IcmpAssoc v6) (Some i) msg) = u16_to_be i"
proof -
  obtain a b c d e f g h rest where m: "msg = a # b # c # d # e # f # g # h # rest"
    by (rule header_cases [of msg]) (use assms in \<open>simp add: ICMP_HEADER_LEN_def\<close>)
  obtain x y where xy: "u16_to_be i = [x, y]"
    using two_list [OF length_uN_to_be(1)] by blast
  let ?m = "a # b # 0 # 0 # x # y # g # h # rest"
  obtain p q where pq: "u16_to_be (checksum ?m) = [p, q]"
    using two_list [OF length_uN_to_be(1)] by blast
  have "set_id msg i = (True, ?m)" "set_v4_checksum ?m = (True, a # b # p # q # x # y # g # h # rest)"
    by (simp_all add: set_id_def set_v4_checksum_def icmp_offsets m xy pq write_at_def)
  then show "length (down_message (IcmpAssoc v6) (Some i) msg) = length msg"
    "slice 4 6 (down_message (IcmpAssoc v6) (Some i) msg) = u16_to_be i"
    by (simp_all add: down_message_def slice_def xy m)
qed

lemma v6_checksum_keeps:
  assumes "set_v6_checksum msg s d = (True, msg')"
  shows "take 2 msg' = take 2 msg" and "drop 4 msg' = drop 4 msg" and "length msg' = length msg"
proof -
  have len: "ICMP_HEADER_LEN \<le> length msg"
    using assms by (auto simp: set_v6_checksum_def split: if_splits)
  obtain a b c e f g h i rest where m: "msg = a # b # c # e # f # g # h # i # rest"
    by (rule header_cases [OF len])
  define ck where "ck = u16_to_be (v6_checksum (write_at OFF_CHECKSUM [0, 0] msg) s d)"
  obtain x y where xy: "ck = [x, y]"
    using two_list [OF length_uN_to_be(1)] ck_def by blast
  have "msg' = write_at OFF_CHECKSUM ck (write_at OFF_CHECKSUM [0, 0] msg)"
    using assms len by (auto simp: set_v6_checksum_def Let_def ck_def)
  then have "msg' = a # b # x # y # f # g # h # i # rest"
    by (simp add: m xy write_at_def OFF_CHECKSUM_def)
  then show "take 2 msg' = take 2 msg" "drop 4 msg' = drop 4 msg" "length msg' = length msg"
    by (simp_all add: m)
qed

text \<open>The target of a flow is text that the server reads back as the same address and port.\<close>

lemma target_of_read: "ip_wf a \<Longrightarrow> parse_socket_addr (target_of (a, p)) = Some (a, p)"
  using socket_v4_show socket_v6_show by (cases a) (simp_all add: target_of_def)

section \<open>Properties\<close>

text \<open>
  C28. A ping through the tunnel. Let a host answer an echo request of the client, with whatever identifier the
  server's socket gave it; the server restores the client's identifier, the client completes the checksum. What
  the device then gets is an echo reply of the right family with the identifier of the request and the data and
  sequence number of the host's reply, and its checksum verifies: over the message for IPv4, over the
  pseudo-header from the pinged host to the client for IPv6.
\<close>

theorem ping_end_to_end:
  assumes "parse_echo_request req v6 = Some e" and "is_echo_reply msg v6" and "length msg \<le> 65535"
    and "ip_wf src" "ip_wf dst" "is_ipv4 src = (\<not> v6)" "is_ipv4 dst = (\<not> v6)"
    and "reply = down_message (IcmpAssoc v6) (Some (echo_id e)) msg"
    and "proto = (if v6 then IPPROTO_ICMPV6 else IPPROTO_ICMPV4)" and "open_icmp (show_ip dst) = Ok ()"
  shows "\<exists>out. fst (relay_icmp_echo open_icmp (Ok ()) (Some (Ok reply)) src dst proto req c) = Ok out \<and>
      is_echo_reply out v6 \<and> slice 4 6 out = u16_to_be (echo_id e) \<and> drop 6 out = drop 6 msg \<and>
      (if v6 then fold_checksum (sum_words (pseudo_header_sum (octets dst) (octets src) (length out)) out) = 0
       else checksum out = 0)"
proof -
  have len: "8 \<le> length msg"
    using assms(2) by (simp add: is_echo_reply_def Let_def ICMP_HEADER_LEN_def)
  note shape = down_message_shape [OF len, of v6 "echo_id e", folded assms(8)]
  note rest = reply_restored(3,4) [OF len assms(3), where id' = "echo_id e" and ?v6.0 = v6, folded assms(8)]
  have er: "is_echo_reply reply v6"
    by (rule echo_reply_header [OF assms(2)]) (use shape rest in simp_all)
  have run: "fst (relay_icmp_echo open_icmp (Ok ()) (Some (Ok reply)) src dst proto req c) =
      (case (dst, src) of (V6 s, V6 d) \<Rightarrow>
         (case set_v6_checksum reply s d of (True, r) \<Rightarrow> Ok r | (False, _) \<Rightarrow> Err ''reply too short to checksum'')
       | _ \<Rightarrow> Ok reply)"
    using assms er by (auto simp: relay_icmp_echo_def Let_def split: ip_addr.splits prod.splits bool.splits)
  show ?thesis
  proof (cases v6)
    case True
    then obtain s d where sd: "dst = V6 s" "src = V6 d" "length s = 16" "length d = 16"
      using assms(4-7) by (cases dst; cases src) auto
    obtain out where out: "set_v6_checksum reply s d = (True, out)"
        "fold_checksum (sum_words (pseudo_header_sum s d (length out)) out) = 0"
      using v6_checksum_verifies [of s d reply] sd shape(1) len assms(3) by (auto simp: ICMP_HEADER_LEN_def)
    note keep = v6_checksum_keeps [OF out(1)]
    have "drop 6 out = drop 6 reply" "slice 4 6 out = slice 4 6 reply"
      using arg_cong [OF keep(2), of "drop 2"] arg_cong [OF keep(2), of "take 2"] by (simp_all add: slice_def take_drop)
    moreover have "is_echo_reply out v6"
      by (rule echo_reply_header [OF er keep(1,3)])
    ultimately show ?thesis
      using run out shape rest sd True by simp
  next
    case False
    then have "fst (relay_icmp_echo open_icmp (Ok ()) (Some (Ok reply)) src dst proto req c) = Ok reply"
      using run assms(6,7) by (cases dst) simp_all
    then show ?thesis
      using False er shape rest reply_restored(1) [OF len assms(3)] assms(8) by simp
  qed
qed

theorem ping_end_to_end_witness:
  "\<exists>out. fst (relay_icmp_echo (\<lambda>_. Ok ()) (Ok ()) (Some (Ok (down_message (IcmpAssoc False) (Some 1) [0, 0, 0, 0, 9, 9, 0, 2])))
     (V4 [10, 71, 0, 2]) (V4 [1, 1, 1, 1]) IPPROTO_ICMPV4 [8, 0, 0, 0, 0, 1, 0, 2] counters_new) = Ok out \<and> slice 4 6 out = [0, 1] \<and> checksum out = 0"
proof -
  have p: "parse_echo_request [8, 0, 0, 0, 0, 1, 0, 2] False = Some \<lparr>echo_id = 1, echo_seq = 2\<rparr>"
    by (simp add: parse_echo_request_def V4_ECHO_REQUEST_def icmp_offsets u16_from_be_def be_value_def)
  have r: "is_echo_reply [0, 0, 0, 0, 9, 9, 0, 2] False"
    by (simp add: is_echo_reply_def V4_ECHO_REPLY_def icmp_offsets)
  have u: "u16_to_be 1 = [0, 1]"
    by code_simp
  show ?thesis
    using ping_end_to_end [OF p r, of "V4 [10, 71, 0, 2]" "V4 [1, 1, 1, 1]"
        "down_message (IcmpAssoc False) (Some 1) [0, 0, 0, 0, 9, 9, 0, 2]" IPPROTO_ICMPV4 "\<lambda>_. Ok ()" counters_new] u by auto
qed

text \<open>
  Flows of the device. However flows come and end, across re-attached devices, at most 4096 are served at
  once; a TCP and a UDP relay hand on exactly what they take, in order, but for one chunk in each direction that
  is in their hands; and the counters are the bytes taken, modulo their 64 bits.
\<close>

theorem tun_flows_faithful:
  "length (pm_flows (fold pump_step pes pump_init)) \<le> MAX_CONCURRENT_FLOWS \<and>
   relay_ok c (fold relay_tcp es (flow_init c)) \<and> relay_ok c (fold pump_udp es (flow_init c))"
proof -
  have "length (pm_flows (fold pump_step pes pump_init)) \<le> MAX_CONCURRENT_FLOWS"
    by (induction pes rule: rev_induct) (simp_all add: pump_init_def pump_capped)
  then show ?thesis
    using flow_run_ok [of c relay_tcp, OF relay_tcp_ok] flow_run_ok [of c pump_udp, OF pump_udp_ok] by simp
qed

end
