(* ===== verification/Helper.thy ===== *)
theory Helper
  imports Supervisor TunLinux
begin

text \<open>
  The privileged helper: the session runner of \<open>crates/leshiy-helper/src/runner.rs\<close> and the control server of
  \<open>crates/leshiy-helper/src/server.rs\<close>.

  The runner is a state with one step per piece of code between two awaits: a call of \<open>start\<close>, what the worker
  task does when its preparation or the engine ends, and the two halves of \<open>stop\<close>, which holds the session lock
  while it waits for the worker. Dialling, route discovery and the engine itself are outside: the worker's
  events say what they gave. A worker is numbered; the worker's cancellation permit is a flag, as in
  \<open>tokio::sync::Notify\<close>. The server is written over the operations of the trait \<open>VpnRunner\<close>, and what it relies
  on is a locale. JSON is a parameter.
\<close>

section \<open>Definitions\<close>

subsection \<open>runner.rs\<close>

datatype helper_error = Unauthorized | AlreadyRunning | BadRequest string | Engine string | HelperIo string

fun error_text :: "helper_error \<Rightarrow> string" where
  "error_text Unauthorized = ''unauthorized''"
| "error_text AlreadyRunning = ''a VPN session is already running''"
| "error_text (BadRequest m) = ''bad request: '' @ m"
| "error_text (Engine m) = ''engine error: '' @ m"
| "error_text (HelperIo m) = m"

record rates =
  r_up_bps :: u64
  r_down_bps :: u64
  r_total_up :: u64
  r_total_down :: u64

definition zero_rates :: rates where
  "zero_rates = \<lparr>r_up_bps = 0, r_down_bps = 0, r_total_up = 0, r_total_down = 0\<rparr>"

record start_params =
  sp_uri :: string
  sp_tun_mtu :: u16
  sp_tun_name :: string
  sp_dns :: string
  sp_split_tunnel :: split_plan
  sp_ipv6 :: bool

definition validate_tun_name :: "string \<Rightarrow> helper_error + unit" where
  "validate_tun_name name =
     (if name = [] \<or> 15 < length name then Err (Engine ''invalid tun name: length must be 1..=15'')
      else if \<not> list_all (\<lambda>b. is_ascii_alphanumeric b \<or> b = 95) (as_bytes name) then Err (Engine ''invalid tun name: only [A-Za-z0-9_] allowed'')
      else Ok ())"

text \<open>
  \<open>prepare\<close>: the resolver, the discovery of the default gateways and the dial, within its time limit, are
  arguments; the transport preference is handed to the dial.
\<close>

definition prepare ::
    "(string \<Rightarrow> reality_error + reality_uri) \<Rightarrow> (string \<Rightarrow> string + ip_addr list) \<Rightarrow> string + ip_addr \<Rightarrow> string + ip_addr \<Rightarrow>
     (string \<Rightarrow> (string + 't) option) \<Rightarrow> (reality_error \<Rightarrow> string) \<Rightarrow> start_params \<Rightarrow> helper_error + ('t \<times> tun_config)" where
  "prepare parse lookup_host gateway_v4 gateway_v6 dial show_error params =
     try_bind (validate_tun_name (sp_tun_name params)) (\<lambda>_.
     try_bind (map_err (\<lambda>e. Engine (''bad uri: '' @ show_error e)) (parse (sp_uri params))) (\<lambda>parsed.
     try_bind (map_err (\<lambda>e. Engine (''resolve server addr: '' @ e)) (lookup_host (server_addr parsed))) (\<lambda>addrs.
     try_bind (case addrs of [] \<Rightarrow> Err (Engine ''no address for server'') | a # _ \<Rightarrow> Ok a) (\<lambda>server_ip.
     try_bind (map_err (\<lambda>e. Engine (''discover default gateway: '' @ e)) (if is_ipv4 server_ip then gateway_v4 else gateway_v6)) (\<lambda>orig_gateway.
     let orig_gateway6 = (if is_ipv4 server_ip then (case gateway_v6 of Inl _ \<Rightarrow> None | Inr g \<Rightarrow> Some g) else None) in
     try_bind (case dial (sp_uri params) of
                 None \<Rightarrow> Err (Engine ''dial timed out'')
               | Some (Inl e) \<Rightarrow> Err (Engine (''dial failed: '' @ e))
               | Some (Inr t) \<Rightarrow> Ok t) (\<lambda>tunnel.
     try_bind (case parse_ip (sp_dns params) of None \<Rightarrow> Err (Engine ''invalid dns address'') | Some d \<Rightarrow> Ok d) (\<lambda>dns.
     Ok (tunnel, default_tun_config\<lparr>tc_tun_name := sp_tun_name params, tc_mtu := sp_tun_mtu params, tc_server_ip := server_ip,
           tc_orig_gateway := orig_gateway, tc_orig_gateway6 := orig_gateway6, tc_dns := [dns],
           tc_split := sp_split_tunnel params,
           tc_tun_addr6 := (if sp_ipv6 params then Some default_tun_addr6 else None)\<rparr>))))))))"

datatype worker = Preparing | Running | Exited

record runner =
  rn_state :: conn_state
  rn_slot :: "nat option"
  rn_lock :: "nat option"
  rn_worker :: "nat \<Rightarrow> worker"
  rn_permit :: "nat \<Rightarrow> bool"
  rn_next :: nat
  rn_ready :: "nat \<Rightarrow> (helper_error + unit) option"
  rn_rates :: rates

definition runner_new :: runner where
  "runner_new = \<lparr>rn_state = Disconnected, rn_slot = None, rn_lock = None, rn_worker = (\<lambda>_. Exited),
     rn_permit = (\<lambda>_. False), rn_next = 0, rn_ready = (\<lambda>_. None), rn_rates = zero_rates\<rparr>"

text \<open>\<open>start_prepared\<close> up to its await: the worker it started, or the refusal.\<close>

definition start_prepared :: "runner \<Rightarrow> (helper_error + nat) \<times> runner" where
  "start_prepared s =
     (if rn_lock s \<noteq> None then (Err AlreadyRunning, s)
      else if (case rn_slot s of None \<Rightarrow> False | Some k \<Rightarrow> rn_worker s k \<noteq> Exited) then (Err AlreadyRunning, s)
      else let k = rn_next s in
        (Ok k, s\<lparr>rn_state := Connecting, rn_slot := Some k, rn_worker := (rn_worker s)(k := Preparing), rn_next := k + 1\<rparr>))"

text \<open>What preparation gave, a sample that the session's sampler publishes, or the end of the engine.\<close>

datatype worker_event = Prepared "helper_error + unit" | Sampled rates | EngineExited

definition worker_exit :: "nat \<Rightarrow> runner \<Rightarrow> runner" where
  "worker_exit k s = s\<lparr>rn_rates := zero_rates, rn_state := Disconnected, rn_worker := (rn_worker s)(k := Exited)\<rparr>"

definition worker_step :: "nat \<Rightarrow> worker_event option \<Rightarrow> runner \<Rightarrow> runner" where
  "worker_step k e s =
     (case rn_worker s k of
        Preparing \<Rightarrow>
          if rn_permit s k
          then worker_exit k (s\<lparr>rn_permit := (rn_permit s)(k := False),
                 rn_ready := (rn_ready s)(k \<mapsto> Err (Engine ''startup cancelled''))\<rparr>)
          else (case e of
                  Some (Prepared (Inr _)) \<Rightarrow>
                    s\<lparr>rn_state := Connected, rn_worker := (rn_worker s)(k := Running), rn_ready := (rn_ready s)(k \<mapsto> Ok ())\<rparr>
                | Some (Prepared (Inl err)) \<Rightarrow> worker_exit k (s\<lparr>rn_ready := (rn_ready s)(k \<mapsto> Err err)\<rparr>)
                | _ \<Rightarrow> s)
      | Running \<Rightarrow>
          (case e of
             Some EngineExited \<Rightarrow> worker_exit k s
           | Some (Sampled r) \<Rightarrow> s\<lparr>rn_rates := r\<rparr>
           | _ \<Rightarrow> s)
      | Exited \<Rightarrow> s)"

text \<open>The two halves of \<open>stop\<close>; \<open>stop_dropped\<close> is a caller that gives up in between.\<close>

definition stop_begin :: "nat \<Rightarrow> runner \<Rightarrow> runner" where
  "stop_begin c s =
     (if rn_lock s \<noteq> None then s
      else (case rn_slot s of
              None \<Rightarrow> s\<lparr>rn_lock := Some c\<rparr>
            | Some k \<Rightarrow> s\<lparr>rn_lock := Some c, rn_permit := (rn_permit s)(k := True)\<rparr>))"

definition stop_end :: "nat \<Rightarrow> runner \<Rightarrow> runner" where
  "stop_end c s =
     (if rn_lock s = Some c \<and> (case rn_slot s of None \<Rightarrow> True | Some k \<Rightarrow> rn_worker s k = Exited)
      then s\<lparr>rn_slot := None, rn_state := Disconnected, rn_lock := None\<rparr> else s)"

definition stop_dropped :: "nat \<Rightarrow> runner \<Rightarrow> runner" where
  "stop_dropped c s = (if rn_lock s = Some c then s\<lparr>rn_lock := None\<rparr> else s)"

datatype runner_event =
    StartCall
  | WorkerRuns nat "worker_event option"
  | StopBegins nat
  | StopEnds nat
  | StopDropped nat

definition runner_step :: "runner_event \<Rightarrow> runner \<Rightarrow> runner" where
  "runner_step e s =
     (case e of
        StartCall \<Rightarrow> snd (start_prepared s)
      | WorkerRuns k w \<Rightarrow> worker_step k w s
      | StopBegins c \<Rightarrow> stop_begin c s
      | StopEnds c \<Rightarrow> stop_end c s
      | StopDropped c \<Rightarrow> stop_dropped c s)"

definition runner_run :: "runner_event list \<Rightarrow> runner" where
  "runner_run es = fold runner_step es runner_new"

text \<open>The trait \<open>VpnRunner\<close> on one caller's side: a whole \<open>start\<close> or \<open>stop\<close>, with what the worker's awaits gave.\<close>

definition full_start :: "worker_event \<Rightarrow> runner \<Rightarrow> (helper_error + unit) \<times> runner" where
  "full_start e s =
     (case start_prepared s of
        (Inl err, s) \<Rightarrow> (Err err, s)
      | (Inr k, s) \<Rightarrow>
          let s = worker_step k (Some e) s in
          (case rn_ready s k of None \<Rightarrow> Err (Engine ''startup worker exited'') | Some r \<Rightarrow> r, s))"

definition full_stop :: "runner \<Rightarrow> runner" where
  "full_stop s =
     (let c = 0; s = stop_begin c s in
      stop_end c (case rn_slot s of None \<Rightarrow> s | Some k \<Rightarrow> worker_step k (Some EngineExited) s))"

subsection \<open>server.rs\<close>

datatype 'p request = StartVpn 'p | ReqStop | ReqShutdown | GetStatus | Subscribe

datatype response =
    RespOk
  | RespStatus conn_state rates
  | RespEvent "conn_state option" "rates option"
  | RespErr string

datatype serve_mode = Persistent | Ephemeral

datatype handled = HSubscribe | HShutdown | HOther

text \<open>The operations of the trait, on the runner's state \<open>'s\<close>.\<close>

record ('p, 's) vpn_runner =
  vr_start :: "'p \<Rightarrow> 's \<Rightarrow> (string + unit) \<times> 's"
  vr_stop :: "'s \<Rightarrow> 's"
  vr_state :: "'s \<Rightarrow> conn_state"
  vr_rates :: "'s \<Rightarrow> rates"

text \<open>
  What happens on a subscription: the two watch channels change or close, or the peer's end is noticed. Each
  comes with whether the line that is then written gets through. Meanwhile other connections drive the runner;
  \<open>later\<close> is its state when the subscription ends.
\<close>

datatype sub_event = StateChanged conn_state bool | StatsChanged rates bool | ChannelClosed | PeerClosed

fun subscribe_events :: "sub_event list \<Rightarrow> response list" where
  "subscribe_events [] = []"
| "subscribe_events (StateChanged st ok # es) = RespEvent (Some st) None # (if ok then subscribe_events es else [])"
| "subscribe_events (StatsChanged r ok # es) = RespEvent None (Some r) # (if ok then subscribe_events es else [])"
| "subscribe_events (ChannelClosed # es) = []"
| "subscribe_events (PeerClosed # es) = []"

definition subscribe_loop :: "('p, 's) vpn_runner \<Rightarrow> bool \<Rightarrow> sub_event list \<Rightarrow> 's \<Rightarrow> response list" where
  "subscribe_loop vr written es s =
     RespEvent (Some (vr_state vr s)) (Some (vr_rates vr s)) # (if written then subscribe_events es else [])"

text \<open>\<open>None\<close> is a write error of the one response, which ends the handler with an error.\<close>

definition dispatch ::
    "('p, 's) vpn_runner \<Rightarrow> bool \<Rightarrow> sub_event list \<Rightarrow> 's \<Rightarrow> 'p request \<Rightarrow> 's \<Rightarrow> handled option \<times> response list \<times> 's" where
  "dispatch vr written es later req s =
     (case req of
        StartVpn params \<Rightarrow>
          (case vr_start vr params s of
             (Inr _, s) \<Rightarrow> (if written then Some HOther else None, [RespOk], s)
           | (Inl m, s) \<Rightarrow> (if written then Some HOther else None, [RespErr m], s))
      | ReqStop \<Rightarrow> (if written then Some HOther else None, [RespOk], vr_stop vr s)
      | ReqShutdown \<Rightarrow> (if written then Some HShutdown else None, [RespOk], vr_stop vr s)
      | GetStatus \<Rightarrow> (if written then Some HOther else None, [RespStatus (vr_state vr s) (vr_rates vr s)], s)
      | Subscribe \<Rightarrow> (Some HSubscribe, subscribe_loop vr written es s, later))"

text \<open>The request line: a read error, the end of the stream, or a line (cut at the size limit).\<close>

definition handle_stream ::
    "(string \<Rightarrow> string + 'p request) \<Rightarrow> ('p, 's) vpn_runner \<Rightarrow> bool \<Rightarrow> sub_event list \<Rightarrow> 's \<Rightarrow> string option option \<Rightarrow> 's \<Rightarrow>
     handled option \<times> response list \<times> 's" where
  "handle_stream parse vr written es later line s =
     (case line of
        None \<Rightarrow> (None, [], s)
      | Some None \<Rightarrow> (Some HOther, [], s)
      | Some (Some l) \<Rightarrow>
          (case parse l of
             Inl e \<Rightarrow> (if written then Some HOther else None, [RespErr (''bad request: '' @ e)], s)
           | Inr req \<Rightarrow> dispatch vr written es later req s))"

text \<open>The result says whether the helper is told to exit.\<close>

definition spawn_conn ::
    "(string \<Rightarrow> string + 'p request) \<Rightarrow> ('p, 's) vpn_runner \<Rightarrow> serve_mode \<Rightarrow> bool \<Rightarrow> sub_event list \<Rightarrow> 's \<Rightarrow>
     string option option \<Rightarrow> 's \<Rightarrow> bool \<times> 's" where
  "spawn_conn parse vr mode written es later line s =
     (case handle_stream parse vr written es later line s of
        (Some HSubscribe, _, s) \<Rightarrow> (mode = Ephemeral, vr_stop vr s)
      | (Some HShutdown, _, s) \<Rightarrow> (mode = Ephemeral, s)
      | (Some HOther, _, s) \<Rightarrow> (False, s)
      | (None, _, s) \<Rightarrow> (False, s))"

text \<open>The peer's uid must be the allowed one; root is no exception.\<close>

definition helper_authorize :: "u32 \<Rightarrow> u32 \<Rightarrow> bool" where
  "helper_authorize peer_uid allowed_uid \<longleftrightarrow> peer_uid = allowed_uid"

section \<open>Lemmas\<close>

definition runner_inv :: "runner \<Rightarrow> bool" where
  "runner_inv s \<longleftrightarrow>
     (\<forall>k. rn_worker s k \<noteq> Exited \<longrightarrow> rn_slot s = Some k) \<and> (\<forall>k. rn_next s \<le> k \<longrightarrow> rn_worker s k = Exited \<and> \<not> rn_permit s k) \<and>
     (\<forall>k. rn_slot s = Some k \<longrightarrow> k < rn_next s) \<and>
     rn_state s =
       (case rn_slot s of
          None \<Rightarrow> Disconnected
        | Some k \<Rightarrow> (case rn_worker s k of Preparing \<Rightarrow> Connecting | Running \<Rightarrow> Connected | Exited \<Rightarrow> Disconnected)) \<and>
     (\<forall>k. rn_worker s k = Running \<longrightarrow> rn_ready s k = Some (Ok ()))"

lemma start_inv: "runner_inv s \<Longrightarrow> runner_inv (snd (start_prepared s))"
  by (auto simp: runner_inv_def start_prepared_def Let_def split: option.splits)

lemma worker_inv: "runner_inv s \<Longrightarrow> runner_inv (worker_step k e s)"
  by (cases "rn_worker s k"; cases "rn_slot s")
    (auto simp: runner_inv_def worker_step_def worker_exit_def split: option.splits worker_event.splits sum.splits if_splits)

lemma stop_inv: "runner_inv s \<Longrightarrow> runner_inv (stop_begin c s)" "runner_inv s \<Longrightarrow> runner_inv (stop_end c s)"
  "runner_inv s \<Longrightarrow> runner_inv (stop_dropped c s)"
  by (auto simp: runner_inv_def stop_begin_def stop_end_def stop_dropped_def split: option.splits worker.splits)

lemma runner_run_inv: "runner_inv (runner_run es)"
proof (induction es rule: rev_induct)
  case Nil
  show ?case
    by (simp add: runner_run_def runner_inv_def runner_new_def)
next
  case (snoc e es)
  then show ?case
    by (cases e) (simp_all add: runner_run_def runner_step_def start_inv worker_inv stop_inv)
qed

text \<open>What the control server relies on, and what it gives: a helper that is told to exit has stopped its session.\<close>

locale stopping_runner =
  fixes vr :: "('p, 's) vpn_runner" and ok :: "'s \<Rightarrow> bool"
  assumes stop_disconnects: "ok s \<Longrightarrow> ok (vr_stop vr s) \<and> vr_state vr (vr_stop vr s) = Disconnected"
    and start_keeps: "ok s \<Longrightarrow> ok (snd (vr_start vr p s))"
begin

lemma exit_stopped:
  assumes "ok s" and "ok later" and "spawn_conn parse vr mode written es later line s = (quit, s')"
  shows "ok s' \<and> (quit \<longrightarrow> mode = Ephemeral \<and> vr_state vr s' = Disconnected)"
  using assms stop_disconnects start_keeps
  by (auto simp: spawn_conn_def handle_stream_def dispatch_def subscribe_loop_def
      split: option.splits sum.splits request.splits handled.splits if_splits prod.splits)
    (metis snd_conv)+

lemma subscribe_ends_stopped:
  assumes "ok later" and "parse l = Ok Subscribe"
  shows "spawn_conn parse vr mode written es later (Some (Some l)) s = (mode = Ephemeral, vr_stop vr later) \<and>
    vr_state vr (vr_stop vr later) = Disconnected"
  using assms stop_disconnects by (simp add: spawn_conn_def handle_stream_def dispatch_def)

end

definition engine_runner :: "('p \<Rightarrow> worker_event) \<Rightarrow> ('p, runner) vpn_runner" where
  "engine_runner world =
     \<lparr>vr_start = (\<lambda>p s. (case full_start (world p) s of (r, s) \<Rightarrow> (map_err error_text r, s))),
      vr_stop = full_stop, vr_state = rn_state, vr_rates = rn_rates\<rparr>"

definition runner_idle :: "runner \<Rightarrow> bool" where
  "runner_idle s \<longleftrightarrow> runner_inv s \<and> rn_lock s = None"

lemma worker_lock [simp]: "rn_lock (worker_step k e s) = rn_lock s" "rn_slot (worker_step k e s) = rn_slot s"
  by (auto simp: worker_step_def worker_exit_def split: worker.split option.split worker_event.split sum.split)

lemma full_stop_idle:
  assumes "runner_idle s"
  shows "runner_idle (full_stop s) \<and> rn_state (full_stop s) = Disconnected"
proof -
  let ?b = "stop_begin 0 s"
  have b: "rn_lock ?b = Some 0" "rn_slot ?b = rn_slot s" "\<And>k. rn_slot s = Some k \<Longrightarrow> rn_permit ?b k"
    using assms by (auto simp: runner_idle_def stop_begin_def split: option.split)
  have binv: "runner_inv ?b"
    using assms stop_inv(1) by (simp add: runner_idle_def)
  let ?w = "case rn_slot ?b of None \<Rightarrow> ?b | Some k \<Rightarrow> worker_step k (Some EngineExited) ?b"
  have w: "rn_lock ?w = Some 0" "rn_slot ?w = rn_slot s" "runner_inv ?w"
    using b worker_inv [OF binv] binv by (auto split: option.split)
  have "rn_worker ?w k = Exited" if "rn_slot s = Some k" for k
    using that b(2) b(3) [OF that] by (auto simp: worker_step_def worker_exit_def split: worker.split)
  then have "stop_end 0 ?w = ?w\<lparr>rn_slot := None, rn_state := Disconnected, rn_lock := None\<rparr>"
    using w by (simp add: stop_end_def split: option.split)
  moreover have "full_stop s = stop_end 0 ?w"
    by (simp add: full_stop_def Let_def)
  ultimately show ?thesis
    using stop_inv(2) [OF w(3), of 0] by (simp add: runner_idle_def)
qed

lemma full_start_idle: "runner_idle s \<Longrightarrow> runner_idle (snd (full_start e s))"
  using start_inv [of s] worker_inv
  by (auto simp: runner_idle_def full_start_def start_prepared_def Let_def split: prod.splits sum.splits option.splits)

interpretation helper: stopping_runner "engine_runner world" runner_idle
proof
  fix s p assume "runner_idle s"
  then show "runner_idle (vr_stop (engine_runner world) s) \<and>
      vr_state (engine_runner world) (vr_stop (engine_runner world) s) = Disconnected"
    using full_stop_idle by (simp add: engine_runner_def)
  show "runner_idle (snd (vr_start (engine_runner world) p s))"
    using full_start_idle [OF \<open>runner_idle s\<close>, of "world p"]
    by (cases "full_start (world p) s") (simp add: engine_runner_def)
qed

text \<open>No text that goes into a batch has a line break.\<close>

lemma newline_no_digit: "to_digit r (CHR 0x0A) = None"
  by (simp add: to_digit_def Let_def)

lemma show_nat_newline: "CHR 0x0A \<notin> set (show_nat n)"
  using show_radix_chars [of 10 "CHR 0x0A" n] newline_no_digit by (auto simp: show_nat_radix)

lemma show_ip_newline: "CHR 0x0A \<notin> set (show_ip a)"
proof -
  have hex: "CHR 0x0A \<notin> set (show_radix 16 n)" for n
    using show_radix_chars [of 16 "CHR 0x0A" n] newline_no_digit by auto
  have fmt: "CHR 0x0A \<notin> set (fmt_subslice gs)" for gs
    by (induction gs rule: fmt_subslice.induct) (simp_all add: hex)
  show ?thesis
    by (cases a) (auto simp: show_ipv4_def show_ipv6_def show_nat_newline fmt Let_def split: option.split prod.split)
qed

lemma line_text_newline:
  assumes "CHR 0x0A \<notin> set name" and "x \<in> set (rb_install (build_route_batch plan name v6))"
  shows "CHR 0x0A \<notin> set (line_text x)"
proof -
  have rule: "CHR 0x0A \<notin> set (rule_text k)" "CHR 0x0A \<notin> set (family_flag f)" for k f
    by (cases k; simp add: family_flag_def)+
  have cidr: "CHR 0x0A \<notin> set (show_cidr c)" for c
    by (simp add: show_cidr_def show_ip_newline show_nat_newline)
  have "(\<exists>c gw. x = RouteAddVia c gw) \<or> (\<exists>c. x = RouteAddDev c name) \<or> (\<exists>f. x = DefaultAdd f name) \<or> (\<exists>f k. x = RuleAdd f k)"
    using assms(2) main_batch_lines [of x plan name v6] by (auto simp: build_route_batch_def Let_def split: if_splits)
  then show ?thesis
    using assms(1) cidr rule show_ip_newline by (auto split: if_splits)
qed

lemma prepared_config:
  assumes "prepare parse lookup gw4 gw6 dial show_err params = Ok (t, cfg)"
  obtains parsed server gw rest where "validate_tun_name (sp_tun_name params) = Ok ()" and "tc_tun_name cfg = sp_tun_name params"
    and "parse (sp_uri params) = Ok parsed" and "lookup (server_addr parsed) = Ok (server # rest)"
    and "(if is_ipv4 server then gw4 else gw6) = Ok gw" and "tc_server_ip cfg = server" and "tc_orig_gateway cfg = gw"
    and "dial (sp_uri params) = Some (Ok t)" and "tc_split cfg = sp_split_tunnel params"
    and "\<exists>d. parse_ip (sp_dns params) = Some d \<and> tc_dns cfg = [d]"
  using assms by (auto simp: prepare_def try_bind_def map_err_def Let_def split: sum.splits list.splits option.splits if_splits)

definition name_chars :: "string \<Rightarrow> bool" where
  "name_chars name \<longleftrightarrow> name \<noteq> [] \<and> length name \<le> 15 \<and> list_all (\<lambda>b. is_ascii_alphanumeric b \<or> b = 95) (as_bytes name)"

lemma validated_name: "validate_tun_name name = Ok () \<longleftrightarrow> name_chars name"
  by (auto simp: validate_tun_name_def name_chars_def)

lemma name_chars_newline: "name_chars name \<Longrightarrow> CHR 0x0A \<notin> set name"
  by (auto simp: name_chars_def as_bytes_def list_all_iff is_ascii_alphanumeric_def is_ascii_digit_def is_ascii_alphabetic_def
      word_le_nat_alt)

section \<open>Properties\<close>

text \<open>
  C30. What an unprivileged caller gives the helper does not become commands. When preparation succeeds, the
  interface name is of one to fifteen letters, digits and underscores; the planner accepts the configuration; and
  no line of the batch that then runs with privilege has a line break in it, so it is the one command it was meant
  to be, whatever the caller's rules.
\<close>

theorem helper_no_injection:
  assumes "prepare parse lookup gw4 gw6 dial show_err params = Ok (t, cfg)"
    and "\<And>g. gw4 = Ok g \<Longrightarrow> is_ipv4 g" and "\<And>g. gw6 = Ok g \<Longrightarrow> \<not> is_ipv4 g"
  shows "name_chars (tc_tun_name cfg) \<and>
    (\<exists>plan. engine_plan True cfg = Ok plan \<and>
       (\<forall>x v6. x \<in> set (rb_install (build_route_batch plan (tc_tun_name cfg) v6)) \<longrightarrow> CHR 0x0A \<notin> set (line_text x)))"
proof -
  obtain parsed server gw rest where p: "validate_tun_name (sp_tun_name params) = Ok ()" "tc_tun_name cfg = sp_tun_name params"
      "(if is_ipv4 server then gw4 else gw6) = Ok gw" "tc_server_ip cfg = server" "tc_orig_gateway cfg = gw"
    by (rule prepared_config [OF assms(1)]) blast
  have name: "name_chars (tc_tun_name cfg)"
    using p(1,2) validated_name by simp
  have "is_ipv4 server = is_ipv4 gw"
    using p(3) assms(2,3) by (auto split: if_splits)
  then obtain plan where "engine_plan True cfg = Ok plan"
    using p(4,5) by (cases "effective (tc_split cfg)") (simp add: engine_plan_def from_split_def Let_def)
  then show ?thesis
    using name line_text_newline [OF name_chars_newline [OF name]] by blast
qed

theorem helper_no_injection_witness:
  "\<exists>t cfg. prepare (\<lambda>_. Ok \<lparr>server_addr = ''s'', uri_client = \<lparr>server_public = [], ca_short_id = [], ca_sni = ''x''\<rparr>, uri_quic = None\<rparr>) (\<lambda>_. Ok [V4 [5, 6, 7, 8]]) (Ok (V4 [192, 168, 0, 1]))
     (Err ''none'') (\<lambda>_. Some (Ok ())) (\<lambda>_. []) \<lparr>sp_uri = ''u'', sp_tun_mtu = 1400, sp_tun_name = ''leshiy0'', sp_dns = ''1.1.1.1'',
       sp_split_tunnel = tc_split default_tun_config, sp_ipv6 = False\<rparr> = Ok (t, cfg) \<and> name_chars (tc_tun_name cfg)"
proof -
  let ?p = "\<lparr>sp_uri = ''u'', sp_tun_mtu = 1400, sp_tun_name = ''leshiy0'', sp_dns = ''1.1.1.1'',
       sp_split_tunnel = tc_split default_tun_config, sp_ipv6 = False\<rparr>"
  let ?prep = "prepare (\<lambda>_. Ok \<lparr>server_addr = ''s'', uri_client = \<lparr>server_public = [], ca_short_id = [], ca_sni = ''x''\<rparr>, uri_quic = None\<rparr>) (\<lambda>_. Ok [V4 [5, 6, 7, 8]]) (Ok (V4 [192, 168, 0, 1]))
     (Err ''none'') (\<lambda>_. Some (Ok ())) (\<lambda>_. []) ?p"
  have v: "validate_tun_name ''leshiy0'' = Ok ()"
    by code_simp
  have d: "parse_ip ''1.1.1.1'' = Some (V4 [1, 1, 1, 1])"
    by code_simp
  obtain t cfg where r: "?prep = Ok (t, cfg)"
    by (simp add: prepare_def try_bind_def map_err_def v d)
  from conjunct1 [OF helper_no_injection [OF r]] r show ?thesis
    by auto
qed

text \<open>
  C29. The helper runs one session at a time. After any interleaving of starts, stops, abandoned stops and worker
  events: at most one worker is preparing or running, and the published state is what it does; a start is
  refused exactly while such a worker or a stop exists; a stop returns only when no worker is left, and leaves
  the state disconnected; a startup that was told to stop ends with an error at its next step, whatever its
  preparation gives, and never runs the engine.
\<close>

theorem helper_single_session:
  assumes "s = runner_run es"
  shows "(\<forall>k k'. rn_worker s k \<noteq> Exited \<and> rn_worker s k' \<noteq> Exited \<longrightarrow> k = k') \<and>
    (rn_state s = Connected \<longleftrightarrow> (\<exists>k. rn_worker s k = Running)) \<and> (rn_state s = Connecting \<longleftrightarrow> (\<exists>k. rn_worker s k = Preparing)) \<and>
    (fst (start_prepared s) = Err AlreadyRunning \<longleftrightarrow> rn_lock s \<noteq> None \<or> (\<exists>k. rn_worker s k \<noteq> Exited)) \<and>
    (stop_end c s \<noteq> s \<longrightarrow> (\<forall>k. rn_worker s k = Exited) \<and> rn_state (stop_end c s) = Disconnected) \<and>
    (rn_worker s k = Preparing \<and> rn_permit s k \<longrightarrow>
      rn_worker (worker_step k e s) k = Exited \<and> rn_ready (worker_step k e s) k = Some (Err (Engine ''startup cancelled'')))"
proof -
  have inv: "runner_inv s"
    using runner_run_inv assms by simp
  have alive: "rn_slot s = Some k" if "rn_worker s k \<noteq> Exited" for k
    using inv that by (simp add: runner_inv_def)
  have "rn_state s = Connected \<longleftrightarrow> (\<exists>k. rn_worker s k = Running)" "rn_state s = Connecting \<longleftrightarrow> (\<exists>k. rn_worker s k = Preparing)"
    using inv alive by (auto simp: runner_inv_def split: option.splits worker.splits)
      (metis option.inject worker.distinct)+
  moreover have "fst (start_prepared s) = Err AlreadyRunning \<longleftrightarrow> rn_lock s \<noteq> None \<or> (\<exists>k. rn_worker s k \<noteq> Exited)"
  proof -
    have "(\<exists>k. rn_worker s k \<noteq> Exited) \<longleftrightarrow> (case rn_slot s of None \<Rightarrow> False | Some k \<Rightarrow> rn_worker s k \<noteq> Exited)"
    proof (cases "rn_slot s")
      case None
      then have "rn_worker s k = Exited" for k
        using alive [of k] by auto
      then show ?thesis
        by (simp add: None)
    next
      case (Some a)
      have "k = a" if "rn_worker s k \<noteq> Exited" for k
        using alive [OF that] Some by simp
      then show ?thesis
        unfolding Some option.case by blast
    qed
    then show ?thesis
      by (simp add: start_prepared_def Let_def)
  qed
  moreover have "(\<forall>k. rn_worker s k = Exited) \<and> rn_state (stop_end c s) = Disconnected" if "stop_end c s \<noteq> s"
  proof -
    have end': "rn_lock s = Some c" "case rn_slot s of None \<Rightarrow> True | Some k \<Rightarrow> rn_worker s k = Exited"
      using that by (auto simp: stop_end_def split: if_splits)
    have "rn_worker s k = Exited" for k
    proof (rule ccontr)
      assume k: "rn_worker s k \<noteq> Exited"
      show False
        using end'(2) k unfolding alive [OF k] by simp
    qed
    then show ?thesis
      using end' by (simp add: stop_end_def)
  qed
  moreover have "rn_worker s k \<noteq> Exited \<and> rn_worker s k' \<noteq> Exited \<longrightarrow> k = k'" for k k'
    using alive by (metis option.inject)
  moreover have "rn_worker (worker_step k e s) k = Exited \<and> rn_ready (worker_step k e s) k = Some (Err (Engine ''startup cancelled''))"
    if "rn_worker s k = Preparing \<and> rn_permit s k"
    using that by (simp add: worker_step_def worker_exit_def)
  ultimately show ?thesis
    by blast
qed

theorem helper_single_session_witness:
  "rn_worker (worker_step 0 (Some (Prepared (Ok ()))) (runner_run [StartCall, StopBegins 7])) 0 = Exited"
proof -
  have "rn_worker (runner_run [StartCall, StopBegins 7]) 0 = Preparing \<and> rn_permit (runner_run [StartCall, StopBegins 7]) 0"
    by (simp add: runner_run_def runner_step_def start_prepared_def runner_new_def stop_begin_def)
  then show ?thesis
    using helper_single_session [OF refl, of "[StartCall, StopBegins 7]"] by blast
qed

text \<open>
  The fail-safe of the control server. Whatever a connection sends, the runner stays in order, and if the
  connection makes the helper exit, it is an on-demand helper and its session has been stopped. When a
  subscription ends, in whatever way, also when its first line could not be written, the session that runs then
  is stopped, and an on-demand helper exits.
\<close>

theorem helper_fail_safe:
  assumes "runner_idle s" and "runner_idle later"
    and "vr = engine_runner world"
  shows "(spawn_conn parse vr mode written es later line s = (quit, s') \<longrightarrow>
      runner_idle s' \<and> (quit \<longrightarrow> mode = Ephemeral \<and> rn_state s' = Disconnected)) \<and>
    (parse l = Ok Subscribe \<longrightarrow>
      fst (spawn_conn parse vr mode written es later (Some (Some l)) s) = (mode = Ephemeral) \<and>
      rn_state (snd (spawn_conn parse vr mode written es later (Some (Some l)) s)) = Disconnected)"
proof -
  have st: "vr_state (engine_runner world) x = rn_state x" for x
    by (simp add: engine_runner_def)
  show ?thesis
    unfolding assms(3) using helper.exit_stopped [OF assms(1,2), of parse world mode written es line quit s']
      helper.subscribe_ends_stopped [OF assms(2), of parse l world mode written es s]
    by (simp add: st)
qed

theorem helper_fail_safe_witness:
  "rn_state (snd (spawn_conn (\<lambda>_. Ok Subscribe) (engine_runner (\<lambda>p :: unit. Prepared (Ok ())))
     Ephemeral False [] (runner_run [StartCall, WorkerRuns 0 (Some (Prepared (Ok ())))]) (Some (Some ''x'')) runner_new)) = Disconnected"
proof -
  have "runner_idle runner_new" "runner_idle (runner_run [StartCall, WorkerRuns 0 (Some (Prepared (Ok ())))])"
    using runner_run_inv [of "[]"] runner_run_inv [of "[StartCall, WorkerRuns 0 (Some (Prepared (Ok ())))]"]
    by (simp_all add: runner_idle_def runner_run_def runner_step_def start_prepared_def runner_new_def)
  from conjunct2 [OF helper_fail_safe [OF this refl, of "\<lambda>_. Ok Subscribe"]] show ?thesis
    by blast
qed

end
