(* ===== verification/Socks.thy ===== *)
theory Socks
  imports IpText Dns Mux
begin

text \<open>
  The local SOCKS5 proxy of \<open>crates/leshiy-reality/src/client.rs\<close>: accepting a request, and serving a UDP
  association over datagram flows of the tunnel.

  An accept works on the bytes the client sends, with what the writes answered as an argument, and gives the
  result, the bytes written and the bytes left. The association is a state machine: the loop of
  \<open>serve_udp_associate\<close> and one task per flow, with the queue between them.
\<close>

section \<open>Definitions\<close>

subsection \<open>Accepting\<close>

text \<open>\<open>read_exact\<close> on what the peer sends; too little is an error.\<close>

definition socks_read :: "nat \<Rightarrow> bytes \<Rightarrow> (reality_error + (bytes \<times> bytes))" where
  "socks_read n s = (if length s < n then Err RIo else Ok (take n s, drop n s))"

definition read_socks_addr :: "u8 \<Rightarrow> bytes \<Rightarrow> reality_error + (string \<times> bytes)" where
  "read_socks_addr atyp s =
     (if atyp = 1 then try_bind (socks_read 4 s) (\<lambda>(a, s). Ok (show_ipv4 a, s))
      else if atyp = 3 then
        try_bind (socks_read 1 s) (\<lambda>(l, s). try_bind (socks_read (unat (hd l)) s) (\<lambda>(d, s). Ok (from_utf8_lossy d, s)))
      else if atyp = 4 then try_bind (socks_read 16 s) (\<lambda>(a, s). Ok (show_ipv6 a, s))
      else Err (RMalformed ''bad atyp''))"

datatype socks5_cmd = Connect string | UdpAssociate

text \<open>The write's answer is whether it got through. The result comes with the bytes written.\<close>

definition socks_request :: "bool \<Rightarrow> bytes \<Rightarrow> (reality_error + (socks5_cmd \<times> bytes)) \<times> bytes" where
  "socks_request wrote s =
     (case socks_read 4 s of
        Inl e \<Rightarrow> (Err e, [])
      | Inr (req, s) \<Rightarrow>
          let cmd = req ! 1 in
          if cmd \<noteq> 1 \<and> cmd \<noteq> 3 then
            (Err (if wrote then RMalformed ''unsupported SOCKS command'' else RIo), [5, 7, 0, 1, 0, 0, 0, 0, 0, 0])
          else
            (case try_bind (read_socks_addr (req ! 3) s) (\<lambda>(host, s).
                    try_bind (socks_read 2 s) (\<lambda>(p, s). Ok (host, u16_from_be p, s))) of
               Inl e \<Rightarrow> (Err e, [])
             | Inr (host, port, s) \<Rightarrow>
                 if cmd = 1
                 then (if wrote then Ok (Connect (join_host_port host port), s) else Err RIo, [5, 0, 0, 1, 0, 0, 0, 0, 0, 0])
                 else (Ok (UdpAssociate, s), [])))"

definition socks5_accept_ext :: "bool \<Rightarrow> bool \<Rightarrow> bytes \<Rightarrow> (reality_error + (socks5_cmd \<times> bytes)) \<times> bytes" where
  "socks5_accept_ext wrote1 wrote2 s =
     (case socks_read 2 s of
        Inl e \<Rightarrow> (Err e, [])
      | Inr (head, s) \<Rightarrow>
          if head ! 0 \<noteq> 5 then (Err (RMalformed ''not socks5''), [])
          else
            (case socks_read (unat (head ! 1)) s of
               Inl e \<Rightarrow> (Err e, [])
             | Inr (methods, s) \<Rightarrow>
                 if \<not> wrote1 then (Err RIo, [5, 0])
                 else (case socks_request wrote2 s of (r, w) \<Rightarrow> (r, [5, 0] @ w))))"

definition socks5_accept :: "bool \<Rightarrow> bool \<Rightarrow> bytes \<Rightarrow> (reality_error + (string \<times> bytes)) \<times> bytes" where
  "socks5_accept wrote1 wrote2 s =
     (case socks5_accept_ext wrote1 wrote2 s of
        (Inr (Connect target, s), w) \<Rightarrow> (Ok (target, s), w)
      | (Inr (UdpAssociate, s), w) \<Rightarrow> (Err (RMalformed ''only CONNECT supported''), w)
      | (Inl e, w) \<Rightarrow> (Err e, w))"

subsection \<open>UDP datagrams\<close>

text \<open>The host and where its bytes end, by the address type.\<close>

definition udp_host :: "bytes \<Rightarrow> (string \<times> nat) option" where
  "udp_host pkt =
     (if pkt ! 3 = 1 then map_option (\<lambda>a. (show_ipv4 a, 8)) (get_range 4 8 pkt)
      else if pkt ! 3 = 4 then map_option (\<lambda>a. (show_ipv6 a, 20)) (get_range 4 20 pkt)
      else if pkt ! 3 = 3 then
        Option.bind (get_at pkt 4) (\<lambda>l. let end' = 5 + unat l in map_option (\<lambda>d. (from_utf8_lossy d, end')) (get_range 5 end' pkt))
      else None)"

definition parse_udp_datagram :: "bytes \<Rightarrow> (string \<times> nat \<times> bytes) option" where
  "parse_udp_datagram pkt =
     (if length pkt < 4 \<or> pkt ! 2 \<noteq> 0 then None
      else
        Option.bind (udp_host pkt) (\<lambda>(host, addr_end).
        Option.bind (get_at pkt addr_end) (\<lambda>p0.
        Option.bind (get_at pkt (addr_end + 1)) (\<lambda>p1.
        let data_off = addr_end + 2 in
        if length pkt < data_off then None
        else Some (join_host_port host (u16_from_be [p0, p1]), data_off, slice 3 data_off pkt)))))"

definition encode_assoc_reply :: "ip_addr \<times> u16 \<Rightarrow> bytes" where
  "encode_assoc_reply bound =
     [5, 0, 0] @ (case fst bound of V4 a \<Rightarrow> 1 # a | V6 a \<Rightarrow> 4 # a) @ u16_to_be (snd bound)"

subsection \<open>The association\<close>

definition UP_QUEUE :: nat where "UP_QUEUE = 64"

text \<open>One flow: the task \<open>udp_assoc_flow\<close> with its queue; \<open>uf_sent\<close> is what went onto the tunnel.\<close>

record udp_flow =
  uf_target :: string
  uf_header :: bytes
  uf_client :: "ip_addr \<times> u16"
  uf_queue :: "bytes list"
  uf_sent :: "bytes list"
  uf_alive :: bool

record udp_assoc =
  ua_client :: "(ip_addr \<times> u16) option"
  ua_assocs :: "string \<rightharpoonup> nat"
  ua_flows :: "udp_flow list"
  ua_sending :: "(nat \<times> bytes) option"
  ua_ended :: bool
  ua_out :: "((ip_addr \<times> u16) \<times> bytes) list"

definition assoc_new :: udp_assoc where
  "assoc_new = \<lparr>ua_client = None, ua_assocs = Map.empty, ua_flows = [], ua_sending = None, ua_ended = False, ua_out = []\<rparr>"

text \<open>
  Events: the control connection gives bytes, or ends; a datagram arrives with its source and what opening a
  flow would answer, or the socket fails; the loop's send into a queue is tried again; a flow takes the next
  message for the tunnel, or gets one from it, with what the send of it answers.
\<close>

datatype udp_event =
    CtrlBytes
  | CtrlClosed
  | Datagram bytes "ip_addr \<times> u16" bool
  | RelayFailed
  | Queued
  | FlowUp nat bool
  | FlowDown nat "bytes option" bool

definition flow_update :: "nat \<Rightarrow> (udp_flow \<Rightarrow> udp_flow) \<Rightarrow> udp_assoc \<Rightarrow> udp_assoc" where
  "flow_update i f s = s\<lparr>ua_flows := (ua_flows s)[i := f (ua_flows s ! i)]\<rparr>"

text \<open>A datagram from the client's address: its flow, opened when the target is new, and the send that follows.\<close>

definition forward_datagram :: "bytes \<Rightarrow> ip_addr \<times> u16 \<Rightarrow> bool \<Rightarrow> udp_assoc \<Rightarrow> udp_assoc" where
  "forward_datagram pkt from_addr open_ok s =
     (case parse_udp_datagram pkt of
        None \<Rightarrow> s
      | Some (target, data_off, header) \<Rightarrow>
          let data = drop data_off pkt in
          (case ua_assocs s target of
             Some i \<Rightarrow> s\<lparr>ua_sending := Some (i, data)\<rparr>
           | None \<Rightarrow>
               if \<not> open_ok then s
               else let i = length (ua_flows s) in
                 s\<lparr>ua_flows := ua_flows s @ [\<lparr>uf_target = target, uf_header = header, uf_client = from_addr, uf_queue = [],
                                               uf_sent = [], uf_alive = True\<rparr>],
                   ua_assocs := (ua_assocs s)(target \<mapsto> i), ua_sending := Some (i, data)\<rparr>))"

definition loop_datagram :: "bytes \<Rightarrow> ip_addr \<times> u16 \<Rightarrow> bool \<Rightarrow> udp_assoc \<Rightarrow> udp_assoc" where
  "loop_datagram pkt from_addr open_ok s =
     (case ua_client s of
        None \<Rightarrow> forward_datagram pkt from_addr open_ok (s\<lparr>ua_client := Some from_addr\<rparr>)
      | Some a \<Rightarrow> if a \<noteq> from_addr then s else forward_datagram pkt from_addr open_ok s)"

text \<open>The pending send resolves when the queue has room, or with an error that is ignored when the task is gone.\<close>

definition loop_queued :: "udp_assoc \<Rightarrow> udp_assoc" where
  "loop_queued s =
     (case ua_sending s of
        None \<Rightarrow> s
      | Some (i, data) \<Rightarrow>
          let f = ua_flows s ! i in
          if \<not> uf_alive f then s\<lparr>ua_sending := None\<rparr>
          else if length (uf_queue f) < UP_QUEUE
          then flow_update i (\<lambda>f. f\<lparr>uf_queue := uf_queue f @ [data]\<rparr>) (s\<lparr>ua_sending := None\<rparr>)
          else s)"

definition loop_end :: "udp_assoc \<Rightarrow> udp_assoc" where
  "loop_end s = s\<lparr>ua_ended := True, ua_assocs := Map.empty, ua_sending := None\<rparr>"

definition flow_up :: "nat \<Rightarrow> bool \<Rightarrow> udp_assoc \<Rightarrow> udp_assoc" where
  "flow_up i ok s =
     (let f = ua_flows s ! i in
      if length (ua_flows s) \<le> i \<or> \<not> uf_alive f then s
      else (case uf_queue f of
              data # rest \<Rightarrow>
                if ok then flow_update i (\<lambda>f. f\<lparr>uf_queue := rest, uf_sent := uf_sent f @ [data]\<rparr>) s
                else flow_update i (\<lambda>f. f\<lparr>uf_queue := rest, uf_alive := False\<rparr>) s
            | [] \<Rightarrow> if ua_ended s then flow_update i (\<lambda>f. f\<lparr>uf_alive := False\<rparr>) s else s))"

definition flow_down :: "nat \<Rightarrow> bytes option \<Rightarrow> bool \<Rightarrow> udp_assoc \<Rightarrow> udp_assoc" where
  "flow_down i msg ok s =
     (let f = ua_flows s ! i in
      if length (ua_flows s) \<le> i \<or> \<not> uf_alive f then s
      else (case msg of
              None \<Rightarrow> flow_update i (\<lambda>f. f\<lparr>uf_alive := False\<rparr>) s
            | Some b \<Rightarrow>
                let s = s\<lparr>ua_out := ua_out s @ [(uf_client f, [0, 0, 0] @ uf_header f @ b)]\<rparr> in
                if ok then s else flow_update i (\<lambda>f. f\<lparr>uf_alive := False\<rparr>) s))"

definition udp_step :: "udp_event \<Rightarrow> udp_assoc \<Rightarrow> udp_assoc" where
  "udp_step e s =
     (case e of
        FlowUp i ok \<Rightarrow> flow_up i ok s
      | FlowDown i msg ok \<Rightarrow> flow_down i msg ok s
      | Queued \<Rightarrow> if ua_ended s then s else loop_queued s
      | _ \<Rightarrow>
          if ua_ended s \<or> ua_sending s \<noteq> None then s
          else (case e of
                  CtrlClosed \<Rightarrow> loop_end s
                | RelayFailed \<Rightarrow> loop_end s
                | Datagram pkt from_addr open_ok \<Rightarrow> loop_datagram pkt from_addr open_ok s
                | _ \<Rightarrow> s))"

section \<open>Lemmas\<close>

text \<open>A SOCKS address as RFC 1928 writes it.\<close>

datatype socks_host = HostV4 bytes | HostV6 bytes | HostName string

fun socks_host_wf :: "socks_host \<Rightarrow> bool" where
  "socks_host_wf (HostV4 a) = (length a = 4)"
| "socks_host_wf (HostV6 a) = (length a = 16)"
| "socks_host_wf (HostName n) = (length n < 256 \<and> utf8_valid (as_bytes n) \<and> host_name n)"

fun socks_addr :: "socks_host \<Rightarrow> bytes" where
  "socks_addr (HostV4 a) = 1 # a"
| "socks_addr (HostV6 a) = 4 # a"
| "socks_addr (HostName n) = 3 # of_nat (length n) # as_bytes n"

fun host_text :: "socks_host \<Rightarrow> string" where
  "host_text (HostV4 a) = show_ipv4 a"
| "host_text (HostV6 a) = show_ipv6 a"
| "host_text (HostName n) = n"

lemma socks_read_append [simp]: "length a = n \<Longrightarrow> socks_read n (a @ s) = Ok (a, s)"
  by (simp add: socks_read_def)

lemma socks_read_one [simp]: "socks_read (Suc 0) (x # s) = Ok ([x], s)"
  by (simp add: socks_read_def)

lemma read_socks_addr_wf:
  assumes "socks_host_wf h" and "socks_addr h = atyp # rest"
  shows "read_socks_addr atyp (rest @ s) = Ok (host_text h, s)"
proof (cases h)
  case (HostName n)
  then have len: "unat (of_nat (length n) :: u8) = length n"
    using assms(1) by (simp add: unat_of_nat)
  have "length (as_bytes n) = length n"
    by (simp add: as_bytes_def)
  then show ?thesis
    using assms HostName len by (auto simp: read_socks_addr_def try_bind_def from_utf8_lossy_as_bytes)
qed (use assms in \<open>auto simp: read_socks_addr_def try_bind_def\<close>)

lemma host_text_kind: "socks_host_wf h \<Longrightarrow> (\<exists>a. ip_wf a \<and> host_text h = show_ip a) \<or> host_name (host_text h)"
proof (cases h)
  case (HostV6 a)
  assume "socks_host_wf h"
  then have "ip_wf (V6 a) \<and> host_text h = show_ip (V6 a)"
    by (simp add: HostV6)
  then show ?thesis
    by blast
qed (simp_all add: show_ipv4_name)

text \<open>The header that a datagram is answered with names the same target, whatever follows it.\<close>

lemma udp_tail:
  "get_range 4 8 (a # b # c # d # s) = get_range 0 4 s" "get_range 4 20 (a # b # c # d # s) = get_range 0 16 s"
  "get_range 5 (5 + n) (a # b # c # d # s) = get_range 1 (1 + n) s" "get_at (a # b # c # d # s) 4 = get_at s 0"
  by (simp_all add: get_range_def slice_def get_at_def eval_nat_numeral)

lemma get_at_tail: "4 \<le> i \<Longrightarrow> get_at (a # b # c # d # s) i = get_at s (i - 4)"
  by (auto simp: get_at_def nth_Cons' eval_nat_numeral)

lemma udp_host_cons:
  "udp_host (a # b # c # d # s) =
     (if d = 1 then map_option (\<lambda>a. (show_ipv4 a, 8)) (get_range 0 4 s)
      else if d = 4 then map_option (\<lambda>a. (show_ipv6 a, 20)) (get_range 0 16 s)
      else if d = 3 then
        Option.bind (get_at s 0) (\<lambda>l. map_option (\<lambda>d. (from_utf8_lossy d, 5 + unat l)) (get_range 1 (1 + unat l) s))
      else None)"
  unfolding udp_host_def Let_def udp_tail by simp

lemma udp_host_end: "udp_host (a # b # c # d # s) = Some (h, e) \<Longrightarrow> 5 \<le> e \<and> e \<le> length s + 4"
  by (auto simp: udp_host_cons get_range_def bind_eq_Some_conv split: if_splits)

lemma parse_udp_cons:
  "parse_udp_datagram (a # b # c # d # s) = Some (t, off, hdr) \<longleftrightarrow>
     c = 0 \<and> (\<exists>host e p0 p1. udp_host (a # b # c # d # s) = Some (host, e) \<and> get_at s (e - 4) = Some p0 \<and> get_at s (e - 3) = Some p1 \<and>
       off = e + 2 \<and> t = join_host_port host (u16_from_be [p0, p1]) \<and> hdr = d # take (e - 2) s)"
proof (cases "udp_host (a # b # c # d # s)")
  case None
  then show ?thesis
    unfolding parse_udp_datagram_def by auto
next
  case (Some r)
  obtain host e where r: "r = (host, e)"
    by (cases r)
  have e: "5 \<le> e"
    using udp_host_end Some r by blast
  obtain k where k: "e = Suc (Suc k)"
    using e by (cases e; cases "e - 1") auto
  have sl: "slice 3 (e + 2) (a # b # c # d # s) = d # take (e - 2) s"
    by (simp add: k slice_def eval_nat_numeral)
  have at: "get_at (a # b # c # d # s) e = get_at s (e - 4)" "get_at (a # b # c # d # s) (e + 1) = get_at s (e - 3)"
    using e get_at_tail [of e] get_at_tail [of "e + 1"] by (auto simp: numeral_eq_Suc Suc_diff_le)
  have len: "\<not> length (a # b # c # d # s) < e + 2" if "get_at s (e - 3) = Some p1" for p1
    using that e by (auto simp: get_at_def split: if_splits)
  show ?thesis
    unfolding parse_udp_datagram_def Some r Let_def Option.bind.bind_lunit prod.case at sl
    using len by (auto simp: bind_eq_Some_conv)
qed

lemma udp_host_take:
  assumes "udp_host (a # b # c # d # s) = Some (host, e)" and "e - 2 \<le> length s"
  shows "udp_host (a' # b' # c' # d # take (e - 2) s @ r) = Some (host, e)"
proof -
  consider "d = 1" | "d = 4" | "d = 3"
    using assms(1) unfolding udp_host_cons by (auto split: if_splits)
  then show ?thesis
  proof cases
    case 1
    then show ?thesis
      using assms unfolding udp_host_cons by (auto simp: get_range_def slice_def split: if_splits)
  next
    case 2
    then show ?thesis
      using assms unfolding udp_host_cons by (auto simp: get_range_def slice_def split: if_splits)
  next
    case 3
    then obtain l where l: "get_at s 0 = Some l" "1 + unat l \<le> length s" "host = from_utf8_lossy (slice 1 (1 + unat l) s)" "e = 5 + unat l"
      using assms(1) unfolding udp_host_cons by (auto simp: get_range_def bind_eq_Some_conv split: if_splits)
    have at: "get_at (take (e - 2) s @ r) 0 = Some l"
      using l by (auto simp: get_at_def nth_append split: if_splits)
    have "unat l \<le> length s - Suc 0" "Suc (unat l) \<le> length (take (e - 2) s @ r)"
      using l(4) assms(2) by simp_all
    then have rng: "get_range (Suc 0) (Suc (unat l)) (take (e - 2) s @ r) = Some (slice 1 (1 + unat l) s)"
      using l(4) by (simp add: get_range_def slice_def drop_take min_def)
    show ?thesis
      unfolding udp_host_cons 3 using l(3) by (simp add: at rng flip: l(4))
  qed
qed

lemma reply_header:
  assumes "parse_udp_datagram pkt = Some (t, off, hdr)"
  shows "parse_udp_datagram ([0, 0, 0] @ hdr @ b) = Some (t, off, hdr)" and "off = length hdr + 3" and "off \<le> length pkt"
proof -
  obtain x y z d s where p: "pkt = x # y # z # d # s"
    using assms by (cases pkt; cases "tl pkt"; cases "tl (tl pkt)"; cases "tl (tl (tl pkt))") (auto simp: parse_udp_datagram_def)
  obtain host e p0 p1 where u: "z = 0" "udp_host (x # y # z # d # s) = Some (host, e)" "get_at s (e - 4) = Some p0"
      "get_at s (e - 3) = Some p1" "off = e + 2" "t = join_host_port host (u16_from_be [p0, p1])" "hdr = d # take (e - 2) s"
    using assms unfolding p parse_udp_cons by blast
  have e: "5 \<le> e" "e \<le> length s + 4"
    using udp_host_end [OF u(2)] by simp_all
  have len: "e - 3 < length s"
    using u(4) by (auto simp: get_at_def split: if_splits)
  show "off = length hdr + 3" "off \<le> length pkt"
    using u(5,7) e len p by auto
  let ?s = "take (e - 2) s @ b"
  have at: "get_at ?s (e - 4) = Some p0" "get_at ?s (e - 3) = Some p1"
    using u(3,4) e len by (auto simp: get_at_def nth_append split: if_splits)
  have "udp_host (0 # 0 # 0 # d # ?s) = Some (host, e)"
    by (rule udp_host_take [OF u(2)]) (use e len in simp)
  then have "parse_udp_datagram (0 # 0 # 0 # d # ?s) = Some (t, off, d # take (e - 2) ?s)"
    unfolding parse_udp_cons using at u(5,6) by blast
  moreover have "take (e - 2) ?s = take (e - 2) s"
    using len by simp
  ultimately show "parse_udp_datagram ([0, 0, 0] @ hdr @ b) = Some (t, off, hdr)"
    using u(7) by simp
qed

text \<open>
  The association with what it takes: the target and the data of every datagram that the loop reads while it can, that
  comes from the client's address and parses, and whose target is not new or can be opened.
\<close>

definition udp_taken :: "udp_event \<Rightarrow> udp_assoc \<Rightarrow> (string \<times> bytes) list \<Rightarrow> (string \<times> bytes) list" where
  "udp_taken e s log =
     (case e of
        Datagram pkt from_addr open_ok \<Rightarrow>
          if ua_ended s \<or> ua_sending s \<noteq> None \<or> ua_client s \<noteq> None \<and> ua_client s \<noteq> Some from_addr then []
          else (case parse_udp_datagram pkt of
                  None \<Rightarrow> []
                | Some (target, off, _) \<Rightarrow> if target \<in> fst ` set log \<or> open_ok then [(target, drop off pkt)] else [])
      | _ \<Rightarrow> [])"

definition udp_traced :: "udp_event \<Rightarrow> udp_assoc \<times> (string \<times> bytes) list \<Rightarrow> udp_assoc \<times> (string \<times> bytes) list" where
  "udp_traced e x = (udp_step e (fst x), snd x @ udp_taken e (fst x) (snd x))"

definition udp_run :: "udp_event list \<Rightarrow> udp_assoc \<times> (string \<times> bytes) list" where
  "udp_run es = fold udp_traced es (assoc_new, [])"

definition took :: "string \<Rightarrow> (string \<times> bytes) list \<Rightarrow> bytes list" where
  "took t log = map snd (filter (\<lambda>q. fst q = t) log)"

definition pending :: "nat \<Rightarrow> udp_assoc \<Rightarrow> bytes list" where
  "pending i s = (case ua_sending s of None \<Rightarrow> [] | Some (j, d) \<Rightarrow> if j = i then [d] else [])"

text \<open>A flow's header names its target; it answers to the client; and it keeps order.\<close>

definition names_target :: "udp_flow \<Rightarrow> bool" where
  "names_target f \<longleftrightarrow> (\<exists>off. \<forall>b. parse_udp_datagram ([0, 0, 0] @ uf_header f @ b) = Some (uf_target f, off, uf_header f))"

definition in_order :: "udp_flow \<Rightarrow> bool \<Rightarrow> bytes list \<Rightarrow> bytes list \<Rightarrow> bool" where
  "in_order f ended took_i pending_i \<longleftrightarrow>
     (if \<not> uf_alive f then \<exists>rest. took_i = uf_sent f @ rest
      else if ended then \<exists>rest. took_i = uf_sent f @ uf_queue f @ rest
      else took_i = uf_sent f @ uf_queue f @ pending_i)"

definition flow_ok :: "udp_assoc \<times> (string \<times> bytes) list \<Rightarrow> nat \<Rightarrow> bool" where
  "flow_ok x i \<longleftrightarrow>
     names_target (ua_flows (fst x) ! i) \<and> ua_client (fst x) = Some (uf_client (ua_flows (fst x) ! i)) \<and>
     length (uf_queue (ua_flows (fst x) ! i)) \<le> UP_QUEUE \<and>
     in_order (ua_flows (fst x) ! i) (ua_ended (fst x)) (took (uf_target (ua_flows (fst x) ! i)) (snd x)) (pending i (fst x))"

definition routes_ok :: "udp_assoc \<times> (string \<times> bytes) list \<Rightarrow> bool" where
  "routes_ok x \<longleftrightarrow>
     (\<forall>t i. ua_assocs (fst x) t = Some i \<longrightarrow> i < length (ua_flows (fst x)) \<and> uf_target (ua_flows (fst x) ! i) = t) \<and>
     (\<not> ua_ended (fst x) \<longrightarrow> (\<forall>t. ua_assocs (fst x) t = None \<longleftrightarrow> t \<notin> fst ` set (snd x))) \<and>
     fst ` set (snd x) = set (map uf_target (ua_flows (fst x))) \<and> distinct (map uf_target (ua_flows (fst x))) \<and>
     (\<forall>i d. ua_sending (fst x) = Some (i, d) \<longrightarrow> i < length (ua_flows (fst x))) \<and>
     (\<forall>a p. (a, p) \<in> set (ua_out (fst x)) \<longrightarrow>
        ua_client (fst x) = Some a \<and> (\<exists>f \<in> set (ua_flows (fst x)). \<exists>b. p = [0, 0, 0] @ uf_header f @ b))"

definition assoc_ok :: "udp_assoc \<times> (string \<times> bytes) list \<Rightarrow> bool" where
  "assoc_ok x \<longleftrightarrow> routes_ok x \<and> (\<forall>i < length (ua_flows (fst x)). flow_ok x i)"

lemma took_append [simp]: "took i (log @ log') = took i log @ took i log'"
  by (simp add: took_def)

lemma took_fresh: "t \<notin> fst ` set log \<Longrightarrow> took t log = []"
  by (auto simp: took_def filter_empty_conv)

lemma names_target_cong [simp]: "names_target (f\<lparr>uf_queue := q\<rparr>) = names_target f" "names_target (f\<lparr>uf_sent := r\<rparr>) = names_target f"
  "names_target (f\<lparr>uf_alive := a\<rparr>) = names_target f"
  by (simp_all add: names_target_def)

lemma pending_cong: "ua_sending s = ua_sending s' \<Longrightarrow> pending i s = pending i s'"
  by (simp add: pending_def)

lemma flow_update_simps [simp]:
  "length (ua_flows (flow_update i g s)) = length (ua_flows s)"
  "ua_client (flow_update i g s) = ua_client s" "ua_assocs (flow_update i g s) = ua_assocs s"
  "ua_sending (flow_update i g s) = ua_sending s" "ua_ended (flow_update i g s) = ua_ended s"
  "ua_out (flow_update i g s) = ua_out s" "pending j (flow_update i g s) = pending j s"
  by (simp_all add: flow_update_def pending_def)

lemma flow_update_nth: "i < length (ua_flows s) \<Longrightarrow> ua_flows (flow_update i g s) ! j = (if j = i then g (ua_flows s ! i) else ua_flows s ! j)"
  by (simp add: flow_update_def nth_list_update)

text \<open>A step that changes one flow and keeps what identifies it.\<close>

lemma assoc_ok_update:
  assumes "routes_ok (s, log)" and "i < length (ua_flows s)"
    and "uf_target (g (ua_flows s ! i)) = uf_target (ua_flows s ! i)" "uf_header (g (ua_flows s ! i)) = uf_header (ua_flows s ! i)"
    and "flow_ok (flow_update i g s, log) i"
    and "\<And>j. j < length (ua_flows s) \<Longrightarrow> j \<noteq> i \<Longrightarrow> flow_ok (s, log) j"
  shows "assoc_ok (flow_update i g s, log)"
proof -
  have other: "flow_ok (flow_update i g s, log) j" if "j < length (ua_flows s)" for j
  proof (cases "j = i")
    case False
    then show ?thesis
      using assms(2) assms(6) [OF that False] by (simp add: flow_ok_def flow_update_nth)
  qed (use assms(5) in simp)
  have "f \<in> set (ua_flows s) \<Longrightarrow> \<exists>f' \<in> set (ua_flows (flow_update i g s)). uf_header f' = uf_header f" for f
    using assms(2,4) unfolding in_set_conv_nth by (metis flow_update_nth flow_update_simps(1) nth_mem)
  then have out: "(\<exists>f \<in> set (ua_flows s). \<exists>b. p = [0, 0, 0] @ uf_header f @ b) \<Longrightarrow>
      \<exists>f \<in> set (ua_flows (flow_update i g s)). \<exists>b. p = [0, 0, 0] @ uf_header f @ b" for p
    by metis
  have tgt: "uf_target (ua_flows (flow_update i g s) ! j) = uf_target (ua_flows s ! j)" for j
    using assms(2,3) by (simp add: flow_update_nth)
  have "map uf_target (ua_flows (flow_update i g s)) = map uf_target (ua_flows s)"
    by (rule nth_equalityI) (simp_all add: tgt)
  then show ?thesis
    using assms(1) other out tgt unfolding assoc_ok_def routes_ok_def fst_conv snd_conv flow_update_simps by simp
qed

lemma flow_up_ok: "assoc_ok (s, log) \<Longrightarrow> assoc_ok (flow_up i ok s, log)"
proof -
  assume a: "assoc_ok (s, log)"
  show ?thesis
  proof (cases "length (ua_flows s) \<le> i \<or> \<not> uf_alive (ua_flows s ! i)")
    case False
    then have f: "i < length (ua_flows s)" "flow_ok (s, log) i" "uf_alive (ua_flows s ! i)"
      using a by (simp_all add: assoc_ok_def)
    have r: "routes_ok (s, log)" and o: "\<And>j. j < length (ua_flows s) \<Longrightarrow> j \<noteq> i \<Longrightarrow> flow_ok (s, log) j"
      using a by (simp_all add: assoc_ok_def)
    note upd = assoc_ok_update [OF r f(1) _ _ _ o]
    show ?thesis
    proof (cases "uf_queue (ua_flows s ! i)")
      case Nil
      then have "assoc_ok (flow_update i (\<lambda>f. f\<lparr>uf_alive := False\<rparr>) s, log)"
        using f by (intro upd) (auto simp: flow_ok_def flow_update_nth in_order_def split: if_splits)
      then show ?thesis
        using Nil a by (simp add: flow_up_def Let_def)
    next
      case (Cons d rest)
      have "assoc_ok (flow_update i (\<lambda>f. f\<lparr>uf_queue := rest, uf_sent := uf_sent f @ [d]\<rparr>) s, log)"
        using f Cons by (intro upd) (auto simp: flow_ok_def flow_update_nth in_order_def split: if_splits)
      moreover have "assoc_ok (flow_update i (\<lambda>f. f\<lparr>uf_queue := rest, uf_alive := False\<rparr>) s, log)"
        using f Cons by (intro upd) (auto simp: flow_ok_def flow_update_nth in_order_def split: if_splits)
      ultimately show ?thesis
        using Cons a by (simp add: flow_up_def Let_def)
    qed
  qed (use a in \<open>simp add: flow_up_def Let_def\<close>)
qed

lemma flow_dead_ok:
  assumes "assoc_ok (s, log)" and "i < length (ua_flows s)"
  shows "assoc_ok (flow_update i (\<lambda>f. f\<lparr>uf_alive := False\<rparr>) s, log)"
proof -
  have f: "flow_ok (s, log) i" and r: "routes_ok (s, log)" and o: "\<And>j. j < length (ua_flows s) \<Longrightarrow> j \<noteq> i \<Longrightarrow> flow_ok (s, log) j"
    using assms by (simp_all add: assoc_ok_def)
  have "flow_ok (flow_update i (\<lambda>f. f\<lparr>uf_alive := False\<rparr>) s, log) i"
    using f assms(2) by (auto simp: flow_ok_def flow_update_nth in_order_def split: if_splits)
  then show ?thesis
    by (intro assoc_ok_update [OF r assms(2) _ _ _ o]) simp_all
qed

lemma flow_down_ok: "assoc_ok (s, log) \<Longrightarrow> assoc_ok (flow_down i msg ok s, log)"
proof -
  assume a: "assoc_ok (s, log)"
  show ?thesis
  proof (cases "length (ua_flows s) \<le> i \<or> \<not> uf_alive (ua_flows s ! i)")
    case False
    then have i: "i < length (ua_flows s)"
      by simp
    have c: "ua_client s = Some (uf_client (ua_flows s ! i))"
      using a i by (simp add: assoc_ok_def flow_ok_def)
    have out: "assoc_ok (s\<lparr>ua_out := ua_out s @ [(uf_client (ua_flows s ! i), [0, 0, 0] @ uf_header (ua_flows s ! i) @ b)]\<rparr>, log)" for b
      using a c nth_mem [OF i] by (auto simp: assoc_ok_def routes_ok_def flow_ok_def pending_def)
    show ?thesis
      using False i flow_dead_ok [OF a i] flow_dead_ok [OF out, of i] out by (auto simp: flow_down_def Let_def split: option.split)
  qed (use a in \<open>simp add: flow_down_def Let_def\<close>)
qed

lemma loop_end_ok: "assoc_ok (s, log) \<Longrightarrow> assoc_ok (loop_end s, log)"
  by (auto simp: assoc_ok_def routes_ok_def flow_ok_def loop_end_def in_order_def split: if_splits)

lemma loop_queued_ok:
  assumes a: "assoc_ok (s, log)" and e: "\<not> ua_ended s"
  shows "assoc_ok (loop_queued s, log)"
proof (cases "ua_sending s")
  case (Some q)
  obtain i d where q: "q = (i, d)"
    by (cases q)
  have i: "i < length (ua_flows s)" "flow_ok (s, log) i"
    using a Some q by (simp_all add: assoc_ok_def routes_ok_def)
  have r: "routes_ok (s\<lparr>ua_sending := None\<rparr>, log)"
    using a by (simp add: assoc_ok_def routes_ok_def)
  have pend: "pending j (s\<lparr>ua_sending := None\<rparr>) = []" "j \<noteq> i \<Longrightarrow> pending j s = []" "pending i s = [d]" for j
    using Some q by (auto simp: pending_def)
  have o: "flow_ok (s\<lparr>ua_sending := None\<rparr>, log) j" if "j < length (ua_flows s)" "j \<noteq> i" for j
  proof -
    have "flow_ok (s, log) j"
      using a that(1) by (simp add: assoc_ok_def)
    then show ?thesis
      using pend(1) pend(2) [OF that(2)] by (simp add: flow_ok_def)
  qed
  show ?thesis
  proof (cases "uf_alive (ua_flows s ! i)")
    case False
    then have "flow_ok (s\<lparr>ua_sending := None\<rparr>, log) i"
      using i(2) by (simp add: flow_ok_def in_order_def)
    then have "assoc_ok (s\<lparr>ua_sending := None\<rparr>, log)"
      using r o by (auto simp: assoc_ok_def)
    then show ?thesis
      using False Some q by (simp add: loop_queued_def Let_def)
  next
    case True
    have "assoc_ok (flow_update i (\<lambda>f. f\<lparr>uf_queue := uf_queue f @ [d]\<rparr>) (s\<lparr>ua_sending := None\<rparr>), log)"
      if "length (uf_queue (ua_flows s ! i)) < UP_QUEUE"
      using that i True e o pend by (intro assoc_ok_update [OF r]) (simp_all add: flow_ok_def flow_update_nth in_order_def)
    then show ?thesis
      using a True Some q by (simp add: loop_queued_def Let_def)
  qed
qed (use a in \<open>simp add: loop_queued_def\<close>)

text \<open>A datagram: nothing changes, or its flow, known or new, has it pending.\<close>

lemma forward_ok:
  assumes a: "assoc_ok (s, log)" and e: "\<not> ua_ended s" "ua_sending s = None" "ua_client s = Some from_addr"
    and s': "s' = forward_datagram pkt from_addr open_ok s"
  shows "assoc_ok (s', log @ udp_taken (Datagram pkt from_addr open_ok) s log)"
proof (cases "parse_udp_datagram pkt")
  case None
  then show ?thesis
    using a e s' by (simp add: forward_datagram_def udp_taken_def)
next
  case (Some p)
  obtain t off hdr where p: "parse_udp_datagram pkt = Some (t, off, hdr)"
    using Some by (cases p) simp
  let ?d = "drop off pkt"
  have r: "routes_ok (s, log)" and f: "\<And>j. j < length (ua_flows s) \<Longrightarrow> flow_ok (s, log) j"
    using a by (simp_all add: assoc_ok_def)
  have known: "ua_assocs s t = None \<longleftrightarrow> t \<notin> fst ` set log" and dist: "distinct (map uf_target (ua_flows s))"
    and tgts: "fst ` set log = set (map uf_target (ua_flows s))"
    using r e(1) by (simp_all add: routes_ok_def)
  have pend: "pending j s = []" for j
    using e(2) by (simp add: pending_def)
  show ?thesis
  proof (cases "ua_assocs s t")
    case (Some i)
    have i: "i < length (ua_flows s)" "uf_target (ua_flows s ! i) = t"
      using r Some by (auto simp: routes_ok_def)
    have s1: "s' = s\<lparr>ua_sending := Some (i, ?d)\<rparr>"
      using s' p Some by (simp add: forward_datagram_def Let_def)
    have log1: "udp_taken (Datagram pkt from_addr open_ok) s log = [(t, ?d)]"
      using known Some p e by (simp add: udp_taken_def)
    have new: "took (uf_target (ua_flows s ! j)) [(t, ?d)] = pending j s'" if "j < length (ua_flows s)" for j
      using that i dist nth_eq_iff_index_eq [OF dist, of j i] by (auto simp: took_def pending_def s1)
    have "flow_ok (s', log @ [(t, ?d)]) j" if "j < length (ua_flows s)" for j
      using f [OF that] e(1) pend [of j] new [OF that] unfolding flow_ok_def in_order_def by (auto simp: s1 split: if_splits)
    moreover have "routes_ok (s', log @ [(t, ?d)])"
      using r i known Some by (auto simp: s1 routes_ok_def)
    ultimately show ?thesis
      unfolding log1 by (simp add: assoc_ok_def s1)
  next
    case None
    show ?thesis
    proof (cases open_ok)
      case False
      then show ?thesis
        using a s' p None known by (simp add: forward_datagram_def udp_taken_def Let_def)
    next
      case True
      let ?n = "length (ua_flows s)"
      let ?f = "\<lparr>uf_target = t, uf_header = hdr, uf_client = from_addr, uf_queue = [], uf_sent = [], uf_alive = True\<rparr>"
      have s1: "s' = s\<lparr>ua_flows := ua_flows s @ [?f], ua_assocs := (ua_assocs s)(t \<mapsto> ?n), ua_sending := Some (?n, ?d)\<rparr>"
        using s' p None True by (simp add: forward_datagram_def Let_def)
      have log1: "udp_taken (Datagram pkt from_addr open_ok) s log = [(t, ?d)]"
        using p e True by (simp add: udp_taken_def)
      have fresh: "t \<notin> fst ` set log" using known None by simp
      have "names_target ?f" using reply_header(1) p by (auto simp: names_target_def)
      then have "flow_ok (s', log @ [(t, ?d)]) ?n"
        using e(1,3) took_fresh [OF fresh] by (simp add: s1 flow_ok_def in_order_def pending_def took_def)
      moreover have "flow_ok (s', log @ [(t, ?d)]) j" if "j < ?n" for j
      proof -
        have "uf_target (ua_flows s ! j) \<noteq> t" using fresh tgts that by auto
        then show ?thesis
          using f [OF that] that e pend [of j] unfolding flow_ok_def in_order_def
          by (auto simp: s1 nth_append took_def pending_def split: if_splits)
      qed
      moreover have "routes_ok (s', log @ [(t, ?d)])"
      proof -
        have "t \<notin> uf_target ` set (ua_flows s)" using fresh tgts by simp
        then show ?thesis
          using r fresh unfolding routes_ok_def s1 by (auto simp: nth_append split: if_splits) fastforce+
      qed
      ultimately show ?thesis
        unfolding log1 by (auto simp: s1 assoc_ok_def less_Suc_eq)
    qed
  qed
qed

lemma udp_traced_ok:
  assumes "assoc_ok x"
  shows "assoc_ok (udp_traced e x)"
proof -
  obtain s log where x: "x = (s, log)"
    by (cases x)
  note a = assms [unfolded x]
  show ?thesis
  proof (cases e)
    case (Datagram pkt from_addr open_ok)
    show ?thesis
    proof (cases "ua_ended s \<or> ua_sending s \<noteq> None")
      case True
      then have "udp_taken e s log = []" "udp_step e s = s"
        unfolding udp_taken_def udp_step_def Datagram by auto
      then have "udp_traced e x = (s, log)"
        by (simp add: x udp_traced_def)
      then show ?thesis
        using a by simp
    next
      case False
      then have e: "\<not> ua_ended s" "ua_sending s = None"
        by blast+
      have t: "udp_traced e x = (loop_datagram pkt from_addr open_ok s, log @ udp_taken e s log)"
        using False by (simp add: x Datagram udp_traced_def udp_step_def)
      show ?thesis
      proof (cases "ua_client s")
        case None
        then have "assoc_ok (s\<lparr>ua_client := Some from_addr\<rparr>, log)"
          using a by (auto simp: assoc_ok_def flow_ok_def routes_ok_def)
        from forward_ok [OF this _ _ _ refl, of from_addr pkt open_ok] show ?thesis
          unfolding t using e None by (simp add: loop_datagram_def Datagram udp_taken_def)
      next
        case (Some a')
        then show ?thesis
          unfolding t using forward_ok [OF a e _ refl, of from_addr pkt open_ok] a by (simp add: loop_datagram_def Datagram udp_taken_def)
      qed
    qed
  qed (use a loop_end_ok loop_queued_ok flow_up_ok flow_down_ok in \<open>auto simp: x udp_traced_def udp_step_def udp_taken_def Let_def\<close>)
qed

lemma udp_run_ok: "assoc_ok (udp_run es)"
proof (induction es rule: rev_induct)
  case Nil
  show ?case
    by (simp add: udp_run_def assoc_new_def assoc_ok_def routes_ok_def)
next
  case (snoc e es)
  then show ?case
    using udp_traced_ok by (simp add: udp_run_def)
qed

text \<open>A flow whose task is gone keeps its place in the table of targets.\<close>

definition stale :: "string \<Rightarrow> nat \<Rightarrow> bytes list \<Rightarrow> nat \<Rightarrow> udp_assoc \<Rightarrow> bool" where
  "stale t i sent n s \<longleftrightarrow>
     i < n \<and> n \<le> length (ua_flows s) \<and> (ua_ended s \<or> ua_assocs s t = Some i) \<and>
     \<not> uf_alive (ua_flows s ! i) \<and> uf_sent (ua_flows s ! i) = sent \<and>
     (\<forall>j. n \<le> j \<and> j < length (ua_flows s) \<longrightarrow> uf_target (ua_flows s ! j) \<noteq> t)"

lemma stale_update:
  assumes "stale t i sent n s" and "j < length (ua_flows s)" and "j \<noteq> i"
    and "uf_target (g (ua_flows s ! j)) = uf_target (ua_flows s ! j)"
  shows "stale t i sent n (flow_update j g s)"
  using assms unfolding stale_def by (auto simp: flow_update_nth)

lemma stale_cong:
  "stale t i sent n s \<Longrightarrow> ua_flows s' = ua_flows s \<Longrightarrow> ua_assocs s' = ua_assocs s \<Longrightarrow> ua_ended s' = ua_ended s \<Longrightarrow> stale t i sent n s'"
  by (simp add: stale_def)

lemma stale_forward:
  assumes "stale t i sent n s" and "\<not> ua_ended s"
  shows "stale t i sent n (forward_datagram pkt a ok s)"
proof (cases "parse_udp_datagram pkt")
  case (Some p)
  obtain t' off hdr where p: "p = (t', off, hdr)"
    by (cases p)
  show ?thesis
  proof (cases "ua_assocs s t'")
    case None
    then have "t' \<noteq> t"
      using assms by (auto simp: stale_def)
    then show ?thesis
      using assms Some p None unfolding stale_def by (auto simp: forward_datagram_def Let_def nth_append)
  qed (use assms Some p in \<open>auto simp: forward_datagram_def Let_def intro: stale_cong\<close>)
qed (use assms in \<open>simp add: forward_datagram_def\<close>)

lemma stale_step:
  assumes "stale t i sent n s"
  shows "stale t i sent n (udp_step e s)"
proof -
  have other: "j \<noteq> i" if "uf_alive (ua_flows s ! j)" for j
    using assms that by (auto simp: stale_def)
  have sending: "stale t i sent n (s\<lparr>ua_sending := q\<rparr>)" "stale t i sent n (s\<lparr>ua_client := c\<rparr>)" "stale t i sent n (s\<lparr>ua_out := w\<rparr>)" for q c w
    using assms by (auto intro: stale_cong)
  show ?thesis
  proof (cases e)
    case (FlowUp j ok)
    then show ?thesis
      using assms other stale_update [OF assms, of j] by (auto simp: udp_step_def flow_up_def Let_def split: list.split)
  next
    case (FlowDown j msg ok)
    then show ?thesis
      using assms other stale_update [OF assms, of j] stale_update [OF sending(3), of j] sending(3)
      by (auto simp: udp_step_def flow_down_def Let_def split: option.split)
  next
    case Queued
    have "stale t i sent n (loop_queued s)"
    proof (cases "ua_sending s")
      case (Some q)
      obtain j d where q: "q = (j, d)"
        by (cases q)
      show ?thesis
      proof (cases "j < length (ua_flows s)")
        case True
        then show ?thesis
          using Some q assms sending(1) other [of j] stale_update [OF sending(1), of j] by (auto simp: loop_queued_def Let_def)
      next
        case False
        then show ?thesis
          using Some q assms sending(1) by (auto simp: loop_queued_def Let_def flow_update_def list_update_beyond intro: stale_cong)
      qed
    qed (use assms in \<open>simp add: loop_queued_def\<close>)
    then show ?thesis
      using assms by (simp add: udp_step_def Queued)
  next
    case (Datagram pkt a ok)
    show ?thesis
      using assms stale_forward [OF assms, of pkt a ok] stale_forward [OF sending(2), of "Some a" pkt a ok]
      by (auto simp: Datagram udp_step_def loop_datagram_def split: option.split)
  qed (use assms in \<open>auto simp: udp_step_def loop_end_def stale_def\<close>)
qed

text \<open>What a request with a command of each kind is answered.\<close>

definition socks_answer :: "u8 \<Rightarrow> string \<Rightarrow> bytes \<Rightarrow> (reality_error + (socks5_cmd \<times> bytes)) \<times> bytes" where
  "socks_answer cmd target rest =
     (if cmd = 1 then (Ok (Connect target, rest), [5, 0, 0, 1, 0, 0, 0, 0, 0, 0])
      else if cmd = 3 then (Ok (UdpAssociate, rest), [])
      else (Err (RMalformed ''unsupported SOCKS command''), [5, 7, 0, 1, 0, 0, 0, 0, 0, 0]))"

lemma socks_request_answer:
  assumes "socks_host_wf h"
  shows "socks_request True ([5, cmd, rsv] @ socks_addr h @ u16_to_be port @ rest) =
    socks_answer cmd (join_host_port (host_text h) port) rest"
proof -
  obtain atyp a where h: "socks_addr h = atyp # a"
    by (cases h) simp_all
  have "socks_read 4 ([5, cmd, rsv] @ socks_addr h @ u16_to_be port @ rest) = Ok ([5, cmd, rsv, atyp], a @ u16_to_be port @ rest)"
    by (simp add: h socks_read_def)
  then show ?thesis
    using read_socks_addr_wf [OF assms h, of "u16_to_be port @ rest"] by (simp add: socks_request_def socks_answer_def try_bind_def)
qed

lemma socks_datagram:
  assumes "socks_host_wf h"
  shows "parse_udp_datagram ([0, 0, 0] @ socks_addr h @ u16_to_be port @ data) =
    Some (join_host_port (host_text h) port, length (socks_addr h) + 5, socks_addr h @ u16_to_be port)"
proof -
  obtain p0 p1 where p: "u16_to_be port = [p0, p1]"
    using two_list [OF length_uN_to_be(1)] by blast
  obtain atyp a where h: "socks_addr h = atyp # a"
    by (cases h) simp_all
  have len: "length (as_bytes n) = length n" for n
    by (simp add: as_bytes_def)
  have u: "unat (of_nat (length n) :: u8) = length n" if "length n < 256" for n :: string
    using that by (simp add: unat_of_nat)
  have "udp_host (0 # 0 # 0 # atyp # a @ p0 # p1 # data) = Some (host_text h, length a + 4)"
    using assms h
    by (cases h) (auto simp: udp_host_cons get_range_def slice_def get_at_def len u from_utf8_lossy_as_bytes)
  moreover have "u16_from_be [p0, p1] = port"
    using u16_from_to_be [of port] p by simp
  ultimately have "parse_udp_datagram (0 # 0 # 0 # atyp # a @ p0 # p1 # data) =
      Some (join_host_port (host_text h) port, length a + 4 + 2, atyp # take (length a + 4 - 2) (a @ p0 # p1 # data))"
    unfolding parse_udp_cons by (auto simp: get_at_def nth_append)
  then show ?thesis
    by (simp add: h p)
qed

section \<open>Properties\<close>

text \<open>
  C31. The local proxy understands its clients. A request for an address or a host name, as RFC 1928 writes it and whatever
  methods it offers, is taken for what its command says: CONNECT is accepted with the target that the host and port make,
  which split back into them, and the success reply is written; UDP ASSOCIATE is accepted with no reply yet, as the relay
  writes it; any other command is refused with the reply for an unsupported one. What the client sent
  after the request is left for the relay. A UDP datagram is parsed to its target and data, and the header kept for its replies
  is parsed to the same target in front of any data.
\<close>

theorem socks_requests_understood:
  assumes "socks_host_wf h" and "length methods = unat n"
  shows "socks5_accept_ext True True ([5, n] @ methods @ [5, cmd, rsv] @ socks_addr h @ u16_to_be port @ rest) =
      map_prod id (append [5, 0]) (socks_answer cmd (join_host_port (host_text h) port) rest) \<and>
    split_host_port (join_host_port (host_text h) port) = (host_text h, Some (show_nat (unat port))) \<and>
    parse_udp_datagram ([0, 0, 0] @ socks_addr h @ u16_to_be port @ data) =
      Some (join_host_port (host_text h) port, length (socks_addr h) + 5, socks_addr h @ u16_to_be port) \<and>
    (parse_udp_datagram pkt = Some (t, off, hdr) \<longrightarrow> parse_udp_datagram ([0, 0, 0] @ hdr @ b) = Some (t, off, hdr))"
proof -
  have "socks_read 2 ([5, n] @ methods @ s) = Ok ([5, n], methods @ s)" for s
    by (simp add: socks_read_def)
  then have "socks5_accept_ext True True ([5, n] @ methods @ [5, cmd, rsv] @ socks_addr h @ u16_to_be port @ rest) =
      map_prod id (append [5, 0]) (socks_answer cmd (join_host_port (host_text h) port) rest)"
    using assms(2) socks_request_answer [OF assms(1), of cmd rsv port rest] by (simp add: socks5_accept_ext_def split_beta map_prod_def)
  then show ?thesis
    using split_joined [OF host_text_kind [OF assms(1)]] socks_datagram [OF assms(1)] reply_header(1) by blast
qed

theorem socks_requests_understood_witness:
  "fst (socks5_accept_ext True True ([5, 1] @ [0] @ [5, 1, 0] @ socks_addr (HostName ''a.org'') @ u16_to_be 443 @ [9])) =
     Ok (Connect (join_host_port ''a.org'' 443), [9])"
proof -
  have "utf8_valid (as_bytes ''a.org'')"
    by (intro utf8_valid_ascii) (simp add: as_bytes_def)
  then have wf: "socks_host_wf (HostName ''a.org'')"
    by (simp add: host_name_def)
  have "length [0 :: u8] = unat (1 :: u8)"
    by simp
  from conjunct1 [OF socks_requests_understood [OF wf this, of 1 0 443 "[9]"]] show ?thesis
    by (simp add: socks_answer_def)
qed

text \<open>
  C32. A UDP association of the proxy. After any run: the targets of the datagrams taken have one flow each; a live flow has
  put onto the tunnel, or holds, exactly the data of the datagrams taken for its target, in order, nothing lost and
  nothing twice, and a flow that has ended has put a beginning of it there; no flow's queue is longer than 64. Every
  packet that went to the client went to the address of its first datagram and carries the header of one of the flows, which
  names that flow's target; datagrams from other addresses change nothing. The table of targets leads to the
  flow with that target.
\<close>

theorem socks_udp_relay:
  assumes "udp_run es = (s, log)"
  shows "(\<forall>a p. (a, p) \<in> set (ua_out s) \<longrightarrow> ua_client s = Some a \<and>
        (\<exists>f \<in> set (ua_flows s). \<exists>off. parse_udp_datagram p = Some (uf_target f, off, uf_header f))) \<and>
    fst ` set log = set (map uf_target (ua_flows s)) \<and> distinct (map uf_target (ua_flows s)) \<and>
    (\<forall>i < length (ua_flows s). length (uf_queue (ua_flows s ! i)) \<le> UP_QUEUE \<and>
      (if uf_alive (ua_flows s ! i) \<and> \<not> ua_ended s
       then took (uf_target (ua_flows s ! i)) log = uf_sent (ua_flows s ! i) @ uf_queue (ua_flows s ! i) @ pending i s
       else \<exists>rest. took (uf_target (ua_flows s ! i)) log = uf_sent (ua_flows s ! i) @ rest)) \<and>
    (\<forall>t i. ua_assocs s t = Some i \<longrightarrow> i < length (ua_flows s) \<and> uf_target (ua_flows s ! i) = t) \<and>
    (ua_client s \<noteq> None \<and> ua_client s \<noteq> Some from_addr \<longrightarrow> udp_step (Datagram pkt from_addr ok) s = s)"
proof -
  have a: "assoc_ok (s, log)"
    using udp_run_ok [of es] assms by simp
  have out: "\<exists>f \<in> set (ua_flows s). \<exists>off. parse_udp_datagram p = Some (uf_target f, off, uf_header f)"
    if f: "f \<in> set (ua_flows s)" "p = [0, 0, 0] @ uf_header f @ b" for f p b
  proof -
    obtain i where "i < length (ua_flows s)" "f = ua_flows s ! i"
      using f(1) by (auto simp: in_set_conv_nth)
    then have "names_target f"
      using a by (simp add: assoc_ok_def flow_ok_def)
    then show ?thesis
      using f unfolding names_target_def by blast
  qed
  have order: "length (uf_queue (ua_flows s ! i)) \<le> UP_QUEUE \<and>
      (if uf_alive (ua_flows s ! i) \<and> \<not> ua_ended s
       then took (uf_target (ua_flows s ! i)) log = uf_sent (ua_flows s ! i) @ uf_queue (ua_flows s ! i) @ pending i s
       else \<exists>rest. took (uf_target (ua_flows s ! i)) log = uf_sent (ua_flows s ! i) @ rest)" if "i < length (ua_flows s)" for i
    using a that by (auto simp: assoc_ok_def flow_ok_def in_order_def split: if_splits)
  have other: "udp_step (Datagram pkt from_addr ok) s = s" if "ua_client s \<noteq> None" "ua_client s \<noteq> Some from_addr"
    using that by (auto simp: udp_step_def loop_datagram_def)
  have "ua_client s = Some a \<and> (\<exists>f \<in> set (ua_flows s). \<exists>b. p = [0, 0, 0] @ uf_header f @ b)" if "(a, p) \<in> set (ua_out s)" for a p
    using a that unfolding assoc_ok_def routes_ok_def fst_conv by blast
  then have "ua_client s = Some a \<and> (\<exists>f \<in> set (ua_flows s). \<exists>off. parse_udp_datagram p = Some (uf_target f, off, uf_header f))"
    if "(a, p) \<in> set (ua_out s)" for a p
    using out that by blast
  moreover have "i < length (ua_flows s) \<and> uf_target (ua_flows s ! i) = t" if "ua_assocs s t = Some i" for t i
    using a that by (simp add: assoc_ok_def routes_ok_def)
  moreover have "fst ` set log = set (map uf_target (ua_flows s))" "distinct (map uf_target (ua_flows s))"
    using a by (simp_all add: assoc_ok_def routes_ok_def)
  ultimately show ?thesis
    using order other by blast
qed

definition sample_datagram :: bytes where
  "sample_datagram = [0, 0, 0, 1, 1, 1, 1, 1, 0, 53, 7]"

theorem socks_udp_relay_witness:
  "udp_step (Datagram sample_datagram (V4 [127, 0, 0, 1], 9) True)
     (fst (udp_run [Datagram sample_datagram (V4 [127, 0, 0, 1], 5) True, Queued])) =
   fst (udp_run [Datagram sample_datagram (V4 [127, 0, 0, 1], 5) True, Queued])"
proof -
  let ?es = "[Datagram sample_datagram (V4 [127, 0, 0, 1], 5) True, Queued]"
  obtain s log where r: "udp_run ?es = (s, log)"
    by (cases "udp_run ?es")
  have "ua_client (fst (udp_run ?es)) = Some (V4 [127, 0, 0, 1], 5)"
    by (simp add: udp_run_def udp_traced_def udp_step_def loop_datagram_def forward_datagram_def loop_queued_def assoc_new_def Let_def
        split: option.split)
  then have "ua_client s \<noteq> None \<and> ua_client s \<noteq> Some (V4 [127, 0, 0, 1], 9)"
    using r by simp
  then show ?thesis
    using socks_udp_relay [OF r, of "(V4 [127, 0, 0, 1], 9)" sample_datagram True] r by simp
qed

text \<open>
  C33. A target that the association has lost. Once the task of a flow has ended, for instance because the server
  closed the idle flow, the entry in the table of targets stays: whatever happens later, nothing more is put onto
  the tunnel for that target, and no new flow is opened for it, as long as the association lives.
\<close>

theorem socks_udp_target_lost:
  assumes "ua_assocs s t = Some i" and "i < length (ua_flows s)" and "\<not> uf_alive (ua_flows s ! i)"
    and "s' = fold udp_step es s"
  shows "uf_sent (ua_flows s' ! i) = uf_sent (ua_flows s ! i) \<and>
    (\<forall>j. length (ua_flows s) \<le> j \<and> j < length (ua_flows s') \<longrightarrow> uf_target (ua_flows s' ! j) \<noteq> t)"
proof -
  have start: "stale t i (uf_sent (ua_flows s ! i)) (length (ua_flows s)) s"
    using assms(1-3) by (auto simp: stale_def)
  have "stale t i (uf_sent (ua_flows s ! i)) (length (ua_flows s)) (fold udp_step es s)"
    by (induction es rule: rev_induct) (simp_all add: start stale_step)
  then show ?thesis
    using assms(4) by (simp add: stale_def)
qed

theorem socks_udp_target_lost_witness:
  "uf_sent (ua_flows (fold udp_step [Datagram sample_datagram (V4 [127, 0, 0, 1], 5) True, Queued, FlowUp 0 True]
     (fold udp_step [Datagram sample_datagram (V4 [127, 0, 0, 1], 5) True, FlowDown 0 None True, Queued] assoc_new)) ! 0) = []"
proof -
  let ?s = "fold udp_step [Datagram sample_datagram (V4 [127, 0, 0, 1], 5) True, FlowDown 0 None True, Queued] assoc_new"
  have p: "parse_udp_datagram sample_datagram = Some (''1.1.1.1:53'', 10, [1, 1, 1, 1, 1, 0, 53])"
    by code_simp
  have s: "ua_assocs ?s ''1.1.1.1:53'' = Some 0" "0 < length (ua_flows ?s)" "\<not> uf_alive (ua_flows ?s ! 0)" "uf_sent (ua_flows ?s ! 0) = []"
    by (simp_all add: udp_step_def loop_datagram_def forward_datagram_def p loop_queued_def flow_down_def flow_update_def assoc_new_def Let_def)
  show ?thesis
    using conjunct1 [OF socks_udp_target_lost [OF s(1-3) refl]] unfolding s(4) by blast
qed

end
