(* ===== verification/Text.thy ===== *)
theory Text
  imports IpText
begin

text \<open>
  Facts about the text functions of the standard library that the readers and writers of text share: characters
  without a special meaning, trimming, and splitting at a character.
\<close>

definition plain_char :: "char \<Rightarrow> bool" where
  "plain_char c \<longleftrightarrow> is_ascii_alphanumeric (of_nat (of_char c)) \<or> c \<in> set ''._-/:@=,+%''"

lemma plain_chars [simp]:
  "plain_char CHR ''0''" "plain_char CHR ''1''" "plain_char CHR ''2''" "plain_char CHR ''3''" "plain_char CHR ''4''" "plain_char CHR ''5''"
  "plain_char CHR ''6''" "plain_char CHR ''7''" "plain_char CHR ''8''" "plain_char CHR ''9''" "plain_char CHR ''A''" "plain_char CHR ''B''"
  "plain_char CHR ''C''" "plain_char CHR ''D''" "plain_char CHR ''E''" "plain_char CHR ''F''" "plain_char CHR ''G''" "plain_char CHR ''H''"
  "plain_char CHR ''I''" "plain_char CHR ''J''" "plain_char CHR ''K''" "plain_char CHR ''L''" "plain_char CHR ''M''" "plain_char CHR ''N''"
  "plain_char CHR ''O''" "plain_char CHR ''P''" "plain_char CHR ''Q''" "plain_char CHR ''R''" "plain_char CHR ''S''" "plain_char CHR ''T''"
  "plain_char CHR ''U''" "plain_char CHR ''V''" "plain_char CHR ''W''" "plain_char CHR ''X''" "plain_char CHR ''Y''" "plain_char CHR ''Z''"
  "plain_char CHR ''a''" "plain_char CHR ''b''" "plain_char CHR ''c''" "plain_char CHR ''d''" "plain_char CHR ''e''" "plain_char CHR ''f''"
  "plain_char CHR ''g''" "plain_char CHR ''h''" "plain_char CHR ''i''" "plain_char CHR ''j''" "plain_char CHR ''k''" "plain_char CHR ''l''"
  "plain_char CHR ''m''" "plain_char CHR ''n''" "plain_char CHR ''o''" "plain_char CHR ''p''" "plain_char CHR ''q''" "plain_char CHR ''r''"
  "plain_char CHR ''s''" "plain_char CHR ''t''" "plain_char CHR ''u''" "plain_char CHR ''v''" "plain_char CHR ''w''" "plain_char CHR ''x''"
  "plain_char CHR ''y''" "plain_char CHR ''z''" "plain_char CHR ''.''" "plain_char CHR ''_''" "plain_char CHR ''-''" "plain_char CHR ''/''"
  "plain_char CHR '':''" "plain_char CHR ''@''" "plain_char CHR ''=''" "plain_char CHR '',''" "plain_char CHR ''+''" "plain_char CHR ''%''"
  by (simp_all add: plain_char_def is_ascii_alphanumeric_def is_ascii_digit_def is_ascii_alphabetic_def)

text \<open>A word without special characters.\<close>

definition plain_word :: "string \<Rightarrow> bool" where
  "plain_word x \<longleftrightarrow> x \<noteq> [] \<and> list_all plain_char x"

lemma plain_literal: "plain_word (c # s) \<longleftrightarrow> plain_char c \<and> list_all plain_char s"
  by (simp add: plain_word_def)

lemma byte_of_char: "(of_nat (of_char c) :: u8) \<in> set (as_bytes s) \<longleftrightarrow> c \<in> set s"
proof -
  have "inj (\<lambda>c. of_nat (of_char c) :: u8)"
  proof (rule injI)
    fix c d :: char assume "(of_nat (of_char c) :: u8) = of_nat (of_char d)"
    then have "as_bytes [c] = as_bytes [d]" by (simp add: as_bytes_def)
    then show "c = d" by (metis of_bytes_as_bytes list.inject)
  qed
  from inj_image_mem_iff [OF this] show ?thesis by (simp only: as_bytes_def set_map)
qed

text \<open>Trimming.\<close>

lemma space_len_0:
  assumes "[] \<notin> set ws"
  shows "space_len ws s = 0 \<longleftrightarrow> (\<forall>w\<in>set ws. take (length w) s \<noteq> w)"
proof (cases "find (\<lambda>w. take (length w) s = w) ws")
  case None
  moreover from None have "\<forall>w\<in>set ws. take (length w) s \<noteq> w"
    by (auto simp: find_None_iff)
  ultimately show ?thesis by (simp add: space_len_def)
next
  case (Some w)
  then have "w \<in> set ws" "take (length w) s = w"
    by (auto simp: find_Some_iff)
  then show ?thesis
    using Some assms by (auto simp: space_len_def)
qed

lemma white_space_words: "[] \<notin> set white_space" "[] \<notin> set (map rev white_space)"
  by (auto simp: white_space_def)

lemma drop_spaces_id: "space_len ws s = 0 \<Longrightarrow> drop_spaces ws s = s"
  by (subst drop_spaces.simps) simp

lemma drop_spaces_done: "[] \<notin> set ws \<Longrightarrow> space_len ws (drop_spaces ws s) = 0"
proof (induction ws s rule: drop_spaces.induct)
  case (1 ws s)
  show ?case
  proof (cases "space_len ws s = 0 \<or> s = []")
    case True
    moreover have "space_len ws [] = 0" using 1(2) space_len_0 [of ws "[]"] by auto
    ultimately show ?thesis by (subst drop_spaces.simps) auto
  next
    case False
    then show ?thesis using 1 by (subst drop_spaces.simps) auto
  qed
qed

lemma drop_spaces_suffix: "\<exists>p. s = p @ drop_spaces ws s"
proof (induction ws s rule: drop_spaces.induct)
  case (1 ws s)
  show ?case
  proof (cases "space_len ws s = 0 \<or> s = []")
    case True
    then have "drop_spaces ws s = s" by (subst drop_spaces.simps) simp
    then show ?thesis by auto
  next
    case False
    then obtain p where "drop (space_len ws s) s = p @ drop_spaces ws (drop (space_len ws s) s)"
      using 1 by blast
    then show ?thesis
      using False by (metis append.assoc append_take_drop_id drop_spaces.simps)
  qed
qed

lemma space_prefix:
  assumes ws: "[] \<notin> set ws" and ab: "space_len ws (a @ b) = 0"
  shows "space_len ws a = 0"
proof -
  have "take (length w) a \<noteq> w" if "w \<in> set ws" for w
  proof
    assume t: "take (length w) a = w"
    then have "length w \<le> length a" by (metis length_take min.cobounded1)
    then have "take (length w) (a @ b) = w" using t by simp
    then show False using ab that ws by (simp add: space_len_0)
  qed
  then show ?thesis using ws by (simp add: space_len_0)
qed

lemma trim_starts: "space_len white_space (str_trim s) = 0"
proof -
  obtain p where "rev (drop_spaces white_space s) = p @ rev (str_trim s)"
    using drop_spaces_suffix [of "rev (drop_spaces white_space s)" "map rev white_space"] by (auto simp: str_trim_def)
  then have "drop_spaces white_space s = str_trim s @ rev p"
    by (metis rev_append rev_rev_ident)
  then show ?thesis
    using space_prefix drop_spaces_done white_space_words(1) by metis
qed

lemma trim_id: "space_len white_space s = 0 \<Longrightarrow> space_len (map rev white_space) (rev s) = 0 \<Longrightarrow> str_trim s = s"
  by (simp add: str_trim_def drop_spaces_id)

lemma no_space_ascii:
  assumes "plain_char c"
  shows "\<forall>w\<in>set white_space. c \<notin> set w"
proof -
  have "\<forall>w\<in>set white_space. \<forall>d\<in>set w. \<not> plain_char d"
    by code_simp
  then show ?thesis using assms by blast
qed

lemma space_len_plain:
  assumes "plain_char c"
  shows "space_len white_space (c # s) = 0" "space_len (map rev white_space) (c # s) = 0"
    "space_len white_space a = 0 \<Longrightarrow> space_len white_space (a @ c # s) = 0"
proof -
  have hd: "take (length w) (c # s) \<noteq> w" if "c \<notin> set w" "w \<noteq> []" for w
    using that by (cases w) auto
  show "space_len white_space (c # s) = 0"
    using hd no_space_ascii [OF assms] white_space_words(1) by (auto simp: space_len_0)
  have "take (length w) (c # s) \<noteq> w" if "w \<in> set (map rev white_space)" for w
  proof (rule hd)
    show "c \<notin> set w" using that no_space_ascii [OF assms] by auto
    show "w \<noteq> []" using that white_space_words(2) by auto
  qed
  then show "space_len (map rev white_space) (c # s) = 0"
    using space_len_0 [OF white_space_words(2)] by blast
  show "space_len white_space (a @ c # s) = 0" if "space_len white_space a = 0"
  proof -
    have "take (length w) (a @ c # s) \<noteq> w" if "w \<in> set white_space" for w
    proof
      assume t: "take (length w) (a @ c # s) = w"
      show False
      proof (cases "length w \<le> length a")
        case True
        then show False
          using t that \<open>space_len white_space a = 0\<close> white_space_words(1) by (auto simp: space_len_0)
      next
        case False
        then have "c \<in> set (take (length w) (a @ c # s))"
          by (cases "length w - length a") (auto simp: take_Cons')
        then show False using that no_space_ascii [OF assms] unfolding t by blast
      qed
    qed
    then show ?thesis using white_space_words(1) by (simp add: space_len_0)
  qed
qed

lemma trim_plain_ends:
  assumes "space_len white_space a = 0" and "plain_word x"
  shows "str_trim (a @ x) = a @ x"
proof -
  obtain c y where x: "x = c # y" using assms(2) by (cases x) (auto simp: plain_word_def)
  have "space_len white_space (a @ x) = 0"
    using assms space_len_plain(3) [of c a y] by (simp add: x plain_literal)
  moreover obtain d z where "x = z @ [d]" "plain_char d"
    using assms(2) by (cases x rule: rev_cases) (auto simp: plain_word_def)
  then have "space_len (map rev white_space) (rev (a @ x)) = 0"
    by (simp add: space_len_plain(2))
  ultimately show ?thesis by (rule trim_id)
qed

lemma space_len_nil: "[] \<notin> set ws \<Longrightarrow> space_len ws [] = 0"
  by (auto simp: space_len_0)

lemma trim_nil: "str_trim [] = []"
  by (rule trim_id) (simp_all only: space_len_nil white_space_words not_False_eq_True rev.simps)

lemma trim_word: "plain_word x \<Longrightarrow> str_trim x = x"
  using trim_plain_ends [of "[]" x] by (simp only: space_len_nil white_space_words not_False_eq_True append_Nil)

lemma split_onceD: "split_once d s = Some (a, b) \<Longrightarrow> s = a @ d # b"
  by (induction s arbitrary: a) (auto split: if_splits)

lemma rsplit_onceD: "rsplit_once d s = Some (a, b) \<Longrightarrow> s = a @ d # b"
proof -
  assume "rsplit_once d s = Some (a, b)"
  then have "split_once d (rev s) = Some (rev b, rev a)"
    by (auto simp: rsplit_once_def)
  from arg_cong [OF split_onceD [OF this], of rev] show ?thesis by simp
qed

end
