(* ===== verification/Docker.thy ===== *)
theory Docker
  imports Text
begin

text \<open>
  The shell commands of remote provisioning, \<open>crates/leshiy-provision/src/docker.rs\<close>, with the readers of what
  the commands print, and the checks of operator input in \<open>engine.rs\<close>.

  Commands are the strings that are sent to the remote login shell. \<open>shell_words\<close> says what such a shell makes
  of a string that uses only blanks, single quotes, backslashes and characters without a meaning of their own:
  the list of its words; anything else it does not read. It is the specification the commands are checked against.
  serde's reading of a JSON list is an argument.
\<close>

section \<open>Definitions\<close>

abbreviation quote :: char where "quote \<equiv> CHR 0x27"
abbreviation bslash :: char where "bslash \<equiv> CHR 0x5C"
abbreviation dquote :: char where "dquote \<equiv> CHR 0x22"

definition DATA_VOLUME :: string where "DATA_VOLUME = ''leshiy-data''"
definition DNS_PUBLIC_FALLBACK :: "string list" where "DNS_PUBLIC_FALLBACK = [''1.1.1.1'', ''8.8.8.8'']"

definition show_port :: "u16 \<Rightarrow> string" where "show_port p = show_nat (unat p)"

definition detect_docker_cmd :: string where
  "detect_docker_cmd = ''command -v docker >/dev/null 2>&1 && echo yes || echo no''"

definition volume_rm_cmd :: string where
  "volume_rm_cmd = ''sudo docker volume rm '' @ DATA_VOLUME"

definition install_docker_cmd :: string where
  "install_docker_cmd =
     ''sudo sh -c '' @ [quote] @ ''set -e; '' @
     ''if command -v apt-get >/dev/null 2>&1; then apt-get update && apt-get install -y docker.io; '' @
     ''elif command -v dnf >/dev/null 2>&1; then dnf install -y docker; '' @
     ''elif command -v yum >/dev/null 2>&1; then yum install -y docker; '' @
     ''elif command -v zypper >/dev/null 2>&1; then zypper install -y docker; '' @
     ''elif command -v pacman >/dev/null 2>&1; then pacman -Sy --noconfirm docker; '' @
     ''else echo no supported package manager >&2; exit 1; fi; '' @
     ''systemctl enable --now docker'' @ [quote]"

definition pull_cmd :: "string \<Rightarrow> string" where
  "pull_cmd image_ref = ''sudo docker pull '' @ image_ref"

definition detect_host_ipv6_cmd :: string where
  "detect_host_ipv6_cmd = ''[ -e /proc/net/if_inet6 ] && echo yes || echo no''"

text \<open>\<open>str::replace\<close> of a character, as the quoting of environment values uses it.\<close>

definition replace_char :: "char \<Rightarrow> string \<Rightarrow> string \<Rightarrow> string" where
  "replace_char c r s = concat (map (\<lambda>x. if x = c then r else [x]) s)"

definition escape_quotes :: "string \<Rightarrow> string" where
  "escape_quotes v = replace_char quote [quote, bslash, quote, quote] v"

definition run_flags :: "string \<Rightarrow> string" where
  "run_flags container =
     ''sudo docker run -d --name '' @ container @ '' --restart=unless-stopped '' @
     ''--user 0:0 --cap-add=NET_ADMIN --sysctl '' @ [quote] @ ''net.ipv4.ping_group_range=0 2147483647'' @ [quote] @
     '' --ulimit nofile=65535:65535 --log-opt max-size=50m --log-opt max-file=3 '' @
     ''-v '' @ DATA_VOLUME @ '':/etc/leshiy''"

definition run_cmd ::
    "string \<Rightarrow> string \<Rightarrow> u16 \<Rightarrow> u16 option \<Rightarrow> string list \<Rightarrow> (string \<times> string) list \<Rightarrow> string" where
  "run_cmd container image_ref listen_port quic_port dns envs =
     run_flags container @ '' -p '' @ show_port listen_port @ '':'' @ show_port listen_port @
     concat (map (\<lambda>server. '' --dns '' @ server) dns) @
     (case quic_port of None \<Rightarrow> [] | Some q \<Rightarrow> '' -p '' @ show_port q @ '':'' @ show_port q @ ''/udp'') @
     concat (map (\<lambda>(k, v). '' -e '' @ k @ ''='' @ [quote] @ escape_quotes v @ [quote]) envs) @
     '' '' @ image_ref @ '' boot''"

definition ps_names_cmd :: string where
  "ps_names_cmd = ''sudo docker ps --format '' @ [quote] @ ''{{.Names}}'' @ [quote]"

definition container_rm_cmd :: "string \<Rightarrow> string" where
  "container_rm_cmd container = ''sudo docker rm -f '' @ container"

definition inspect_env_cmd :: "string \<Rightarrow> string" where
  "inspect_env_cmd container =
     ''sudo docker inspect '' @ container @ '' --format '' @ [quote] @ ''{{json .Config.Env}}'' @ [quote]"

definition inspect_dns_cmd :: "string \<Rightarrow> string" where
  "inspect_dns_cmd container =
     ''sudo docker inspect '' @ container @ '' --format '' @ [quote] @ ''{{json .HostConfig.Dns}}'' @ [quote]"

definition parse_json_string_list :: "(string \<Rightarrow> string list option) \<Rightarrow> string \<Rightarrow> string list" where
  "parse_json_string_list from_str stdout = (case from_str (str_trim stdout) of Some xs \<Rightarrow> xs | None \<Rightarrow> [])"

definition leshiy_envs :: "string list \<Rightarrow> (string \<times> string) list" where
  "leshiy_envs env = List.map_filter (split_once (CHR ''='')) (filter (\<lambda>e. strip_prefix ''LESHIY_'' e \<noteq> None) env)"

definition port_of :: "string \<Rightarrow> u16 option" where
  "port_of host_port = Option.bind (rsplit_once (CHR '':'') (str_trim host_port)) (\<lambda>(_, p). parse_u16 p)"

definition cat_persisted_config_cmd :: string where
  "cat_persisted_config_cmd =
     ''sudo sh -c '' @ [quote] @ ''d=$(docker volume inspect --format '' @ [dquote] @ ''{{.Mountpoint}}'' @ [dquote] @ '' '' @
     DATA_VOLUME @ '' 2>/dev/null); [ -n '' @ [dquote] @ ''$d'' @ [dquote] @ '' ] && cat '' @ [dquote] @
     ''$d/server.toml'' @ [dquote] @ '' 2>/dev/null; true'' @ [quote]"

text \<open>\<open>str::trim_matches\<close> of a character.\<close>

definition trim_matches :: "char \<Rightarrow> string \<Rightarrow> string" where
  "trim_matches c s = rev (dropWhile (\<lambda>x. x = c) (rev (dropWhile (\<lambda>x. x = c) s)))"

fun persisted_ports_loop :: "string list \<Rightarrow> u16 option \<times> u16 option \<Rightarrow> u16 option \<times> u16 option" where
  "persisted_ports_loop [] acc = acc"
| "persisted_ports_loop (l # ls) (listen, quic) =
     (let line = str_trim l in
      if take 1 line = ''['' then (listen, quic)
      else case split_once (CHR ''='') line of
          None \<Rightarrow> persisted_ports_loop ls (listen, quic)
        | Some (k, v) \<Rightarrow>
            let v = trim_matches dquote (str_trim v); k = str_trim k in
            if k = ''listen'' then persisted_ports_loop ls (port_of v, quic)
            else if k = ''quic_listen'' then persisted_ports_loop ls (listen, port_of v)
            else persisted_ports_loop ls (listen, quic))"

definition parse_persisted_ports :: "string \<Rightarrow> u16 option \<times> u16 option" where
  "parse_persisted_ports config_toml = persisted_ports_loop (str_lines config_toml) (None, None)"

definition with_port :: "string \<Rightarrow> u16 \<Rightarrow> string" where
  "with_port host_port port =
     (let h = str_trim host_port in
      case rsplit_once (CHR '':'') h of
        Some (head, _) \<Rightarrow> head @ '':'' @ show_port port
      | None \<Rightarrow> h @ '':'' @ show_port port)"

definition detect_host_dns_cmd :: string where
  "detect_host_dns_cmd =
     ''grep -h '' @ [quote] @ ''^nameserver'' @ [quote] @
     '' /etc/resolv.conf /run/systemd/resolve/resolv.conf 2>/dev/null | awk '' @ [quote] @ ''{print $2}'' @ [quote] @
     '' | grep -E '' @ [quote] @ ''^[0-9]+'' @ [bslash] @ ''.[0-9]+'' @ [bslash] @ ''.[0-9]+'' @ [bslash] @ ''.[0-9]+$'' @ [quote] @
     '' | grep -vE '' @ [quote] @ ''^127'' @ [bslash] @ ''.'' @ [quote] @ '' | head -n1''"

definition is_ascii_hexdigit :: "u8 \<Rightarrow> bool" where
  "is_ascii_hexdigit b \<longleftrightarrow> is_ascii_digit b \<or> (65 \<le> b \<and> b \<le> 70) \<or> (97 \<le> b \<and> b \<le> 102)"

definition valid_dns_addr :: "string \<Rightarrow> bool" where
  "valid_dns_addr s \<longleftrightarrow> s \<noteq> [] \<and> length s \<le> 45 \<and>
     list_all (\<lambda>b. is_ascii_hexdigit b \<or> b \<in> set (as_bytes ''.:'')) (as_bytes s)"

definition detect_ufw_active_cmd :: string where
  "detect_ufw_active_cmd =
     ''sudo sh -c '' @ [quote] @ ''command -v ufw >/dev/null 2>&1 && ufw status 2>/dev/null | grep -qi '' @
     [dquote] @ ''^Status: active'' @ [dquote] @ '' && echo active || echo inactive'' @ [quote]"

definition ufw_allow_cmd :: "u16 \<Rightarrow> u16 option \<Rightarrow> string" where
  "ufw_allow_cmd listen_port quic_port =
     ''sudo sh -c '' @ [quote] @ ''ufw allow '' @ show_port listen_port @ ''/tcp'' @
     (case quic_port of None \<Rightarrow> [] | Some q \<Rightarrow> '' && ufw allow '' @ show_port q @ ''/udp'') @ [quote]"

definition exec_user_add_cmd :: "string \<Rightarrow> string \<Rightarrow> string" where
  "exec_user_add_cmd container extra_args =
     ''sudo docker exec '' @ container @ '' leshiy user add --config /etc/leshiy/server.toml '' @ extra_args"

definition exec_user_list_json_cmd :: "string \<Rightarrow> string" where
  "exec_user_list_json_cmd container =
     ''sudo docker exec '' @ container @ '' leshiy user list --json --config /etc/leshiy/server.toml''"

definition exec_user_rm_cmd :: "string \<Rightarrow> string \<Rightarrow> string" where
  "exec_user_rm_cmd container short_id =
     ''sudo docker exec '' @ container @ '' leshiy user rm '' @ short_id @ '' --config /etc/leshiy/server.toml''"

definition exec_mtproxy_cmd :: "string \<Rightarrow> bool \<Rightarrow> string" where
  "exec_mtproxy_cmd container enable =
     ''sudo docker exec '' @ container @ '' leshiy mtproxy --config /etc/leshiy/server.toml'' @
     (if enable then '' --enable'' else [])"

definition restart_cmd :: "string \<Rightarrow> string" where
  "restart_cmd container = ''sudo docker restart '' @ container"

definition parse_ps_names :: "string \<Rightarrow> string list" where
  "parse_ps_names stdout = filter (\<lambda>l. l \<noteq> []) (map str_trim (str_lines stdout))"

definition valid_image_ref :: "string \<Rightarrow> bool" where
  "valid_image_ref s \<longleftrightarrow> s \<noteq> [] \<and>
     list_all (\<lambda>b. is_ascii_alphanumeric b \<or> b \<in> set (as_bytes ''._-/:@'')) (as_bytes s)"

section \<open>What a shell reads\<close>

definition pushed :: "string option \<Rightarrow> string \<Rightarrow> string option" where
  "pushed w x = Some ((case w of None \<Rightarrow> [] | Some y \<Rightarrow> y) @ x)"

text \<open>The word under construction is \<open>None\<close> between words; the flag says whether a quote is open.\<close>

function shell_lex :: "bool \<Rightarrow> string option \<Rightarrow> string \<Rightarrow> string list option" where
  "shell_lex True w [] = None"
| "shell_lex False w [] = Some (case w of None \<Rightarrow> [] | Some x \<Rightarrow> [x])"
| "shell_lex True w (c # s) = (if c = quote then shell_lex False w s else shell_lex True (pushed w [c]) s)"
| "shell_lex False w (c # s) =
     (if c = quote then shell_lex True (pushed w []) s
      else if c = bslash then
        (case s of [] \<Rightarrow> None | d # s' \<Rightarrow> if d = CHR 0x0A then None else shell_lex False (pushed w [d]) s')
      else if c = CHR '' '' then map_option (\<lambda>ws. (case w of None \<Rightarrow> [] | Some x \<Rightarrow> [x]) @ ws) (shell_lex False None s)
      else if plain_char c then shell_lex False (pushed w [c]) s
      else None)"
  by pat_completeness auto
termination
  by (relation "measure (\<lambda>(_, _, s). length s)") auto

definition shell_words :: "string \<Rightarrow> string list option" where
  "shell_words s = shell_lex False None s"

section \<open>Lemmas\<close>

lemma special_chars [simp]: "\<not> plain_char quote" "\<not> plain_char bslash" "\<not> plain_char CHR '' ''"
  by (simp_all add: plain_char_def is_ascii_alphanumeric_def is_ascii_digit_def is_ascii_alphabetic_def)

lemma pushed_simps [simp]: "pushed None x = Some x" "pushed (Some y) x = Some (y @ x)"
  by (simp_all add: pushed_def)

lemma append_fun': "(@) [x, y] = (\<lambda>s. x # y # s)"
  by (auto simp: fun_eq_iff)

lemma append_fun [simp]: "(@) [] = id" "(@) [x] = (#) x"
  by (auto simp: fun_eq_iff)

lemma lex_plain: "list_all plain_char x \<Longrightarrow> shell_lex False (Some y) (x @ s) = shell_lex False (Some (y @ x)) s"
proof (induction x arbitrary: y)
  case (Cons c x)
  then have "c \<noteq> quote" "c \<noteq> bslash" "c \<noteq> CHR '' ''" "plain_char c" by auto
  then show ?case using Cons by simp
qed simp

lemma lex_word: "plain_word x \<Longrightarrow> shell_lex False None (x @ s) = shell_lex False (Some x) s"
proof (cases x)
  case (Cons c x')
  assume "plain_word x"
  then have "c \<noteq> quote" "c \<noteq> bslash" "c \<noteq> CHR '' ''" "plain_char c" "list_all plain_char x'"
    by (auto simp: plain_word_def Cons)
  then show ?thesis by (simp add: Cons lex_plain)
qed (simp add: plain_word_def)

lemma lex_word_end [simp]: "plain_word x \<Longrightarrow> shell_lex False None x = Some [x]"
  using lex_word [of x "[]"] by simp

lemma lex_word_space [simp]:
  "plain_word x \<Longrightarrow> shell_lex False None (x @ CHR '' '' # s) = map_option ((#) x) (shell_lex False None s)"
  by (simp add: lex_word)

lemma lex_quoted: "shell_lex True (Some y) (escape_quotes v @ quote # s) = shell_lex False (Some (y @ v)) s"
proof (induction v arbitrary: y)
  case (Cons c v)
  show ?case
    by (cases "c = quote") (use Cons in \<open>simp_all add: escape_quotes_def replace_char_def\<close>)
qed (simp add: escape_quotes_def replace_char_def)

text \<open>A text that begins with a blank and adds words to a command.\<close>

definition segment :: "string \<Rightarrow> string list \<Rightarrow> bool" where
  "segment t ws \<longleftrightarrow> (\<forall>w s. shell_lex False (Some w) (t @ s) =
     map_option ((@) (butlast (w # ws))) (shell_lex False (Some (last (w # ws))) s))"

lemma segment_Nil [simp]: "segment [] []"
  by (simp add: segment_def option.map_id)

lemma segment_append:
  assumes "segment t ws" and "segment u vs"
  shows "segment (t @ u) (ws @ vs)"
proof -
  have "map_option ((@) (butlast (w # ws))) (map_option ((@) (butlast (last (w # ws) # vs))) x) =
      map_option ((@) (butlast (w # ws @ vs))) x" for w x
  proof -
    have "butlast (w # ws) @ butlast (last (w # ws) # vs) = butlast (w # ws @ vs)"
      by (cases vs) (auto simp: butlast_append)
    then show ?thesis
      by (simp add: option.map_comp comp_def append.assoc [symmetric] del: append.assoc)
  qed
  moreover have "last (last (w # ws) # vs) = last (w # ws @ vs)" for w
    by auto
  ultimately show ?thesis
    using assms by (simp add: segment_def)
qed

lemma segment_concat: "(\<And>x. x \<in> set xs \<Longrightarrow> segment (f x) (g x)) \<Longrightarrow> segment (concat (map f xs)) (concat (map g xs))"
  by (induction xs) (auto intro: segment_append)

lemma segment_word: "plain_word x \<Longrightarrow> segment (CHR '' '' # x) [x]"
  by (simp add: segment_def lex_word option.map_comp comp_def)

lemma words_segment: "segment t ws \<Longrightarrow> shell_lex False (Some w) t = Some (w # ws)"
  unfolding segment_def by (metis append.right_neutral append_butlast_last_id list.distinct(1) option.case(2) option.simps(9) shell_lex.simps(2))

lemma segment_env:
  assumes "plain_word k"
  shows "segment ('' -e '' @ k @ ''='' @ [quote] @ escape_quotes v @ [quote]) [''-e'', k @ ''='' @ v]"
proof -
  have "shell_lex False None (k @ CHR ''='' # quote # escape_quotes v @ quote # s) = shell_lex False (Some (k @ ''='' @ v)) s" for s
    using assms by (simp add: lex_word lex_quoted)
  then show ?thesis
    by (simp add: segment_def option.map_comp comp_def append_fun')
qed

lemma plain_valid_image: "valid_image_ref s \<Longrightarrow> plain_word s"
  unfolding valid_image_ref_def plain_word_def list_all_iff
  by (auto simp: as_bytes_def [of s] byte_of_char plain_char_def simp del: set_simps) auto

lemma plain_valid_dns: "valid_dns_addr s \<Longrightarrow> plain_word s"
proof -
  assume v: "valid_dns_addr s"
  have hex: "is_ascii_alphanumeric b" if "is_ascii_hexdigit b" for b
    using that by (auto simp: is_ascii_alphanumeric_def is_ascii_hexdigit_def is_ascii_alphabetic_def
        intro: order_trans [of b])
  have "plain_char c" if "c \<in> set s" for c
  proof (cases "is_ascii_hexdigit (of_nat (of_char c))")
    case False
    then have "c \<in> set ''.:''"
      using v that byte_of_char [of c "''.:''"] by (auto simp: valid_dns_addr_def list_all_iff as_bytes_def [of s])
    then show ?thesis by auto
  qed (simp add: hex plain_char_def)
  then show ?thesis
    using v by (auto simp: plain_word_def valid_dns_addr_def list_all_iff)
qed

lemma show_port_plain: "plain_word (show_port p)"
proof -
  have "plain_char c" if "is_digit c" for c
  proof -
    have "of_char c < (256 :: nat)" by simp
    then have "unat (of_nat (of_char c) :: u8) = of_char c"
      by (simp add: unat_of_nat)
    then show ?thesis
      using that by (auto simp: plain_char_def is_ascii_alphanumeric_def is_ascii_digit_def is_digit_def word_le_nat_alt)
  qed
  then show ?thesis
    using port_text(2,3) [of "unat p"] by (auto simp: plain_word_def show_port_def list_all_iff)
qed

text \<open>The words of each command.\<close>

definition run_words ::
    "string \<Rightarrow> string \<Rightarrow> u16 \<Rightarrow> u16 option \<Rightarrow> string list \<Rightarrow> (string \<times> string) list \<Rightarrow> string list" where
  "run_words container image_ref listen_port quic_port dns envs =
     [''sudo'', ''docker'', ''run'', ''-d'', ''--name'', container, ''--restart=unless-stopped'', ''--user'', ''0:0'',
      ''--cap-add=NET_ADMIN'', ''--sysctl'', ''net.ipv4.ping_group_range=0 2147483647'',
      ''--ulimit'', ''nofile=65535:65535'', ''--log-opt'', ''max-size=50m'', ''--log-opt'', ''max-file=3'',
      ''-v'', ''leshiy-data:/etc/leshiy'', ''-p'', show_port listen_port @ '':'' @ show_port listen_port] @
     concat (map (\<lambda>d. [''--dns'', d]) dns) @
     (case quic_port of None \<Rightarrow> [] | Some q \<Rightarrow> [''-p'', show_port q @ '':'' @ show_port q @ ''/udp'']) @
     concat (map (\<lambda>(k, v). [''-e'', k @ ''='' @ v]) envs) @ [image_ref, ''boot'']"

lemma segment_words: "list_all plain_word ws \<Longrightarrow> segment (concat (map ((#) CHR '' '') ws)) ws"
  using segment_concat [of ws "(#) CHR '' ''" "\<lambda>w. [w]"] segment_word by (simp add: list_all_iff)

lemma segment_quoted: "segment (CHR '' '' # quote # escape_quotes v @ [quote]) [v]"
proof -
  have "shell_lex True (Some []) (escape_quotes v @ quote # s) = shell_lex False (Some v) s" for s
    using lex_quoted [of "[]"] by simp
  then show ?thesis by (simp add: segment_def option.map_comp comp_def)
qed

lemma lex_command:
  assumes "plain_word w" and "segment t ws"
  shows "shell_words (w @ t) = Some (w # ws)"
  using assms by (simp add: shell_words_def lex_word words_segment)

lemma run_flags_text:
  "run_flags c = ''sudo'' @ concat (map ((#) CHR '' '') [''docker'', ''run'', ''-d'', ''--name'', c, ''--restart=unless-stopped'',
     ''--user'', ''0:0'', ''--cap-add=NET_ADMIN'', ''--sysctl'']) @
   (CHR '' '' # quote # escape_quotes ''net.ipv4.ping_group_range=0 2147483647'' @ [quote]) @
   concat (map ((#) CHR '' '') [''--ulimit'', ''nofile=65535:65535'', ''--log-opt'', ''max-size=50m'', ''--log-opt'',
     ''max-file=3'', ''-v'', ''leshiy-data:/etc/leshiy''])"
  by (simp add: run_flags_def DATA_VOLUME_def escape_quotes_def replace_char_def)

lemma run_cmd_words:
  assumes "plain_word container" and "plain_word image_ref" and "list_all plain_word dns"
    and "list_all (\<lambda>(k, v). plain_word k) envs"
  shows "shell_words (run_cmd container image_ref listen_port quic_port dns envs) =
    Some (run_words container image_ref listen_port quic_port dns envs)"
proof -
  let ?port = "\<lambda>p s. show_port p @ '':'' @ show_port p @ s"
  have port: "plain_word (?port p s)" if "list_all plain_char s" for p s
    using show_port_plain [of p] that by (simp add: plain_word_def)
  have publish: "segment (concat (map ((#) CHR '' '') [''-p'', ?port p s])) [''-p'', ?port p s]" if "list_all plain_char s" for p s
    by (rule segment_words) (use port [OF that, of p] in \<open>simp add: plain_literal\<close>)
  have d: "segment (concat (map (\<lambda>d. '' --dns '' @ d) dns)) (concat (map (\<lambda>d. [''--dns'', d]) dns))"
  proof (rule segment_concat)
    fix x assume "x \<in> set dns"
    then have "plain_word x" using assms(3) by (simp add: list_all_iff)
    then show "segment ('' --dns '' @ x) [''--dns'', x]"
      using segment_words [of "[''--dns'', x]"] by (simp add: plain_literal)
  qed
  have e: "segment (concat (map (\<lambda>(k, v). '' -e '' @ k @ ''='' @ [quote] @ escape_quotes v @ [quote]) envs))
      (concat (map (\<lambda>(k, v). [''-e'', k @ ''='' @ v]) envs))"
  proof (rule segment_concat, clarify)
    fix k v assume "(k, v) \<in> set envs"
    then have "plain_word k" using assms(4) by (auto simp: list_all_iff)
    then show "segment ('' -e '' @ k @ ''='' @ [quote] @ escape_quotes v @ [quote]) [''-e'', k @ ''='' @ v]"
      by (rule segment_env)
  qed
  have q: "segment (case quic_port of None \<Rightarrow> [] | Some q \<Rightarrow> '' -p '' @ ?port q ''/udp'')
      (case quic_port of None \<Rightarrow> [] | Some q \<Rightarrow> [''-p'', ?port q ''/udp''])"
    using publish [of "''/udp''"] by (cases quic_port) simp_all
  have i: "segment (concat (map ((#) CHR '' '') [image_ref, ''boot''])) [image_ref, ''boot'']"
    by (rule segment_words) (simp add: assms plain_literal)
  have f1: "segment (concat (map ((#) CHR '' '') [''docker'', ''run'', ''-d'', ''--name'', container, ''--restart=unless-stopped'',
     ''--user'', ''0:0'', ''--cap-add=NET_ADMIN'', ''--sysctl''])) [''docker'', ''run'', ''-d'', ''--name'', container, ''--restart=unless-stopped'',
     ''--user'', ''0:0'', ''--cap-add=NET_ADMIN'', ''--sysctl'']"
    by (rule segment_words) (simp add: assms plain_literal)
  have f2: "segment (concat (map ((#) CHR '' '') [''--ulimit'', ''nofile=65535:65535'', ''--log-opt'', ''max-size=50m'', ''--log-opt'',
     ''max-file=3'', ''-v'', ''leshiy-data:/etc/leshiy''])) [''--ulimit'', ''nofile=65535:65535'', ''--log-opt'', ''max-size=50m'', ''--log-opt'',
     ''max-file=3'', ''-v'', ''leshiy-data:/etc/leshiy'']"
    by (rule segment_words) (simp add: plain_literal)
  note all = segment_append [OF f1 segment_append [OF segment_quoted segment_append [OF f2 segment_append [OF publish [of "[]" listen_port]
    segment_append [OF d segment_append [OF q segment_append [OF e i]]]]]]]
  have "plain_word ''sudo''" by (simp add: plain_literal)
  from lex_command [OF this all] show ?thesis
    by (simp add: run_cmd_def run_flags_text run_words_def)
qed

text \<open>The port written into an advertised host is the port read from it.\<close>

lemma port_of_with_port: "port_of (with_port h p) = Some p"
proof -
  obtain a where a: "with_port h p = a @ '':'' @ show_port p" "space_len white_space a = 0"
  proof (cases "rsplit_once (CHR '':'') (str_trim h)")
    case None
    then show ?thesis using that [of "str_trim h"] by (simp add: with_port_def Let_def trim_starts)
  next
    case (Some x)
    then obtain hd r where x: "rsplit_once (CHR '':'') (str_trim h) = Some (hd, r)" by (cases x) auto
    then have "str_trim h = hd @ CHR '':'' # r"
      by (rule rsplit_onceD)
    then have "space_len white_space hd = 0"
      using space_prefix [OF white_space_words(1), of hd "CHR '':'' # r"] trim_starts [of h] by simp
    then show ?thesis using that [of hd] x by (simp add: with_port_def Let_def)
  qed
  have "str_trim (a @ '':'' @ show_port p) = a @ '':'' @ show_port p"
    by (rule trim_plain_ends) (use a(2) show_port_plain [of p] in \<open>auto simp: plain_word_def\<close>)
  moreover have "rsplit_once (CHR '':'') (a @ '':'' @ show_port p) = Some (a, show_port p)"
    unfolding show_port_def by (rule rsplit_port) (rule port_text(1))
  ultimately show ?thesis
    by (simp add: port_of_def a(1) show_port_def parse_u16_show)
qed

end
