(* ===== verification/Provision.thy ===== *)
theory Provision
  imports Docker Vault
begin

text \<open>
  Remote provisioning, \<open>crates/leshiy-provision/src/engine.rs\<close>: turning a host reached over SSH into a running
  server, adding and removing its users, upgrading it with a way back, and tearing it down.

  The engine talks to the \<open>Transport\<close> trait of \<open>ssh.rs\<close>; a transport is the record \<open>ssh_transport\<close> of its two
  operations over the state of whatever is behind it, and the engine's own state keeps the commands it has sent with
  their results. Messages of \<open>Error::Parse\<close> are constructors, progress events carry no text. Sleeps between
  attempts are left out. The random suffix of a recovery container's name and serde's JSON readers are arguments.
\<close>

section \<open>Definitions\<close>

datatype step = Connect_Step | Preflight | DockerReady | Firewall | DetectExisting | PullImage | RunContainer | IssueUser | Persist

datatype status = Started | Done | Failed

type_synonym progress_event = "step \<times> status"

datatype prov_error =
    ESsh string
  | ECommand int string
  | EVault string
  | EHostKeyMismatch string string string
  | EParse prov_parse
  | EIo
and prov_parse =
    NotALeshiyUri | NoAtSign | NoPubkey | NoSid
  | InvalidImageRef string | InvalidContainer string | InvalidSavedContainer
  | NoQuicEndpoint string | NoUpgradable string | NoListenPort string
  | InvalidShortId string | NoUserListJson | UserListJson string | NoProxyLink
  | UpgradeFailed prov_error prov_error string

record ssh_target =
  st_host :: string
  st_port :: u16
  st_user :: string

record command_output =
  co_code :: int
  co_stdout :: string
  co_stderr :: string

definition out_ok :: "command_output \<Rightarrow> prov_error + command_output" where
  "out_ok o' = (if co_code o' = 0 then Ok o' else Err (ECommand (co_code o') (co_stderr o')))"

record 'h ssh_transport =
  tr_connect :: "ssh_target \<Rightarrow> ssh_secret \<Rightarrow> 'h \<Rightarrow> (prov_error + string) \<times> 'h"
  tr_run :: "string \<Rightarrow> 'h \<Rightarrow> (prov_error + command_output) \<times> 'h"

record 'h prov =
  pv_host :: 'h
  pv_calls :: "(string \<times> (prov_error + command_output)) list"
  pv_events :: "progress_event list"
  pv_current :: step

text \<open>The \<open>?\<close> operator over the engine's state.\<close>

definition pbind :: "('s \<Rightarrow> (prov_error + 'a) \<times> 's) \<Rightarrow> ('a \<Rightarrow> 's \<Rightarrow> (prov_error + 'b) \<times> 's) \<Rightarrow> 's \<Rightarrow> (prov_error + 'b) \<times> 's" where
  "pbind m f s = (case m s of (Inl e, s') \<Rightarrow> (Inl e, s') | (Inr x, s') \<Rightarrow> f x s')"

definition plift :: "prov_error + 'a \<Rightarrow> 's \<Rightarrow> (prov_error + 'a) \<times> 's" where
  "plift r s = (r, s)"

definition pthen :: "('s \<Rightarrow> 's) \<Rightarrow> ('s \<Rightarrow> (prov_error + 'b) \<times> 's) \<Rightarrow> 's \<Rightarrow> (prov_error + 'b) \<times> 's" where
  "pthen u m s = m (u s)"

definition emit :: "step \<Rightarrow> status \<Rightarrow> 'h prov \<Rightarrow> 'h prov" where
  "emit st x s = s\<lparr>pv_events := pv_events s @ [(st, x)]\<rparr>"

definition enter :: "step \<Rightarrow> 'h prov \<Rightarrow> 'h prov" where
  "enter st s = emit st Started (s\<lparr>pv_current := st\<rparr>)"

definition t_run :: "'h ssh_transport \<Rightarrow> string \<Rightarrow> 'h prov \<Rightarrow> (prov_error + command_output) \<times> 'h prov" where
  "t_run t cmd s =
     (let (r, h) = tr_run t cmd (pv_host s) in (r, s\<lparr>pv_host := h, pv_calls := pv_calls s @ [(cmd, r)]\<rparr>))"

definition t_ok :: "'h ssh_transport \<Rightarrow> string \<Rightarrow> 'h prov \<Rightarrow> (prov_error + command_output) \<times> 'h prov" where
  "t_ok t cmd = pbind (t_run t cmd) (\<lambda>out. plift (out_ok out))"

text \<open>The output of a command whose failure is ignored (\<open>unwrap_or_default\<close>).\<close>

definition t_output :: "'h ssh_transport \<Rightarrow> string \<Rightarrow> ('h prov) \<Rightarrow> (prov_error + string) \<times> 'h prov" where
  "t_output t cmd s = (case t_run t cmd s of (Inl e, s') \<Rightarrow> (Ok [], s') | (Inr out, s') \<Rightarrow> (Ok (co_stdout out), s'))"

datatype provision_role = Single | Exit | Middle | Entry

fun role_str :: "provision_role \<Rightarrow> string" where
  "role_str Single = ''single''"
| "role_str Exit = ''exit''"
| "role_str Middle = ''middle''"
| "role_str Entry = ''entry''"

definition exposes_connector :: "provision_role \<Rightarrow> bool" where
  "exposes_connector r \<longleftrightarrow> r \<in> {Exit, Middle}"

record provision_params =
  pp_id :: string
  pp_label :: string
  pp_target :: ssh_target
  pp_secret :: ssh_secret
  pp_public_host :: string
  pp_dest_sni :: string
  pp_image_ref :: string
  pp_container :: string
  pp_quic_port :: "u16 option"
  pp_listen_port :: u16
  pp_user_label :: string
  pp_now :: u64
  pp_role :: provision_role
  pp_connector :: "string option"
  pp_downstream :: "string option"
  pp_sudo :: bool
  pp_dns_override :: "string option"
  pp_mtproxy :: bool

subsection \<open>Issued URIs\<close>

text \<open>\<open>str::contains\<close>, and the text after the first occurrence of a pattern up to the next one: \<open>split(pat).nth(1)\<close>.\<close>

fun after_first :: "string \<Rightarrow> string \<Rightarrow> string option" where
  "after_first pat [] = (if pat = [] then Some [] else None)"
| "after_first pat (c # s) =
     (case strip_prefix pat (c # s) of Some r \<Rightarrow> Some r | None \<Rightarrow> after_first pat s)"

definition str_contains :: "string \<Rightarrow> string \<Rightarrow> bool" where
  "str_contains pat s \<longleftrightarrow> after_first pat s \<noteq> None"

fun before_first :: "string \<Rightarrow> string \<Rightarrow> string" where
  "before_first pat [] = []"
| "before_first pat (c # s) =
     (case strip_prefix pat (c # s) of Some _ \<Rightarrow> [] | None \<Rightarrow> c # before_first pat s)"

definition field_end :: "char \<Rightarrow> bool" where
  "field_end c \<longleftrightarrow> c \<in> {CHR ''&'', CHR '' '', CHR 0x0A}"

definition uri_field :: "string \<Rightarrow> string \<Rightarrow> string option" where
  "uri_field uri pat =
     (case after_first pat uri of
        None \<Rightarrow> None
      | Some r \<Rightarrow> let v = takeWhile (\<lambda>c. \<not> field_end c) (before_first pat r) in if v = [] then None else Some v)"

definition parse_uri_fields :: "string \<Rightarrow> prov_error + (string \<times> string)" where
  "parse_uri_fields uri =
     try_bind (ok_or (strip_prefix ''leshiy://'' uri) (EParse NotALeshiyUri)) (\<lambda>rest.
     try_bind (ok_or (split_once (CHR ''@'') rest) (EParse NoAtSign)) (\<lambda>(pub_b64, _).
     if pub_b64 = [] then Err (EParse NoPubkey) else
     try_bind (ok_or (uri_field uri ''sid='') (EParse NoSid)) (\<lambda>sid.
     Ok (sid, pub_b64))))"

definition parse_quic_fields :: "string \<Rightarrow> quic_info option" where
  "parse_quic_fields uri =
     Option.bind (uri_field uri ''quic='') (\<lambda>addr.
     Option.bind (uri_field uri ''qsni='') (\<lambda>sni.
     Some (quic_info.make addr sni (uri_field uri ''qcert=''))))"

definition first_line :: "string \<Rightarrow> string" where
  "first_line s = (case str_lines (str_trim s) of [] \<Rightarrow> [] | l # _ \<Rightarrow> l)"

subsection \<open>Commands that are tried again\<close>

definition USER_ADD_ATTEMPTS :: nat where "USER_ADD_ATTEMPTS = 15"
definition RUN_ATTEMPTS :: nat where "RUN_ATTEMPTS = 5"

definition is_control_socket_unready :: "string \<Rightarrow> bool" where
  "is_control_socket_unready stderr \<longleftrightarrow>
     str_contains ''control socket'' stderr \<or> str_contains ''is the server running'' stderr"

definition is_port_bind_race :: "string \<Rightarrow> bool" where
  "is_port_bind_race stderr \<longleftrightarrow> str_contains ''address already in use'' stderr"

definition transient :: "(string \<Rightarrow> bool) \<Rightarrow> prov_error \<Rightarrow> bool" where
  "transient p e = (case e of ECommand _ stderr \<Rightarrow> p stderr | _ \<Rightarrow> False)"

text \<open>One attempt of each loop; \<open>again\<close> is what follows a failure that passes. The loops count the attempts left after this one.\<close>

definition run_attempt ::
    "'h ssh_transport \<Rightarrow> string \<Rightarrow> string \<Rightarrow> (prov_error \<Rightarrow> 'h prov \<Rightarrow> (prov_error + unit) \<times> 'h prov) \<Rightarrow>
     'h prov \<Rightarrow> (prov_error + unit) \<times> 'h prov" where
  "run_attempt t container cmd again s =
     pbind (t_run t cmd) (\<lambda>out.
       case out_ok out of
         Inr _ \<Rightarrow> plift (Ok ())
       | Inl e \<Rightarrow> if transient is_port_bind_race e then again e else plift (Err e))
     (snd (t_run t (container_rm_cmd container) s))"

primrec run_loop :: "'h ssh_transport \<Rightarrow> string \<Rightarrow> string \<Rightarrow> nat \<Rightarrow> 'h prov \<Rightarrow> (prov_error + unit) \<times> 'h prov" where
  "run_loop t container cmd 0 = run_attempt t container cmd (\<lambda>last_err. plift (Err last_err))"
| "run_loop t container cmd (Suc n) = run_attempt t container cmd (\<lambda>_. run_loop t container cmd n)"

definition run_container :: "'h ssh_transport \<Rightarrow> string \<Rightarrow> string \<Rightarrow> 'h prov \<Rightarrow> (prov_error + unit) \<times> 'h prov" where
  "run_container t container cmd = run_loop t container cmd (RUN_ATTEMPTS - 1)"

definition user_add_attempt ::
    "'h ssh_transport \<Rightarrow> string \<Rightarrow> (prov_error \<Rightarrow> 'h prov \<Rightarrow> (prov_error + string) \<times> 'h prov) \<Rightarrow>
     'h prov \<Rightarrow> (prov_error + string) \<times> 'h prov" where
  "user_add_attempt t cmd again =
     pbind (t_run t cmd) (\<lambda>out.
       case out_ok out of
         Inr out \<Rightarrow> plift (Ok (co_stdout out))
       | Inl e \<Rightarrow> if transient is_control_socket_unready e then again e else plift (Err e))"

primrec user_add_loop :: "'h ssh_transport \<Rightarrow> string \<Rightarrow> nat \<Rightarrow> 'h prov \<Rightarrow> (prov_error + string) \<times> 'h prov" where
  "user_add_loop t cmd 0 = user_add_attempt t cmd (\<lambda>last_err. plift (Err last_err))"
| "user_add_loop t cmd (Suc n) = user_add_attempt t cmd (\<lambda>_. user_add_loop t cmd n)"

definition exec_user_add :: "'h ssh_transport \<Rightarrow> string \<Rightarrow> 'h prov \<Rightarrow> (prov_error + string) \<times> 'h prov" where
  "exec_user_add t container = user_add_loop t (exec_user_add_cmd container []) (USER_ADD_ATTEMPTS - 1)"

definition ready_attempt ::
    "'h ssh_transport \<Rightarrow> string \<Rightarrow> (command_output \<Rightarrow> 'h prov \<Rightarrow> (prov_error + unit) \<times> 'h prov) \<Rightarrow>
     'h prov \<Rightarrow> (prov_error + unit) \<times> 'h prov" where
  "ready_attempt t container again =
     pbind (t_run t (exec_user_list_json_cmd container)) (\<lambda>out.
       if co_code out = 0 then plift (Ok ())
       else if \<not> is_control_socket_unready (co_stderr out) then plift (try_bind (out_ok out) (\<lambda>_. Ok ()))
       else again out)"

primrec ready_loop :: "'h ssh_transport \<Rightarrow> string \<Rightarrow> nat \<Rightarrow> 'h prov \<Rightarrow> (prov_error + unit) \<times> 'h prov" where
  "ready_loop t container 0 = ready_attempt t container (\<lambda>out. plift (try_bind (out_ok out) (\<lambda>_. Ok ())))"
| "ready_loop t container (Suc n) = ready_attempt t container (\<lambda>_. ready_loop t container n)"

definition wait_ready :: "'h ssh_transport \<Rightarrow> string \<Rightarrow> 'h prov \<Rightarrow> (prov_error + unit) \<times> 'h prov" where
  "wait_ready t container = ready_loop t container (USER_ADD_ATTEMPTS - 1)"

subsection \<open>Provisioning\<close>

definition detect_host_dns :: "'h ssh_transport \<Rightarrow> 'h prov \<Rightarrow> string option \<times> 'h prov" where
  "detect_host_dns t s =
     (case t_run t detect_host_dns_cmd s of
        (Inl _, s1) \<Rightarrow> (None, s1)
      | (Inr out, s1) \<Rightarrow>
          let candidate = str_trim (co_stdout out) in
          (if valid_dns_addr candidate then Some candidate else None, s1))"

definition dns_servers :: "string option \<Rightarrow> string option \<Rightarrow> string list" where
  "dns_servers host_ipv4 override_dns =
     (if pred_option (\<lambda>o'. \<not> valid_dns_addr o') override_dns
      then (case host_ipv4 of None \<Rightarrow> [] | Some h \<Rightarrow> [h]) @ DNS_PUBLIC_FALLBACK
      else [the override_dns])"

datatype firewall_outcome = CheckSkipped prov_error | UfwInactive | UfwOpened | UfwFailed int string | UfwLost prov_error

definition firewall_step :: "'h ssh_transport \<Rightarrow> u16 \<Rightarrow> u16 option \<Rightarrow> 'h prov \<Rightarrow> firewall_outcome \<times> 'h prov" where
  "firewall_step t listen_port quic_port s =
     (case t_run t detect_ufw_active_cmd s of
        (Inl e, s1) \<Rightarrow> (CheckSkipped e, s1)
      | (Inr out, s1) \<Rightarrow>
          if str_trim (co_stdout out) \<noteq> ''active'' then (UfwInactive, s1)
          else (case t_run t (ufw_allow_cmd listen_port quic_port) s1 of
                  (Inl e, s2) \<Rightarrow> (UfwLost e, s2)
                | (Inr out, s2) \<Rightarrow>
                    (if co_code out = 0 then UfwOpened else UfwFailed (co_code out) (str_trim (co_stderr out)), s2)))"

text \<open>The ports of a configuration that survives on the data volume win over the requested ones.\<close>

definition reconcile_ports :: "string \<Rightarrow> u16 \<Rightarrow> u16 option \<Rightarrow> u16 \<times> u16 option" where
  "reconcile_ports persisted listen quic =
     (case parse_persisted_ports persisted of
        (Some l, q) \<Rightarrow> (l, q)
      | (None, _) \<Rightarrow> (listen, quic))"

definition provision_envs :: "provision_params \<Rightarrow> bool \<Rightarrow> string \<Rightarrow> u16 \<Rightarrow> u16 option \<Rightarrow> (string \<times> string) list" where
  "provision_envs p host_has_ipv6 public_host listen_port quic_port =
     (let listen_host = (if host_has_ipv6 then ''[::]'' else ''0.0.0.0'') in
      [(''LESHIY_HOST'', public_host), (''LESHIY_DEST'', pp_dest_sni p),
       (''LESHIY_LISTEN'', listen_host @ '':'' @ show_port listen_port)] @
      (case quic_port of None \<Rightarrow> [] | Some q \<Rightarrow> [(''LESHIY_QUIC_LISTEN'', listen_host @ '':'' @ show_port q)]) @
      (case pp_connector p of None \<Rightarrow> [] | Some c \<Rightarrow> [(''LESHIY_CONNECTOR'', c)]) @
      (if pp_mtproxy p then [(''LESHIY_MTPROXY'', ''1'')] else []))"

definition docker_ready :: "'h ssh_transport \<Rightarrow> 'h prov \<Rightarrow> (prov_error + unit) \<times> 'h prov" where
  "docker_ready t =
     pthen (enter Preflight) (
     pbind (t_run t detect_docker_cmd) (\<lambda>out.
     let has_docker = (str_trim (co_stdout out) = ''yes'') in
     pthen (emit Preflight Done) (
     pthen (enter DockerReady) (
     if has_docker then plift (Ok ())
     else pbind (t_ok t install_docker_cmd) (\<lambda>_. plift (Ok ()))))))"

definition host_ipv6 :: "'h ssh_transport \<Rightarrow> 'h prov \<Rightarrow> bool \<times> 'h prov" where
  "host_ipv6 t s =
     (case t_run t detect_host_ipv6_cmd s of
        (Inl _, s1) \<Rightarrow> (False, s1)
      | (Inr out, s1) \<Rightarrow> (str_trim (co_stdout out) = ''yes'', s1))"

definition start_server ::
    "'h ssh_transport \<Rightarrow> provision_params \<Rightarrow> string \<Rightarrow> u16 \<Rightarrow> u16 option \<Rightarrow> string option \<Rightarrow> bool \<Rightarrow> 'h prov \<Rightarrow>
     (prov_error + unit) \<times> 'h prov" where
  "start_server t p public_host listen_port quic_port host_dns host_has_ipv6 =
     (let dns = dns_servers host_dns (pp_dns_override p);
          envs = provision_envs p host_has_ipv6 public_host listen_port quic_port in
      pbind (run_container t (pp_container p) (run_cmd (pp_container p) (pp_image_ref p) listen_port quic_port dns envs)) (\<lambda>_.
      pthen (emit RunContainer Done) (plift (Ok ()))))"

definition run_server ::
    "'h ssh_transport \<Rightarrow> provision_params \<Rightarrow> string \<Rightarrow> u16 \<Rightarrow> u16 option \<Rightarrow> 'h prov \<Rightarrow> (prov_error + unit) \<times> 'h prov" where
  "run_server t p public_host listen_port quic_port =
     pthen (enter PullImage) (
     pbind (t_ok t (pull_cmd (pp_image_ref p))) (\<lambda>_.
     pthen (emit PullImage Done) (
     pthen (enter RunContainer) (\<lambda>s.
     let (host_dns, s1) = detect_host_dns t s;
         (host_has_ipv6, s2) = host_ipv6 t s1 in
     start_server t p public_host listen_port quic_port host_dns host_has_ipv6 s2))))"

definition issue_user :: "'h ssh_transport \<Rightarrow> provision_params \<Rightarrow> 'h prov \<Rightarrow> (prov_error + (string \<times> string \<times> string)) \<times> 'h prov" where
  "issue_user t p =
     pthen (enter IssueUser) (
     pbind (exec_user_add t (pp_container p)) (\<lambda>add.
     let uri = first_line add in
     pbind (plift (parse_uri_fields uri)) (\<lambda>(short_id, pub).
     pthen (emit IssueUser Done) (plift (Ok (uri, short_id, pub))))))"

definition build_record :: "provision_params \<Rightarrow> string \<Rightarrow> string \<Rightarrow> string \<Rightarrow> string \<Rightarrow> string \<Rightarrow> prov_error + server_record" where
  "build_record p host_key_fp public_host uri short_id pub =
     (if exposes_connector (pp_role p) \<and> parse_quic_fields uri = None then Err (EParse (NoQuicEndpoint (role_str (pp_role p))))
      else Ok \<lparr>sr_id = pp_id p, sr_label = pp_label p, sr_host = st_host (pp_target p), sr_port = st_port (pp_target p),
               sr_ssh_user = st_user (pp_target p), sr_ssh_secret = pp_secret p, sr_host_key_fp = host_key_fp,
               sr_public_host = public_host, sr_image_ref = pp_image_ref p, sr_container = pp_container p,
               sr_reality_public_b64 = pub, sr_quic = parse_quic_fields uri,
               sr_clients = [\<lparr>cl_short_id = short_id, cl_label = pp_user_label p, cl_uri = uri\<rparr>],
               sr_created_at = pp_now p, sr_role = role_str (pp_role p),
               sr_connector_uri = (if exposes_connector (pp_role p) then Some uri else None),
               sr_downstream = pp_downstream p, sr_sudo = pp_sudo p\<rparr>)"

definition provision_inner :: "'h ssh_transport \<Rightarrow> provision_params \<Rightarrow> 'h prov \<Rightarrow> (prov_error + server_record) \<times> 'h prov" where
  "provision_inner t p s =
     (if \<not> valid_image_ref (pp_image_ref p) then (Err (EParse (InvalidImageRef (pp_image_ref p))), s)
      else if \<not> valid_image_ref (pp_container p) then (Err (EParse (InvalidContainer (pp_container p))), s)
      else
        pthen (enter Connect_Step) (
        pbind (\<lambda>s. let (r, h) = tr_connect t (pp_target p) (pp_secret p) (pv_host s) in (r, s\<lparr>pv_host := h\<rparr>)) (\<lambda>fp.
        pthen (emit Connect_Step Done) (
        pbind (docker_ready t) (\<lambda>_.
        pbind (t_output t cat_persisted_config_cmd) (\<lambda>persisted.
        let (listen_port, quic_port) = reconcile_ports persisted (pp_listen_port p) (pp_quic_port p);
            public_host = with_port (pp_public_host p) listen_port in
        pthen (\<lambda>s. emit Firewall Done (snd (firewall_step t listen_port quic_port (enter Firewall (emit DockerReady Done s))))) (
        pthen (enter DetectExisting) (
        pbind (t_run t ps_names_cmd) (\<lambda>out.
        let running_exists = (pp_container p \<in> set (parse_ps_names (co_stdout out))) in
        pthen (emit DetectExisting Done) (
        pbind (if running_exists then pthen (emit PullImage Done) (plift (Ok ()))
               else run_server t p public_host listen_port quic_port) (\<lambda>_.
        pbind (issue_user t p) (\<lambda>(uri, short_id, pub).
        pthen (\<lambda>s. s\<lparr>pv_current := Persist\<rparr>) (
        pbind (plift (build_record p fp public_host uri short_id pub)) (\<lambda>rec.
        pthen (emit Persist Done) (plift (Ok rec))))))))))))))) s)"

definition provision :: "'h ssh_transport \<Rightarrow> provision_params \<Rightarrow> 'h prov \<Rightarrow> (prov_error + server_record) \<times> 'h prov" where
  "provision t p s =
     (case provision_inner t p (s\<lparr>pv_current := Connect_Step\<rparr>) of
        (Inl e, s1) \<Rightarrow> (Err e, emit (pv_current s1) Failed s1)
      | r \<Rightarrow> r)"

subsection \<open>Operations on a provisioned server\<close>

definition add_user ::
    "'h ssh_transport \<Rightarrow> server_record \<Rightarrow> string \<Rightarrow> string \<Rightarrow> 'h prov \<Rightarrow> (prov_error + client_config) \<times> server_record \<times> 'h prov" where
  "add_user t rec label extra_args s =
     (case pbind (t_ok t (exec_user_add_cmd (sr_container rec) (str_trim extra_args))) (\<lambda>out.
             let uri = first_line (co_stdout out) in
             pbind (plift (parse_uri_fields uri)) (\<lambda>(short_id, _).
             plift (Ok \<lparr>cl_short_id = short_id, cl_label = label, cl_uri = uri\<rparr>))) s of
        (Inl e, s1) \<Rightarrow> (Err e, rec, s1)
      | (Inr cc, s1) \<Rightarrow> (Ok cc, rec\<lparr>sr_clients := sr_clients rec @ [cc]\<rparr>, s1))"

definition list_users ::
    "(string \<Rightarrow> string + 'u) \<Rightarrow> 'h ssh_transport \<Rightarrow> server_record \<Rightarrow> 'h prov \<Rightarrow> (prov_error + 'u) \<times> 'h prov" where
  "list_users from_str t rec =
     pbind (t_ok t (exec_user_list_json_cmd (sr_container rec))) (\<lambda>out.
     case find (\<lambda>l. take 1 l = ''['') (rev (map str_trim (str_lines (co_stdout out)))) of
       None \<Rightarrow> plift (Err (EParse NoUserListJson))
     | Some line \<Rightarrow> plift (map_err (\<lambda>e. EParse (UserListJson e)) (from_str line)))"

definition valid_short_id :: "string \<Rightarrow> bool" where
  "valid_short_id short_id \<longleftrightarrow> length short_id = 16 \<and> list_all is_ascii_hexdigit (as_bytes short_id)"

definition delete_user ::
    "'h ssh_transport \<Rightarrow> server_record \<Rightarrow> string \<Rightarrow> 'h prov \<Rightarrow> (prov_error + unit) \<times> server_record \<times> 'h prov" where
  "delete_user t rec short_id s =
     (if \<not> valid_short_id short_id then (Err (EParse (InvalidShortId short_id)), rec, s)
      else case t_ok t (exec_user_rm_cmd (sr_container rec) short_id) s of
          (Inl e, s1) \<Rightarrow> (Err e, rec, s1)
        | (Inr _, s1) \<Rightarrow>
            (Ok (), rec\<lparr>sr_clients := filter (\<lambda>c. cl_short_id c \<noteq> short_id) (sr_clients rec)\<rparr>, s1))"

definition server_status :: "'h ssh_transport \<Rightarrow> server_record \<Rightarrow> 'h prov \<Rightarrow> (prov_error + bool) \<times> 'h prov" where
  "server_status t rec =
     pbind (t_run t ps_names_cmd) (\<lambda>out. plift (Ok (sr_container rec \<in> set (parse_ps_names (co_stdout out)))))"

definition mtproxy_output :: "'h ssh_transport \<Rightarrow> server_record \<Rightarrow> bool \<Rightarrow> 'h prov \<Rightarrow> (prov_error + command_output) \<times> 'h prov" where
  "mtproxy_output t rec enable =
     pbind (t_run t (exec_mtproxy_cmd (sr_container rec) False)) (\<lambda>out.
     case out_ok out of
       Inr out \<Rightarrow> plift (Ok out)
     | Inl e \<Rightarrow>
         if \<not> enable then plift (Err e)
         else pbind (t_ok t (exec_mtproxy_cmd (sr_container rec) True)) (\<lambda>out.
              pbind (t_ok t (restart_cmd (sr_container rec))) (\<lambda>_. plift (Ok out))))"

definition mtproxy_link :: "'h ssh_transport \<Rightarrow> server_record \<Rightarrow> bool \<Rightarrow> 'h prov \<Rightarrow> (prov_error + string) \<times> 'h prov" where
  "mtproxy_link t rec enable =
     pbind (mtproxy_output t rec enable) (\<lambda>out.
     plift (ok_or (find (\<lambda>l. strip_prefix ''tg://proxy?'' l \<noteq> None) (map str_trim (str_lines (co_stdout out)))) (EParse NoProxyLink)))"

definition removed_or_absent :: "command_output \<Rightarrow> string \<Rightarrow> prov_error + unit" where
  "removed_or_absent out absent =
     (if co_code out \<noteq> 0 \<and> strip_prefix absent (str_trim (co_stderr out)) \<noteq> None then Ok ()
      else try_bind (out_ok out) (\<lambda>_. Ok ()))"

definition NO_CONTAINER :: string where "NO_CONTAINER = ''Error response from daemon: No such container:''"
definition NO_VOLUME :: string where "NO_VOLUME = ''Error response from daemon: get leshiy-data: no such volume''"

definition teardown :: "'h ssh_transport \<Rightarrow> server_record \<Rightarrow> bool \<Rightarrow> 'h prov \<Rightarrow> (prov_error + unit) \<times> 'h prov" where
  "teardown t rec purge =
     (if \<not> valid_image_ref (sr_container rec) then plift (Err (EParse InvalidSavedContainer))
      else
        pbind (t_run t (container_rm_cmd (sr_container rec))) (\<lambda>out.
        pbind (plift (removed_or_absent out NO_CONTAINER)) (\<lambda>_.
        if \<not> purge then plift (Ok ())
        else
          pbind (t_run t volume_rm_cmd) (\<lambda>out.
          pbind (plift (removed_or_absent out NO_VOLUME)) (\<lambda>_.
          pbind (t_ok t ''sudo rm -rf /etc/leshiy'') (\<lambda>_. plift (Ok ())))))))"

subsection \<open>Upgrade\<close>

definition rename_cmd :: "string \<Rightarrow> string \<Rightarrow> string" where
  "rename_cmd a b = ''sudo docker rename '' @ a @ '' '' @ b"

definition stop_cmd :: "string \<Rightarrow> string" where "stop_cmd c = ''sudo docker stop '' @ c"
definition start_cmd :: "string \<Rightarrow> string" where "start_cmd c = ''sudo docker start '' @ c"

text \<open>The random suffix in sixteen hexadecimal digits.\<close>

definition backup_name :: "string \<Rightarrow> u64 \<Rightarrow> string" where
  "backup_name container r =
     (let x = show_radix 16 (unat r) in container @ ''-rollback-'' @ replicate (16 - length x) (CHR ''0'') @ x)"

text \<open>What the running container and its volume say about the one that will replace it.\<close>

definition upgrade_config ::
    "(string \<Rightarrow> string list option) \<Rightarrow> 'h ssh_transport \<Rightarrow> server_record \<Rightarrow> 'h prov \<Rightarrow>
     (prov_error + ((string \<times> string) list \<times> string list \<times> u16 \<times> u16 option)) \<times> 'h prov" where
  "upgrade_config from_str t rec =
     pbind (t_ok t (inspect_env_cmd (sr_container rec))) (\<lambda>env_out.
     let envs = leshiy_envs (parse_json_string_list from_str (co_stdout env_out)) in
     if envs = [] then plift (Err (EParse (NoUpgradable (sr_container rec))))
     else
       pbind (t_ok t (inspect_dns_cmd (sr_container rec))) (\<lambda>dns_out.
       let dns = parse_json_string_list from_str (co_stdout dns_out) in
       pbind (t_output t cat_persisted_config_cmd) (\<lambda>persisted.
       let (persisted_listen, persisted_quic) = parse_persisted_ports persisted in
       case persisted_listen of
         Some l \<Rightarrow> plift (Ok (envs, dns, l, persisted_quic))
       | None \<Rightarrow>
           pbind (plift (ok_or (port_of (sr_public_host rec)) (EParse (NoListenPort (sr_public_host rec))))) (\<lambda>l.
           plift (Ok (envs, dns, l, Option.bind (sr_quic rec) (\<lambda>q. port_of (Vault.q_addr q))))))))"

definition replacement :: "'h ssh_transport \<Rightarrow> string \<Rightarrow> string \<Rightarrow> string \<Rightarrow> 'h prov \<Rightarrow> (prov_error + unit) \<times> 'h prov" where
  "replacement t container backup run =
     pbind (t_ok t (stop_cmd backup)) (\<lambda>_.
     pbind (run_container t container run) (\<lambda>_.
     wait_ready t container))"

definition rollback :: "'h ssh_transport \<Rightarrow> string \<Rightarrow> string \<Rightarrow> 'h prov \<Rightarrow> (prov_error + unit) \<times> 'h prov" where
  "rollback t container backup =
     pbind (t_run t (container_rm_cmd container)) (\<lambda>out.
     pbind (plift (removed_or_absent out NO_CONTAINER)) (\<lambda>_.
     pbind (t_ok t (rename_cmd backup container)) (\<lambda>_.
     pbind (t_ok t (start_cmd container)) (\<lambda>_.
     wait_ready t container))))"

definition swap_container :: "'h ssh_transport \<Rightarrow> string \<Rightarrow> string \<Rightarrow> string \<Rightarrow> 'h prov \<Rightarrow> (prov_error + unit) \<times> 'h prov" where
  "swap_container t container backup run =
     pbind (t_ok t (rename_cmd container backup)) (\<lambda>_ s.
     case replacement t container backup run s of
       (Inr _, s1) \<Rightarrow> (Ok (), s1)
     | (Inl error, s1) \<Rightarrow>
         (case rollback t container backup s1 of
            (Inr _, s2) \<Rightarrow> (Err error, s2)
          | (Inl rb, s2) \<Rightarrow> (Err (EParse (UpgradeFailed error rb backup)), s2)))"

text \<open>Everything up to the point where the replacement is ready; the result is the published port.\<close>

definition replace_server ::
    "(string \<Rightarrow> string list option) \<Rightarrow> 'h ssh_transport \<Rightarrow> server_record \<Rightarrow> string \<Rightarrow> string \<Rightarrow> 'h prov \<Rightarrow> (prov_error + u16) \<times> 'h prov" where
  "replace_server from_str t rec image_ref backup =
     pbind (upgrade_config from_str t rec) (\<lambda>(envs, dns, listen_port, quic_port).
     pthen (emit PullImage Started) (
     pbind (t_ok t (pull_cmd image_ref)) (\<lambda>_.
     pthen (\<lambda>s. emit RunContainer Started (emit PullImage Done s)) (
     pbind (swap_container t (sr_container rec) backup
              (run_cmd (sr_container rec) image_ref listen_port quic_port dns envs)) (\<lambda>_.
     plift (Ok listen_port))))))"

definition upgrade ::
    "(string \<Rightarrow> string list option) \<Rightarrow> 'h ssh_transport \<Rightarrow> u64 \<Rightarrow> server_record \<Rightarrow> string \<Rightarrow> 'h prov \<Rightarrow>
     (prov_error + unit) \<times> server_record \<times> 'h prov" where
  "upgrade from_str t r rec image_ref s =
     (if \<not> valid_image_ref image_ref then (Err (EParse (InvalidImageRef image_ref)), rec, s)
      else if \<not> valid_image_ref (sr_container rec) then (Err (EParse InvalidSavedContainer), rec, s)
      else
        let backup = backup_name (sr_container rec) r in
        case replace_server from_str t rec image_ref backup s of
          (Inl e, s1) \<Rightarrow> (Err e, rec, s1)
        | (Inr listen_port, s1) \<Rightarrow>
            let s2 = snd (t_run t (container_rm_cmd backup) s1) in
            (Ok (), rec\<lparr>sr_image_ref := image_ref, sr_public_host := with_port (sr_public_host rec) listen_port\<rparr>,
             emit RunContainer Done s2))"

subsection \<open>The SSH transport\<close>

text \<open>
  \<open>ssh_russh.rs\<close>: the check of the server's key, and one command on a channel of the russh library, whose messages are an
  argument; a request to the library that fails is its message.
\<close>

definition sudoize :: "string \<Rightarrow> string" where
  "sudoize cmd =
     (case strip_prefix ''sudo '' cmd of
        Some rest \<Rightarrow> ''sudo -S -p '' @ [quote, quote] @ '' '' @ rest
      | None \<Rightarrow> cmd)"

definition check_server_key :: "(bytes \<Rightarrow> string) \<Rightarrow> string option \<Rightarrow> bytes option \<Rightarrow> bool \<times> string" where
  "check_server_key fmt expected_fp sha256 =
     (let fp = fmt (case sha256 of Some d \<Rightarrow> d | None \<Rightarrow> replicate 32 0) in
      (case expected_fp of None \<Rightarrow> True | Some expected \<Rightarrow> expected = fp, fp))"

datatype channel_msg = MData bytes | MExtended bytes | MExitStatus u32 | MClose | MOther

fun channel_loop :: "channel_msg list \<Rightarrow> bytes \<times> bytes \<times> int \<Rightarrow> bytes \<times> bytes \<times> int" where
  "channel_loop [] acc = acc"
| "channel_loop (m # ms) (stdout, stderr, code) =
     (case m of
        MData d \<Rightarrow> channel_loop ms (stdout @ d, stderr, code)
      | MExtended d \<Rightarrow> channel_loop ms (stdout, stderr @ d, code)
      | MExitStatus c \<Rightarrow> channel_loop ms (stdout, stderr, sint c)
      | MClose \<Rightarrow> (stdout, stderr, code)
      | MOther \<Rightarrow> channel_loop ms (stdout, stderr, code))"

definition channel_output :: "channel_msg list \<Rightarrow> command_output" where
  "channel_output ms =
     (let (stdout, stderr, code) = channel_loop ms ([], [], 0) in
      \<lparr>co_code = code, co_stdout = from_utf8_lossy stdout, co_stderr = from_utf8_lossy stderr\<rparr>)"

text \<open>The result with the command that was executed and the line that was fed to it.\<close>

definition russh_run ::
    "string option \<Rightarrow> bool \<Rightarrow> string + channel_msg list \<Rightarrow> string \<Rightarrow> (prov_error + command_output) \<times> (string \<times> string option) option" where
  "russh_run sudo_password connected ch cmd =
     (let feed_pw = (sudo_password \<noteq> None \<and> strip_prefix ''sudo '' cmd \<noteq> None);
          final_cmd = (if feed_pw then sudoize cmd else cmd);
          pw_line = (if feed_pw then map_option (\<lambda>pw. pw @ [CHR 0x0A]) sudo_password else None) in
      if \<not> connected then (Err (ESsh ''not connected''), None)
      else case ch of
          Inl e \<Rightarrow> (Err (ESsh e), None)
        | Inr ms \<Rightarrow> (Ok (channel_output ms), Some (final_cmd, pw_line)))"

section \<open>Lemmas\<close>

subsection \<open>What an operation does\<close>

text \<open>
  States that a run of an operation can reach by commands that satisfy \<open>P\<close>, with changes of the engine's own state
  within \<open>Q\<close> in between.
\<close>

inductive runs :: "'h ssh_transport \<Rightarrow> (string \<Rightarrow> bool) \<Rightarrow> ('h prov \<Rightarrow> 'h prov \<Rightarrow> bool) \<Rightarrow> 'h prov \<Rightarrow> 'h prov \<Rightarrow> bool"
  for t P Q s where
  start: "runs t P Q s s"
| command: "runs t P Q s s' \<Longrightarrow> P cmd \<Longrightarrow> runs t P Q s (snd (t_run t cmd s'))"
| quiet: "runs t P Q s s' \<Longrightarrow> Q s' s'' \<Longrightarrow> runs t P Q s s''"

definition performs ::
    "'h ssh_transport \<Rightarrow> (string \<Rightarrow> bool) \<Rightarrow> ('h prov \<Rightarrow> 'h prov \<Rightarrow> bool) \<Rightarrow> ('h prov \<Rightarrow> 'a \<times> 'h prov) \<Rightarrow> bool" where
  "performs t P Q m \<longleftrightarrow> (\<forall>s. runs t P Q s (snd (m s)))"

text \<open>Changes that leave the log alone, and changes that leave the host alone too.\<close>

definition same_calls :: "'h prov \<Rightarrow> 'h prov \<Rightarrow> bool" where
  "same_calls s s' \<longleftrightarrow> pv_calls s' = pv_calls s"

definition same_host :: "'h prov \<Rightarrow> 'h prov \<Rightarrow> bool" where
  "same_host s s' \<longleftrightarrow> pv_calls s' = pv_calls s \<and> pv_host s' = pv_host s"

lemma same_emit [simp]:
  "same_calls s (emit st x s)" "same_calls s (enter st s)" "same_host s (emit st x s)" "same_host s (enter st s)"
  by (simp_all add: emit_def enter_def same_calls_def same_host_def)

lemma runs_trans: "runs t P Q s s' \<Longrightarrow> runs t P Q s' s'' \<Longrightarrow> runs t P Q s s''"
  by (rotate_tac 1, induction rule: runs.induct) (auto intro: runs.intros)

named_theorems performs_rules

lemma performs_quiet [performs_rules]: "(\<And>s. Q s (u s)) \<Longrightarrow> performs t P Q (\<lambda>s. (r s, u s))"
  by (auto simp: performs_def intro: runs.intros)

lemma performs_return [performs_rules]: "performs t P Q (\<lambda>s. (r s, s))"
  by (auto simp: performs_def intro: runs.intros)

lemma performs_plift [performs_rules]: "performs t P Q (plift r)"
  by (auto simp: performs_def plift_def intro: runs.intros)

lemma performs_t_run [performs_rules]: "P cmd \<Longrightarrow> performs t P Q (t_run t cmd)"
  by (auto simp: performs_def intro: runs.intros)

lemma performs_after:
  assumes "performs t P Q m" and "\<And>x. performs t P Q (k x)"
  shows "performs t P Q (\<lambda>s. k (fst (m s)) (snd (m s)))"
  using assms runs_trans unfolding performs_def by blast

lemma performs_case:
  assumes "performs t P Q m" and "\<And>e. performs t P Q (f e)" and "\<And>x. performs t P Q (g x)"
  shows "performs t P Q (\<lambda>s. case m s of (Inl e, s1) \<Rightarrow> f e s1 | (Inr x, s1) \<Rightarrow> g x s1)"
proof -
  have "performs t P Q (case_sum f g r)" for r
    using assms(2,3) by (cases r) auto
  from performs_after [OF assms(1), of "case_sum f g", OF this] show ?thesis
    by (simp add: case_prod_unfold sum.case_distrib [of "\<lambda>f. f _"] cong: sum.case_cong)
qed

lemma performs_pbind [performs_rules]: "performs t P Q m \<Longrightarrow> (\<And>x. performs t P Q (f x)) \<Longrightarrow> performs t P Q (pbind m f)"
  using performs_case [of t P Q m "\<lambda>e s. (Inl e, s)" f] by (simp add: pbind_def [abs_def] performs_return)

lemma performs_pthen [performs_rules]: "(\<And>s. Q s (u s)) \<Longrightarrow> performs t P Q m \<Longrightarrow> performs t P Q (pthen u m)"
  using performs_after [of t P Q "\<lambda>s. ((), u s)" "\<lambda>_. m"] by (simp add: pthen_def [abs_def] performs_quiet)

lemma performs_t_ok [performs_rules]: "P cmd \<Longrightarrow> performs t P Q (t_ok t cmd)"
  unfolding t_ok_def by (intro performs_rules)

lemma performs_t_output [performs_rules]: "P cmd \<Longrightarrow> performs t P Q (t_output t cmd)"
  unfolding t_output_def [abs_def] by (rule performs_case) (auto intro!: performs_rules)

lemma performs_if [performs_rules]: "(b \<Longrightarrow> performs t P Q m) \<Longrightarrow> (\<not> b \<Longrightarrow> performs t P Q n) \<Longrightarrow> performs t P Q (if b then m else n)"
  by simp

lemma performs_if_fun:
  "(b \<Longrightarrow> performs t P Q m) \<Longrightarrow> (\<not> b \<Longrightarrow> performs t P Q n) \<Longrightarrow> performs t P Q (\<lambda>s. if b then m s else n s)"
  by (cases b) simp_all

text \<open>The commands that are sent during a run.\<close>

lemma runs_calls:
  assumes "runs t P same_calls s s'"
  shows "\<exists>cs. pv_calls s' = pv_calls s @ cs \<and> list_all (\<lambda>c. P (fst c)) cs"
  using assms by (induction rule: runs.induct) (auto simp: t_run_def same_calls_def split: prod.split)

text \<open>What commands keep, a run keeps.\<close>

lemma runs_keeps:
  assumes "runs t P same_host s s'" and "J (pv_host s)" and "\<And>cmd h. P cmd \<Longrightarrow> J h \<Longrightarrow> J (snd (tr_run t cmd h))"
  shows "J (pv_host s')"
  using assms(1,2)
proof (induction rule: runs.induct)
  case (command s' cmd)
  then have "J (snd (tr_run t cmd (pv_host s')))" using assms(3) by blast
  then show ?case by (simp add: t_run_def case_prod_unfold Let_def)
qed (simp_all add: same_host_def)

lemma performs_run_attempt:
  assumes "P (container_rm_cmd c)" "P cmd" and "\<And>e. performs t P Q (again e)"
  shows "performs t P Q (run_attempt t c cmd again)"
  unfolding run_attempt_def [abs_def]
  by (rule performs_after [where m = "t_run t (container_rm_cmd c)"])
    (use assms in \<open>auto intro!: performs_rules split: sum.split\<close>)

lemma performs_run_container [performs_rules]:
  "P (container_rm_cmd c) \<Longrightarrow> P cmd \<Longrightarrow> performs t P Q (run_container t c cmd)"
proof -
  assume P: "P (container_rm_cmd c)" "P cmd"
  have "performs t P Q (run_loop t c cmd n)" for n
    by (induction n) (auto intro!: performs_run_attempt P performs_rules)
  then show ?thesis by (simp add: run_container_def)
qed

lemma performs_exec_user_add [performs_rules]: "P (exec_user_add_cmd c []) \<Longrightarrow> performs t P Q (exec_user_add t c)"
proof -
  assume P: "P (exec_user_add_cmd c [])"
  have "performs t P Q (user_add_loop t (exec_user_add_cmd c []) n)" for n
    by (induction n) (auto simp: user_add_attempt_def intro!: P performs_rules split: sum.split)
  then show ?thesis by (simp add: exec_user_add_def)
qed

lemma performs_wait_ready [performs_rules]: "P (exec_user_list_json_cmd c) \<Longrightarrow> performs t P Q (wait_ready t c)"
proof -
  assume P: "P (exec_user_list_json_cmd c)"
  have "performs t P Q (ready_loop t c n)" for n
    by (induction n) (auto simp: ready_attempt_def intro!: P performs_rules split: sum.split)
  then show ?thesis by (simp add: wait_ready_def)
qed

lemma performs_firewall:
  assumes "P detect_ufw_active_cmd" and "P (ufw_allow_cmd l q)"
  shows "performs t P Q (firewall_step t l q)"
  unfolding firewall_step_def [abs_def]
  by (intro performs_case performs_if_fun performs_t_run performs_return assms)

lemma performs_pthen_run:
  assumes m: "performs t P Q m" and u: "\<And>s. Q s (u s)" and v: "\<And>s. Q s (v s)" and k: "performs t P Q k"
  shows "performs t P Q (pthen (\<lambda>s. v (snd (m (u s)))) k)"
proof -
  have "runs t P Q s (v (snd (m (u s))))" for s
  proof -
    have "runs t P Q s (u s)" by (rule runs.quiet [where Q = Q, OF runs.start]) (rule u)
    moreover have "runs t P Q (u s) (snd (m (u s)))" using m by (simp add: performs_def)
    ultimately have "runs t P Q s (snd (m (u s)))" by (rule runs_trans)
    then show ?thesis by (rule runs.quiet) (rule v)
  qed
  then have "performs t P Q (\<lambda>s. ((), v (snd (m (u s)))))" by (simp add: performs_def)
  from performs_after [OF this, of "\<lambda>_. k"] k show ?thesis by (simp add: pthen_def [abs_def])
qed

text \<open>The commands of a provisioning run.\<close>

definition fixed_commands :: "string list" where
  "fixed_commands = [detect_docker_cmd, install_docker_cmd, cat_persisted_config_cmd, detect_ufw_active_cmd, ps_names_cmd,
     detect_host_dns_cmd, detect_host_ipv6_cmd]"

inductive provision_command :: "provision_params \<Rightarrow> string \<Rightarrow> bool" for p where
  fixed: "cmd \<in> set fixed_commands \<Longrightarrow> provision_command p cmd"
| ufw: "shell_words cmd = Some [''sudo'', ''sh'', ''-c'', ''ufw allow '' @ show_port l @ ''/tcp'' @
     (case q of None \<Rightarrow> [] | Some q \<Rightarrow> '' && ufw allow '' @ show_port q @ ''/udp'')] \<Longrightarrow> provision_command p cmd"
| pull: "shell_words cmd = Some [''sudo'', ''docker'', ''pull'', pp_image_ref p] \<Longrightarrow> provision_command p cmd"
| rm: "shell_words cmd = Some [''sudo'', ''docker'', ''rm'', ''-f'', pp_container p] \<Longrightarrow> provision_command p cmd"
| run: "shell_words cmd = Some (run_words (pp_container p) (pp_image_ref p) l q dns
     (provision_envs p v6 (with_port (pp_public_host p) l) l q)) \<Longrightarrow> list_all valid_dns_addr dns \<Longrightarrow> provision_command p cmd"
| user: "shell_words cmd = Some [''sudo'', ''docker'', ''exec'', pp_container p, ''leshiy'', ''user'', ''add'', ''--config'',
     ''/etc/leshiy/server.toml''] \<Longrightarrow> provision_command p cmd"

lemma command_words: "list_all plain_word (w # ws) \<Longrightarrow> shell_words (w @ concat (map ((#) CHR '' '') ws)) = Some (w # ws)"
  by (simp add: lex_command segment_words)

lemma pull_words: "plain_word i \<Longrightarrow> shell_words (pull_cmd i) = Some [''sudo'', ''docker'', ''pull'', i]"
  using command_words [of "''sudo''" "[''docker'', ''pull'', i]"] by (simp add: pull_cmd_def plain_literal)

lemma rm_words: "plain_word c \<Longrightarrow> shell_words (container_rm_cmd c) = Some [''sudo'', ''docker'', ''rm'', ''-f'', c]"
  using command_words [of "''sudo''" "[''docker'', ''rm'', ''-f'', c]"] by (simp add: container_rm_cmd_def plain_literal)

lemma escape_id: "quote \<notin> set x \<Longrightarrow> escape_quotes x = x"
  by (induction x) (auto simp: escape_quotes_def replace_char_def)

lemma ufw_words:
  "shell_words (ufw_allow_cmd l q) = Some [''sudo'', ''sh'', ''-c'', ''ufw allow '' @ show_port l @ ''/tcp'' @
     (case q of None \<Rightarrow> [] | Some q \<Rightarrow> '' && ufw allow '' @ show_port q @ ''/udp'')]" (is "_ = Some [_, _, _, ?x]")
proof -
  have "quote \<notin> set (show_port p)" for p
    using show_port_plain [of p] by (auto simp: plain_word_def list_all_iff)
  then have "quote \<notin> set ?x" by (cases q) auto
  then have e: "escape_quotes ?x = ?x" by (rule escape_id)
  have "segment (concat (map ((#) CHR '' '') [''sh'', ''-c''])) [''sh'', ''-c'']"
    by (rule segment_words) (simp add: plain_literal)
  from lex_command [OF _ segment_append [OF this segment_quoted [of ?x]], of "''sudo''"] show ?thesis
    unfolding e by (simp add: ufw_allow_cmd_def plain_literal)
qed

lemma user_add_words:
  assumes "plain_word c"
  shows "shell_words (exec_user_add_cmd c []) = Some [''sudo'', ''docker'', ''exec'', c, ''leshiy'', ''user'', ''add'', ''--config'',
    ''/etc/leshiy/server.toml'']"
proof -
  let ?ws = "[''docker'', ''exec'', c, ''leshiy'', ''user'', ''add'', ''--config'', ''/etc/leshiy/server.toml'']"
  have "segment (concat (map ((#) CHR '' '') ?ws)) ?ws"
    by (rule segment_words) (simp add: assms plain_literal)
  then have "shell_lex False (Some ''sudo'') (concat (map ((#) CHR '' '') ?ws) @ '' '') = Some (''sudo'' # ?ws)"
    unfolding segment_def by simp
  moreover have "exec_user_add_cmd c [] = ''sudo'' @ concat (map ((#) CHR '' '') ?ws) @ '' ''"
    by (simp add: exec_user_add_cmd_def)
  ultimately show ?thesis
    using lex_word [of "''sudo''" "concat (map ((#) CHR '' '') ?ws) @ '' ''"] by (simp add: shell_words_def plain_literal)
qed

lemma dns_servers_valid:
  "pred_option valid_dns_addr h \<Longrightarrow> list_all valid_dns_addr (dns_servers h o')"
proof -
  have "list_all valid_dns_addr DNS_PUBLIC_FALLBACK" by code_simp
  then show "pred_option valid_dns_addr h \<Longrightarrow> ?thesis"
    by (cases o'; cases h) (auto simp: dns_servers_def)
qed

lemma plain_dns: "list_all valid_dns_addr dns \<Longrightarrow> list_all plain_word dns"
  by (auto simp: list_all_iff plain_valid_dns)

lemma plain_envs: "list_all (\<lambda>(k, v). plain_word k) (provision_envs p v6 h l q)"
  by (cases q; cases "pp_connector p") (simp_all add: provision_envs_def Let_def plain_literal)

lemma performs_detect_host_dns: "P detect_host_dns_cmd \<Longrightarrow> performs t P Q (detect_host_dns t)"
  unfolding detect_host_dns_def [abs_def] Let_def by (intro performs_case performs_t_run performs_return)

lemma detected_dns_valid: "pred_option valid_dns_addr (fst (detect_host_dns t s))"
  by (auto simp: detect_host_dns_def Let_def split: prod.split sum.split)

lemma performs_host_ipv6: "P detect_host_ipv6_cmd \<Longrightarrow> performs t P Q (host_ipv6 t)"
  unfolding host_ipv6_def [abs_def] by (intro performs_case performs_t_run performs_return)

lemma fixed_command: "cmd \<in> set fixed_commands \<Longrightarrow> provision_command p cmd"
  by (rule provision_command.fixed)

lemma performs_start_server:
  assumes v: "plain_word (pp_image_ref p)" "plain_word (pp_container p)" and d: "pred_option valid_dns_addr d"
  shows "performs t (provision_command p) same_calls (start_server t p (with_port (pp_public_host p) l) l q d v6)"
proof -
  have "provision_command p (run_cmd (pp_container p) (pp_image_ref p) l q (dns_servers d (pp_dns_override p))
      (provision_envs p v6 (with_port (pp_public_host p) l) l q))"
    using run_cmd_words [OF v(2,1) plain_dns [OF dns_servers_valid [OF d]] plain_envs] dns_servers_valid [OF d]
    by (rule provision_command.run)
  moreover have "provision_command p (container_rm_cmd (pp_container p))"
    by (rule provision_command.rm) (rule rm_words [OF v(2)])
  ultimately show ?thesis
    unfolding start_server_def Let_def by (intro performs_rules same_emit)
qed

lemma performs_run_server:
  assumes v: "plain_word (pp_image_ref p)" "plain_word (pp_container p)"
  shows "performs t (provision_command p) same_calls (run_server t p (with_port (pp_public_host p) l) l q)"
proof -
  let ?P = "provision_command p"
  let ?start = "\<lambda>d v6. start_server t p (with_port (pp_public_host p) l) l q d v6"
  let ?rest = "\<lambda>d s. ?start d (fst (host_ipv6 t s)) (snd (host_ipv6 t s))"
  have "performs t ?P same_calls (?rest d)" if "pred_option valid_dns_addr d" for d
    by (rule performs_after [OF performs_host_ipv6]) (auto intro!: performs_start_server v that fixed_command simp: fixed_commands_def)
  then have "performs t ?P same_calls (if pred_option valid_dns_addr d then ?rest d else (\<lambda>s. (Ok (), s)))" for d
    using performs_return [of t ?P same_calls "\<lambda>_. Ok ()"] by (cases "pred_option valid_dns_addr d") simp_all
  from performs_after [where k = "\<lambda>d. if pred_option valid_dns_addr d then ?rest d else (\<lambda>s. (Ok (), s))",
      OF performs_detect_host_dns [where t = t] this]
  have "performs t ?P same_calls (\<lambda>s. ?rest (fst (detect_host_dns t s)) (snd (detect_host_dns t s)))"
    by (simp add: detected_dns_valid fixed_command fixed_commands_def)
  moreover have "?P (pull_cmd (pp_image_ref p))"
    by (rule provision_command.pull) (rule pull_words [OF v(1)])
  ultimately show ?thesis
    unfolding run_server_def Let_def case_prod_unfold by (intro performs_rules same_emit) auto
qed

lemma performs_provision_inner: "performs t (provision_command p) same_calls (provision_inner t p)"
proof (cases "valid_image_ref (pp_image_ref p) \<and> valid_image_ref (pp_container p)")
  case True
  then have v: "plain_word (pp_image_ref p)" "plain_word (pp_container p)" by (simp_all add: plain_valid_image)
  let ?P = "provision_command p"
  have ufw: "?P (ufw_allow_cmd l q)" for l q
    by (rule provision_command.ufw) (rule ufw_words)
  have user: "?P (exec_user_add_cmd (pp_container p) [])"
    by (rule provision_command.user) (rule user_add_words [OF v(2)])
  have fixed: "?P detect_docker_cmd" "?P install_docker_cmd" "?P cat_persisted_config_cmd" "?P detect_ufw_active_cmd" "?P ps_names_cmd"
    by (auto intro!: fixed_command simp: fixed_commands_def)
  have conn: "performs t ?P same_calls (\<lambda>s. (fst (tr_connect t (pp_target p) (pp_secret p) (pv_host s)),
      s\<lparr>pv_host := snd (tr_connect t (pp_target p) (pp_secret p) (pv_host s))\<rparr>))"
    by (rule performs_quiet) (simp add: same_calls_def)
  have ready: "performs t ?P same_calls (docker_ready t)"
    unfolding docker_ready_def Let_def by (intro performs_rules fixed same_emit)
  have issue: "performs t ?P same_calls (issue_user t p)"
    unfolding issue_user_def Let_def by (intro performs_rules user same_emit) (auto intro!: performs_rules)
  have fw: "performs t ?P same_calls (pthen (\<lambda>s. emit Firewall Done (snd (firewall_step t l q (enter Firewall (emit DockerReady Done s))))) k)"
    if "performs t ?P same_calls k" for l q k
    by (rule performs_pthen_run [OF performs_firewall [OF fixed(4) ufw] _ _ that, where u = "\<lambda>s. enter Firewall (emit DockerReady Done s)"])
      (simp_all add: same_calls_def emit_def enter_def)
  show ?thesis
    unfolding provision_inner_def [abs_def]
    apply (simp only: True Let_def case_prod_unfold not_True_eq_False if_False simp_thms)
    apply (intro fw performs_pthen performs_pbind conn ready fixed performs_t_output performs_t_run performs_if issue performs_plift same_emit performs_run_server v)
    by (simp add: same_calls_def)
next
  case False
  then have "snd (provision_inner t p s) = s" for s
    by (auto simp: provision_inner_def)
  then show ?thesis by (simp add: performs_def runs.start)
qed

section \<open>Properties\<close>

text \<open>
  C34. Whatever the parameters, the operator's input and the host's answers, every command that provisioning sends is
  either one of seven fixed scripts or read by the shell as exactly the words intended: the image, the container name, the
  resolvers and every environment value (advertised host, destination, connector URI) arrive as one argument each,
  whatever characters they contain, and the published port is the port the server is told to listen on and to advertise.
\<close>

theorem provision_no_injection:
  "\<exists>cs. pv_calls (snd (provision t p s)) = pv_calls s @ cs \<and> list_all (\<lambda>c. provision_command p (fst c)) cs"
proof -
  let ?s = "s\<lparr>pv_current := Connect_Step\<rparr>"
  have "runs t (provision_command p) same_calls ?s (snd (provision_inner t p ?s))"
    using performs_provision_inner [of t p] by (simp add: performs_def)
  from runs_calls [OF this] show ?thesis
    by (auto simp: provision_def emit_def split: prod.splits sum.splits)
qed

end
