(* ===== verification/Upgrade.thy ===== *)
theory Upgrade
  imports Provision
begin

text \<open>
  What an upgrade of a provisioned server keeps when it fails, on a host where Docker behaves as documented, and what
  the SSH transport makes of a command that ends without a status.
\<close>

section \<open>Lemmas\<close>

subsection \<open>What Docker does\<close>

definition ran_ok :: "prov_error + command_output \<Rightarrow> bool" where
  "ran_ok r = (case r of Inl _ \<Rightarrow> False | Inr out \<Rightarrow> co_code out = 0)"

text \<open>Renaming moves a container to a free name; it does nothing when it is refused, and either when the connection is lost.\<close>

definition renamed :: "string \<Rightarrow> string \<Rightarrow> prov_error + command_output \<Rightarrow> (string \<rightharpoonup> 'c) \<Rightarrow> (string \<rightharpoonup> 'c) \<Rightarrow> bool" where
  "renamed a b r m m' \<longleftrightarrow>
     (let moved = (m a \<noteq> None \<and> m b = None \<and> m' = m(a := None, b := m a)) in
      case r of Inl _ \<Rightarrow> m' = m \<or> moved | Inr out \<Rightarrow> if co_code out = 0 then moved else m' = m)"

text \<open>
  Docker on the remote host, as far as an upgrade of the container \<open>a\<close> with the recovery name \<open>b\<close> uses it: \<open>cs\<close> are the
  containers by name. Removing and creating touch the named container only, whatever they answer; a command executes in
  a container only if there is one; nothing else changes which containers there are.
\<close>

definition docker_host :: "'h ssh_transport \<Rightarrow> ('h \<Rightarrow> string \<rightharpoonup> 'c) \<Rightarrow> string \<Rightarrow> string \<Rightarrow> string \<Rightarrow> bool" where
  "docker_host t cs a b img \<longleftrightarrow> (\<forall>h.
     renamed a b (fst (tr_run t (rename_cmd a b) h)) (cs h) (cs (snd (tr_run t (rename_cmd a b) h))) \<and>
     renamed b a (fst (tr_run t (rename_cmd b a) h)) (cs h) (cs (snd (tr_run t (rename_cmd b a) h))) \<and>
     (\<exists>x. cs (snd (tr_run t (container_rm_cmd a) h)) = (cs h)(a := x)) \<and>
     (\<exists>x. cs (snd (tr_run t (container_rm_cmd b) h)) = (cs h)(b := x)) \<and>
     (\<forall>l q dns envs. \<exists>x. cs (snd (tr_run t (run_cmd a img l q dns envs) h)) = (cs h)(a := x)) \<and>
     list_all (\<lambda>cmd. cs (snd (tr_run t cmd h)) = cs h)
       [stop_cmd b, start_cmd a, exec_user_list_json_cmd a, inspect_env_cmd a, inspect_dns_cmd a, cat_persisted_config_cmd,
        pull_cmd img] \<and>
     (ran_ok (fst (tr_run t (exec_user_list_json_cmd a) h)) \<longrightarrow> cs h a \<noteq> None))"

text \<open>The container answered the last command that was sent.\<close>

definition answered :: "string \<Rightarrow> 'h prov \<Rightarrow> bool" where
  "answered a s \<longleftrightarrow> (\<exists>calls out. pv_calls s = calls @ [(exec_user_list_json_cmd a, Inr out)] \<and> co_code out = 0)"

lemma docker_hostD:
  assumes "docker_host t cs a b img"
  shows "renamed a b (fst (tr_run t (rename_cmd a b) h)) (cs h) (cs (snd (tr_run t (rename_cmd a b) h)))"
    and "renamed b a (fst (tr_run t (rename_cmd b a) h)) (cs h) (cs (snd (tr_run t (rename_cmd b a) h)))"
    and "\<exists>x. cs (snd (tr_run t (container_rm_cmd a) h)) = (cs h)(a := x)"
    and "\<exists>x. cs (snd (tr_run t (container_rm_cmd b) h)) = (cs h)(b := x)"
    and "\<exists>x. cs (snd (tr_run t (run_cmd a img l q dns envs) h)) = (cs h)(a := x)"
    and "cs (snd (tr_run t (stop_cmd b) h)) = cs h" "cs (snd (tr_run t (start_cmd a) h)) = cs h"
    and "cs (snd (tr_run t (exec_user_list_json_cmd a) h)) = cs h" "cs (snd (tr_run t (inspect_env_cmd a) h)) = cs h"
    and "cs (snd (tr_run t (inspect_dns_cmd a) h)) = cs h" "cs (snd (tr_run t cat_persisted_config_cmd h)) = cs h"
    and "cs (snd (tr_run t (pull_cmd img) h)) = cs h"
    and "ran_ok (fst (tr_run t (exec_user_list_json_cmd a) h)) \<Longrightarrow> cs h a \<noteq> None"
  using assms by (simp_all add: docker_host_def)

lemma t_run_host: "t_run t cmd s = (r, s') \<Longrightarrow> tr_run t cmd (pv_host s) = (r, pv_host s') \<and> pv_calls s' = pv_calls s @ [(cmd, r)]"
  by (auto simp: t_run_def split: prod.splits)

definition up_again :: "('h \<Rightarrow> string \<rightharpoonup> 'c) \<Rightarrow> string \<Rightarrow> 'h prov \<Rightarrow> bool" where
  "up_again cs a s \<longleftrightarrow> answered a s \<and> cs (pv_host s) a \<noteq> None"

lemma ready_attempt_ok:
  assumes d: "docker_host t cs a b img" and r: "ready_attempt t a again s = (Inr u, s')"
    and again: "\<And>out s1. co_code out \<noteq> 0 \<Longrightarrow> again out s1 = (Inr u, s') \<Longrightarrow> up_again cs a s'"
  shows "up_again cs a s'"
proof -
  obtain x s1 where x: "t_run t (exec_user_list_json_cmd a) s = (x, s1)" by fastforce
  then obtain out where out: "x = Inr out"
    using r by (cases x) (auto simp: ready_attempt_def pbind_def)
  note h = t_run_host [OF x]
  show ?thesis
  proof (cases "co_code out = 0")
    case True
    then have "s' = s1" using r x out by (simp add: ready_attempt_def pbind_def plift_def)
    moreover have "cs (pv_host s1) a \<noteq> None"
      using docker_hostD(8) [OF d, of "pv_host s"] docker_hostD(13) [OF d, of "pv_host s"] h True
      by (simp add: ran_ok_def out)
    ultimately show ?thesis using True h by (simp add: up_again_def answered_def out)
  next
    case False
    then show ?thesis
      using r x out again by (auto simp: ready_attempt_def pbind_def plift_def out_ok_def split: if_splits)
  qed
qed

lemma wait_ready_ok:
  assumes d: "docker_host t cs a b img" and w: "wait_ready t a s = (Inr u, s')"
  shows "up_again cs a s'"
proof -
  have "ready_loop t a n s = (Inr u, s') \<Longrightarrow> up_again cs a s'" for n s
  proof (induction n arbitrary: s)
    case 0
    from ready_attempt_ok [OF d 0 [unfolded ready_loop.simps]] show ?case
      by (simp add: plift_def out_ok_def)
  next
    case (Suc n)
    from ready_attempt_ok [OF d Suc.prems [unfolded ready_loop.simps]] Suc.IH show ?case
      by blast
  qed
  then show ?thesis using w by (simp add: wait_ready_def)
qed

lemma pbind_split:
  "pbind m f s = (r, s') \<longleftrightarrow> (\<exists>e. m s = (Inl e, s') \<and> r = Inl e) \<or> (\<exists>x s1. m s = (Inr x, s1) \<and> f x s1 = (r, s'))"
  by (cases "m s"; cases "fst (m s)") (auto simp: pbind_def)

lemma replacement_keeps:
  assumes d: "docker_host t cs a b img" and ab: "a \<noteq> b" and old: "cs (pv_host s) b = Some old"
    and r: "replacement t a b (run_cmd a img l q dns envs) s = (r, s')"
  shows "cs (pv_host s') b = Some old" and "r = Inr u \<Longrightarrow> up_again cs a s'"
proof -
  let ?P = "\<lambda>cmd. cmd \<in> {stop_cmd b, container_rm_cmd a, run_cmd a img l q dns envs, exec_user_list_json_cmd a}"
  have "performs t ?P same_host (replacement t a b (run_cmd a img l q dns envs))"
    unfolding replacement_def by (intro performs_rules) simp_all
  then have "runs t ?P same_host s s'" using r by (auto simp: performs_def dest: spec [of _ s])
  then show "cs (pv_host s') b = Some old"
  proof (rule runs_keeps [where J = "\<lambda>h. cs h b = Some old"])
    fix cmd h assume "?P cmd" and h: "cs h b = Some old"
    then have "cs (snd (tr_run t cmd h)) = cs h \<or> (\<exists>x. cs (snd (tr_run t cmd h)) = (cs h)(a := x))"
      using docker_hostD(3) [OF d, of h] docker_hostD(5) [OF d, of l q dns envs h] docker_hostD(6,8) [OF d, of h] by auto
    then show "cs (snd (tr_run t cmd h)) b = Some old" using h ab by auto
  qed (rule old)
  show "up_again cs a s'" if "r = Inr u"
    using r that wait_ready_ok [OF d] by (auto simp: replacement_def pbind_split)
qed

lemma rename_ok:
  assumes "t_ok t (rename_cmd x y) s = (r, s')" and "renamed x y (fst (tr_run t (rename_cmd x y) (pv_host s))) (cs (pv_host s)) (cs (snd (tr_run t (rename_cmd x y) (pv_host s))))"
    and "x \<noteq> y" and "cs (pv_host s) x = Some old"
  shows "case r of Inr _ \<Rightarrow> cs (pv_host s') y = Some old
    | Inl e \<Rightarrow> cs (pv_host s') = cs (pv_host s) \<or> cs (pv_host s') y = Some old \<and> pv_calls s' = pv_calls s @ [(rename_cmd x y, Inl e)]"
proof -
  obtain z s1 where z: "t_run t (rename_cmd x y) s = (z, s1)" by fastforce
  note h = t_run_host [OF z]
  have "renamed x y z (cs (pv_host s)) (cs (pv_host s1))" using assms(2) h by simp
  then show ?thesis
    using assms(1,3,4) z h
    by (cases z) (auto simp: t_ok_def pbind_def plift_def out_ok_def renamed_def Let_def split: if_splits)
qed

lemma rollback_keeps:
  assumes d: "docker_host t cs a b img" and ab: "a \<noteq> b" and old: "cs (pv_host s) b = Some old"
    and r: "rollback t a b s = (r, s')"
  shows "case r of Inr _ \<Rightarrow> cs (pv_host s') a = Some old \<and> answered a s' | Inl _ \<Rightarrow> cs (pv_host s') a = Some old \<or> cs (pv_host s') b = Some old"
proof -
  obtain z s1 where z: "t_run t (container_rm_cmd a) s = (z, s1)" by fastforce
  have s1: "cs (pv_host s1) b = Some old"
    using t_run_host [OF z] docker_hostD(3) [OF d, of "pv_host s"] old ab by auto
  show ?thesis
  proof (cases "\<exists>out. z = Inr out \<and> removed_or_absent out NO_CONTAINER = Inr ()")
    case False
    then have "s' = s1 \<and> (\<exists>e. r = Inl e)"
    proof (cases z)
      case (Inr out)
      then obtain e where "removed_or_absent out NO_CONTAINER = Inl e"
        using False by (cases "removed_or_absent out NO_CONTAINER") auto
      then have "rollback t a b s = (Inl e, s1)" using z Inr by (simp add: rollback_def pbind_def plift_def)
      then show ?thesis using r by auto
    qed (use r z in \<open>auto simp: rollback_def pbind_def\<close>)
    then show ?thesis using s1 by auto
  next
    case True
    obtain y s2 where y: "t_ok t (rename_cmd b a) s1 = (y, s2)" by fastforce
    note ren = rename_ok [OF y docker_hostD(2) [OF d] ab [symmetric] s1]
    show ?thesis
    proof (cases y)
      case (Inl e)
      then have "s' = s2 \<and> r = Inl e"
        using r z True y by (auto simp: rollback_def pbind_def plift_def)
      then show ?thesis using ren Inl s1 by auto
    next
      case (Inr out)
      let ?m = "pbind (t_ok t (start_cmd a)) (\<lambda>_. wait_ready t a)"
      have m: "?m s2 = (r, s')"
        using r z True y Inr by (auto simp: rollback_def pbind_def plift_def)
      have "performs t (\<lambda>cmd. cmd \<in> {start_cmd a, exec_user_list_json_cmd a}) same_host ?m"
        by (intro performs_rules) simp_all
      then have "runs t (\<lambda>cmd. cmd \<in> {start_cmd a, exec_user_list_json_cmd a}) same_host s2 s'"
        using m by (auto simp: performs_def dest: spec [of _ s2])
      then have "cs (pv_host s') a = Some old"
        by (rule runs_keeps [where J = "\<lambda>h. cs h a = Some old"]) (use ren Inr docker_hostD(7,8) [OF d] in auto)
      moreover have "answered a s'" if "r = Inr u" for u
        using m that wait_ready_ok [OF d] by (auto simp: pbind_split up_again_def)
      ultimately show ?thesis by (cases r) auto
    qed
  qed
qed

text \<open>
  What is true of the server when its upgrade failed with \<open>e\<close>: nothing has changed; or the old container is back under
  its name and has answered; or it is still there under one of its two names, and the error says so or is the loss of
  the connection during the first renaming.
\<close>

definition server_kept :: "('h \<Rightarrow> string \<rightharpoonup> 'c) \<Rightarrow> string \<Rightarrow> string \<Rightarrow> 'h prov \<Rightarrow> prov_error \<Rightarrow> 'h prov \<Rightarrow> bool" where
  "server_kept cs a b s e s' \<longleftrightarrow>
     cs (pv_host s') = cs (pv_host s) \<or>
     cs (pv_host s') a = cs (pv_host s) a \<and> answered a s' \<or>
     cs (pv_host s) a \<in> {cs (pv_host s') a, cs (pv_host s') b} \<and>
       ((\<exists>e1 e2. e = EParse (UpgradeFailed e1 e2 b)) \<or> (\<exists>calls. pv_calls s' = calls @ [(rename_cmd a b, Inl e)]))"

lemma swap_outcome:
  assumes d: "docker_host t cs a b img" and ab: "a \<noteq> b" and old: "cs (pv_host s) a = Some old"
    and r: "swap_container t a b (run_cmd a img l q dns envs) s = (r, s')"
  shows "case r of Inr _ \<Rightarrow> up_again cs a s' | Inl e \<Rightarrow> server_kept cs a b s e s'"
proof -
  obtain y s1 where y: "t_ok t (rename_cmd a b) s = (y, s1)" by fastforce
  note ren = rename_ok [OF y docker_hostD(1) [OF d] ab old]
  show ?thesis
  proof (cases y)
    case (Inl e)
    then have "s' = s1 \<and> r = Inl e" using r y by (simp add: swap_container_def pbind_def)
    then show ?thesis using ren Inl old by (auto simp: server_kept_def)
  next
    case (Inr out)
    obtain x s2 where x: "replacement t a b (run_cmd a img l q dns envs) s1 = (x, s2)" by fastforce
    have at_b: "cs (pv_host s1) b = Some old" using ren Inr by simp
    note keeps = replacement_keeps [OF d ab at_b x]
    show ?thesis
    proof (cases x)
      case (Inl error)
      obtain z s3 where z: "rollback t a b s2 = (z, s3)" by fastforce
      note rolled = rollback_keeps [OF d ab keeps(1) z]
      show ?thesis
        using r y Inr x Inl z rolled old
        by (cases z) (auto simp: swap_container_def pbind_def server_kept_def)
    next
      case (Inr u)
      then show ?thesis
        using r y \<open>y = Inr out\<close> x keeps(2) [OF Inr] by (auto simp: swap_container_def pbind_def)
    qed
  qed
qed

lemma config_keeps:
  assumes d: "docker_host t cs (sr_container rec) b img" and r: "upgrade_config from_str t rec s = (r, s')"
  shows "cs (pv_host s') = cs (pv_host s)"
proof -
  let ?P = "\<lambda>cmd. cmd \<in> {inspect_env_cmd (sr_container rec), inspect_dns_cmd (sr_container rec), cat_persisted_config_cmd}"
  have "performs t ?P same_host (upgrade_config from_str t rec)"
    unfolding upgrade_config_def Let_def case_prod_unfold
    by (intro performs_rules) (auto intro!: performs_rules split: option.split)
  then have "runs t ?P same_host s s'" using r by (auto simp: performs_def dest: spec [of _ s])
  then show ?thesis
    by (rule runs_keeps [where J = "\<lambda>h. cs h = cs (pv_host s)"]) (use docker_hostD(9-11) [OF d] in auto)
qed

lemma backup_differs: "backup_name a r \<noteq> a"
proof
  assume "backup_name a r = a"
  then have "length (backup_name a r) = length a" by simp
  then show False by (simp add: backup_name_def Let_def)
qed

lemma t_ok_host: "t_ok t cmd s = (r, s') \<Longrightarrow> pv_host s' = snd (tr_run t cmd (pv_host s))"
  by (auto simp: t_ok_def pbind_split plift_def dest!: t_run_host)

lemma server_kept_from:
  "cs (pv_host s1) = cs (pv_host s) \<Longrightarrow> server_kept cs a b s1 e s' \<Longrightarrow> server_kept cs a b s e s'"
  by (simp add: server_kept_def)

lemma replace_server_outcome:
  assumes d: "docker_host t cs (sr_container rec) b img" and ab: "sr_container rec \<noteq> b"
    and old: "cs (pv_host s) (sr_container rec) \<noteq> None" and r: "replace_server from_str t rec img b s = (r, s')"
  shows "case r of Inr _ \<Rightarrow> up_again cs (sr_container rec) s' | Inl e \<Rightarrow> server_kept cs (sr_container rec) b s e s'"
proof -
  have kept: ?thesis if "cs (pv_host s') = cs (pv_host s)" "r = Inl e" for e
    using that by (simp add: server_kept_def)
  obtain c s1 where c: "upgrade_config from_str t rec s = (c, s1)" by fastforce
  note cfg = config_keeps [OF d c]
  let ?s1 = "emit PullImage Started s1"
  obtain o' s2 where o': "t_ok t (pull_cmd img) ?s1 = (o', s2)" by fastforce
  have pull: "cs (pv_host s2) = cs (pv_host s)"
    using t_ok_host [OF o'] docker_hostD(12) [OF d] cfg by (simp add: emit_def)
  let ?s2 = "emit RunContainer Started (emit PullImage Done s2)"
  have s2: "cs (pv_host ?s2) = cs (pv_host s)" using pull by (simp add: emit_def)
  consider e where "c = Inl e" | e where "\<exists>x. c = Inr x" "o' = Inl e" | envs dns l q u where "c = Inr (envs, dns, l, q)" "o' = Inr u"
    by (cases c; cases o'; force)
  then show ?thesis
  proof cases
    case 1
    then have "r = Inl e \<and> s' = s1" using r c by (auto simp: replace_server_def pbind_def)
    then show ?thesis using kept cfg by blast
  next
    case 2
    then have "r = Inl e \<and> s' = s2" using r c o' by (auto simp: replace_server_def pbind_def pthen_def)
    then show ?thesis using kept pull by blast
  next
    case 3
    obtain w s3 where w: "swap_container t (sr_container rec) b (run_cmd (sr_container rec) img l q dns envs) ?s2 = (w, s3)" by fastforce
    obtain y where y: "cs (pv_host ?s2) (sr_container rec) = Some y" using old s2 by auto
    have "s' = s3 \<and> r = (case w of Inl e \<Rightarrow> Inl e | Inr _ \<Rightarrow> Inr l)"
      using r c 3 o' w by (cases w) (auto simp: replace_server_def pbind_def pthen_def plift_def)
    then show ?thesis
      using swap_outcome [OF d ab y w] server_kept_from [of cs ?s2 s, OF s2] by (cases w) auto
  qed
qed

section \<open>Properties\<close>


text \<open>A host with Docker on which the new image does not start.\<close>

definition said :: "int \<Rightarrow> string \<Rightarrow> prov_error + command_output" where
  "said code text = Inr \<lparr>co_code = code, co_stdout = text, co_stderr = text\<rparr>"

definition sim_rename :: "string \<Rightarrow> string \<Rightarrow> (string \<rightharpoonup> nat) \<Rightarrow> (prov_error + command_output) \<times> (string \<rightharpoonup> nat)" where
  "sim_rename a b m = (if m a \<noteq> None \<and> m b = None then (said 0 [], m(a := None, b := m a)) else (said 1 [], m))"

definition sim_host :: "string \<Rightarrow> string \<Rightarrow> (string \<rightharpoonup> nat) ssh_transport" where
  "sim_host a b = \<lparr>tr_connect = (\<lambda>_ _ m. (Ok [], m)),
     tr_run = (\<lambda>cmd m.
       if cmd = rename_cmd a b then sim_rename a b m
       else if cmd = rename_cmd b a then sim_rename b a m
       else if cmd = container_rm_cmd a then (said 0 [], m(a := None))
       else if cmd = container_rm_cmd b then (said 0 [], m(b := None))
       else if cmd = exec_user_list_json_cmd a then (if m a = None then said 1 [] else said 0 [], m)
       else if cmd = inspect_env_cmd a then (said 0 ''env'', m)
       else if take 15 cmd = ''sudo docker run'' then (said 1 ''no space'', m)
       else (said 0 [], m))\<rparr>"

definition sim_json :: "string \<Rightarrow> string list option" where
  "sim_json s = (if s = ''env'' then Some [''LESHIY_HOST=h:443''] else None)"

abbreviation sim_backup :: string where "sim_backup \<equiv> backup_name ''leshiy'' 1"

lemma sim_backup_eq: "sim_backup = ''leshiy-rollback-0000000000000001''"
  by code_simp

lemma sim_docker: "docker_host (sim_host ''leshiy'' sim_backup) (\<lambda>m. m) ''leshiy'' sim_backup ''image''"
proof -
  let ?t = "sim_host ''leshiy'' sim_backup"
  have run: "\<exists>x. snd (tr_run ?t (run_cmd ''leshiy'' ''image'' l q dns envs) m) = m(''leshiy'' := x)" for l q dns envs m
    by (rule exI [of _ "m ''leshiy''"])
      (simp add: sim_host_def run_cmd_def run_flags_def rename_cmd_def container_rm_cmd_def exec_user_list_json_cmd_def
        inspect_env_cmd_def sim_backup_eq)
  show ?thesis
    unfolding docker_host_def
    by (intro allI conjI run)
      (auto simp: sim_host_def sim_rename_def renamed_def said_def ran_ok_def rename_cmd_def container_rm_cmd_def
        exec_user_list_json_cmd_def inspect_env_cmd_def inspect_dns_cmd_def stop_cmd_def start_cmd_def pull_cmd_def
        cat_persisted_config_cmd_def sim_backup_eq)
qed

definition sim_record :: server_record where
  "sim_record = \<lparr>sr_id = ''1'', sr_label = ''s'', sr_host = ''h'', sr_port = 22, sr_ssh_user = ''root'', sr_ssh_secret = NoSecret,
     sr_host_key_fp = [], sr_public_host = with_port ''h'' 443, sr_image_ref = ''old'', sr_container = ''leshiy'', sr_reality_public_b64 = [],
     sr_quic = None, sr_clients = [], sr_created_at = 0, sr_role = ''single'', sr_connector_uri = None, sr_downstream = None,
     sr_sudo = False\<rparr>"

definition sim_state :: "(string \<rightharpoonup> nat) prov" where
  "sim_state = \<lparr>pv_host = [''leshiy'' \<mapsto> 7], pv_calls = [], pv_events = [], pv_current = Connect_Step\<rparr>"

abbreviation sim_upgrade :: "(prov_error + unit) \<times> server_record \<times> (string \<rightharpoonup> nat) prov" where
  "sim_upgrade \<equiv> upgrade sim_json (sim_host ''leshiy'' sim_backup) 1 sim_record ''image'' sim_state"

lemmas sim_defs = sim_host_def sim_rename_def said_def rename_cmd_def container_rm_cmd_def
        exec_user_list_json_cmd_def inspect_env_cmd_def inspect_dns_cmd_def stop_cmd_def start_cmd_def pull_cmd_def
        cat_persisted_config_cmd_def run_cmd_def run_flags_def sim_backup_eq

lemma sim_config:
  "\<exists>s'. upgrade_config sim_json (sim_host ''leshiy'' sim_backup) sim_record s = (Ok ([(''LESHIY_HOST'', ''h:443'')], [], 443, None), s') \<and> pv_host s' = pv_host s"
  by (simp add: upgrade_config_def pbind_def plift_def t_ok_def t_output_def t_run_def out_ok_def Let_def sim_defs
   parse_json_string_list_def trim_nil trim_word plain_literal sim_json_def sim_record_def leshiy_envs_def
   parse_persisted_ports_def str_lines_def port_of_with_port List.map_filter_def strip_prefix_def)

lemma sim_swap:
  assumes "pv_host s = [''leshiy'' \<mapsto> 7]"
  shows "\<exists>s'. swap_container (sim_host ''leshiy'' sim_backup) ''leshiy'' sim_backup (run_cmd ''leshiy'' ''image'' l q dns envs) s =
    (Err (ECommand 1 ''no space''), s') \<and> pv_host s' ''leshiy'' = Some 7"
proof -
  let ?t = "sim_host ''leshiy'' sim_backup"
  have nr: "\<not> str_contains ''address already in use'' ''no space''" by (simp add: str_contains_def strip_prefix_def)
  obtain n where n: "RUN_ATTEMPTS - Suc 0 = Suc n" by (simp add: RUN_ATTEMPTS_def)
  obtain k where k: "USER_ADD_ATTEMPTS - Suc 0 = Suc k" by (simp add: USER_ADD_ATTEMPTS_def)
  show ?thesis
    by (simp add: swap_container_def replacement_def rollback_def run_container_def n k run_attempt_def wait_ready_def ready_attempt_def
      transient_def is_port_bind_race_def nr pbind_def plift_def t_ok_def t_run_def out_ok_def Let_def sim_defs assms removed_or_absent_def)
qed

lemma sim_result:
  "fst sim_upgrade = Inl (ECommand 1 ''no space'') \<and> pv_host (snd (snd sim_upgrade)) ''leshiy'' = Some 7"
proof -
  let ?t = "sim_host ''leshiy'' sim_backup"
  have v: "valid_image_ref ''image''" "valid_image_ref ''leshiy''" by code_simp+
  obtain s1 where s1: "upgrade_config sim_json ?t sim_record sim_state = (Ok ([(''LESHIY_HOST'', ''h:443'')], [], 443, None), s1)"
    "pv_host s1 = pv_host sim_state"
    using sim_config [of sim_state] by blast
  obtain x s2 where x: "t_ok ?t (pull_cmd ''image'') (emit PullImage Started s1) = (Inr x, s2)" "pv_host s2 = pv_host s1"
    by (simp add: t_ok_def pbind_def plift_def t_run_def out_ok_def sim_defs emit_def)
  have "pv_host (emit RunContainer Started (emit PullImage Done s2)) = [''leshiy'' \<mapsto> 7]"
    using x(2) s1(2) by (simp add: emit_def sim_state_def)
  from sim_swap [OF this, of 443 None "[]" "[(''LESHIY_HOST'', ''h:443'')]"]
  obtain s3 where "swap_container ?t ''leshiy'' sim_backup (run_cmd ''leshiy'' ''image'' 443 None [] [(''LESHIY_HOST'', ''h:443'')])
      (emit RunContainer Started (emit PullImage Done s2)) = (Err (ECommand 1 ''no space''), s3)" "pv_host s3 ''leshiy'' = Some 7"
    by blast
  moreover have "sr_container sim_record = ''leshiy''" by (simp add: sim_record_def)
  ultimately have "replace_server sim_json ?t sim_record ''image'' sim_backup sim_state = (Err (ECommand 1 ''no space''), s3) \<and>
      pv_host s3 ''leshiy'' = Some 7"
    using s1 x by (simp add: replace_server_def pbind_def pthen_def)
  then show ?thesis
    using v by (simp add: upgrade_def Let_def \<open>sr_container sim_record = ''leshiy''\<close>)
qed


text \<open>
  C36. A command whose channel ends without an exit status (it was killed by a signal, or the connection broke while it ran)
  counts as one that succeeded: the upgrade's check that the new server answers passes when the connection is lost during it.
\<close>

theorem lost_status_is_success:
  assumes "\<forall>c. MExitStatus c \<notin> set ms"
  shows "\<exists>out. fst (russh_run pw True (Inr ms) cmd) = Ok out \<and> out_ok out = Ok out \<and>
    fst (wait_ready \<lparr>tr_connect = \<lambda>_ _ h. (Ok [], h), tr_run = \<lambda>cmd h. (fst (russh_run pw True (Inr ms) cmd), h)\<rparr> a s) = Ok ()"
proof -
  have "snd (snd (channel_loop ms (x, y, 0))) = 0" for x y
    using assms by (induction ms arbitrary: x y) (auto split: channel_msg.split)
  then have "co_code (channel_output ms) = 0"
    by (auto simp: channel_output_def split: prod.split) (metis snd_conv)
  moreover have "fst (russh_run pw True (Inr ms) c) = Ok (channel_output ms)" for c
    by (simp add: russh_run_def Let_def)
  moreover obtain k where "USER_ADD_ATTEMPTS - Suc 0 = Suc k" by (simp add: USER_ADD_ATTEMPTS_def)
  ultimately show ?thesis
    by (simp add: out_ok_def wait_ready_def ready_attempt_def pbind_def plift_def t_run_def)
qed

theorem lost_status_is_success_witness:
  "\<exists>out. fst (russh_run None True (Inr [MData [0x5B], MOther]) ''ls'') = Ok out \<and> out_ok out = Ok out"
proof -
  have "\<forall>c. MExitStatus c \<notin> set [MData [0x5B], MOther]" by simp
  from lost_status_is_success [OF this] show ?thesis by blast
qed

end
