(* ===== verification/Quic.thy ===== *)
theory Quic
  imports Relay "HOL-Library.AList"
begin

text \<open>
  The QUIC carrier, \<open>crates/leshiy-quic/src\<close>: what the server does with an HTTP/3 request (\<open>server.rs\<close>), the cover site it
  shows to everybody else (\<open>masquerade.rs\<close>), the table of datagram associations (\<open>dgram.rs\<close>), the connection to a next
  hop (\<open>connector.rs\<close>), and how a client chooses its carrier (\<open>client.rs\<close>, \<open>crates/leshiy-client/src/adapter/dial.rs\<close>).

  quinn and h3 drive connections; a request, a connection attempt and an answer of the origin are arguments. The
  hexadecimal decoder is a \<open>text_codec\<close>. Header names are in lower case, as the library keeps them.
\<close>

section \<open>Definitions\<close>

datatype quic_error = QIo | QConn string | QProtocol string | QConnectStatus u16

subsection \<open>The cover site\<close>

datatype masquerade = Page string | Reverse string

definition default_masquerade :: masquerade where
  "default_masquerade =
     Page ''<!doctype html><html><head><title>Welcome</title></head><body><h1>It works!</h1></body></html>''"

record origin_response =
  or_status :: u16
  or_headers :: "(string \<times> string) list"
  or_body :: bytes

definition FORWARDED_HEADERS :: "string list" where
  "FORWARDED_HEADERS = [''content-type'', ''cache-control'', ''last-modified'', ''etag'', ''content-language'', ''vary'', ''expires'']"

definition MAX_ORIGIN_BODY :: nat where "MAX_ORIGIN_BODY = 2 * 1024 * 1024"

definition CR :: u8 where "CR = 13"
definition LF :: u8 where "LF = 10"

text \<open>The position of the first occurrence of four bytes, as a split of the text there.\<close>

fun split_head :: "bytes \<Rightarrow> (bytes \<times> bytes) option" where
  "split_head [] = None"
| "split_head (b # bs) =
     (if take 4 (b # bs) = [CR, LF, CR, LF] then Some ([], drop 4 (b # bs))
      else map_option (\<lambda>(h, r). (b # h, r)) (split_head bs))"

definition ascii_lower :: "char \<Rightarrow> char" where
  "ascii_lower c = (if 65 \<le> (of_char c :: nat) \<and> (of_char c :: nat) \<le> 90 then char_of ((of_char c :: nat) + 32) else c)"

definition trim_line_end :: "string \<Rightarrow> string" where
  "trim_line_end l = rev (dropWhile (\<lambda>c. c = CHR 0x0D \<or> c = CHR 0x0A) (rev l))"

definition origin_header :: "bytes \<Rightarrow> (string \<times> string) option" where
  "origin_header raw_line =
     (if \<not> utf8_valid raw_line then None
      else case split_once (CHR '':'') (trim_line_end (of_bytes raw_line)) of
          None \<Rightarrow> None
        | Some (name, v) \<Rightarrow>
            let name = map ascii_lower (str_trim name) in
            if name \<in> set FORWARDED_HEADERS then Some (name, str_trim v) else None)"

definition parse_http_response :: "bytes \<Rightarrow> origin_response option" where
  "parse_http_response raw =
     (case split_head raw of
        None \<Rightarrow> None
      | Some (head, body) \<Rightarrow>
          (case split_on LF head of
             [] \<Rightarrow> None
           | status_line # lines \<Rightarrow>
               if \<not> utf8_valid status_line then None
               else (case split_whitespace (of_bytes status_line) of
                       _ # code # _ \<Rightarrow>
                         map_option (\<lambda>status. \<lparr>or_status = status, or_headers = List.map_filter origin_header lines, or_body = body\<rparr>)
                           (parse_u16 code)
                     | _ \<Rightarrow> None)))"

definition origin_request :: "string \<Rightarrow> string \<Rightarrow> string \<Rightarrow> string" where
  "origin_request origin rq_method path =
     (let host = (case rsplit_once (CHR '':'') origin of Some (h, _) \<Rightarrow> h | None \<Rightarrow> origin);
          path = (if path = [] then ''/'' else path);
          nl = [CHR 0x0D, CHR 0x0A] in
      rq_method @ '' '' @ path @ '' HTTP/1.1'' @ nl @ ''Host: '' @ host @ nl @ ''Connection: close'' @ nl @ ''Accept: */*'' @ nl @ nl)"

text \<open>The origin's answer to a request until it closes; \<open>None\<close> is any failure, or the end of five seconds.\<close>

definition fetch_origin :: "(string \<Rightarrow> string \<Rightarrow> bytes option) \<Rightarrow> string \<Rightarrow> string \<Rightarrow> string \<Rightarrow> origin_response option" where
  "fetch_origin answer origin rq_method path =
     Option.bind (answer origin (origin_request origin rq_method path)) (\<lambda>raw. parse_http_response (take MAX_ORIGIN_BODY raw))"

subsection \<open>Requests\<close>

datatype http_method = GET | HEAD | CONNECT | OtherMethod string

fun method_str :: "http_method \<Rightarrow> string" where
  "method_str GET = ''GET''"
| "method_str HEAD = ''HEAD''"
| "method_str CONNECT = ''CONNECT''"
| "method_str (OtherMethod m) = m"

record h3_request =
  rq_method :: http_method
  rq_path :: string
  rq_authority :: "string option"
  rq_headers :: "(string \<times> bytes) list"
  rq_connect_udp :: bool

record h3_response =
  rs_status :: u16
  rs_headers :: "(string \<times> string) list"
  rs_body :: "bytes option"

definition visible_ascii :: "u8 \<Rightarrow> bool" where
  "visible_ascii b \<longleftrightarrow> 32 \<le> b \<and> b < 127 \<or> b = 9"

definition auth_short_id :: "text_codec \<Rightarrow> h3_request \<Rightarrow> short_id option" where
  "auth_short_id hex req =
     Option.bind (map_of (rq_headers req) ''leshiy-auth'') (\<lambda>v.
     if \<not> list_all visible_ascii v then None
     else Option.bind (tc_decode hex (of_bytes v)) (\<lambda>bytes. if length bytes = 8 then Some bytes else None))"

definition serve_masquerade_page :: "string \<Rightarrow> h3_request \<Rightarrow> h3_response" where
  "serve_masquerade_page html req =
     (let is_head = (rq_method req = HEAD);
          path_root = (rq_path req = ''/'' \<and> rq_method req \<noteq> CONNECT);
          (st, body, ctype) =
            (if (rq_method req = GET \<or> is_head) \<and> path_root then (200, html, ''text/html; charset=utf-8'')
             else (404, ''Not Found'', ''text/plain; charset=utf-8'')) in
      \<lparr>rs_status = st, rs_headers = [(''content-type'', ctype)], rs_body = if is_head then None else Some (as_bytes body)\<rparr>)"

text \<open>Header values and status codes the library accepts.\<close>

definition header_value_ok :: "string \<Rightarrow> bool" where
  "header_value_ok v \<longleftrightarrow> list_all visible_ascii (as_bytes v)"

definition status_or_502 :: "u16 \<Rightarrow> u16" where
  "status_or_502 st = (if 100 \<le> st \<and> st \<le> 999 then st else 502)"

definition plain_text :: "(string \<times> string) list" where
  "plain_text = [(''content-type'', ''text/plain; charset=utf-8'')]"

definition serve_masquerade_reverse ::
    "(string \<Rightarrow> string \<Rightarrow> bytes option) \<Rightarrow> string \<Rightarrow> h3_request \<Rightarrow> h3_response" where
  "serve_masquerade_reverse answer origin req =
     (let is_head = (rq_method req = HEAD);
          proxied = (rq_method req = GET \<or> is_head);
          (st, headers, body) =
            (if proxied then
               (case fetch_origin answer origin (method_str (rq_method req)) (rq_path req) of
                  Some r \<Rightarrow> (status_or_502 (or_status r), or_headers r, or_body r)
                | None \<Rightarrow> (502, plain_text, as_bytes ''Bad Gateway''))
             else (404, plain_text, as_bytes ''Not Found'')) in
      \<lparr>rs_status = st, rs_headers = filter (\<lambda>(n, v). header_value_ok v) headers,
       rs_body = if is_head then None else Some body\<rparr>)"

definition serve_masquerade :: "(string \<Rightarrow> string \<Rightarrow> bytes option) \<Rightarrow> masquerade \<Rightarrow> h3_request \<Rightarrow> h3_response" where
  "serve_masquerade answer masq req =
     (case masq of Page html \<Rightarrow> serve_masquerade_page html req | Reverse origin \<Rightarrow> serve_masquerade_reverse answer origin req)"

datatype 'l h3_outcome = TunnelTcp string short_id 'l | TunnelUdp string short_id 'l | Cover h3_response

definition handle_request ::
    "text_codec \<Rightarrow> ('s, 'l) store_ops \<Rightarrow> 's \<Rightarrow> u64 \<Rightarrow> (string \<Rightarrow> string \<Rightarrow> bytes option) \<Rightarrow> masquerade \<Rightarrow> h3_request \<Rightarrow> 'l h3_outcome" where
  "handle_request hex ops st now answer masq req =
     (case (if rq_method req = CONNECT
            then Option.bind (auth_short_id hex req) (\<lambda>sid.
                 Option.bind (so_authorize ops st sid now) (\<lambda>limits.
                 map_option (\<lambda>target. (target, sid, limits)) (rq_authority req)))
            else None) of
        Some (target, sid, limits) \<Rightarrow> if rq_connect_udp req then TunnelUdp target sid limits else TunnelTcp target sid limits
      | None \<Rightarrow> Cover (serve_masquerade answer masq req))"

subsection \<open>TCP tunnels\<close>

text \<open>
  \<open>tunnel\<close> of \<open>server.rs\<close>: the relay's state is the one of the REALITY server's relay with two flags for the halves that are
  done; an event is the resolution of an await of the upload, the download or the timer.
\<close>

datatype 's tunnel_event =
    TUpData bytes | TUpEnd bool | TUpLost string | TUpWrite bool 's u64
  | TDownRead "bytes option" | TDownEnd "string option" | TDownSend "string option" 's u64
  | TRevoked 's u64

datatype 'r tunnel_state = TGoing 'r | TEnded "quic_error + unit" 'r

definition half_done :: "relay \<times> bool \<times> bool \<Rightarrow> (relay \<times> bool \<times> bool) tunnel_state" where
  "half_done x = (case x of (r, up, down) \<Rightarrow> if up \<and> down then TEnded (Ok ()) x else TGoing x)"

definition flushed :: "relay progress \<Rightarrow> bool \<times> bool \<Rightarrow> (relay \<times> bool \<times> bool) tunnel_state" where
  "flushed p fs = (case p of Going r \<Rightarrow> TGoing (r, fs) | Ended _ r \<Rightarrow> TEnded (Err (QConn ''session ended'')) (r, fs))"

fun tunnel_step :: "('s, 'l) store_ops \<Rightarrow> short_id \<Rightarrow> 's tunnel_event \<Rightarrow> relay \<times> bool \<times> bool \<Rightarrow> (relay \<times> bool \<times> bool) tunnel_state" where
  "tunnel_step ops i (TUpData b) (r, up, down) =
     (if up \<or> r_up r \<noteq> None \<or> b = [] then TGoing (r, up, down) else TGoing (r\<lparr>r_up := Some b\<rparr>, up, down))"
| "tunnel_step ops i (TUpEnd ok) (r, up, down) =
     (if up \<or> r_up r \<noteq> None then TGoing (r, up, down)
      else if ok then half_done (r, True, down) else TEnded (Err QIo) (r, up, down))"
| "tunnel_step ops i (TUpLost e) (r, up, down) =
     (if up \<or> r_up r \<noteq> None then TGoing (r, up, down) else TEnded (Err (QConn e)) (r, up, down))"
| "tunnel_step ops i (TUpWrite ok st now) (r, up, down) =
     (case r_up r of
        None \<Rightarrow> TGoing (r, up, down)
      | Some b \<Rightarrow>
          if ok then flushed (up_written (so_still_allowed ops st i now) b r) (up, down) else TEnded (Err QIo) (r, up, down))"
| "tunnel_step ops i (TDownRead m) (r, up, down) =
     (if down \<or> r_down r \<noteq> None then TGoing (r, up, down)
      else case m of
          None \<Rightarrow> TEnded (Err QIo) (r, up, down)
        | Some b \<Rightarrow> let b = take 16384 b in TGoing (if b = [] then r else r\<lparr>r_down := Some b\<rparr>, up, down))"
| "tunnel_step ops i (TDownEnd failure) (r, up, down) =
     (if down \<or> r_down r \<noteq> None then TGoing (r, up, down)
      else case failure of
          None \<Rightarrow> half_done (r, up, True)
        | Some e \<Rightarrow> TEnded (Err (QConn e)) (r, up, down))"
| "tunnel_step ops i (TDownSend failure st now) (r, up, down) =
     (case r_down r of
        None \<Rightarrow> TGoing (r, up, down)
      | Some b \<Rightarrow>
          (case failure of
             None \<Rightarrow> flushed (down_sent (so_still_allowed ops st i now) b r) (up, down)
           | Some e \<Rightarrow> TEnded (Err (QConn e)) (r, up, down)))"
| "tunnel_step ops i (TRevoked st now) (r, up, down) =
     (if so_still_allowed ops st i now then TGoing (r, up, down) else TEnded (Ok ()) (r, up, down))"

fun tunnel_run :: "('s, 'l) store_ops \<Rightarrow> short_id \<Rightarrow> 's tunnel_event list \<Rightarrow> relay \<times> bool \<times> bool \<Rightarrow> (relay \<times> bool \<times> bool) tunnel_state" where
  "tunnel_run ops i [] x = TGoing x"
| "tunnel_run ops i (e # es) x =
     (case tunnel_step ops i e x of
        TGoing x' \<Rightarrow> tunnel_run ops i es x'
      | TEnded res (r, fs) \<Rightarrow> TEnded res (r\<lparr>r_reports := r_reports r @ [(r_acc_up r, r_acc_down r)]\<rparr>, fs))"

text \<open>The answer to the CONNECT and the relay after it; a target that cannot be opened gets 502.\<close>

definition quic_tunnel ::
    "('s, 'l) store_ops \<Rightarrow> short_id \<Rightarrow> bool \<Rightarrow> string option \<Rightarrow> 's tunnel_event list \<Rightarrow> u16 \<times> (relay \<times> bool \<times> bool) tunnel_state" where
  "quic_tunnel ops i opened send_failure es =
     (if \<not> opened then (502, TEnded (Ok ()) (relay_init, False, False))
      else case send_failure of
          Some e \<Rightarrow> (200, TEnded (Err (QConn e)) (relay_init, False, False))
        | None \<Rightarrow> (200, tunnel_run ops i es (relay_init, False, False)))"

subsection \<open>Datagram associations\<close>

text \<open>
  The table from stream ids to the channels of associations: a channel is its number, \<open>dr_queues\<close> has what waits in each.
  Decoding a datagram is h3's: an argument.
\<close>

definition ASSOC_QUEUE :: nat where "ASSOC_QUEUE = 256"

record dgram_registry =
  dr_table :: "(u64 \<times> nat) list"
  dr_queues :: "bytes list list"
  dr_closed :: "nat set"

definition new_registry :: dgram_registry where
  "new_registry = \<lparr>dr_table = [], dr_queues = [], dr_closed = {}\<rparr>"

definition dg_register :: "u64 \<Rightarrow> dgram_registry \<Rightarrow> nat \<times> dgram_registry" where
  "dg_register sid g =
     (let rx = length (dr_queues g) in (rx, g\<lparr>dr_table := AList.update sid rx (dr_table g), dr_queues := dr_queues g @ [[]]\<rparr>))"

definition dg_deregister :: "u64 \<Rightarrow> dgram_registry \<Rightarrow> dgram_registry" where
  "dg_deregister sid g = g\<lparr>dr_table := AList.delete sid (dr_table g)\<rparr>"

text \<open>One turn of \<open>demux_loop\<close>: \<open>None\<close> is the end of the connection, after which the table is empty.\<close>

definition demux_step :: "(bytes \<Rightarrow> (u64 \<times> bytes) option) \<Rightarrow> bytes option \<Rightarrow> dgram_registry \<Rightarrow> dgram_registry" where
  "demux_step undgram raw g =
     (case raw of
        None \<Rightarrow> g\<lparr>dr_table := []\<rparr>
      | Some raw \<Rightarrow>
          (case undgram raw of
             None \<Rightarrow> g
           | Some (key, dg) \<Rightarrow>
               (case map_of (dr_table g) key of
                  None \<Rightarrow> g
                | Some tx \<Rightarrow>
                    if tx \<in> dr_closed g \<or> ASSOC_QUEUE \<le> length (dr_queues g ! tx) then g
                    else g\<lparr>dr_queues := (dr_queues g)[tx := dr_queues g ! tx @ [dg]]\<rparr>)))"

text \<open>\<open>QuicDatagramFlow::recv\<close>: what resolved first, a datagram of the queue or the end of the association.\<close>

record dgram_flow =
  df_stream :: u64
  df_rx :: nat
  df_ended :: bool

datatype flow_wake = Inbound | StreamData | FlowOver

definition flow_over :: "dgram_flow \<Rightarrow> dgram_registry \<Rightarrow> bytes option option \<times> dgram_flow \<times> dgram_registry" where
  "flow_over f g =
     (Some None, f\<lparr>df_ended := True\<rparr>,
      dg_deregister (df_stream f) (g\<lparr>dr_closed := insert (df_rx f) (dr_closed g)\<rparr>))"

fun flow_recv :: "flow_wake list \<Rightarrow> dgram_flow \<Rightarrow> dgram_registry \<Rightarrow> bytes option option \<times> dgram_flow \<times> dgram_registry" where
  "flow_recv ws f g =
     (if df_ended f then (Some None, f, g)
      else case ws of
          [] \<Rightarrow> (None, f, g)
        | w # ws \<Rightarrow>
            (case w of
               StreamData \<Rightarrow> flow_recv ws f g
             | Inbound \<Rightarrow>
                 (case dr_queues g ! df_rx f of
                    [] \<Rightarrow> if df_rx f \<in> snd ` set (dr_table g) then flow_recv ws f g else flow_over f g
                  | d # ds \<Rightarrow> (Some (Some d), f, g\<lparr>dr_queues := (dr_queues g)[df_rx f := ds]\<rparr>))
             | FlowOver \<Rightarrow> flow_over f g))"

subsection \<open>The next hop\<close>

text \<open>
  A connection to the exit is its number. Opening streams are threads, whose steps between awaits interleave: a thread
  takes the connection or makes one under the mutex, asks for the stream on it, and on a transport failure empties the
  slot and tries once more. \<open>cn_made\<close> counts the connections that were made.
\<close>

datatype open_pc =
    Fetch bool
  | Ask nat bool
  | Invalidate
  | Opened nat
  | OpenFailed string

record connector =
  cn_slot :: "nat option"
  cn_made :: nat
  cn_threads :: "open_pc list"

text \<open>The result of a stream request: a transport failure, a status that is not 200, or success.\<close>

datatype ask_result = AskOk | AskStatus u16 | AskLost

datatype connector_event = Step nat "bool" ask_result | NewOpen

definition connector_new :: connector where
  "connector_new = \<lparr>cn_slot = Some 0, cn_made = 1, cn_threads = []\<rparr>"

definition set_thread :: "nat \<Rightarrow> open_pc \<Rightarrow> connector \<Rightarrow> connector" where
  "set_thread i pc c = c\<lparr>cn_threads := (cn_threads c)[i := pc]\<rparr>"

definition get_or_connect :: "bool \<Rightarrow> connector \<Rightarrow> nat option \<times> connector" where
  "get_or_connect connects c =
     (case cn_slot c of
        Some k \<Rightarrow> (Some k, c)
      | None \<Rightarrow>
          if connects then (Some (cn_made c), c\<lparr>cn_slot := Some (cn_made c), cn_made := cn_made c + 1\<rparr>)
          else (None, c))"

definition invalidate :: "connector \<Rightarrow> connector" where
  "invalidate c = c\<lparr>cn_slot := None\<rparr>"

fun open_step :: "nat \<Rightarrow> bool \<Rightarrow> ask_result \<Rightarrow> connector \<Rightarrow> connector" where
  "open_step i connects a c =
     (if length (cn_threads c) \<le> i then c
      else case cn_threads c ! i of
          Fetch retry \<Rightarrow>
            (case get_or_connect connects c of
               (Some k, c') \<Rightarrow> set_thread i (Ask k retry) c'
             | (None, c') \<Rightarrow> set_thread i (OpenFailed (if retry then ''connector reconnect'' else ''connector connect'')) c')
        | Ask k retry \<Rightarrow>
            (case a of
               AskOk \<Rightarrow> set_thread i (Opened k) c
             | AskStatus _ \<Rightarrow> set_thread i (OpenFailed ''connector'') c
             | AskLost \<Rightarrow> if retry then set_thread i (OpenFailed ''connector'') c else set_thread i Invalidate c)
        | Invalidate \<Rightarrow> set_thread i (Fetch True) (invalidate c)
        | _ \<Rightarrow> c)"

fun connector_step :: "connector_event \<Rightarrow> connector \<Rightarrow> connector" where
  "connector_step (Step i connects a) c = open_step i connects a c"
| "connector_step NewOpen c = c\<lparr>cn_threads := cn_threads c @ [Fetch False]\<rparr>"

definition connector_run :: "connector_event list \<Rightarrow> connector" where
  "connector_run es = fold connector_step es connector_new"

subsection \<open>Choosing a carrier\<close>

fun connect_quic_multi :: "('a \<Rightarrow> quic_error + 'c) \<Rightarrow> quic_error option \<Rightarrow> 'a list \<Rightarrow> quic_error + 'c" where
  "connect_quic_multi connect prev [] = Err (case prev of Some e \<Rightarrow> e | None \<Rightarrow> QConn ''no address resolved'')"
| "connect_quic_multi connect prev (a # as) =
     (case connect a of Inr c \<Rightarrow> Ok c | Inl e \<Rightarrow> connect_quic_multi connect (Some e) as)"

datatype transport_pref = Auto | QuicOnly | TcpOnly

datatype ('q, 'r) dialled = QuicTunnel 'q | RealityTunnel 'r | ConnectFailed

text \<open>
  The network as a dial finds it: the addresses of a name, a connection to an address with a pinned certificate, the
  REALITY server; each attempt within its time limit or \<open>None\<close>.
\<close>

record ('a, 'q, 'r) dial_net =
  dn_lookup :: "string \<Rightarrow> 'a list option"
  dn_quic :: "'a \<Rightarrow> string \<Rightarrow> bytes \<Rightarrow> bytes \<Rightarrow> quic_error + 'q"
  dn_in_time :: bool
  dn_reality :: "string \<Rightarrow> client_auth_config \<Rightarrow> 'r option"

definition connect_quic_from :: "('a, 'q, 'r) dial_net \<Rightarrow> quic_endpoint \<Rightarrow> bytes \<Rightarrow> 'q option" where
  "connect_quic_from net q short_id =
     (case Config.q_cert_sha256 q of
        None \<Rightarrow> None
      | Some pin \<Rightarrow>
          (case dn_lookup net (Config.q_addr q) of
             None \<Rightarrow> None
           | Some addrs \<Rightarrow>
               if addrs = [] then None
               else result_ok (connect_quic_multi (\<lambda>a. dn_quic net a (Config.q_sni q) short_id pin) None addrs)))"

definition dial_reality :: "('a, 'q, 'r) dial_net \<Rightarrow> reality_uri \<Rightarrow> ('q, 'r) dialled" where
  "dial_reality net parsed =
     (case dn_reality net (server_addr parsed) (uri_client parsed) of Some c \<Rightarrow> RealityTunnel c | None \<Rightarrow> ConnectFailed)"

definition dial_quic :: "('a, 'q, 'r) dial_net \<Rightarrow> reality_uri \<Rightarrow> ('q, 'r) dialled" where
  "dial_quic net parsed =
     (case uri_quic parsed of
        None \<Rightarrow> ConnectFailed
      | Some q \<Rightarrow>
          (case connect_quic_from net q (ca_short_id (uri_client parsed)) of Some c \<Rightarrow> QuicTunnel c | None \<Rightarrow> ConnectFailed))"

definition dial_auto :: "('a, 'q, 'r) dial_net \<Rightarrow> reality_uri \<Rightarrow> ('q, 'r) dialled" where
  "dial_auto net parsed =
     (case uri_quic parsed of
        None \<Rightarrow> dial_reality net parsed
      | Some q \<Rightarrow>
          (case connect_quic_from net q (ca_short_id (uri_client parsed)) of
             Some c \<Rightarrow> if dn_in_time net then QuicTunnel c else dial_reality net parsed
           | None \<Rightarrow> dial_reality net parsed))"

definition dial :: "text_codec \<Rightarrow> text_codec \<Rightarrow> ('a, 'q, 'r) dial_net \<Rightarrow> string \<Rightarrow> transport_pref \<Rightarrow> ('q, 'r) dialled" where
  "dial b64 hex net uri pref =
     (case parse_reality_uri b64 hex uri of
        Inl _ \<Rightarrow> ConnectFailed
      | Inr parsed \<Rightarrow>
          (case pref of TcpOnly \<Rightarrow> dial_reality net parsed | QuicOnly \<Rightarrow> dial_quic net parsed | Auto \<Rightarrow> dial_auto net parsed))"

section \<open>Lemmas\<close>

lemma set_map_filter: "y \<in> set (List.map_filter f xs) \<longleftrightarrow> (\<exists>x\<in>set xs. f x = Some y)"
  by (induction xs) (auto simp: map_filter_simps split: option.split)

lemma origin_header_allowed: "origin_header l = Some (n, v) \<Longrightarrow> n \<in> set FORWARDED_HEADERS"
  by (auto simp: origin_header_def Let_def split: if_splits option.splits prod.splits)

lemma origin_headers_allowed:
  assumes "parse_http_response raw = Some r"
  shows "fst ` set (or_headers r) \<subseteq> set FORWARDED_HEADERS"
proof -
  obtain lines where "or_headers r = List.map_filter origin_header lines"
    using assms by (auto simp: parse_http_response_def split: option.splits list.splits if_splits)
  then show ?thesis
    by (auto simp: set_map_filter dest: origin_header_allowed)
qed

lemma fetched_headers_allowed:
  "fetch_origin answer org m p = Some r \<Longrightarrow> fst ` set (or_headers r) \<subseteq> set FORWARDED_HEADERS"
  by (auto simp: fetch_origin_def bind_eq_Some_conv dest!: origin_headers_allowed)

lemma cover_headers: "fst ` set (rs_headers (serve_masquerade answer masq req)) \<subseteq> set FORWARDED_HEADERS"
proof (cases masq)
  case (Page html)
  then show ?thesis
    by (simp add: serve_masquerade_def serve_masquerade_page_def Let_def FORWARDED_HEADERS_def)
next
  case (Reverse org)
  show ?thesis
  proof (cases "fetch_origin answer org (method_str (rq_method req)) (rq_path req)")
    case None
    then show ?thesis
      by (auto simp: Reverse serve_masquerade_def serve_masquerade_reverse_def Let_def plain_text_def FORWARDED_HEADERS_def)
  next
    case (Some r)
    then show ?thesis
      using fetched_headers_allowed [OF Some]
      by (auto simp: Reverse serve_masquerade_def serve_masquerade_reverse_def Let_def plain_text_def FORWARDED_HEADERS_def)
  qed
qed

lemma cover_depends:
  assumes m: "rq_method req = rq_method req'" and p: "rq_path req = rq_path req'"
  shows "serve_masquerade answer masq req = serve_masquerade answer masq req'"
  unfolding serve_masquerade_def serve_masquerade_page_def serve_masquerade_reverse_def m p ..

text \<open>A request that is let through, with its target, its user and the user's limits.\<close>

definition admitted :: "text_codec \<Rightarrow> ('s, 'l) store_ops \<Rightarrow> 's \<Rightarrow> u64 \<Rightarrow> h3_request \<Rightarrow> (string \<times> short_id \<times> 'l) option" where
  "admitted hex ops st now req =
     (if rq_method req = CONNECT
      then Option.bind (auth_short_id hex req) (\<lambda>sid.
           Option.bind (so_authorize ops st sid now) (\<lambda>limits.
           map_option (\<lambda>target. (target, sid, limits)) (rq_authority req)))
      else None)"

lemma handle_request_cases:
  "handle_request hex ops st now answer masq req =
     (case admitted hex ops st now req of
        Some (target, sid, limits) \<Rightarrow> if rq_connect_udp req then TunnelUdp target sid limits else TunnelTcp target sid limits
      | None \<Rightarrow> Cover (serve_masquerade answer masq req))"
  by (simp add: handle_request_def admitted_def)

lemma admittedD:
  "admitted hex ops st now req = Some (target, sid, limits) \<Longrightarrow> rq_method req = CONNECT \<and> auth_short_id hex req = Some sid \<and>
     so_authorize ops st sid now = Some limits \<and> rq_authority req = Some target"
  by (auto simp: admitted_def bind_eq_Some_conv split: if_splits)

lemma connect_quic_multi_one: "connect_quic_multi f e as = Ok c \<Longrightarrow> \<exists>a\<in>set as. f a = Ok c"
  by (induction f e as rule: connect_quic_multi.induct) (auto split: sum.splits)

lemma connect_quic_pinned:
  assumes "connect_quic_from net q i = Some c"
  shows "\<exists>pin a. Config.q_cert_sha256 q = Some pin \<and> dn_quic net a (Config.q_sni q) i pin = Ok c"
proof -
  obtain pin addrs where p: "Config.q_cert_sha256 q = Some pin"
    "result_ok (connect_quic_multi (\<lambda>a. dn_quic net a (Config.q_sni q) i pin) None addrs) = Some c"
    using assms by (auto simp: connect_quic_from_def split: option.splits if_splits)
  then have "connect_quic_multi (\<lambda>a. dn_quic net a (Config.q_sni q) i pin) None addrs = Ok c"
    by (auto simp: result_ok_def split: sum.splits)
  from connect_quic_multi_one [OF this] p(1) show ?thesis by auto
qed

text \<open>
  Opens that find the connection dead together: each has taken connection 0 and lost its request, and then one after
  the other they empty the slot, reconnect and ask again.
\<close>

definition stampede :: "nat \<Rightarrow> connector_event list" where
  "stampede n =
     replicate n NewOpen @
     map (\<lambda>i. Step i True AskOk) [0..<n] @ map (\<lambda>i. Step i True AskLost) [0..<n] @
     concat (map (\<lambda>i. [Step i True AskOk, Step i True AskOk, Step i True AskOk]) [0..<n])"

definition threads_at :: "nat \<Rightarrow> nat \<Rightarrow> (nat \<Rightarrow> open_pc) \<Rightarrow> open_pc \<Rightarrow> open_pc list" where
  "threads_at n k f pc = map (\<lambda>i. if i < k then f i else pc) [0..<n]"

lemma threads_at_simps:
  "length (threads_at n k f pc) = n" "k < n \<Longrightarrow> threads_at n k f pc ! k = pc"
  by (simp_all add: threads_at_def)

lemma threads_at_next: "k < n \<Longrightarrow> (threads_at n k f pc)[k := f k] = threads_at n (Suc k) f pc"
  by (rule nth_equalityI) (auto simp: threads_at_def nth_list_update less_Suc_eq)

lemma threads_at_full: "threads_at n n f pc = map f [0..<n]" "threads_at n 0 f pc = replicate n pc"
  by (auto simp: threads_at_def intro!: nth_equalityI)

lemma stampede_opens: "fold connector_step (replicate n NewOpen) c = c\<lparr>cn_threads := cn_threads c @ replicate n (Fetch False)\<rparr>"
  by (induction n arbitrary: c) (auto simp: replicate_append_same)

lemma stampede_fetch:
  "k \<le> n \<Longrightarrow> fold connector_step (map (\<lambda>i. Step i True AskOk) [0..<k]) \<lparr>cn_slot = Some 0, cn_made = 1, cn_threads = replicate n (Fetch False)\<rparr> =
   \<lparr>cn_slot = Some 0, cn_made = 1, cn_threads = threads_at n k (\<lambda>_. Ask 0 False) (Fetch False)\<rparr>"
  by (induction k) (auto simp: threads_at_full(2) threads_at_simps get_or_connect_def set_thread_def threads_at_next [of _ _ "\<lambda>_. Ask 0 False"])

lemma stampede_lose:
  "k \<le> n \<Longrightarrow> fold connector_step (map (\<lambda>i. Step i True AskLost) [0..<k]) \<lparr>cn_slot = Some 0, cn_made = 1, cn_threads = replicate n (Ask 0 False)\<rparr> =
   \<lparr>cn_slot = Some 0, cn_made = 1, cn_threads = threads_at n k (\<lambda>_. Invalidate) (Ask 0 False)\<rparr>"
  by (induction k) (auto simp: threads_at_full(2) threads_at_simps set_thread_def threads_at_next [of _ _ "\<lambda>_. Invalidate"])

lemma stampede_retry:
  "k \<le> n \<Longrightarrow> fold connector_step (concat (map (\<lambda>i. [Step i True AskOk, Step i True AskOk, Step i True AskOk]) [0..<k]))
     \<lparr>cn_slot = Some 0, cn_made = 1, cn_threads = replicate n Invalidate\<rparr> =
   \<lparr>cn_slot = Some k, cn_made = k + 1, cn_threads = threads_at n k (\<lambda>i. Opened (Suc i)) Invalidate\<rparr>"
  by (induction k) (auto simp: threads_at_full(2) threads_at_simps set_thread_def get_or_connect_def invalidate_def
      threads_at_next [of _ _ "\<lambda>i. Opened (Suc i)"])

fun tunnel_at :: "'r tunnel_state \<Rightarrow> 'r" where
  "tunnel_at (TGoing x) = x"
| "tunnel_at (TEnded res x) = x"

lemma flushed_at: "fst (tunnel_at (flushed p fs)) = progress_state p"
  by (cases p) (simp_all add: flushed_def)

lemma half_done_at: "tunnel_at (half_done x) = x"
  by (simp add: half_done_def split: prod.split)

lemma pending_inv: "relay_inv r \<Longrightarrow> relay_inv (r\<lparr>r_up := m\<rparr>) \<and> relay_inv (r\<lparr>r_down := m\<rparr>)"
  by (simp add: relay_inv_def counted_up_def counted_down_def)

lemma tunnel_step_inv: "relay_inv (fst x) \<Longrightarrow> relay_inv (fst (tunnel_at (tunnel_step ops i e x)))"
proof -
  assume inv: "relay_inv (fst x)"
  obtain r up down where x: "x = (r, up, down)" by (cases x)
  have r: "relay_inv r" using inv by (simp add: x)
  show ?thesis
    unfolding x by (cases e) (use r written_inv [OF r] pending_inv [OF r] in
      \<open>auto simp: flushed_at half_done_at Let_def split: option.split\<close>)
qed

lemma tunnel_run_counts:
  assumes "relay_inv (fst x)" and "tunnel_run ops i es x = TEnded res (r, fs)"
  shows "sum_list (map fst (r_reports r)) = of_nat (length (r_target r)) \<and> sum_list (map snd (r_reports r)) = of_nat (length (r_client r))"
  using assms
proof (induction es arbitrary: x)
  case (Cons e es)
  show ?case
  proof (cases "tunnel_step ops i e x")
    case (TGoing x')
    then show ?thesis using Cons tunnel_step_inv [OF Cons.prems(1), of ops i e] by simp
  next
    case (TEnded res1 x')
    then show ?thesis
      using Cons.prems tunnel_step_inv [OF Cons.prems(1), of ops i e]
      by (cases x') (auto simp: relay_inv_def counted_up_def counted_down_def)
  qed
qed simp

section \<open>Properties\<close>

text \<open>
  C37. Somebody without a credential learns nothing from the QUIC port. A request is tunnelled only if it is a CONNECT whose
  header decodes to the id of a user the store admits at that time, to the target it names; every other request gets
  the cover site's answer, which depends on nothing but its method and path: a bad credential, a revoked user and
  no credential at all are answered alike, whatever the store holds. The answer carries only headers of the
  allowlist, an unauthorized CONNECT gets 404 and a HEAD has no body.
\<close>

theorem quic_probes_see_cover:
  fixes ops :: "('s, 'l) store_ops"
  assumes "rq_method req = rq_method req'" and "rq_path req = rq_path req'"
  shows "case handle_request hex ops st now answer masq req of
      TunnelTcp target sid limits \<Rightarrow> rq_method req = CONNECT \<and> auth_short_id hex req = Some sid \<and>
        so_authorize ops st sid now = Some limits \<and> rq_authority req = Some target
    | TunnelUdp target sid limits \<Rightarrow> rq_method req = CONNECT \<and> auth_short_id hex req = Some sid \<and>
        so_authorize ops st sid now = Some limits \<and> rq_authority req = Some target
    | Cover r \<Rightarrow> (\<forall>r' (ops' :: ('s, 'l) store_ops) st' now'. handle_request hex ops' st' now' answer masq req' = Cover r' \<longrightarrow> r' = r) \<and>
        fst ` set (rs_headers r) \<subseteq> set FORWARDED_HEADERS \<and>
        (rq_method req = CONNECT \<longrightarrow> rs_status r = 404) \<and> (rq_method req = HEAD \<longrightarrow> rs_body r = None)"
proof -
  have same: "serve_masquerade answer masq req' = serve_masquerade answer masq req"
    by (rule cover_depends) (use assms in simp_all)
  have cover: "rq_method req = CONNECT \<Longrightarrow> rs_status (serve_masquerade answer masq req) = 404"
    "rq_method req = HEAD \<Longrightarrow> rs_body (serve_masquerade answer masq req) = None"
    by (auto simp: serve_masquerade_def serve_masquerade_page_def serve_masquerade_reverse_def Let_def split: masquerade.split option.split)
  have only: "r' = serve_masquerade answer masq req" if "handle_request hex ops' st' now' answer masq req' = Cover r'" for r' and ops' :: "('s, 'l) store_ops" and st' now'
    using that same by (auto simp: handle_request_cases split: option.splits if_splits)
  show ?thesis
  proof (cases "admitted hex ops st now req")
    case None
    then show ?thesis using only cover cover_headers [of answer masq req] by (auto simp: handle_request_cases [of hex ops])
  next
    case (Some x)
    obtain target sid limits where x: "x = (target, sid, limits)" by (cases x)
    then show ?thesis using admittedD [of hex ops st now req target sid limits] Some by (simp add: handle_request_cases)
  qed
qed

definition probe :: "(string \<times> bytes) list \<Rightarrow> h3_request" where
  "probe hs = \<lparr>rq_method = CONNECT, rq_path = [], rq_authority = Some ''a:1'', rq_headers = hs, rq_connect_udp = False\<rparr>"

definition refuses :: "(unit, unit) store_ops" where
  "refuses = \<lparr>so_authorize = (\<lambda>_ _ _. None), so_add_usage = (\<lambda>_ _ _ s. s), so_still_allowed = (\<lambda>_ _ _. False)\<rparr>"

theorem quic_probes_see_cover_witness:
  "\<exists>r. handle_request letters refuses () 0 (\<lambda>_ _. None) default_masquerade (probe []) = Cover r \<and>
     handle_request letters refuses () 9 (\<lambda>_ _. None) default_masquerade (probe [(''leshiy-auth'', as_bytes (tc_encode letters (replicate 8 7)))]) = Cover r \<and>
     rs_status r = 404"
proof -
  let ?h = "\<lambda>now hs. handle_request letters refuses () now (\<lambda>_ _. None) default_masquerade (probe hs)"
  let ?hs = "[(''leshiy-auth'', as_bytes (tc_encode letters (replicate 8 7)))]"
  have refused: "\<exists>r. ?h now hs = Cover r" for now hs
    by (simp add: handle_request_cases admitted_def refuses_def probe_def bind_eq_None_conv split: option.split)
  then obtain r r' where r: "?h 0 [] = Cover r" "?h 9 ?hs = Cover r'" by blast
  have "rq_method (probe []) = rq_method (probe ?hs)" "rq_path (probe []) = rq_path (probe ?hs)" by (simp_all add: probe_def)
  from quic_probes_see_cover [OF this, of letters refuses "()" 0 "\<lambda>_ _. None" default_masquerade] r
  show ?thesis by (auto simp: probe_def)
qed

text \<open>
  C38. A client that dials never uses QUIC without the pinned certificate of its URI, and with the automatic choice it fails
  only when the REALITY server could not be reached either.
\<close>

theorem dial_pinned_or_reality:
  "case dial b64 hex net uri pref of
     QuicTunnel c \<Rightarrow> pref \<noteq> TcpOnly \<and> (\<exists>parsed q pin a. parse_reality_uri b64 hex uri = Ok parsed \<and> uri_quic parsed = Some q \<and>
       Config.q_cert_sha256 q = Some pin \<and> dn_quic net a (Config.q_sni q) (ca_short_id (uri_client parsed)) pin = Ok c)
   | RealityTunnel c \<Rightarrow> pref \<noteq> QuicOnly \<and> (\<exists>parsed. parse_reality_uri b64 hex uri = Ok parsed \<and>
       dn_reality net (server_addr parsed) (uri_client parsed) = Some c)
   | ConnectFailed \<Rightarrow> pref = QuicOnly \<or> (case parse_reality_uri b64 hex uri of
       Inl _ \<Rightarrow> True | Inr parsed \<Rightarrow> dn_reality net (server_addr parsed) (uri_client parsed) = None)"
proof -
  show ?thesis
    by (auto simp: dial_def dial_quic_def dial_auto_def dial_reality_def
        split: sum.split option.splits transport_pref.splits dialled.splits if_splits dest!: connect_quic_pinned)
qed


text \<open>
  On every exit, whatever the order of events, a tunnel has reported to the user store exactly the bytes that reached the
  target and the bytes that reached the client.
\<close>

theorem quic_usage_exact:
  assumes "quic_tunnel ops i opened failure es = (code, TEnded res (r, fs))"
  shows "sum_list (map fst (r_reports r)) = of_nat (length (r_target r)) \<and>
    sum_list (map snd (r_reports r)) = of_nat (length (r_client r))"
proof (cases "opened \<and> failure = None")
  case True
  then show ?thesis
    using assms tunnel_run_counts [of "(relay_init, False, False)" ops i es res r fs] relay_init_inv
    by (simp add: quic_tunnel_def)
next
  case False
  then have "r = relay_init" using assms by (auto simp: quic_tunnel_def split: if_splits option.splits)
  then show ?thesis by (simp add: relay_init_def)
qed

theorem quic_usage_exact_witness:
  "\<exists>code res r fs. quic_tunnel refuses [] True None [TUpData [1, 2], TUpWrite True () 0, TRevoked () 0] = (code, TEnded res (r, fs)) \<and>
     r_target r = [1, 2] \<and> sum_list (map fst (r_reports r)) = 2"
proof -
  let ?t = "quic_tunnel refuses [] True None [TUpData [1, 2], TUpWrite True () 0, TRevoked () 0]"
  have "\<exists>code res r fs. ?t = (code, TEnded res (r, fs)) \<and> r_target r = [1, 2]"
    by (simp add: quic_tunnel_def relay_init_def flushed_def up_written_def Let_def FLUSH_def refuses_def) blast
  then obtain code res r fs where t: "?t = (code, TEnded res (r, fs))" "r_target r = [1, 2]" by blast
  from quic_usage_exact [OF t(1)] t show ?thesis by auto
qed

end
