(* ===== verification/Spec2Isabelle.thy ===== *)
theory Spec2Isabelle
  imports Frame Version Icmp MuxFlow Tunnel ClientHelloBuild Admission NetGuard RealityServer RealityHandshake Assoc Supervisor Routes Dns Vault Reconnect TunFlows Helper Socks Upgrade Quic
begin

text \<open>
  Leshiy is a censorship-resistant tunnel. A client speaks what looks like ordinary TLS 1.3 to a server that
  borrows the identity of a public site; only a client that holds the server's public key and a short id is
  taken over, everybody else is relayed to the site. Inside, frames carry multiplexed streams with
  credit-based flow control. This development models the parts of the workspace under \<open>src/crates\<close> that carry
  this logic, one theory per part, and proves what makes them correct.

  \<^bold>\<open>Foundations\<close> (\<open>Prelude\<close>). Bytes are \<open>8 word\<close>, the fixed-width integers of the code are words of their
  width, a Rust \<open>Result\<close> is a sum with the error on the left (\<open>Ok\<close>, \<open>Err\<close>, \<open>try_bind\<close> for the \<open>?\<close> operator), an
  \<open>Option\<close> is an option. Slices, checked and saturating arithmetic, big-endian encodings and the locales
  \<open>wire_codec\<close> and \<open>frame_transport\<close> shared by the components live here and in \<open>Transport\<close>.

  \<^bold>\<open>The core crate\<close> (\<open>crates/leshiy-core\<close>). \<open>Frame\<close> and \<open>Version\<close> are \<open>frame.rs\<close> and \<open>version.rs\<close>: the frame and
  HELLO codecs with their round trips, and negotiation, which both ends compute as mirror images. \<open>Icmp\<close> is the
  echo codec with its checksums. \<open>Mux\<close> is \<open>mux.rs\<close>: the session's shared state (registry, command queue,
  incoming queue, flags) as one record, and every handler of the reader task, the writer task, the timers and
  the stream API as a function on it. \<open>MuxRun\<close> interleaves them as a step relation, \<open>MuxProps\<close> proves bounds,
  isolation, ordering and the behaviour at the end of a session by rule induction over it, and \<open>MuxFlow\<close> proves
  that the credit of the two ends of a stream is conserved. \<open>Transport\<close> and \<open>Session\<close> are \<open>transport.rs\<close> and the
  Noise session; the Noise library is a parameter.

  \<^bold>\<open>The TLS crate\<close> (\<open>crates/leshiy-tls\<close>). \<open>TlsRecord\<close> has records, cipher suites and the AEAD framing;
  \<open>TlsMessages\<close> the handshake messages; \<open>ClientHello\<close> the parsers and JA3/JA4 fingerprints; \<open>ClientHelloBuild\<close> the
  builder with its profiles, GREASE and extension permutation; \<open>KeySchedule\<close> the key schedule. Ciphers, hashes,
  HMAC and HKDF are the fields of the record \<open>crypto\<close>, with what the code relies on as \<open>aead_correct\<close> and
  \<open>hkdf_sizes\<close>.

  \<^bold>\<open>The REALITY crate\<close> (\<open>crates/leshiy-reality\<close>). \<open>Auth\<close> is \<open>auth.rs\<close> with the client's authenticated
  ClientHello; \<open>RealityServer\<close> the classification and the decision of \<open>serve_connection\<close>; \<open>RealityHandshake\<close> the
  TLS handshake of both ends and its drivers; \<open>Tunnel\<close> the frame transport over the session's records; \<open>Replay\<close>,
  \<open>Users\<close>, \<open>NetGuard\<close>, \<open>Admission\<close> and \<open>Config\<close> are the replay guard, the user registry, the egress address policy,
  the connection limiter with the accept back-off, and configuration with the \<open>leshiy://\<close> URI; \<open>MtProxy\<close> is the
  Telegram proxy on the same listener. \<open>Relay\<close> and \<open>Assoc\<close> are the server's relay tasks: TCP streams with their
  usage accounting and revocation, UDP and ICMP associations with their idle time. X25519, ML-KEM, Ed25519 and HMAC-SHA512 are the fields of
  \<open>reality_crypto\<close>; their documented behaviour is \<open>primitives_ok\<close> and \<open>signatures_ok\<close>, satisfied by \<open>plain_rc\<close>.

  \<^bold>\<open>The client\<close> (\<open>crates/leshiy-client\<close>, \<open>crates/leshiy-mobile\<close>). \<open>Supervisor\<close> is the connection machine of
  \<open>supervisor.rs\<close> with the shell of \<open>runtime.rs\<close> that performs its actions, as a reachability relation over
  commands, reports and system failures. \<open>Reconnect\<close> is the reconnecting tunnel: the redial task and the calls
  held over a reconnect. \<open>Routes\<close> has the split-tunnel rule sets and the route planner of \<open>crates/leshiy-tun\<close>,
  refined to the kernel's longest-prefix match. \<open>Dns\<close> resolves host names over a tunnel stream. \<open>IpText\<close> is the
  text of addresses: the parser and formatter of \<open>std::net\<close> and the \<open>host:port\<close> helpers over them.

  \<^bold>\<open>The full tunnel\<close> (\<open>crates/leshiy-tun\<close>, \<open>crates/leshiy-helper\<close>). \<open>TunLinux\<close> is a session on Linux from its
  configuration to its teardown, with the resolver of domain rules: every action on the host is an entry of a
  list, and a ledger of the list says what was asked for and not put back. \<open>TunFlows\<close> has the flows of the device:
  the accept loop, the TCP and UDP relays, and echo requests, whose path is composed with the server's side in
  \<open>Assoc\<close>. \<open>Helper\<close> is the privileged process that runs a session for an unprivileged caller: its runner, as steps
  between awaits, and its control server.

  \<^bold>\<open>Provisioning\<close> (\<open>crates/leshiy-provision\<close>). \<open>Vault\<close> is the encrypted file of server records, with the protocol of
  processes that share it.

  \<^bold>\<open>State and steps.\<close> Code under a lock is one step. An \<open>await\<close> on a peer is an argument that says what the peer
  gave, its end standing for an error, an end of file or a timeout where the code treats them alike. Panics
  are \<open>None\<close> or \<open>Panic\<close>, and theorems of success show they do not happen. Random bytes and clocks are
  arguments.

  \<^bold>\<open>Loops.\<close> Loops over buffers are \<open>function\<close>s with a measure, so no fuel is used; loops over what a peer sends are
  recursive on that list.

  \<^bold>\<open>What spans components\<close> is below: a matching client gets from its configuration through classification and
  handshake to frames that arrive on the other end.

  \<^bold>\<open>Not modelled.\<close> Sockets, timers and task spawning (the step relations and the arguments above stand for them);
  logging; the SQLite store, whose SQL is not readable as code here; the command-line program, the graphical and
  mobile applications and provisioning over SSH, which are mostly input and output; the network backends of macOS,
  Windows and Android; the QUIC carrier, which drives a library.
\<close>

section \<open>Properties across components\<close>

lemma session_delivers_both:
  assumes "aead_correct cr" and "good_session s"
    and "write_all_frames (tls_send cr) (snd (into_transport s RoleClient)) up = (Ok ub, uw)"
    and "write_all_frames (tls_send cr) (snd (into_transport s RoleServer)) down = (Ok db, dw)"
  shows "(\<exists>r'. read_all_frames (tls_recv cr) (length up) (fst (into_transport s RoleServer)) ub = (Ok (up, []), r')) \<and>
    (\<exists>r'. read_all_frames (tls_recv cr) (length down) (fst (into_transport s RoleClient)) db = (Ok (down, []), r'))"
proof -
  have "tls_sync cr (snd (into_transport s RoleClient)) (fst (into_transport s RoleServer))"
    "tls_sync cr (snd (into_transport s RoleServer)) (fst (into_transport s RoleClient))"
    using assms(1,2) by (simp_all add: into_transport_def tls_sync_def good_half_def good_session_def Let_def)
  from tls.read_all_written [OF this(1) assms(3), of "[]"] tls.read_all_written [OF this(2) assms(4), of "[]"]
  show ?thesis
    by auto
qed

text \<open>
  C1. From the client's configuration to frames on the wire. A client whose configuration matches the server's
  key, with an allowed server name and a clock within the window, builds a ClientHello on which the server
  takes the connection over for the client's short id, when the store authorizes it, the ClientHello is new
  to the guard and the borrowed site answers with a suite and group the code supports. The handshake then
  gives both ends one session without a panic, and whatever frames either end writes on it, the other one
  reads.
\<close>

theorem reality_end_to_end:
  fixes ops :: "('s, 'l) store_ops"
  assumes "primitives_ok rc" and "signatures_ok rc" and "cert_ok rc cert" and "draws_ok dr" and "client_cfg_ok ccfg"
    and "length (static_secret cfg) = 32" and "server_public ccfg = rc_pub rc (static_secret cfg)"
    and "sni_allowed cfg (ca_sni ccfg)" and "unat (abs_diff32 now_s now_c) \<le> unat (max_time_diff cfg)"
    and "length sk = 32" and "parse_server_hello (rec_payload site) = Ok sp" and "usable_hello sp"
    and "so_authorize ops st (ca_short_id ccfg) (ucast now_s) = Some limits"
  defines "key \<equiv> derive_auth_key (rc_cr rc) (rc_dh rc (dr_ephem dr) (server_public ccfg)) (dr_random dr)"
  shows "\<exists>ch dk k s flight fin.
    build_authed_client_hello rc yandex ccfg now_c dr = Some (ch, dr_ephem dr, dk) \<and>
    (\<forall>g. \<not> fst (check_and_record k (ucast now_s) g) \<longrightarrow>
       fst (serve_connection rc cfg ops st
         \<lparr>ci_first = Some \<lparr>content_type = HANDSHAKE, rec_payload = ch\<rparr>, ci_dest_up = (\<lambda>d. True), ci_dest_writes = True,
          ci_dest_hello = Some site, ci_now = now_s\<rparr> g) =
       STakeover (ca_short_id ccfg) limits ch (rec_payload site) key) \<and>
    establish_server rc False True ch (rec_payload site) key cert seed sk fin = Ok (s, flight, []) \<and>
    establish_client rc False True ch (dr_ephem dr) key dk flight = Ok (s, fin, []) \<and>
    (\<forall>up ub uw down db dw.
       write_all_frames (tls_send (rc_cr rc)) (snd (into_transport s RoleClient)) up = (Ok ub, uw) \<and>
       write_all_frames (tls_send (rc_cr rc)) (snd (into_transport s RoleServer)) down = (Ok db, dw) \<longrightarrow>
       (\<exists>r'. read_all_frames (tls_recv (rc_cr rc)) (length up) (fst (into_transport s RoleServer)) ub = (Ok (up, []), r')) \<and>
       (\<exists>r'. read_all_frames (tls_recv (rc_cr rc)) (length down) (fst (into_transport s RoleClient)) db = (Ok (down, []), r')))"
proof -
  let ?dk = "fst (mlkem_generate rc (dr_kem_seed dr))"
  obtain ch k where b: "build_authed_client_hello rc yandex ccfg now_c dr = Some (ch, dr_ephem dr, ?dk)"
    and serve: "\<forall>(ops :: ('s, 'l) store_ops) st ci g limits r.
       ci_first ci = Some \<lparr>content_type = HANDSHAKE, rec_payload = ch\<rparr> \<and> ci_now ci = now_s \<and>
       ci_dest_up ci (dest_for cfg (Some (ca_sni ccfg))) \<and> ci_dest_writes ci \<and> ci_dest_hello ci = Some r \<and>
       so_authorize ops st (ca_short_id ccfg) (ucast now_s) = Some limits \<and>
       \<not> fst (check_and_record k (ucast now_s) g) \<longrightarrow>
       serve_connection rc cfg ops st ci g =
         (STakeover (ca_short_id ccfg) limits ch (rec_payload r) key, snd (check_and_record k (ucast now_s) g))"
    using authed_serve [OF assms(1,4,5,6,7,8,9)] unfolding key_def [symmetric] by (elim exE conjE) (rule that)
  obtain ch' sid where "build_authed_client_hello rc yandex ccfg now_c dr = Some (ch', dr_ephem dr, ?dk)"
    and e: "extract_client_hello_fields ch' =
      Ok \<lparr>ch_random = dr_random dr, ch_session_id = sid, key_share_x25519 = Some (rc_pub rc (dr_ephem dr)),
          key_share_mlkem = Some \<lparr>mk_ek = snd (mlkem_generate rc (dr_kem_seed dr)), mk_x25519 = rc_pub rc (dr_ephem dr)\<rparr>,
          ch_sni = Some (ca_sni ccfg)\<rparr>"
    by (rule authed_client_hello [OF assms(1,4,5)])
  then have [simp]: "ch' = ch"
    using b by simp
  have off: "offers rc \<lparr>ch_random = dr_random dr, ch_session_id = sid, key_share_x25519 = Some (rc_pub rc (dr_ephem dr)),
      key_share_mlkem = Some \<lparr>mk_ek = snd (mlkem_generate rc (dr_kem_seed dr)), mk_x25519 = rc_pub rc (dr_ephem dr)\<rparr>,
      ch_sni = Some (ca_sni ccfg)\<rparr> (dr_ephem dr) (dr_kem_seed dr)"
    by (simp add: offers_def)
  have "length (dr_ephem dr) = 32"
    using assms(4) by (simp add: draws_ok_def)
  from handshake_agrees [OF assms(1-3) e off this assms(10-12), of key seed, simplified \<open>ch' = ch\<close>] obtain s flight fin
    where hs: "\<And>b rest. establish_server rc b True ch (rec_payload site) key cert seed sk (fin @ rest) = Ok (s, flight, rest)"
      "\<And>b rest. establish_client rc b True ch (dr_ephem dr) key ?dk (flight @ rest) = Ok (s, fin, rest)"
    and good: "good_session s"
    by metis
  have aead: "aead_correct (rc_cr rc)"
    using assms(1) by (simp add: primitives_ok_def)
  show ?thesis
    apply (rule exI [of _ ch], rule exI [of _ ?dk], rule exI [of _ k], rule exI [of _ s], rule exI [of _ flight], rule exI [of _ fin])
    apply (intro conjI allI impI)
    subgoal by (rule b)
    subgoal for g using serve [rule_format, of _ site ops st limits g] assms(13) by simp
    subgoal using hs(1) [of False "[]"] by simp
    subgoal using hs(2) [of False "[]"] by simp
    subgoal using session_delivers_both [OF aead good] by blast
    subgoal using session_delivers_both [OF aead good] by blast
    done
qed


lemma sample_authorized:
  "so_authorize mem_store (from_short_ids [replicate 8 1]) (ca_short_id sample_client) (ucast (5 :: u32)) =
   Some \<lparr>lim_up = None, lim_down = None\<rparr>"
  by (simp add: mem_store_def authorize_def from_short_ids_def users_new_def unlimited_user_def upsert_def
      empty_users_def lookup_user_def set_entry_def def_of_def new_bucket_def user_ok_def sample_client_def Let_def)

theorem reality_end_to_end_witness:
  "\<exists>ch dk s flight fin.
     build_authed_client_hello plain_rc yandex sample_client 5 sample_draws = Some (ch, dr_ephem sample_draws, dk) \<and>
     establish_client plain_rc False True ch (dr_ephem sample_draws)
       (derive_auth_key (rc_cr plain_rc) (rc_dh plain_rc (dr_ephem sample_draws) (server_public sample_client))
          (dr_random sample_draws)) dk flight = Ok (s, fin, [])"
proof -
  have "length (replicate 32 (4 :: u8)) = 32"
    "parse_server_hello (rec_payload \<lparr>content_type = HANDSHAKE, rec_payload = build_server_hello sample_sh\<rparr>) = Ok sample_sh"
    using sample_hello_usable(1) by simp_all
  from reality_end_to_end [OF plain_rc_ok plain_rc_signatures sample_client_ok sample_cfg_ok this sample_hello_usable(2)
      sample_authorized, of "[]"]
  show ?thesis
    by (elim exE conjE) (intro exI conjI; assumption)
qed

end
